(* ===== verification/Prelude.thy ===== *)
theory Prelude
  imports Main "HOL-Library.Word" "HOL-Library.Monad_Syntax"
begin

text \<open>
  Shared vocabulary of the development: the machine integers of
  \<^verbatim>\<open>src/common/common_types.h\<close>, the abort convention of \<^verbatim>\<open>src/common/assert.h\<close>,
  the named collections the components feed, and the generic facts on words, lists and
  options that their proofs use.

  A computation that can hit an \<open>ASSERT\<close> (which calls \<^verbatim>\<open>std::abort\<close>) or dereference an
  end iterator has type \<open>'a option\<close>: \<open>None\<close> is the aborted run.  Result codes that the
  code returns are ordinary values and never \<open>None\<close>.
\<close>

unbundle bit_operations_syntax

type_synonym u8 = "8 word"
type_synonym u16 = "16 word"
type_synonym u32 = "32 word"
type_synonym u64 = "64 word"
type_synonym VAddr = u32

named_theorems code_unfold_model \<open>defining equations of the modelled operations\<close>
named_theorems inv_intros \<open>invariant preservation, one fact per operation\<close>
named_theorems abs_simps \<open>what each operation does to the abstract view\<close>

definition ASSERT :: "bool \<Rightarrow> unit option" where
  "ASSERT cond = (if cond then Some () else None)"

lemma ASSERT_bind [simp]: "Option.bind (ASSERT b) f = (if b then f () else None)"
  by (simp add: ASSERT_def)

lemma ASSERT_True [simp]: "ASSERT True = Some ()"
  by (simp add: ASSERT_def)

lemma bind_eq_Some_iff:
  "Option.bind m f = Some y \<longleftrightarrow> (\<exists>x. m = Some x \<and> f x = Some y)"
  by (cases m) auto

subsection \<open>Words\<close>

lemma unat_add_nowrap:
  fixes a b :: "'a::len word"
  assumes "unat a + unat b < 2 ^ LENGTH('a)"
  shows "unat (a + b) = unat a + unat b"
  using assms by (simp add: unat_word_ariths)

lemma word_le_add_nowrap:
  fixes a b :: "'a::len word"
  assumes "unat a + unat b < 2 ^ LENGTH('a)"
  shows "a \<le> a + b"
  using assms by (simp add: word_le_nat_alt unat_add_nowrap)

lemma word_less_add_nowrap:
  fixes a b :: "'a::len word"
  assumes "unat a + unat b < 2 ^ LENGTH('a)" and "0 < b"
  shows "a < a + b"
  using assms by (simp add: word_less_nat_alt unat_add_nowrap)

lemma unat_diff_le:
  fixes a b :: "'a::len word"
  assumes "b \<le> a"
  shows "unat (a - b) = unat a - unat b"
  using assms by (simp add: unat_sub)

lemma word_add_diff_cancel:
  fixes a b :: "'a::len word"
  shows "a + (b - a) = b"
  by simp

lemma unat_inj_iff [simp]: "unat a = unat b \<longleftrightarrow> a = b" for a b :: "'a::len word"
  by (simp add: word_unat_eq_iff)

lemma unat_u32_bound: "unat (w :: u32) < 0x100000000"
  by (rule order_less_le_trans [OF unsigned_less]) simp

lemma aligned_iff: "w AND 0xFFF = 0 \<longleftrightarrow> unat w mod 0x1000 = 0" for w :: u32
proof -
  have "w AND 0xFFF = take_bit 12 w" by (simp add: take_bit_eq_mask mask_eq_exp_minus_1)
  moreover have "unat (take_bit 12 w) = unat w mod 0x1000" by (simp add: take_bit_eq_mod unat_mod)
  ultimately show ?thesis by (metis unat_eq_0)
qed

lemma aligned_add:
  fixes a b :: u32
  assumes "unat a mod 0x1000 = 0" "unat b mod 0x1000 = 0"
  shows "unat (a + b) mod 0x1000 = 0"
proof -
  have "unat (a + b) mod 0x1000 = (unat a + unat b) mod 2 ^ 32 mod 0x1000" by (simp only: unat_word_ariths) simp
  also have "\<dots> = (unat a + unat b) mod 0x1000" by (rule mod_mod_cancel) simp
  also have "\<dots> = 0" using assms by (metis add_0 mod_add_eq mod_0)
  finally show ?thesis .
qed

subsection \<open>Lists\<close>

lemma takeWhile_dropWhile_split:
  "xs = takeWhile P xs @ dropWhile P xs"
  by simp

lemma find_append:
  "List.find P (xs @ ys) = (case List.find P xs of Some x \<Rightarrow> Some x | None \<Rightarrow> List.find P ys)"
  by (induction xs) auto

lemma butlast_last_dropWhile:
  "takeWhile P s \<noteq> [] \<Longrightarrow> butlast (takeWhile P s) @ last (takeWhile P s) # dropWhile P s = s"
  by (metis append.assoc append_Cons append_Nil append_butlast_last_id takeWhile_dropWhile_id)

lemma takeWhile_Nil_dropWhile: "takeWhile P s = [] \<Longrightarrow> dropWhile P s = s"
  by (metis append_Nil takeWhile_dropWhile_id)

lemma sorted_dropWhile_greater:
  "sorted s \<Longrightarrow> y \<in> set (dropWhile (\<lambda>i. \<not> n < i) s) \<Longrightarrow> n < (y :: 'a::linorder)"
  by (induction s) (auto split: if_splits)

end
