(* ===== verification/Result_Codes.thy ===== *)
theory Result_Codes
  imports Prelude
begin

text \<open>
  CTR-OS result codes: \<^verbatim>\<open>src/common/bit_field.h\<close> (the bit-field accessors on a 32-bit
  storage word), \<^verbatim>\<open>src/core/hle/result.h\<close> (the \<open>Result\<close> union and its enumerations) and
  \<^verbatim>\<open>src/core/hle/kernel/errors.h\<close> (the kernel's constants).  The lemmas show that a
  field reads back what was stored, that disjoint fields do not disturb each other, and
  that a composed result code decodes to the parts it was made of.
\<close>

subsection \<open>BitField on a u32 storage word\<close>

definition GetMask :: "nat \<Rightarrow> nat \<Rightarrow> u32" where
  "GetMask position bits = push_bit position (drop_bit (32 - bits) (NOT 0))"

definition bf_Value :: "nat \<Rightarrow> nat \<Rightarrow> u32 \<Rightarrow> u32" where
  "bf_Value position bits storage = drop_bit position (storage AND GetMask position bits)"

definition FormatValue :: "nat \<Rightarrow> nat \<Rightarrow> u32 \<Rightarrow> u32" where
  "FormatValue position bits val = push_bit position val AND GetMask position bits"

definition bf_Assign :: "nat \<Rightarrow> nat \<Rightarrow> u32 \<Rightarrow> u32 \<Rightarrow> u32" where
  "bf_Assign position bits storage val =
     (storage AND NOT (GetMask position bits)) OR FormatValue position bits val"

subsection \<open>The enumerations of result.h\<close>

datatype ErrorDescription =
    ED_Success
  | ED_InvalidSection
  | ED_TooLarge
  | ED_NotAuthorized
  | ED_AlreadyDone
  | ED_InvalidSize
  | ED_InvalidEnumValue
  | ED_InvalidCombination
  | ED_NoData
  | ED_Busy
  | ED_MisalignedAddress
  | ED_MisalignedSize
  | ED_OutOfMemory
  | ED_NotImplemented
  | ED_InvalidAddress
  | ED_InvalidPointer
  | ED_InvalidHandle
  | ED_NotInitialized
  | ED_AlreadyInitialized
  | ED_NotFound
  | ED_CancelRequested
  | ED_AlreadyExists
  | ED_OutOfRange
  | ED_Timeout
  | ED_InvalidResultValue

fun ErrorDescription_value :: "ErrorDescription \<Rightarrow> u32" where
  "ErrorDescription_value ED_Success = 0"
| "ErrorDescription_value ED_InvalidSection = 1000"
| "ErrorDescription_value ED_TooLarge = 1001"
| "ErrorDescription_value ED_NotAuthorized = 1002"
| "ErrorDescription_value ED_AlreadyDone = 1003"
| "ErrorDescription_value ED_InvalidSize = 1004"
| "ErrorDescription_value ED_InvalidEnumValue = 1005"
| "ErrorDescription_value ED_InvalidCombination = 1006"
| "ErrorDescription_value ED_NoData = 1007"
| "ErrorDescription_value ED_Busy = 1008"
| "ErrorDescription_value ED_MisalignedAddress = 1009"
| "ErrorDescription_value ED_MisalignedSize = 1010"
| "ErrorDescription_value ED_OutOfMemory = 1011"
| "ErrorDescription_value ED_NotImplemented = 1012"
| "ErrorDescription_value ED_InvalidAddress = 1013"
| "ErrorDescription_value ED_InvalidPointer = 1014"
| "ErrorDescription_value ED_InvalidHandle = 1015"
| "ErrorDescription_value ED_NotInitialized = 1016"
| "ErrorDescription_value ED_AlreadyInitialized = 1017"
| "ErrorDescription_value ED_NotFound = 1018"
| "ErrorDescription_value ED_CancelRequested = 1019"
| "ErrorDescription_value ED_AlreadyExists = 1020"
| "ErrorDescription_value ED_OutOfRange = 1021"
| "ErrorDescription_value ED_Timeout = 1022"
| "ErrorDescription_value ED_InvalidResultValue = 1023"

datatype ErrorSummary =
    ES_Success
  | ES_NothingHappened
  | ES_WouldBlock
  | ES_OutOfResource
  | ES_NotFound
  | ES_InvalidState
  | ES_NotSupported
  | ES_InvalidArgument
  | ES_WrongArgument
  | ES_Canceled
  | ES_StatusChanged
  | ES_Internal
  | ES_InvalidResult

fun ErrorSummary_value :: "ErrorSummary \<Rightarrow> u32" where
  "ErrorSummary_value ES_Success = 0"
| "ErrorSummary_value ES_NothingHappened = 1"
| "ErrorSummary_value ES_WouldBlock = 2"
| "ErrorSummary_value ES_OutOfResource = 3"
| "ErrorSummary_value ES_NotFound = 4"
| "ErrorSummary_value ES_InvalidState = 5"
| "ErrorSummary_value ES_NotSupported = 6"
| "ErrorSummary_value ES_InvalidArgument = 7"
| "ErrorSummary_value ES_WrongArgument = 8"
| "ErrorSummary_value ES_Canceled = 9"
| "ErrorSummary_value ES_StatusChanged = 10"
| "ErrorSummary_value ES_Internal = 11"
| "ErrorSummary_value ES_InvalidResult = 63"

datatype ErrorLevel =
    EL_Success
  | EL_Info
  | EL_Status
  | EL_Temporary
  | EL_Permanent
  | EL_Usage
  | EL_Reinitialize
  | EL_Reset
  | EL_Fatal

fun ErrorLevel_value :: "ErrorLevel \<Rightarrow> u32" where
  "ErrorLevel_value EL_Success = 0"
| "ErrorLevel_value EL_Info = 1"
| "ErrorLevel_value EL_Status = 25"
| "ErrorLevel_value EL_Temporary = 26"
| "ErrorLevel_value EL_Permanent = 27"
| "ErrorLevel_value EL_Usage = 28"
| "ErrorLevel_value EL_Reinitialize = 29"
| "ErrorLevel_value EL_Reset = 30"
| "ErrorLevel_value EL_Fatal = 31"

type_synonym ErrorModule = u32

definition EM_Common :: ErrorModule where "EM_Common = 0"
definition EM_Kernel :: ErrorModule where "EM_Kernel = 1"
definition EM_OS :: ErrorModule where "EM_OS = 6"
definition EM_FND :: ErrorModule where "EM_FND = 36"

lemmas ErrorModule_defs = EM_Common_def EM_Kernel_def EM_OS_def EM_FND_def

subsection \<open>The Result union\<close>

record Result =
  raw :: u32

definition Result_description :: "Result \<Rightarrow> u32" where
  "Result_description r = bf_Value 0 10 (raw r)"

definition Result_module :: "Result \<Rightarrow> ErrorModule" where
  "Result_module r = bf_Value 10 8 (raw r)"

definition Result_summary :: "Result \<Rightarrow> u32" where
  "Result_summary r = bf_Value 21 6 (raw r)"

definition Result_level :: "Result \<Rightarrow> u32" where
  "Result_level r = bf_Value 27 5 (raw r)"

definition Result_is_error :: "Result \<Rightarrow> u32" where
  "Result_is_error r = bf_Value 31 1 (raw r)"

definition mk_Result :: "u32 \<Rightarrow> ErrorModule \<Rightarrow> ErrorSummary \<Rightarrow> ErrorLevel \<Rightarrow> Result" where
  "mk_Result d m s l = \<lparr>raw =
     FormatValue 0 10 d OR FormatValue 10 8 m OR
     FormatValue 21 6 (ErrorSummary_value s) OR FormatValue 27 5 (ErrorLevel_value l)\<rparr>"

definition mk_ResultD ::
  "ErrorDescription \<Rightarrow> ErrorModule \<Rightarrow> ErrorSummary \<Rightarrow> ErrorLevel \<Rightarrow> Result" where
  "mk_ResultD d = mk_Result (ErrorDescription_value d)"

definition IsSuccess :: "Result \<Rightarrow> bool" where
  "IsSuccess r \<longleftrightarrow> Result_is_error r = 0"

definition IsError :: "Result \<Rightarrow> bool" where
  "IsError r \<longleftrightarrow> Result_is_error r = 1"

definition ResultSuccess :: Result where
  "ResultSuccess = \<lparr>raw = 0\<rparr>"

definition UnimplementedFunction :: "ErrorModule \<Rightarrow> Result" where
  "UnimplementedFunction m = mk_ResultD ED_NotImplemented m ES_NotSupported EL_Permanent"

definition ResultUnknown :: Result where
  "ResultUnknown = \<lparr>raw = 0xFFFFFFFF\<rparr>"

subsection \<open>The kernel's error constants\<close>

definition Err_OutOfSharedMems :: u32 where "Err_OutOfSharedMems = 11"
definition Err_OutOfThreads :: u32 where "Err_OutOfThreads = 12"
definition Err_OutOfMutexes :: u32 where "Err_OutOfMutexes = 13"
definition Err_OutOfSemaphores :: u32 where "Err_OutOfSemaphores = 14"
definition Err_OutOfEvents :: u32 where "Err_OutOfEvents = 15"
definition Err_OutOfTimers :: u32 where "Err_OutOfTimers = 16"
definition Err_OutOfHandles :: u32 where "Err_OutOfHandles = 19"
definition Err_SessionClosedByRemote :: u32 where "Err_SessionClosedByRemote = 26"
definition Err_PortNameTooLong :: u32 where "Err_PortNameTooLong = 30"
definition Err_WrongLockingThread :: u32 where "Err_WrongLockingThread = 31"
definition Err_NoPendingSessions :: u32 where "Err_NoPendingSessions = 35"
definition Err_WrongPermission :: u32 where "Err_WrongPermission = 46"
definition Err_InvalidBufferDescriptor :: u32 where "Err_InvalidBufferDescriptor = 48"
definition Err_OutOfAddressArbiters :: u32 where "Err_OutOfAddressArbiters = 51"
definition Err_MaxConnectionsReached :: u32 where "Err_MaxConnectionsReached = 52"
definition Err_CommandTooLarge :: u32 where "Err_CommandTooLarge = 54"

lemmas ErrCodes_defs =
  Err_OutOfSharedMems_def
  Err_OutOfThreads_def
  Err_OutOfMutexes_def
  Err_OutOfSemaphores_def
  Err_OutOfEvents_def
  Err_OutOfTimers_def
  Err_OutOfHandles_def
  Err_SessionClosedByRemote_def
  Err_PortNameTooLong_def
  Err_WrongLockingThread_def
  Err_NoPendingSessions_def
  Err_WrongPermission_def
  Err_InvalidBufferDescriptor_def
  Err_OutOfAddressArbiters_def
  Err_MaxConnectionsReached_def
  Err_CommandTooLarge_def

definition ResultOutOfHandles :: Result where
  "ResultOutOfHandles = mk_Result Err_OutOfHandles EM_Kernel ES_OutOfResource EL_Permanent"

definition ResultSessionClosed :: Result where
  "ResultSessionClosed = mk_Result Err_SessionClosedByRemote EM_OS ES_Canceled EL_Status"

definition ResultPortNameTooLong :: Result where
  "ResultPortNameTooLong = mk_Result Err_PortNameTooLong EM_OS ES_InvalidArgument EL_Usage"

definition ResultWrongPermission :: Result where
  "ResultWrongPermission = mk_Result Err_WrongPermission EM_OS ES_WrongArgument EL_Permanent"

definition ResultInvalidBufferDescriptor :: Result where
  "ResultInvalidBufferDescriptor = mk_Result Err_InvalidBufferDescriptor EM_OS ES_WrongArgument EL_Permanent"

definition ResultMaxConnectionsReached :: Result where
  "ResultMaxConnectionsReached = mk_Result Err_MaxConnectionsReached EM_OS ES_WouldBlock EL_Temporary"

definition ResultNotAuthorized :: Result where
  "ResultNotAuthorized = mk_ResultD ED_NotAuthorized EM_OS ES_WrongArgument EL_Permanent"

definition ResultInvalidEnumValue :: Result where
  "ResultInvalidEnumValue = mk_ResultD ED_InvalidEnumValue EM_Kernel ES_InvalidArgument EL_Permanent"

definition ResultInvalidEnumValueFnd :: Result where
  "ResultInvalidEnumValueFnd = mk_ResultD ED_InvalidEnumValue EM_FND ES_InvalidArgument EL_Permanent"

definition ResultInvalidCombination :: Result where
  "ResultInvalidCombination = mk_ResultD ED_InvalidCombination EM_OS ES_InvalidArgument EL_Usage"

definition ResultInvalidCombinationKernel :: Result where
  "ResultInvalidCombinationKernel = mk_ResultD ED_InvalidCombination EM_Kernel ES_WrongArgument EL_Permanent"

definition ResultMisalignedAddress :: Result where
  "ResultMisalignedAddress = mk_ResultD ED_MisalignedAddress EM_OS ES_InvalidArgument EL_Usage"

definition ResultMisalignedSize :: Result where
  "ResultMisalignedSize = mk_ResultD ED_MisalignedSize EM_OS ES_InvalidArgument EL_Usage"

definition ResultOutOfMemory :: Result where
  "ResultOutOfMemory = mk_ResultD ED_OutOfMemory EM_Kernel ES_OutOfResource EL_Permanent"

definition ResultOutOfHeapMemory :: Result where
  "ResultOutOfHeapMemory = mk_ResultD ED_OutOfMemory EM_OS ES_OutOfResource EL_Status"

definition ResultNotImplemented :: Result where
  "ResultNotImplemented = mk_ResultD ED_NotImplemented EM_OS ES_InvalidArgument EL_Usage"

definition ResultInvalidAddress :: Result where
  "ResultInvalidAddress = mk_ResultD ED_InvalidAddress EM_OS ES_InvalidArgument EL_Usage"

definition ResultInvalidAddressState :: Result where
  "ResultInvalidAddressState = mk_ResultD ED_InvalidAddress EM_OS ES_InvalidState EL_Usage"

definition ResultInvalidPointer :: Result where
  "ResultInvalidPointer = mk_ResultD ED_InvalidPointer EM_Kernel ES_InvalidArgument EL_Permanent"

definition ResultInvalidHandle :: Result where
  "ResultInvalidHandle = mk_ResultD ED_InvalidHandle EM_Kernel ES_InvalidArgument EL_Permanent"

definition ResultInvalidHandleOs :: Result where
  "ResultInvalidHandleOs = mk_ResultD ED_InvalidHandle EM_OS ES_WrongArgument EL_Permanent"

definition ResultNotFound :: Result where
  "ResultNotFound = mk_ResultD ED_NotFound EM_Kernel ES_NotFound EL_Permanent"

definition ResultOutOfRange :: Result where
  "ResultOutOfRange = mk_ResultD ED_OutOfRange EM_OS ES_InvalidArgument EL_Usage"

definition ResultOutOfRangeKernel :: Result where
  "ResultOutOfRangeKernel = mk_ResultD ED_OutOfRange EM_Kernel ES_InvalidArgument EL_Permanent"

definition ResultTimeout :: Result where
  "ResultTimeout = mk_ResultD ED_Timeout EM_OS ES_StatusChanged EL_Info"

definition ResultNoPendingSessions :: Result where
  "ResultNoPendingSessions = mk_Result Err_NoPendingSessions EM_OS ES_WouldBlock EL_Permanent"

lemmas kernel_result_defs =
  ResultOutOfHandles_def
  ResultSessionClosed_def
  ResultPortNameTooLong_def
  ResultWrongPermission_def
  ResultInvalidBufferDescriptor_def
  ResultMaxConnectionsReached_def
  ResultNotAuthorized_def
  ResultInvalidEnumValue_def
  ResultInvalidEnumValueFnd_def
  ResultInvalidCombination_def
  ResultInvalidCombinationKernel_def
  ResultMisalignedAddress_def
  ResultMisalignedSize_def
  ResultOutOfMemory_def
  ResultOutOfHeapMemory_def
  ResultNotImplemented_def
  ResultInvalidAddress_def
  ResultInvalidAddressState_def
  ResultInvalidPointer_def
  ResultInvalidHandle_def
  ResultInvalidHandleOs_def
  ResultNotFound_def
  ResultOutOfRange_def
  ResultOutOfRangeKernel_def
  ResultTimeout_def
  ResultNoPendingSessions_def

subsection \<open>Bit-field lemmas\<close>

lemma bit_GetMask [bit_simps]:
  "bit (GetMask p b) n \<longleftrightarrow> p \<le> n \<and> n < p + b \<and> n < 32"
  if "p + b \<le> 32"
  using that by (auto simp: GetMask_def bit_simps)

lemma bf_Value_FormatValue: "p + b \<le> 32 \<Longrightarrow> bf_Value p b (FormatValue p b v) = take_bit b v"
  by (rule bit_word_eqI) (auto simp: bf_Value_def FormatValue_def bit_simps bit_GetMask)

lemma bf_Value_disjoint:
  assumes "p + b \<le> 32" "q + c \<le> 32" "p + b \<le> q \<or> q + c \<le> p"
  shows "bf_Value p b (FormatValue q c v) = 0"
  using assms by (intro bit_word_eqI) (auto simp: bf_Value_def FormatValue_def bit_simps bit_GetMask)

lemma bf_Value_OR: "bf_Value p b (x OR y) = bf_Value p b x OR bf_Value p b y"
  by (rule bit_word_eqI) (auto simp: bf_Value_def bit_simps)

lemma bf_Value_Assign_same:
  assumes "p + b \<le> 32"
  shows "bf_Value p b (bf_Assign p b x v) = take_bit b v"
  using assms
  by (intro bit_word_eqI) (auto simp: bf_Value_def bf_Assign_def FormatValue_def bit_simps bit_GetMask)

lemma bf_Value_Assign_other:
  assumes "p + b \<le> 32" "q + c \<le> 32" "p + b \<le> q \<or> q + c \<le> p"
  shows "bf_Value p b (bf_Assign q c x v) = bf_Value p b x"
  using assms
  by (intro bit_word_eqI) (auto simp: bf_Value_def bf_Assign_def FormatValue_def bit_simps bit_GetMask)


lemma take_bit_small: "x < 2 ^ n \<Longrightarrow> take_bit n (x :: u32) = x"
  by (simp add: take_bit_eq_mod mod_word_less)

lemma take_bit_ErrorSummary: "take_bit 6 (ErrorSummary_value s) = ErrorSummary_value s"
  by (cases s) simp_all

lemma take_bit_ErrorLevel: "take_bit 5 (ErrorLevel_value l) = ErrorLevel_value l"
  by (cases l) simp_all

lemma mk_Result_decode:
  shows Result_description_mk: "Result_description (mk_Result d m s l) = take_bit 10 d"
    and Result_module_mk: "Result_module (mk_Result d m s l) = take_bit 8 m"
    and Result_summary_mk: "Result_summary (mk_Result d m s l) = ErrorSummary_value s"
    and Result_level_mk: "Result_level (mk_Result d m s l) = ErrorLevel_value l"
  by (simp_all add: Result_description_def Result_module_def Result_summary_def Result_level_def
      mk_Result_def bf_Value_OR bf_Value_FormatValue bf_Value_disjoint
      take_bit_ErrorSummary take_bit_ErrorLevel)

lemma is_error_bit: "Result_is_error r = (if bit (Result_level r) 4 then 1 else 0)"
  by (rule bit_word_eqI)
    (auto simp: Result_is_error_def Result_level_def bf_Value_def bit_simps bit_GetMask intro: gr0I)

lemma bit4_level: "bit (ErrorLevel_value l) 4 \<longleftrightarrow> l \<notin> {EL_Success, EL_Info}"
  by (cases l) simp_all

lemma IsError_mk_Result: "IsError (mk_Result d m s l) \<longleftrightarrow> l \<notin> {EL_Success, EL_Info}"
  by (simp add: IsError_def is_error_bit Result_level_mk bit4_level)

lemma IsSuccess_iff: "IsSuccess r \<longleftrightarrow> \<not> IsError r"
  by (simp add: IsSuccess_def IsError_def is_error_bit)

lemmas result_eval = mk_Result_def mk_ResultD_def FormatValue_def GetMask_def ErrorModule_defs
  ErrCodes_defs mask_eq_exp_minus_1

subsection \<open>Properties\<close>

text \<open>composing a \<open>Result\<close> from a description below 1024, a module below 256, a summary
  and a level, and reading the four bit fields of the raw word back, yields the same four
  parts: the fields do not overlap and none of them is truncated.\<close>

theorem result_roundtrip:
  assumes "d < 0x400" and "m < 0x100"
  shows "Result_description (mk_Result d m s l) = d \<and>
         Result_module (mk_Result d m s l) = m \<and>
         Result_summary (mk_Result d m s l) = ErrorSummary_value s \<and>
         Result_level (mk_Result d m s l) = ErrorLevel_value l"
  using assms by (simp add: mk_Result_decode take_bit_small)

theorem result_roundtrip_witness:
  "Result_description (mk_Result 1022 EM_OS ES_StatusChanged EL_Info) = 1022 \<and>
   Result_module (mk_Result 1022 EM_OS ES_StatusChanged EL_Info) = EM_OS"
  using result_roundtrip [of 1022 EM_OS ES_StatusChanged EL_Info] by (simp add: EM_OS_def)

text \<open>the kernel constants of \<^verbatim>\<open>errors.h\<close> have exactly the raw values their comments
  document, with one exception: \<open>ResultOutOfHeapMemory\<close> composes to \<open>0xC8601BF3\<close> while its
  comment says \<open>0xC860180A\<close>.\<close>

theorem kernel_result_values:
  "raw ResultOutOfHandles = 0xD8600413 \<and>
   raw ResultSessionClosed = 0xC920181A \<and>
   raw ResultPortNameTooLong = 0xE0E0181E \<and>
   raw ResultMaxConnectionsReached = 0xD0401834 \<and>
   raw ResultNotAuthorized = 0xD9001BEA \<and>
   raw ResultInvalidEnumValue = 0xD8E007ED \<and>
   raw ResultInvalidEnumValueFnd = 0xD8E093ED \<and>
   raw ResultInvalidCombination = 0xE0E01BEE \<and>
   raw ResultInvalidCombinationKernel = 0xD90007EE \<and>
   raw ResultMisalignedAddress = 0xE0E01BF1 \<and>
   raw ResultMisalignedSize = 0xE0E01BF2 \<and>
   raw ResultOutOfMemory = 0xD86007F3 \<and>
   raw ResultNotImplemented = 0xE0E01BF4 \<and>
   raw ResultInvalidAddress = 0xE0E01BF5 \<and>
   raw ResultInvalidAddressState = 0xE0A01BF5 \<and>
   raw ResultInvalidPointer = 0xD8E007F6 \<and>
   raw ResultInvalidHandle = 0xD8E007F7 \<and>
   raw ResultInvalidHandleOs = 0xD9001BF7 \<and>
   raw ResultNotFound = 0xD88007FA \<and>
   raw ResultOutOfRange = 0xE0E01BFD \<and>
   raw ResultOutOfRangeKernel = 0xD8E007FD \<and>
   raw ResultNoPendingSessions = 0xD8401823 \<and>
   raw ResultOutOfHeapMemory = 0xC8601BF3 \<and>
   raw ResultOutOfHeapMemory \<noteq> 0xC860180A"
  by (simp add: kernel_result_defs result_eval)

text \<open>of the kernel's constants, exactly \<open>ResultTimeout\<close> (whose level is Info) is not an
  error in the sense of \<open>IsError\<close>: code that tests \<open>R_FAILED\<close> lets a timeout pass as success.\<close>

theorem kernel_results_are_errors:
  "list_all IsError [ResultOutOfHandles, ResultSessionClosed, ResultPortNameTooLong, ResultWrongPermission, ResultInvalidBufferDescriptor, ResultMaxConnectionsReached, ResultNotAuthorized, ResultInvalidEnumValue, ResultInvalidEnumValueFnd, ResultInvalidCombination, ResultInvalidCombinationKernel, ResultMisalignedAddress, ResultMisalignedSize, ResultOutOfMemory, ResultOutOfHeapMemory, ResultNotImplemented, ResultInvalidAddress, ResultInvalidAddressState, ResultInvalidPointer, ResultInvalidHandle, ResultInvalidHandleOs, ResultNotFound, ResultOutOfRange, ResultOutOfRangeKernel, ResultNoPendingSessions] \<and>
   IsSuccess ResultTimeout \<and> ResultTimeout \<noteq> ResultSuccess"
  by (simp add: IsSuccess_iff IsError_mk_Result kernel_result_defs mk_ResultD_def ResultSuccess_def)
    (simp add: result_eval)

end
