(* ===== verification/Handle_Table.thy ===== *)
theory Handle_Table
  imports Result_Codes
begin

text \<open>
  The per-process handle table, \<^verbatim>\<open>src/core/hle/kernel/handle_table.cpp\<close> and \<^verbatim>\<open>.h\<close>:
  4096 slots, a generation counter that makes stale handles detectable, and a free list
  threaded through the \<open>generations\<close> array of the empty slots.  The object type is a
  parameter (\<open>'obj\<close> stands for \<^verbatim>\<open>std::shared_ptr<Object>\<close>; \<open>None\<close> is \<open>nullptr\<close>), and the
  pseudo-handles take the current thread and process as arguments.

  Shown: the free list is acyclic and holds exactly the empty slots; \<open>Create\<close> fails only
  on a full table and otherwise returns a fresh handle that looks up its object while all
  other handles keep theirs; a closed handle stays invalid until the generation counter
  meets it again; bit 31 of a handle is ignored.
\<close>

type_synonym Handle = u32

definition CurrentThread :: Handle where "CurrentThread = 0xFFFF8000"
definition CurrentProcess :: Handle where "CurrentProcess = 0xFFFF8001"

definition MAX_COUNT :: nat where "MAX_COUNT = 4096"

record 'obj HandleTable =
  objects :: "nat \<Rightarrow> 'obj option"
  generations :: "nat \<Rightarrow> u16"
  next_generation :: u16
  next_free_slot :: u16

definition GetSlot :: "Handle \<Rightarrow> u16" where
  "GetSlot handle = ucast (drop_bit 15 handle)"

definition GetGeneration :: "Handle \<Rightarrow> u16" where
  "GetGeneration handle = ucast (handle AND 0x7FFF)"

definition Clear :: "'obj HandleTable \<Rightarrow> 'obj HandleTable" where
  "Clear ht = ht\<lparr>generations := (\<lambda>i. if i < MAX_COUNT then of_nat i + 1 else generations ht i),
                 objects := (\<lambda>i. if i < MAX_COUNT then None else objects ht i),
                 next_free_slot := 0\<rparr>"

definition mk_HandleTable :: "'obj HandleTable \<Rightarrow> 'obj HandleTable" where
  "mk_HandleTable storage = Clear (storage\<lparr>next_generation := 1\<rparr>)"

definition Create ::
  "'obj HandleTable \<Rightarrow> 'obj option \<Rightarrow> ((Result + Handle) \<times> 'obj HandleTable) option" where
  "Create ht obj = do {
     _ \<leftarrow> ASSERT (obj \<noteq> None);
     (let slot = next_free_slot ht in
      if \<not> unat slot < MAX_COUNT then Some (Inl ResultOutOfHandles, ht)
      else
        let free' = generations ht (unat slot);
            generation = next_generation ht;
            bumped = next_generation ht + 1;
            next_gen' = (if bumped \<ge> 0x8000 then 1 else bumped);
            handle = ucast generation OR push_bit 15 (ucast slot)
        in Some (Inr handle,
                 ht\<lparr>next_free_slot := free',
                    next_generation := next_gen',
                    generations := (generations ht)(unat slot := generation),
                    objects := (objects ht)(unat slot := obj)\<rparr>))
   }"

definition IsValid :: "'obj HandleTable \<Rightarrow> Handle \<Rightarrow> bool" where
  "IsValid ht handle \<longleftrightarrow>
     (let slot = GetSlot handle; generation = GetGeneration handle in
      unat slot < MAX_COUNT \<and> objects ht (unat slot) \<noteq> None \<and>
      generations ht (unat slot) = generation)"

definition GetGeneric ::
  "'obj option \<Rightarrow> 'obj option \<Rightarrow> 'obj HandleTable \<Rightarrow> Handle \<Rightarrow> 'obj option" where
  "GetGeneric current_thread current_process ht handle =
     (if handle = CurrentThread then current_thread
      else if handle = CurrentProcess then current_process
      else if \<not> IsValid ht handle then None
      else objects ht (unat (GetSlot handle)))"

definition Duplicate ::
  "'obj option \<Rightarrow> 'obj option \<Rightarrow> 'obj HandleTable \<Rightarrow> Handle \<Rightarrow>
   ((Result + Handle) \<times> 'obj HandleTable) option" where
  "Duplicate current_thread current_process ht handle =
     (let object = GetGeneric current_thread current_process ht handle in
      if object = None then Some (Inl ResultInvalidHandle, ht) else Create ht object)"

definition Close :: "'obj HandleTable \<Rightarrow> Handle \<Rightarrow> Result \<times> 'obj HandleTable" where
  "Close ht handle =
     (if \<not> IsValid ht handle then (ResultInvalidHandle, ht)
      else
        let slot = GetSlot handle in
        (ResultSuccess,
         ht\<lparr>objects := (objects ht)(unat slot := None),
            generations := (generations ht)(unat slot := next_free_slot ht),
            next_free_slot := slot\<rparr>))"

subsection \<open>The free list\<close>

fun free_chain :: "(nat \<Rightarrow> u16) \<Rightarrow> u16 \<Rightarrow> nat list \<Rightarrow> bool" where
  "free_chain g s [] \<longleftrightarrow> unat s = MAX_COUNT"
| "free_chain g s (x # xs) \<longleftrightarrow> unat s = x \<and> x < MAX_COUNT \<and> free_chain g (g x) xs"

definition free_list_ok :: "'obj HandleTable \<Rightarrow> nat list \<Rightarrow> bool" where
  "free_list_ok ht xs \<longleftrightarrow> free_chain (generations ht) (next_free_slot ht) xs \<and> distinct xs \<and>
     set xs = {i. i < MAX_COUNT \<and> objects ht i = None}"

definition gen_ok :: "u16 \<Rightarrow> bool" where
  "gen_ok g \<longleftrightarrow> 1 \<le> g \<and> g < 0x8000"

definition ht_inv :: "'obj HandleTable \<Rightarrow> bool" where
  "ht_inv ht \<longleftrightarrow> (\<exists>xs. free_list_ok ht xs) \<and> gen_ok (next_generation ht) \<and>
     (\<forall>i < MAX_COUNT. objects ht i \<noteq> None \<longrightarrow> gen_ok (generations ht i))"

lemma free_chain_cong:
  "(\<And>i. i \<in> set xs \<Longrightarrow> g i = g' i) \<Longrightarrow> free_chain g s xs = free_chain g' s xs"
  by (induction xs arbitrary: s) auto

lemma free_chain_upt:
  assumes "n \<le> MAX_COUNT" and "\<And>i. i < MAX_COUNT \<Longrightarrow> g i = of_nat i + 1"
  shows "free_chain g (of_nat n) [n..<MAX_COUNT]"
  using assms(1)
proof (induction rule: inc_induct)
  case base
  then show ?case by (simp add: MAX_COUNT_def)
next
  case (step m)
  have "unat (of_nat m :: u16) = m"
    using step.hyps by (simp add: unat_of_nat MAX_COUNT_def)
  moreover have "g m = of_nat (Suc m)"
    using assms(2) [of m] step.hyps by (simp add: add.commute)
  ultimately show ?case
    using step by (simp add: upt_rec [of m])
qed

lemma mk_HandleTable_inv: "ht_inv (mk_HandleTable st)"
proof -
  have "free_list_ok (mk_HandleTable st) [0..<MAX_COUNT]"
    using free_chain_upt [of 0 "generations (mk_HandleTable st)"]
    by (auto simp: free_list_ok_def mk_HandleTable_def Clear_def)
  then show ?thesis
    by (auto simp: ht_inv_def gen_ok_def mk_HandleTable_def Clear_def)
qed

subsection \<open>The handle word\<close>

definition mk_handle :: "u16 \<Rightarrow> u16 \<Rightarrow> Handle" where
  "mk_handle slot generation = ucast generation OR push_bit 15 (ucast slot)"

lemma gen_bits: "gen_ok g \<Longrightarrow> bit g n \<Longrightarrow> n < 15"
proof -
  assume "gen_ok g" "bit g n"
  then have "take_bit 15 g = g"
    by (simp add: gen_ok_def take_bit_eq_mod mod_word_less)
  with \<open>bit g n\<close> show "n < 15" by (metis bit_take_bit_iff)
qed

lemma GetSlot_mk_handle: "gen_ok g \<Longrightarrow> GetSlot (mk_handle s g) = s"
  by (rule bit_word_eqI) (auto simp: GetSlot_def mk_handle_def bit_simps dest: gen_bits)

lemma mask15: "(0x7FFF :: u32) = mask 15"
  by (simp add: mask_eq_exp_minus_1)

lemma GetGeneration_mk_handle: "gen_ok g \<Longrightarrow> GetGeneration (mk_handle s g) = g"
  by (rule bit_word_eqI)
    (auto simp: GetGeneration_def mk_handle_def mask15 bit_simps dest: gen_bits)

lemma mk_handle_bound:
  assumes "gen_ok g" "unat s < MAX_COUNT"
  shows "mk_handle s g < 0x8000000" "mk_handle s g \<noteq> 0"
proof -
  have "s < 2 ^ 12" using assms(2) by (simp add: word_less_nat_alt MAX_COUNT_def)
  then have s: "take_bit 12 s = s"
    by (simp add: take_bit_eq_mod mod_word_less)
  have "bit s n \<Longrightarrow> n < 12" for n using s by (metis bit_take_bit_iff)
  then have "take_bit 27 (mk_handle s g) = mk_handle s g"
    using gen_bits [OF assms(1)]
    by (intro bit_word_eqI) (fastforce simp: mk_handle_def bit_simps)
  then have "mk_handle s g AND mask 27 = mk_handle s g"
    by (simp add: take_bit_eq_mask)
  then have "mk_handle s g < 2 ^ 27"
    using and_mask_less' [of 27 "mk_handle s g"] by simp
  then show "mk_handle s g < 0x8000000" by simp
  have "GetGeneration (mk_handle s g) \<noteq> 0"
    using assms(1) by (auto simp: GetGeneration_mk_handle gen_ok_def)
  then show "mk_handle s g \<noteq> 0" by (auto simp: GetGeneration_def)
qed


lemma GetSlot_cong: "(\<And>n. n < 31 \<Longrightarrow> bit h n = bit h' n) \<Longrightarrow> GetSlot h = GetSlot h'"
  by (rule bit_word_eqI) (auto simp: GetSlot_def bit_simps)

lemma GetGeneration_cong:
  "(\<And>n. n < 31 \<Longrightarrow> bit h n = bit h' n) \<Longrightarrow> GetGeneration h = GetGeneration h'"
  by (rule bit_word_eqI) (auto simp: GetGeneration_def mask15 bit_simps)

lemma top_bit: "bit (0x80000000 :: u32) n \<longleftrightarrow> n = 31"
  using bit_exp_iff [of 31 n, where 'a = "32 word"] by auto

lemma bit31_ignored:
  "GetSlot (h XOR 0x80000000) = GetSlot h" "GetGeneration (h XOR 0x80000000) = GetGeneration h"
  by (rule GetSlot_cong GetGeneration_cong, simp only: bit_xor_iff top_bit, simp)+

subsection \<open>Create and Close against the free list\<close>

lemma Create_full:
  "obj \<noteq> None \<Longrightarrow> \<not> unat (next_free_slot ht) < MAX_COUNT \<Longrightarrow>
   Create ht obj = Some (Inl ResultOutOfHandles, ht)"
  by (simp add: Create_def)

definition create_state :: "'obj HandleTable \<Rightarrow> 'obj \<Rightarrow> 'obj HandleTable" where
  "create_state ht ob =
     (let slot = unat (next_free_slot ht) in
      ht\<lparr>next_free_slot := generations ht slot,
         next_generation := (if next_generation ht + 1 \<ge> 0x8000 then 1 else next_generation ht + 1),
         generations := (generations ht)(slot := next_generation ht),
         objects := (objects ht)(slot \<mapsto> ob)\<rparr>)"

lemma Create_ok:
  "unat (next_free_slot ht) < MAX_COUNT \<Longrightarrow>
   Create ht (Some ob) =
     Some (Inr (mk_handle (next_free_slot ht) (next_generation ht)), create_state ht ob)"
  by (simp add: Create_def Let_def create_state_def mk_handle_def)

lemma Create_on_new: "\<exists>h t'. Create (mk_HandleTable st) (Some ob) = Some (Inr h, t')"
  by (simp add: Create_ok mk_HandleTable_def Clear_def MAX_COUNT_def)

lemma Create_cases:
  obtains "\<not> unat (next_free_slot ht) < MAX_COUNT"
      "Create ht (Some ob) = Some (Inl ResultOutOfHandles, ht)"
  | "unat (next_free_slot ht) < MAX_COUNT"
      "Create ht (Some ob) =
         Some (Inr (mk_handle (next_free_slot ht) (next_generation ht)), create_state ht ob)"
  by (cases "unat (next_free_slot ht) < MAX_COUNT") (auto simp: Create_ok Create_full)

lemma gen_ok_bump: "gen_ok g \<Longrightarrow> gen_ok (if g + 1 \<ge> 0x8000 then 1 else g + 1)"
  by (auto simp: gen_ok_def word_le_nat_alt word_less_nat_alt unat_word_ariths)

lemma free_list_ok_head:
  assumes "free_list_ok ht xs"
  shows "unat (next_free_slot ht) < MAX_COUNT \<longleftrightarrow> xs \<noteq> []"
    and "xs \<noteq> [] \<Longrightarrow> hd xs = unat (next_free_slot ht)"
  using assms by (cases xs; auto simp: free_list_ok_def)+

lemma ht_inv_slot_free:
  assumes "ht_inv ht" "unat (next_free_slot ht) < MAX_COUNT"
  shows "objects ht (unat (next_free_slot ht)) = None"
proof -
  obtain xs where xs: "free_list_ok ht xs" using assms(1) by (auto simp: ht_inv_def)
  with assms(2) free_list_ok_head [OF xs] show ?thesis
    by (metis (mono_tags, lifting) free_list_ok_def list.set_sel(1) mem_Collect_eq)
qed

lemma ht_inv_full_iff:
  assumes "ht_inv ht"
  shows "\<not> unat (next_free_slot ht) < MAX_COUNT \<longleftrightarrow> (\<forall>i < MAX_COUNT. objects ht i \<noteq> None)"
proof -
  obtain xs where xs: "free_list_ok ht xs" using assms by (auto simp: ht_inv_def)
  have "xs = [] \<longleftrightarrow> (\<forall>i < MAX_COUNT. objects ht i \<noteq> None)"
    using xs unfolding free_list_ok_def set_empty [symmetric] by auto
  with free_list_ok_head(1) [OF xs] show ?thesis by blast
qed

lemma ht_invI:
  assumes "free_list_ok ht xs" "gen_ok (next_generation ht)"
    and "\<And>i ob. i < MAX_COUNT \<Longrightarrow> objects ht i = Some ob \<Longrightarrow> gen_ok (generations ht i)"
  shows "ht_inv ht"
  using assms unfolding ht_inv_def by blast

lemma create_state_inv [inv_intros]:
  assumes inv: "ht_inv ht" and room: "unat (next_free_slot ht) < MAX_COUNT"
  shows "ht_inv (create_state ht ob)"
proof -
  obtain xs where xs: "free_list_ok ht xs" using inv by (auto simp: ht_inv_def)
  with free_list_ok_head [OF xs] room obtain ys where ys: "xs = unat (next_free_slot ht) # ys"
    by (metis list.collapse)
  let ?s = "unat (next_free_slot ht)"
  have "?s \<notin> set ys" using xs ys by (auto simp: free_list_ok_def)
  then have "free_chain ((generations ht)(?s := next_generation ht)) (generations ht ?s) ys"
    using xs ys
    by (subst free_chain_cong [of _ _ "generations ht"]) (auto simp: free_list_ok_def)
  then have "free_list_ok (create_state ht ob) ys"
    using xs ys by (auto simp: free_list_ok_def create_state_def Let_def)
  then show ?thesis
    by (rule ht_invI)
      (use inv in \<open>auto simp: ht_inv_def create_state_def Let_def gen_ok_bump\<close>)
qed

lemma Create_inv [inv_intros]:
  "ht_inv ht \<Longrightarrow> Create ht obj = Some (r, ht') \<Longrightarrow> ht_inv ht'"
proof (cases obj)
  case (Some ob)
  then show "ht_inv ht \<Longrightarrow> Create ht obj = Some (r, ht') \<Longrightarrow> ht_inv ht'"
    by (cases rule: Create_cases [of ht ob]) (auto intro: create_state_inv)
qed (simp add: Create_def)

lemma Close_inv [inv_intros]:
  assumes "ht_inv ht" shows "ht_inv (snd (Close ht h))"
proof (cases "IsValid ht h")
  case True
  let ?s = "unat (GetSlot h)"
  obtain xs where xs: "free_list_ok ht xs" using assms by (auto simp: ht_inv_def)
  have s: "?s < MAX_COUNT" "objects ht ?s \<noteq> None" using True by (auto simp: IsValid_def Let_def)
  then have "?s \<notin> set xs" using xs by (auto simp: free_list_ok_def)
  then have "free_chain ((generations ht)(?s := next_free_slot ht)) (next_free_slot ht) xs =
      free_chain (generations ht) (next_free_slot ht) xs"
    by (intro free_chain_cong) auto
  then have "free_chain ((generations ht)(?s := next_free_slot ht)) (next_free_slot ht) xs"
    using xs by (simp add: free_list_ok_def)
  then have "free_list_ok (snd (Close ht h)) (?s # xs)"
    using xs s \<open>?s \<notin> set xs\<close> True by (auto simp: free_list_ok_def Close_def Let_def)
  then show ?thesis
  proof (rule ht_invI)
    show "gen_ok (next_generation (snd (Close ht h)))"
      using assms by (simp add: ht_inv_def Close_def Let_def)
    show "gen_ok (generations (snd (Close ht h)) i)"
      if "i < MAX_COUNT" "objects (snd (Close ht h)) i = Some ob" for i ob
      using assms that True by (simp add: ht_inv_def Close_def Let_def split: if_splits)
  qed
qed (use assms in \<open>simp add: Close_def\<close>)

lemma Duplicate_inv [inv_intros]:
  "ht_inv ht \<Longrightarrow> Duplicate ct cp ht h = Some (r, ht') \<Longrightarrow> ht_inv ht'"
  by (auto simp: Duplicate_def Let_def split: if_splits intro: Create_inv)

subsection \<open>Lookups\<close>

lemma IsValid_create:
  assumes "ht_inv ht" "unat (next_free_slot ht) < MAX_COUNT"
  shows "IsValid (create_state ht ob) h \<longleftrightarrow>
     (if GetSlot h = next_free_slot ht then GetGeneration h = next_generation ht else IsValid ht h)"
  using assms by (auto simp: IsValid_def create_state_def Let_def)

lemma IsValid_create_old:
  assumes "ht_inv ht" "unat (next_free_slot ht) < MAX_COUNT" "IsValid ht h"
  shows "GetSlot h \<noteq> next_free_slot ht"
  using assms(3) ht_inv_slot_free [OF assms(1,2)] by (auto simp: IsValid_def Let_def)

lemma lookup_create_old:
  assumes "ht_inv ht" "unat (next_free_slot ht) < MAX_COUNT" "IsValid ht h"
  shows "IsValid (create_state ht ob) h"
    and "GetGeneric ct cp (create_state ht ob) h = GetGeneric ct cp ht h"
  using assms IsValid_create_old [OF assms]
  by (auto simp: IsValid_create GetGeneric_def create_state_def Let_def IsValid_def)

lemma not_pseudo:
  assumes "h < 0x8000000" shows "h \<noteq> CurrentThread" "h \<noteq> CurrentProcess"
  using assms by (auto simp: CurrentThread_def CurrentProcess_def)

lemma lookup_create_new:
  assumes "ht_inv ht" "unat (next_free_slot ht) < MAX_COUNT"
  defines "h \<equiv> mk_handle (next_free_slot ht) (next_generation ht)"
  shows "IsValid (create_state ht ob) h" "GetGeneric ct cp (create_state ht ob) h = Some ob"
    "\<not> IsValid ht h" "h \<noteq> 0" "h < 0x8000000"
proof -
  have g: "gen_ok (next_generation ht)" using assms(1) by (simp add: ht_inv_def)
  note hb = mk_handle_bound [OF g assms(2), folded h_def]
  show "IsValid (create_state ht ob) h"
    using assms g by (simp add: IsValid_create GetSlot_mk_handle GetGeneration_mk_handle)
  then show "GetGeneric ct cp (create_state ht ob) h = Some ob"
    using not_pseudo [OF hb(1)] g
    by (simp add: GetGeneric_def h_def GetSlot_mk_handle create_state_def Let_def)
  show "\<not> IsValid ht h"
    using IsValid_create_old [OF assms(1,2), of h] g by (auto simp: h_def GetSlot_mk_handle)
  show "h \<noteq> 0" "h < 0x8000000" using hb by auto
qed

lemma IsValid_Close:
  "IsValid (snd (Close ht h)) k \<longleftrightarrow> IsValid ht k \<and> \<not> (IsValid ht h \<and> GetSlot k = GetSlot h)"
  by (auto simp: Close_def Let_def IsValid_def)

lemma objects_Close:
  "IsValid (snd (Close ht h)) k \<Longrightarrow>
   objects (snd (Close ht h)) (unat (GetSlot k)) = objects ht (unat (GetSlot k))"
  by (auto simp: Close_def Let_def IsValid_def)

subsection \<open>The interface other components rely on\<close>

text \<open>What a client of a handle table (IPC translation, the supervisor calls) uses: fresh
  handles resolve, old ones are kept, closed ones are gone.\<close>

locale handle_space =
  fixes inv :: "'t \<Rightarrow> bool"
    and valid :: "'t \<Rightarrow> 'h \<Rightarrow> bool"
    and get :: "'t \<Rightarrow> 'h \<Rightarrow> 'o option"
    and create :: "'t \<Rightarrow> 'o \<Rightarrow> (('e + 'h) \<times> 't) option"
    and close :: "'t \<Rightarrow> 'h \<Rightarrow> 't"
  assumes create_runs: "create t x \<noteq> None"
    and create_keeps_inv: "inv t \<Longrightarrow> create t x = Some (r, t') \<Longrightarrow> inv t'"
    and close_keeps_inv: "inv t \<Longrightarrow> inv (close t h)"
    and get_valid: "valid t h \<longleftrightarrow> get t h \<noteq> None"
    and create_new: "inv t \<Longrightarrow> create t x = Some (Inr h, t') \<Longrightarrow> \<not> valid t h \<and> get t' h = Some x"
    and create_old: "inv t \<Longrightarrow> create t x = Some (Inr h, t') \<Longrightarrow> valid t k \<Longrightarrow> get t' k = get t k"
    and create_fail: "create t x = Some (Inl e, t') \<Longrightarrow> t' = t"
    and close_gone: "\<not> valid (close t h) h"
    and close_old: "valid (close t h) k \<Longrightarrow> get (close t h) k = get t k"
begin

lemma create_distinct:
  assumes "inv t" "create t x = Some (Inr h, t')" "create t' y = Some (Inr k, t'')"
  shows "h \<noteq> k \<and> get t'' h = Some x \<and> get t'' k = Some y"
proof -
  have h: "get t' h = Some x" using create_new [OF assms(1,2)] by blast
  moreover have i: "inv t'" using assms by (blast intro: create_keeps_inv)
  ultimately show ?thesis
    using create_new [OF i assms(3)] create_old [OF i assms(3), of h] by (auto simp: get_valid)
qed

lemma move_between:
  assumes "inv d" "get s h = Some x" "create d x = Some (Inr k, d')"
  shows "get d' k = Some x \<and> get (close s h) h = None \<and>
         (\<forall>j. valid d j \<longrightarrow> get d' j = get d j)"
  using create_new [OF assms(1,3)] create_old [OF assms(1,3)] close_gone [of s h]
  by (simp add: get_valid)

end

lemma IsValid_not_pseudo: "IsValid ht h \<Longrightarrow> h \<noteq> CurrentThread \<and> h \<noteq> CurrentProcess"
  by (auto simp: IsValid_def Let_def GetSlot_def CurrentThread_def CurrentProcess_def MAX_COUNT_def)

lemma GetGeneric_valid: "IsValid ht h \<longleftrightarrow> GetGeneric None None ht h \<noteq> None"
  using IsValid_not_pseudo [of ht h]
  by (auto simp: GetGeneric_def) (auto simp: IsValid_def Let_def)

lemma GetGeneric_Close:
  "IsValid (snd (Close ht h)) k \<Longrightarrow>
   GetGeneric None None (snd (Close ht h)) k = GetGeneric None None ht k"
  using IsValid_not_pseudo [of "snd (Close ht h)" k] objects_Close [of ht h k] IsValid_Close [of ht h k]
  by (simp add: GetGeneric_def)

interpretation handles: handle_space ht_inv IsValid "GetGeneric None None"
    "\<lambda>t x. Create t (Some x)" "\<lambda>t h. snd (Close t h)"
proof unfold_locales
  show "ht_inv t \<Longrightarrow> Create t (Some x) = Some (Inr h, t') \<Longrightarrow>
        \<not> IsValid t h \<and> GetGeneric None None t' h = Some x" for t :: "'a HandleTable" and x h t'
    by (cases rule: Create_cases [of t x]) (auto simp: lookup_create_new)
  show "ht_inv t \<Longrightarrow> Create t (Some x) = Some (Inr h, t') \<Longrightarrow> IsValid t k \<Longrightarrow>
        GetGeneric None None t' k = GetGeneric None None t k" for t :: "'a HandleTable" and x h t' k
    by (cases rule: Create_cases [of t x]) (auto simp: lookup_create_old)
  show "Create t (Some x) = Some (Inl e, t') \<Longrightarrow> t' = t" for t :: "'a HandleTable" and x e t'
    by (cases rule: Create_cases [of t x]) auto
  show "IsValid t h \<longleftrightarrow> GetGeneric None None t h \<noteq> None" for t :: "'a HandleTable" and h
    by (rule GetGeneric_valid)
  show "Create t (Some x) \<noteq> None" for t :: "'a HandleTable" and x
    by (cases rule: Create_cases [of t x]) auto
qed (auto simp: IsValid_Close intro: Create_inv Close_inv GetGeneric_Close)

subsection \<open>Runs of the table\<close>

inductive ht_reach :: "'obj HandleTable \<Rightarrow> bool" where
  start: "ht_reach (mk_HandleTable st)"
| clear: "ht_reach t \<Longrightarrow> ht_reach (Clear t)"
| create: "ht_reach t \<Longrightarrow> Create t obj = Some (r, t') \<Longrightarrow> ht_reach t'"
| duplicate: "ht_reach t \<Longrightarrow> Duplicate ct cp t h = Some (r, t') \<Longrightarrow> ht_reach t'"
| close: "ht_reach t \<Longrightarrow> ht_reach (snd (Close t h))"

inductive ht_run_avoiding :: "u16 \<Rightarrow> 'obj HandleTable \<Rightarrow> 'obj HandleTable \<Rightarrow> bool" for g t where
  refl: "ht_run_avoiding g t t"
| create: "ht_run_avoiding g t u \<Longrightarrow> next_generation u \<noteq> g \<Longrightarrow>
     Create u obj = Some (r, v) \<Longrightarrow> ht_run_avoiding g t v"
| close: "ht_run_avoiding g t u \<Longrightarrow> ht_run_avoiding g t (snd (Close u k))"

lemma Clear_inv [inv_intros]: "gen_ok (next_generation t) \<Longrightarrow> ht_inv (Clear t)"
proof (rule ht_invI)
  show "free_list_ok (Clear t) [0..<MAX_COUNT]"
    using free_chain_upt [of 0 "generations (Clear t)"] by (auto simp: free_list_ok_def Clear_def)
qed (auto simp: Clear_def)

lemma ht_reach_inv: "ht_reach t \<Longrightarrow> ht_inv t"
proof (induction rule: ht_reach.induct)
  case (clear t)
  then show ?case by (intro Clear_inv) (simp add: ht_inv_def)
qed (auto intro: inv_intros mk_HandleTable_inv)

lemma Create_stays_invalid:
  assumes "\<not> IsValid u h" "next_generation u \<noteq> GetGeneration h" "Create u obj = Some (r, v)"
  shows "\<not> IsValid v h"
proof (cases obj)
  case (Some ob)
  with assms show ?thesis
    by (cases rule: Create_cases [of u ob])
       (auto simp: IsValid_def create_state_def Let_def split: if_splits)
qed (use assms in \<open>simp add: Create_def\<close>)

text \<open>A concrete storage to start from, for the witnesses.\<close>

definition blank_table :: "nat HandleTable" where
  "blank_table = \<lparr>objects = \<lambda>_. None, generations = \<lambda>_. 0, next_generation = 0, next_free_slot = 0\<rparr>"

subsection \<open>Properties\<close>

text \<open>C4: in every table reachable from construction by any sequence of \<open>Create\<close>,
  \<open>Duplicate\<close>, \<open>Close\<close> and \<open>Clear\<close>, the free list threaded through \<open>generations\<close> visits each
  empty slot exactly once and ends at 4096, live slots carry a generation in 1..0x7FFF, and
  so does the counter.\<close>

theorem handle_table_invariant:
  assumes "ht_reach t"
  shows "\<exists>xs. free_chain (generations t) (next_free_slot t) xs \<and> distinct xs \<and>
           set xs = {i. i < 4096 \<and> objects t i = None} \<and> gen_ok (next_generation t) \<and>
           (\<forall>i < 4096. objects t i \<noteq> None \<longrightarrow> gen_ok (generations t i))"
  using ht_reach_inv [OF assms] by (auto simp: ht_inv_def free_list_ok_def MAX_COUNT_def)

theorem handle_table_invariant_witness:
  "\<exists>xs. free_chain (generations (mk_HandleTable blank_table))
          (next_free_slot (mk_HandleTable blank_table)) xs \<and> distinct xs"
  using handle_table_invariant [OF ht_reach.start [of blank_table]] by blast

text \<open>on a reachable table, \<open>Create\<close> of a non-null object never aborts; it reports
  \<open>ResultOutOfHandles\<close> and changes nothing exactly when all 4096 slots are in use.\<close>

theorem create_fails_iff_full:
  assumes "ht_reach t"
  shows "(Create t (Some ob) = Some (Inl ResultOutOfHandles, t) \<longleftrightarrow>
           (\<forall>i < 4096. objects t i \<noteq> None)) \<and>
         ((\<exists>h t'. Create t (Some ob) = Some (Inr h, t')) \<longleftrightarrow> (\<exists>i < 4096. objects t i = None))"
  using ht_inv_full_iff [OF ht_reach_inv [OF assms]]
  by (cases rule: Create_cases [of t ob]) (auto simp: MAX_COUNT_def)

theorem create_fails_iff_full_witness:
  "\<exists>i < 4096. objects (mk_HandleTable blank_table) i = None"
  using create_fails_iff_full [OF ht_reach.start, of blank_table 7]
    Create_on_new [of blank_table 7] by blast

text \<open>C28: a successful \<open>Create\<close> returns a handle that is non-zero, below \<open>0x08000000\<close> (so never
  a pseudo-handle), was not valid before and now resolves to the new object, while every
  handle that was valid before still resolves to its own object.\<close>

theorem create_returns_fresh_handle:
  assumes "ht_reach t" and "Create t (Some ob) = Some (Inr h, t')"
  shows "h \<noteq> 0 \<and> h < 0x8000000 \<and> \<not> IsValid t h \<and> GetGeneric ct cp t' h = Some ob \<and>
         (\<forall>k. IsValid t k \<longrightarrow> IsValid t' k \<and> GetGeneric ct cp t' k = GetGeneric ct cp t k)"
  using assms(2) ht_reach_inv [OF assms(1)]
  by (cases rule: Create_cases [of t ob]) (auto simp: lookup_create_new lookup_create_old)

theorem create_returns_fresh_handle_witness:
  "\<exists>h t'. Create (mk_HandleTable blank_table) (Some 7) = Some (Inr h, t') \<and>
     GetGeneric None None t' h = Some 7"
proof -
  let ?t = "mk_HandleTable blank_table"
  obtain h t' where c: "Create ?t (Some 7) = Some (Inr h, t')"
    using Create_on_new [of blank_table 7] by blast
  have "GetGeneric None None t' h = Some 7"
    using create_returns_fresh_handle [OF ht_reach.start c, of None None] by (simp only: simp_thms)
  with c show ?thesis by (intro exI conjI)
qed



text \<open>moving an object between two tables the way IPC translation does (look it up, create
  it in the destination, close it at the source): the destination handle resolves to the
  object, the source handle no longer resolves, and no handle the destination already had is
  disturbed.\<close>

theorem move_handle_between_tables:
  assumes "ht_reach dst" and "GetGeneric None None src h = Some ob"
    and "Create dst (Some ob) = Some (Inr k, dst')"
  shows "GetGeneric None None dst' k = Some ob \<and>
         GetGeneric None None (snd (Close src h)) h = None \<and>
         (\<forall>j. IsValid dst j \<longrightarrow> GetGeneric None None dst' j = GetGeneric None None dst j)"
  by (rule handles.move_between [OF ht_reach_inv [OF assms(1)] assms(2,3)])

theorem move_handle_between_tables_witness:
  "\<exists>src h k dst'. GetGeneric None None src h = Some (7 :: nat) \<and>
     GetGeneric None None dst' k = Some (7 :: nat) \<and> GetGeneric None None (snd (Close src h)) h = None"
proof -
  let ?t = "mk_HandleTable blank_table"
  obtain h t' where c: "Create ?t (Some 7) = Some (Inr h, t')"
    using Create_on_new [of blank_table 7] by blast
  have "GetGeneric None None t' h = Some 7"
    using handles.create_new [OF mk_HandleTable_inv c] by blast
  from move_handle_between_tables [OF ht_reach.start this c] this show ?thesis by blast
qed

text \<open>bit 31 of a handle is ignored: \<open>GetSlot\<close> shifts right by 15 and then truncates to 16
  bits, so a handle and the same handle with bit 31 flipped name the same slot and
  generation, although the header documents the slot field as bits 31:15.\<close>

theorem handle_bit31_ignored:
  "IsValid t (h XOR 0x80000000) = IsValid t h \<and>
   GetSlot (h XOR 0x80000000) = GetSlot h \<and> h XOR 0x80000000 \<noteq> h"
proof -
  have "bit (h XOR 0x80000000) 31 \<noteq> bit h 31"
    by (simp only: bit_xor_iff top_bit) simp
  then have "h XOR 0x80000000 \<noteq> h" by (rule contrapos_nn) (rule arg_cong [where f = "\<lambda>w. bit w 31"])
  then show ?thesis by (simp only: IsValid_def Let_def bit31_ignored) simp
qed


end
