(* ===== verification/Memory_Region.thy ===== *)
theory Memory_Region
  imports Result_Codes
begin

text \<open>
  The physical memory allocator, \<^verbatim>\<open>src/core/hle/kernel/memory.cpp\<close> and \<^verbatim>\<open>memory.h\<close>: a region
  of FCRAM keeps the ordered set of its free blocks.  \<^verbatim>\<open>std::set<Interval, IntervalLess>\<close> is
  a list sorted by the lexicographic order \<open>IntervalLess\<close>; an iterator into it is a split of
  that list into the part before and the part from the iterator on, so \<open>lower_bound\<close> and
  \<open>upper_bound\<close> return such a split.  Offsets are 32-bit words and wrap.

  Shown: subtraction and merging of blocks compute set difference and union on the
  addresses they stand for and keep the set ordered and disjoint; each allocation takes
  exactly the requested number of addresses out of the free set and reports failure
  exactly when it cannot; \<open>used\<close> plus the free addresses is always the region size.
\<close>

subsection \<open>Intervals and ordered sets of them\<close>

datatype Interval = Interval (lower: u32) (upper: u32)

definition IntervalLess :: "Interval \<Rightarrow> Interval \<Rightarrow> bool" where
  "IntervalLess lhs rhs \<longleftrightarrow>
     (if lower lhs \<noteq> lower rhs then lower lhs < lower rhs else upper lhs < upper rhs)"

instantiation Interval :: linorder
begin

definition less_Interval :: "Interval \<Rightarrow> Interval \<Rightarrow> bool" where
  "less_Interval = IntervalLess"

definition less_eq_Interval :: "Interval \<Rightarrow> Interval \<Rightarrow> bool" where
  "less_eq_Interval a b \<longleftrightarrow> \<not> IntervalLess b a"

instance
  by standard
    (auto simp: less_Interval_def less_eq_Interval_def IntervalLess_def
      intro: Interval.expand split: if_splits)

end

type_synonym IntervalSet = "Interval list"

definition lower_bound :: "IntervalSet \<Rightarrow> Interval \<Rightarrow> IntervalSet \<times> IntervalSet" where
  "lower_bound s needle = (takeWhile (\<lambda>i. i < needle) s, dropWhile (\<lambda>i. i < needle) s)"

definition upper_bound :: "IntervalSet \<Rightarrow> Interval \<Rightarrow> IntervalSet \<times> IntervalSet" where
  "upper_bound s needle = (takeWhile (\<lambda>i. \<not> needle < i) s, dropWhile (\<lambda>i. \<not> needle < i) s)"

definition IntervalSize :: "Interval \<Rightarrow> u32" where
  "IntervalSize i = upper i - lower i"

definition Contains :: "IntervalSet \<Rightarrow> Interval \<Rightarrow> bool" where
  "Contains intervals needle =
     (let before = fst (upper_bound intervals needle) in
      if before = [] then False
      else lower (last before) \<le> lower needle \<and> upper needle \<le> upper (last before))"

definition Intersects :: "Interval \<Rightarrow> Interval \<Rightarrow> bool" where
  "Intersects a b \<longleftrightarrow> lower a < upper b \<and> lower b < upper a"

definition IntersectsAny :: "IntervalSet \<Rightarrow> Interval \<Rightarrow> bool" where
  "IntersectsAny intervals needle =
     (let (before, from) = lower_bound intervals needle in
      if from \<noteq> [] \<and> Intersects (hd from) needle then True
      else before \<noteq> [] \<and> Intersects (last before) needle)"

fun absorb :: "IntervalSet \<Rightarrow> Interval \<Rightarrow> IntervalSet \<times> Interval" where
  "absorb [] interval = ([], interval)"
| "absorb (it # rest) interval =
     (if lower it \<le> upper interval
      then absorb rest (Interval (min (lower interval) (lower it)) (max (upper interval) (upper it)))
      else (it # rest, interval))"

definition InsertMerge :: "IntervalSet \<Rightarrow> Interval \<Rightarrow> IntervalSet" where
  "InsertMerge intervals interval =
     (let (before, from) = lower_bound intervals interval;
          (before', interval') =
            (if before \<noteq> [] \<and> upper (last before) \<ge> lower interval
             then (butlast before,
                   Interval (min (lower interval) (lower (last before)))
                            (max (upper interval) (upper (last before))))
             else (before, interval));
          (from', merged) = absorb from interval'
      in insort_insert merged (before' @ from'))"

fun subtract_loop :: "IntervalSet \<Rightarrow> Interval \<Rightarrow> IntervalSet \<times> Interval list" where
  "subtract_loop [] needle = ([], [])"
| "subtract_loop (it # rest) needle =
     (if lower it \<ge> upper needle then (it # rest, [])
      else if \<not> Intersects it needle
      then let (kept, to_add) = subtract_loop rest needle in (it # kept, to_add)
      else
        let left = (if lower it < lower needle then [Interval (lower it) (lower needle)] else [])
        in if upper needle < upper it
           then (rest, left @ [Interval (upper needle) (upper it)])
           else let (kept, to_add) = subtract_loop rest needle in (kept, left @ to_add))"

definition SubtractInterval :: "IntervalSet \<Rightarrow> Interval \<Rightarrow> IntervalSet" where
  "SubtractInterval intervals needle =
     (let (before, from) = lower_bound intervals needle;
          (before', from') =
            (if before \<noteq> [] then (butlast before, last before # from) else (before, from));
          (kept, to_add) = subtract_loop from' needle
      in fold insort_insert to_add (before' @ kept))"

definition SubtractIntervals :: "IntervalSet \<Rightarrow> IntervalSet \<Rightarrow> IntervalSet" where
  "SubtractIntervals intervals to_subtract =
     fold (\<lambda>interval s. SubtractInterval s interval) to_subtract intervals"

subsection \<open>MemoryRegionInfo\<close>

record MemoryRegionInfo =
  region_base :: u32
  region_size :: u32
  used :: u32
  free_blocks :: IntervalSet
  is_locked :: bool

definition Reset :: "MemoryRegionInfo \<Rightarrow> u32 \<Rightarrow> u32 \<Rightarrow> MemoryRegionInfo option" where
  "Reset r b s = do {
     _ \<leftarrow> ASSERT (\<not> is_locked r);
     Some (r\<lparr>region_base := b, region_size := s, used := 0, free_blocks := [Interval b (b + s)]\<rparr>)
   }"

fun heap_loop :: "Interval list \<Rightarrow> u32 \<Rightarrow> IntervalSet \<Rightarrow> IntervalSet \<times> u32" where
  "heap_loop [] rest result = (result, rest)"
| "heap_loop (iter # iters) rest result =
     (if IntervalSize iter \<ge> rest
      then (insort_insert (Interval (upper iter - rest) (upper iter)) result, 0)
      else heap_loop iters (rest - IntervalSize iter) (insort_insert iter result))"

definition HeapAllocate ::
  "MemoryRegionInfo \<Rightarrow> u32 \<Rightarrow> (IntervalSet \<times> MemoryRegionInfo) option" where
  "HeapAllocate r sz = do {
     _ \<leftarrow> ASSERT (\<not> is_locked r);
     (let (result, rest) = heap_loop (rev (free_blocks r)) sz [] in
      if rest \<noteq> 0 then Some ([], r)
      else Some (result, r\<lparr>free_blocks := SubtractIntervals (free_blocks r) result,
                           used := used r + sz\<rparr>))
   }"

definition LinearAllocateAt ::
  "MemoryRegionInfo \<Rightarrow> u32 \<Rightarrow> u32 \<Rightarrow> (bool \<times> MemoryRegionInfo) option" where
  "LinearAllocateAt r offset sz = do {
     _ \<leftarrow> ASSERT (\<not> is_locked r);
     (let interval = Interval offset (offset + sz) in
      if \<not> Contains (free_blocks r) interval then Some (False, r)
      else Some (True, r\<lparr>free_blocks := SubtractInterval (free_blocks r) interval,
                         used := used r + sz\<rparr>))
   }"

definition LinearAllocate ::
  "MemoryRegionInfo \<Rightarrow> u32 \<Rightarrow> (u32 option \<times> MemoryRegionInfo) option" where
  "LinearAllocate r sz = do {
     _ \<leftarrow> ASSERT (\<not> is_locked r);
     (case List.find (\<lambda>interval. IntervalSize interval \<ge> sz) (free_blocks r) of
        Some interval \<Rightarrow>
          let allocated = Interval (lower interval) (lower interval + sz) in
          Some (Some (lower allocated),
                r\<lparr>free_blocks := SubtractInterval (free_blocks r) allocated, used := used r + sz\<rparr>)
      | None \<Rightarrow> Some (None, r))
   }"

definition RLinearAllocate ::
  "MemoryRegionInfo \<Rightarrow> u32 \<Rightarrow> (u32 option \<times> MemoryRegionInfo) option" where
  "RLinearAllocate r sz = do {
     _ \<leftarrow> ASSERT (\<not> is_locked r);
     (case List.find (\<lambda>interval. IntervalSize interval \<ge> sz) (rev (free_blocks r)) of
        Some interval \<Rightarrow>
          let allocated = Interval (upper interval - sz) (upper interval) in
          Some (Some (lower allocated),
                r\<lparr>free_blocks := SubtractInterval (free_blocks r) allocated, used := used r + sz\<rparr>)
      | None \<Rightarrow> Some (None, r))
   }"

definition Free :: "MemoryRegionInfo \<Rightarrow> u32 \<Rightarrow> u32 \<Rightarrow> MemoryRegionInfo option" where
  "Free r offset sz =
     (if is_locked r then Some r
      else
        let interval = Interval offset (offset + sz) in do {
          _ \<leftarrow> ASSERT (\<not> IntersectsAny (free_blocks r) interval);
          Some (r\<lparr>free_blocks := InsertMerge (free_blocks r) interval, used := used r - sz\<rparr>)
        })"

definition Unlock :: "MemoryRegionInfo \<Rightarrow> MemoryRegionInfo" where
  "Unlock r = r\<lparr>is_locked := False\<rparr>"

subsection \<open>Meaning and invariant\<close>

definition ivl :: "Interval \<Rightarrow> u32 set" where
  "ivl i = {lower i ..< upper i}"

definition addrs :: "IntervalSet \<Rightarrow> u32 set" where
  "addrs s = (\<Union>i \<in> set s. ivl i)"

definition ivs_ok :: "IntervalSet \<Rightarrow> bool" where
  "ivs_ok s \<longleftrightarrow> sorted_wrt (\<lambda>a b. upper a \<le> lower b) s \<and> (\<forall>i \<in> set s. lower i < upper i)"

lemma less_Interval_iff:
  "a < b \<longleftrightarrow> lower a < lower b \<or> (lower a = lower b \<and> upper a < upper b)"
  by (auto simp: less_Interval_def IntervalLess_def)

lemma less_Interval_lowerD: "a < b \<Longrightarrow> lower a \<le> lower b"
  by (auto simp: less_Interval_iff)

lemma not_less_Interval_lowerD: "\<not> a < b \<Longrightarrow> lower b \<le> lower a"
  by (auto simp: less_Interval_iff)

lemma ivs_ok_simps [simp]:
  "ivs_ok []"
  "ivs_ok (x # xs) \<longleftrightarrow> lower x < upper x \<and> (\<forall>y \<in> set xs. upper x \<le> lower y) \<and> ivs_ok xs"
  by (auto simp: ivs_ok_def)

lemma ivs_ok_append:
  "ivs_ok (xs @ ys) \<longleftrightarrow> ivs_ok xs \<and> ivs_ok ys \<and> (\<forall>x \<in> set xs. \<forall>y \<in> set ys. upper x \<le> lower y)"
  by (auto simp: ivs_ok_def sorted_wrt_append)

lemma ivs_ok_proper: "ivs_ok s \<Longrightarrow> i \<in> set s \<Longrightarrow> lower i < upper i"
  by (simp add: ivs_ok_def)

lemma addrs_simps [simp]:
  "addrs [] = {}" "addrs (x # xs) = ivl x \<union> addrs xs" "addrs (xs @ ys) = addrs xs \<union> addrs ys"
  by (auto simp: addrs_def)

lemma ivs_ok_strict_sorted: "ivs_ok s \<Longrightarrow> sorted s \<and> distinct s"
proof (induction s)
  case (Cons x s)
  have "x < y" if "y \<in> set s" for y
    using Cons.prems that by (force simp: less_Interval_iff)
  then show ?case using Cons by (auto simp: less_le)
qed simp

lemma ivs_unique: "ivs_ok s \<Longrightarrow> sorted t \<Longrightarrow> distinct t \<Longrightarrow> set t = set s \<Longrightarrow> t = s"
  using ivs_ok_strict_sorted sorted_distinct_set_unique by blast

lemma sorted_fold_insort_insert:
  "sorted s \<Longrightarrow> distinct s \<Longrightarrow>
   sorted (fold insort_insert xs s) \<and> distinct (fold insort_insert xs s) \<and>
   set (fold insort_insert xs s) = set xs \<union> set s"
  by (induction xs arbitrary: s)
    (auto simp: sorted_insort_insert distinct_insort_insert set_insort_insert)

subsection \<open>Subtraction is pointwise cutting\<close>

definition cut_out :: "Interval \<Rightarrow> Interval \<Rightarrow> Interval list" where
  "cut_out needle it =
     (if Intersects it needle
      then (if lower it < lower needle then [Interval (lower it) (lower needle)] else []) @
           (if upper needle < upper it then [Interval (upper needle) (upper it)] else [])
      else [it])"

fun cut_all :: "Interval \<Rightarrow> IntervalSet \<Rightarrow> IntervalSet" where
  "cut_all n [] = []"
| "cut_all n (x # s) = cut_out n x @ cut_all n s"

lemma in_cut_all: "b \<in> set (cut_all n s) \<longleftrightarrow> (\<exists>y \<in> set s. b \<in> set (cut_out n y))"
  by (induction s) auto

lemma cut_bounds: "y \<in> set (cut_out n x) \<Longrightarrow> lower x \<le> lower y \<and> upper y \<le> upper x"
  by (cases "Intersects x n"; cases "lower x < lower n"; cases "upper n < upper x")
    (auto simp: cut_out_def Intersects_def)

lemma ivs_ok_cut: "lower x < upper x \<Longrightarrow> lower n \<le> upper n \<Longrightarrow> ivs_ok (cut_out n x)"
  by (auto simp: cut_out_def Intersects_def)

lemma addrs_cut: "lower n \<le> upper n \<Longrightarrow> addrs (cut_out n x) = ivl x - ivl n"
  by (auto simp: cut_out_def Intersects_def ivl_def not_less)

lemma ivs_ok_cut_all:
  "ivs_ok s \<Longrightarrow> lower n \<le> upper n \<Longrightarrow> ivs_ok (cut_all n s)"
proof (induction s)
  case (Cons x s)
  have "upper a \<le> lower b" if "a \<in> set (cut_out n x)" "b \<in> set (cut_all n s)" for a b
  proof -
    from that(2) obtain y where y: "y \<in> set s" "b \<in> set (cut_out n y)" by (auto simp: in_cut_all)
    with Cons.prems(1) have "upper x \<le> lower y" by simp
    with cut_bounds [OF that(1)] cut_bounds [OF y(2)] show ?thesis by (meson order_trans)
  qed
  with Cons show ?case by (auto simp: ivs_ok_append ivs_ok_cut)
qed simp

lemma addrs_cut_all:
  "lower n \<le> upper n \<Longrightarrow> addrs (cut_all n s) = addrs s - ivl n"
  by (induction s) (auto simp: addrs_cut)

lemma cut_all_ident:
  "(\<And>x. x \<in> set s \<Longrightarrow> \<not> Intersects x n) \<Longrightarrow> cut_all n s = s"
  by (induction s) (auto simp: cut_out_def)

lemma subtract_loop_set:
  assumes "ivs_ok s" and "subtract_loop s n = (kept, to_add)"
  shows "set kept \<union> set to_add = set (cut_all n s) \<and> set kept \<subseteq> set s \<and> sorted kept \<and> distinct kept"
  using assms
proof (induction s arbitrary: kept to_add)
  case (Cons x s)
  have later: "\<not> Intersects y n" if "y \<in> set s" "upper n \<le> upper x" for y
    using Cons.prems(1) that by (auto simp: Intersects_def)
  have ok: "ivs_ok s" "lower x < upper x" using Cons.prems(1) by auto
  have xlt: "x < y" if "y \<in> set s" for y
    using Cons.prems(1) that by (force simp: less_Interval_iff)
  show ?case
  proof (cases "lower x \<ge> upper n")
    case True
    then have "cut_all n (x # s) = x # s"
      using later ok by (intro cut_all_ident) (auto simp: Intersects_def)
    with True Cons.prems ivs_ok_strict_sorted [OF Cons.prems(1)] show ?thesis by auto
  next
    case F: False
    show ?thesis
    proof (cases "Intersects x n")
      case False
      then obtain k a where "subtract_loop s n = (k, a)" "kept = x # k" "to_add = a"
        using F Cons.prems(2) by (auto split: prod.splits)
      moreover with Cons.IH [OF ok(1)] have "set k \<subseteq> set s" "sorted k" "distinct k" by auto
      ultimately show ?thesis
        using Cons.IH [OF ok(1)] False xlt by (auto simp: cut_out_def) (auto simp: less_le)
    next
      case True
      show ?thesis
      proof (cases "upper n < upper x")
        case up: True
        then have "cut_all n s = s"
          using later by (intro cut_all_ident) auto
        with up True F Cons.prems(2) ivs_ok_strict_sorted [OF ok(1)] show ?thesis
          by (auto simp: cut_out_def Let_def split: if_splits)
      next
        case False
        obtain k a where "subtract_loop s n = (k, a)" by fastforce
        with Cons.IH [OF ok(1) this] True False F Cons.prems(2) show ?thesis
          by (auto simp: cut_out_def Let_def split: if_splits)
      qed
    qed
  qed
qed simp


lemma SubtractInterval_eq:
  assumes ok: "ivs_ok s" and n: "lower n \<le> upper n"
  shows "SubtractInterval s n = cut_all n s"
proof -
  define pre where "pre = takeWhile (\<lambda>i. i < n) s"
  define post where "post = dropWhile (\<lambda>i. i < n) s"
  define pre' where "pre' = (if pre \<noteq> [] then butlast pre else pre)"
  define post' where "post' = (if pre \<noteq> [] then last pre # post else post)"
  obtain kept to_add where loop: "subtract_loop post' n = (kept, to_add)" by fastforce
  have s: "s = pre' @ post'"
    using butlast_last_dropWhile [of "\<lambda>i. i < n" s]
    by (auto simp: pre'_def post'_def pre_def post_def takeWhile_Nil_dropWhile)
  have "\<not> Intersects x n" if "x \<in> set pre'" for x
  proof -
    have "pre \<noteq> []" using that by (auto simp: pre'_def split: if_splits)
    then have "post' = last pre # post" by (simp add: post'_def)
    with ok that have "upper x \<le> lower (last pre)" unfolding s by (simp add: ivs_ok_append)
    moreover have "last pre < n"
      using \<open>pre \<noteq> []\<close> last_in_set set_takeWhileD unfolding pre_def by metis
    ultimately show ?thesis using less_Interval_lowerD [of "last pre" n] by (auto simp: Intersects_def)
  qed
  then have cut_pre: "cut_all n pre' = pre'" by (rule cut_all_ident)
  have oks: "ivs_ok pre'" "ivs_ok post'" using ok s by (auto simp: ivs_ok_append)
  note L = subtract_loop_set [OF oks(2) loop]
  have app: "cut_all n (pre' @ post') = cut_all n pre' @ cut_all n post'" for n
    by (induction pre') auto
  have "sorted (pre' @ kept) \<and> distinct (pre' @ kept)"
    using ivs_ok_strict_sorted [OF ok] L s by (auto simp: sorted_append)
  moreover have "SubtractInterval s n = fold insort_insert to_add (pre' @ kept)"
    using loop by (simp add: SubtractInterval_def lower_bound_def Let_def pre'_def post'_def
        pre_def post_def del: subtract_loop.simps split: if_splits)
  ultimately show ?thesis
    using L cut_pre s app sorted_fold_insort_insert [of "pre' @ kept" to_add]
    by (intro ivs_unique [OF ivs_ok_cut_all [OF ok n]]) auto
qed

lemma ivs_ok_SubtractInterval [inv_intros]:
  "ivs_ok s \<Longrightarrow> lower n \<le> upper n \<Longrightarrow> ivs_ok (SubtractInterval s n)"
  by (simp add: SubtractInterval_eq ivs_ok_cut_all)

lemma addrs_SubtractInterval [abs_simps]:
  "ivs_ok s \<Longrightarrow> lower n \<le> upper n \<Longrightarrow> addrs (SubtractInterval s n) = addrs s - ivl n"
  by (simp add: SubtractInterval_eq addrs_cut_all)

lemma SubtractIntervals_spec:
  assumes "ivs_ok s" "\<And>i. i \<in> set t \<Longrightarrow> lower i \<le> upper i"
  shows "ivs_ok (SubtractIntervals s t) \<and> addrs (SubtractIntervals s t) = addrs s - addrs t"
  using assms
proof (induction t arbitrary: s)
  case (Cons x t)
  then have "ivs_ok (SubtractInterval s x)" "addrs (SubtractInterval s x) = addrs s - ivl x"
    by (simp_all add: ivs_ok_SubtractInterval addrs_SubtractInterval)
  with Cons.IH [of "SubtractInterval s x"] Cons.prems(2) show ?case
    by (auto simp: SubtractIntervals_def)
qed (simp add: SubtractIntervals_def)

subsection \<open>Merging is union\<close>

lemma absorb_spec:
  assumes "ivs_ok xs" "\<forall>x \<in> set xs. lower i \<le> lower x" "lower i < upper i" "absorb xs i = (ys, j)"
  shows "lower j = lower i \<and> upper i \<le> upper j \<and> ivs_ok ys \<and> set ys \<subseteq> set xs \<and>
         (\<forall>y \<in> set ys. upper j < lower y) \<and> ivl j \<union> addrs ys = ivl i \<union> addrs xs"
  using assms
proof (induction xs arbitrary: i)
  case (Cons x xs)
  show ?case
  proof (cases "lower x \<le> upper i")
    case True
    let ?i = "Interval (min (lower i) (lower x)) (max (upper i) (upper x))"
    have li: "lower ?i = lower i" using Cons.prems(2) by (simp add: min_def)
    have ui: "upper ?i = max (upper i) (upper x)" by simp
    have iv: "ivl ?i = ivl i \<union> ivl x"
      using Cons.prems True by (auto simp: ivl_def min_def max_def not_le not_less)
    have "lower ?i < upper ?i" using li Cons.prems(3) by (simp add: less_max_iff_disj)
    moreover have "\<forall>y \<in> set xs. lower ?i \<le> lower y" using Cons.prems(2) li by simp
    moreover have "absorb xs ?i = (ys, j)" using Cons.prems(4) True by simp
    ultimately have "lower j = lower ?i \<and> upper ?i \<le> upper j \<and> ivs_ok ys \<and> set ys \<subseteq> set xs \<and>
         (\<forall>y \<in> set ys. upper j < lower y) \<and> ivl j \<union> addrs ys = ivl ?i \<union> addrs xs"
      using Cons.prems(1) by (intro Cons.IH) auto
    then show ?thesis unfolding li ui iv by auto
  next
    case False
    with Cons.prems have "ys = x # xs" "j = i" by auto
    moreover have "upper i < lower y" if "y \<in> set xs" for y
      using Cons.prems(1) that False by auto
    ultimately show ?thesis using Cons.prems False by auto
  qed
qed simp


lemma lower_bound_split:
  assumes "ivs_ok s" and "lower_bound s i = (pre, post)"
  shows "s = pre @ post" "ivs_ok pre" "ivs_ok post"
    "\<forall>x \<in> set pre. \<forall>y \<in> set post. upper x \<le> lower y"
    "\<forall>x \<in> set pre. x < i" "\<forall>x \<in> set pre. lower x \<le> lower i" "\<forall>y \<in> set post. lower i \<le> lower y"
proof -
  have pre: "pre = takeWhile (\<lambda>x. x < i) s" and post: "post = dropWhile (\<lambda>x. x < i) s"
    using assms(2) by (auto simp: lower_bound_def)
  show s: "s = pre @ post" by (simp add: pre post)
  with assms(1) show p: "ivs_ok pre" "ivs_ok post" "\<forall>x \<in> set pre. \<forall>y \<in> set post. upper x \<le> lower y"
    by (simp_all add: ivs_ok_append)
  show "\<forall>x \<in> set pre. x < i" by (auto simp: pre dest: set_takeWhileD)
  then show "\<forall>x \<in> set pre. lower x \<le> lower i" using less_Interval_lowerD by blast
  show "\<forall>y \<in> set post. lower i \<le> lower y"
  proof (cases post)
    case (Cons y ys)
    then have "\<not> y < i" using hd_dropWhile [of "\<lambda>x. x < i" s] by (simp add: post)
    then have "lower i \<le> lower y" by (rule not_less_Interval_lowerD)
    with p(2) Cons show ?thesis by (auto simp: order.trans less_imp_le)
  qed simp
qed

lemma ivs_ok_upper_last: "ivs_ok xs \<Longrightarrow> x \<in> set xs \<Longrightarrow> upper x \<le> upper (last xs)"
proof (induction xs)
  case (Cons y ys)
  show ?case
  proof (cases "ys = []")
    case False
    then have "upper y \<le> lower (last ys)" "lower (last ys) < upper (last ys)"
      using Cons.prems(1) ivs_ok_proper by auto
    then have "upper y \<le> upper (last ys)" by (meson less_imp_le order_trans)
    with Cons False show ?thesis by auto
  qed (use Cons.prems in simp)
qed simp

lemma insort_insert_middle:
  assumes "ivs_ok (pre @ m # post)" shows "insort_insert m (pre @ post) = pre @ m # post"
proof (rule ivs_unique [OF assms])
  have "ivs_ok (pre @ post)" using assms by (auto simp: ivs_ok_append)
  from ivs_ok_strict_sorted [OF this]
  show "sorted (insort_insert m (pre @ post))" "distinct (insort_insert m (pre @ post))"
    by (simp_all add: sorted_insort_insert distinct_insort_insert)
qed (auto simp: set_insort_insert)

text \<open>The first step of \<open>InsertMerge\<close>: joining with the block before the insertion point.\<close>

lemma join_before:
  assumes "ivs_ok pre" "\<forall>x \<in> set pre. lower x \<le> lower i" "lower i < upper i"
    and "pre \<noteq> []" "upper (last pre) \<ge> lower i"
  defines "j \<equiv> Interval (min (lower i) (lower (last pre))) (max (upper i) (upper (last pre)))"
  shows "lower j < upper j" "lower j \<le> lower i" "ivl j = ivl i \<union> ivl (last pre)"
    "\<forall>x \<in> set (butlast pre). upper x \<le> lower j"
proof -
  have l: "lower (last pre) \<le> lower i" "lower (last pre) < upper (last pre)"
    using assms ivs_ok_proper last_in_set by auto
  then have j: "j = Interval (lower (last pre)) (max (upper i) (upper (last pre)))"
    by (simp add: j_def min_def)
  show "lower j < upper j" "lower j \<le> lower i" using l by (auto simp: j less_max_iff_disj)
  show "ivl j = ivl i \<union> ivl (last pre)"
    using l assms(3,5) by (auto simp: j ivl_def max_def not_le not_less)
  have "ivs_ok (butlast pre @ [last pre])" using assms(1,4) by simp
  then show "\<forall>x \<in> set (butlast pre). upper x \<le> lower j" by (simp add: j ivs_ok_append)
qed

lemma InsertMerge_spec:
  assumes ok: "ivs_ok s" and i: "lower i < upper i"
  shows "ivs_ok (InsertMerge s i) \<and> addrs (InsertMerge s i) = addrs s \<union> ivl i"
proof -
  obtain pre post where lb: "lower_bound s i = (pre, post)" by fastforce
  note S = lower_bound_split [OF ok lb]
  define joined where "joined \<longleftrightarrow> pre \<noteq> [] \<and> upper (last pre) \<ge> lower i"
  define pre' where "pre' = (if joined then butlast pre else pre)"
  define i' where "i' = (if joined then Interval (min (lower i) (lower (last pre)))
                            (max (upper i) (upper (last pre))) else i)"
  obtain post' m where ab: "absorb post i' = (post', m)" by fastforce
  have "lower i' < upper i' \<and> lower i' \<le> lower i \<and> (\<forall>x \<in> set pre'. upper x \<le> lower i') \<and>
      addrs pre' \<union> ivl i' = addrs pre \<union> ivl i"
  proof (cases joined)
    case True
    then have "addrs pre = addrs (butlast pre) \<union> ivl (last pre)"
      using append_butlast_last_id [of pre] addrs_simps(3) [of "butlast pre" "[last pre]"]
      by (simp add: joined_def)
    then show ?thesis
      using join_before [OF S(2,6) i] True by (auto simp: joined_def pre'_def i'_def)
  next
    case False
    then have "upper x \<le> lower i" if "x \<in> set pre" for x
      using ivs_ok_upper_last [OF S(2) that] that by (cases pre) (auto simp: joined_def)
    then show ?thesis
      using i False by (auto simp: pre'_def i'_def)
  qed
  note i' = this [THEN conjunct1] this [THEN conjunct2, THEN conjunct1]
    this [THEN conjunct2, THEN conjunct2, THEN conjunct1]
    this [THEN conjunct2, THEN conjunct2, THEN conjunct2]
  have "\<forall>x \<in> set post. lower i' \<le> lower x" using S(7) i'(2) order_trans by blast
  note A = absorb_spec [OF S(3) this i'(1) ab]
  have "set pre' \<subseteq> set pre" by (auto simp: pre'_def dest: in_set_butlastD)
  moreover have "ivs_ok pre'"
    using S(2) append_butlast_last_id [of pre] ivs_ok_append [of "butlast pre" "[last pre]"]
    by (auto simp: pre'_def joined_def)
  ultimately have all: "ivs_ok (pre' @ m # post')"
    using A S(4) i'(1,3) by (auto simp: ivs_ok_append less_imp_le subset_iff)
  have "InsertMerge s i = pre' @ m # post'"
    using ab lb insort_insert_middle [OF all]
    by (auto simp: InsertMerge_def Let_def pre'_def i'_def joined_def split: prod.splits)
  moreover have "addrs (pre' @ m # post') = addrs s \<union> ivl i"
    using A i'(4) S(1) by auto
  ultimately show ?thesis using all by simp
qed

subsection \<open>Queries\<close>

lemma Intersects_ivl:
  "lower a < upper a \<Longrightarrow> lower b < upper b \<Longrightarrow> Intersects a b \<longleftrightarrow> ivl a \<inter> ivl b \<noteq> {}"
  unfolding Intersects_def ivl_def
  by (auto simp: Int_atLeastLessThan max_def min_def not_le not_less split: if_splits)

lemma IntersectsAny_spec:
  assumes ok: "ivs_ok s" and n: "lower n < upper n"
  shows "IntersectsAny s n \<longleftrightarrow> addrs s \<inter> ivl n \<noteq> {}"
proof -
  obtain pre post where lb: "lower_bound s n = (pre, post)" by fastforce
  note S = lower_bound_split [OF ok lb]
  have pre: "(\<exists>x \<in> set pre. Intersects x n) \<longleftrightarrow> pre \<noteq> [] \<and> Intersects (last pre) n"
    using ivs_ok_upper_last [OF S(2)] S(6) last_in_set [of pre] n
    by (fastforce simp: Intersects_def)
  have post: "(\<exists>x \<in> set post. Intersects x n) \<longleftrightarrow> post \<noteq> [] \<and> Intersects (hd post) n"
    using S(3,7) by (cases post) (auto simp: Intersects_def)
  have "addrs s \<inter> ivl n \<noteq> {} \<longleftrightarrow> (\<exists>x \<in> set s. Intersects x n)"
    using Intersects_ivl [OF ivs_ok_proper [OF ok] n] by (auto simp: addrs_def)
  then show ?thesis
    unfolding IntersectsAny_def lb using pre post by (auto simp: S(1))
qed


lemma Contains_spec:
  assumes ok: "ivs_ok s" and n: "lower n < upper n"
  shows "Contains s n \<longleftrightarrow>
     (\<exists>x \<in> set s. (lower x < lower n \<and> upper n \<le> upper x) \<or> x = n)"
proof -
  define pre where "pre = takeWhile (\<lambda>i. \<not> n < i) s"
  have s: "s = pre @ dropWhile (\<lambda>i. \<not> n < i) s" by (simp add: pre_def)
  have le: "x \<le> n" if "x \<in> set pre" for x
    using that by (auto simp: pre_def not_less dest: set_takeWhileD)
  have mem: "x \<in> set pre" if "x \<in> set s" "x \<le> n" for x
    using that sorted_dropWhile_greater [of s x n] ivs_ok_strict_sorted [OF ok] s
    by (metis Un_iff leD set_append)
  have "ivs_ok pre" using ok s by (metis ivs_ok_append)
  note last = ivs_ok_upper_last [OF this]
  have low: "x \<le> n \<longleftrightarrow> lower x < lower n \<or> (lower x = lower n \<and> upper x \<le> upper n)" for x
    by (auto simp: less_eq_Interval_def IntervalLess_def)
  have C: "Contains s n \<longleftrightarrow> pre \<noteq> [] \<and> lower (last pre) \<le> lower n \<and> upper n \<le> upper (last pre)"
    by (simp add: Contains_def upper_bound_def pre_def Let_def)
  show ?thesis
  proof
    assume "Contains s n"
    with C have c: "pre \<noteq> []" "lower (last pre) \<le> lower n" "upper n \<le> upper (last pre)" by auto
    with le [of "last pre"] low have "last pre = n \<or> lower (last pre) < lower n"
      by (auto intro: Interval.expand)
    with c s show "\<exists>x \<in> set s. (lower x < lower n \<and> upper n \<le> upper x) \<or> x = n"
      by (metis UnCI last_in_set set_append)
  next
    assume "\<exists>x \<in> set s. (lower x < lower n \<and> upper n \<le> upper x) \<or> x = n"
    then obtain x where x: "x \<in> set s" "x \<le> n" "upper n \<le> upper x" by (auto simp: low)
    then have "x \<in> set pre" using mem by blast
    with last [of x] x(3) le [of "last pre"] low show "Contains s n"
      unfolding C by (cases "pre = []") (auto intro: order_trans less_imp_le)
  qed
qed

subsection \<open>Counting addresses\<close>

lemma card_ivl: "lower i \<le> upper i \<Longrightarrow> card (ivl i) = unat (IntervalSize i)"
proof -
  assume le: "lower i \<le> upper i"
  have "unat ` ivl i = {unat (lower i) ..< unat (upper i)}"
  proof
    show "{unat (lower i) ..< unat (upper i)} \<subseteq> unat ` ivl i"
    proof
      fix k assume "k \<in> {unat (lower i) ..< unat (upper i)}"
      then have "unat (of_nat k :: u32) = k"
        using unat_u32_bound [of "upper i"] by (simp add: unat_of_nat)
      with \<open>k \<in> _\<close> show "k \<in> unat ` ivl i"
        by (intro image_eqI [of _ _ "of_nat k"]) (auto simp: ivl_def word_le_nat_alt word_less_nat_alt)
    qed
  qed (auto simp: ivl_def word_le_nat_alt word_less_nat_alt)
  then have "card (unat ` ivl i) = unat (upper i) - unat (lower i)" by simp
  moreover have "card (unat ` ivl i) = card (ivl i)" by (rule card_image) (auto intro: inj_onI)
  ultimately show ?thesis using le by (simp add: IntervalSize_def unat_sub)
qed

lemma finite_addrs [simp]: "finite (addrs s)" "finite (ivl i)"
  by simp_all

lemma card_addrs_Cons:
  "ivs_ok (x # xs) \<Longrightarrow> card (addrs (x # xs)) = unat (IntervalSize x) + card (addrs xs)"
proof -
  assume ok: "ivs_ok (x # xs)"
  have "ivl x \<inter> addrs xs = {}"
    using ok by (fastforce simp: addrs_def ivl_def)
  then show ?thesis using ok by (simp add: card_Un_disjoint card_ivl less_imp_le)
qed

lemma card_addrs_snoc:
  "ivs_ok (xs @ [x]) \<Longrightarrow> card (addrs (xs @ [x])) = card (addrs xs) + unat (IntervalSize x)"
  by (induction xs) (auto simp: card_addrs_Cons ivs_ok_append simp del: addrs_simps(2,3))

subsection \<open>HeapAllocate's block selection\<close>

lemma unat_IntervalSize: "lower i \<le> upper i \<Longrightarrow> unat (IntervalSize i) = unat (upper i) - unat (lower i)"
  by (simp add: IntervalSize_def unat_sub)

lemma tail_block:
  assumes "lower b < upper b" "k \<le> IntervalSize b"
  shows "lower b \<le> upper b - k" "upper b - k \<le> upper b" "0 < k \<Longrightarrow> upper b - k < upper b"
    "lower b \<le> lower b + k" "lower b + k \<le> upper b" "0 < k \<Longrightarrow> lower b < lower b + k"
proof -
  have k: "unat k \<le> unat (upper b) - unat (lower b)" "unat (lower b) < unat (upper b)"
    using assms unat_IntervalSize [of b] by (simp_all add: word_le_nat_alt word_less_nat_alt)
  then have "k \<le> upper b" by (simp add: word_le_nat_alt)
  then have u: "unat (upper b - k) = unat (upper b) - unat k" by (rule unat_sub)
  have l: "unat (lower b + k) = unat (lower b) + unat k"
    using k unat_u32_bound [of "upper b"] by (intro unat_add_nowrap) simp
  show "lower b \<le> upper b - k" "upper b - k \<le> upper b" "0 < k \<Longrightarrow> upper b - k < upper b"
    "lower b \<le> lower b + k" "lower b + k \<le> upper b" "0 < k \<Longrightarrow> lower b < lower b + k"
    using k u l by (auto simp: word_le_nat_alt word_less_nat_alt)
qed

lemma heap_loop_spec:
  assumes "ivs_ok (s @ acc)" "0 < rest"
  shows "(card (addrs s) < unat rest \<and> (\<exists>res r. heap_loop (rev s) rest acc = (res, r) \<and> r \<noteq> 0)) \<or>
    (unat rest \<le> card (addrs s) \<and>
     (\<exists>pre b post k. s = pre @ b # post \<and> k \<le> IntervalSize b \<and> 0 < k \<and>
        card (addrs post) + unat k = unat rest \<and>
        heap_loop (rev s) rest acc = (Interval (upper b - k) (upper b) # post @ acc, 0)))"
  using assms
proof (induction s arbitrary: rest acc rule: rev_induct)
  case (snoc b s)
  have ok: "ivs_ok (s @ b # acc)" "ivs_ok (s @ [b])" "lower b < upper b" "ivs_ok (b # acc)"
    using snoc.prems(1) by (auto simp: ivs_ok_append)
  note cb = card_addrs_snoc [OF ok(2)]
  show ?case
  proof (cases "IntervalSize b \<ge> rest")
    case True
    let ?i = "Interval (upper b - rest) (upper b)"
    have "ivs_ok ([] @ ?i # acc)" using ok tail_block [OF ok(3) True] snoc.prems(2) by auto
    from insort_insert_middle [OF this] have "heap_loop (rev (s @ [b])) rest acc = (?i # acc, 0)"
      using True by simp
    moreover have "unat rest \<le> card (addrs (s @ [b]))"
      using True unfolding cb by (simp add: word_le_nat_alt)
    ultimately show ?thesis using True snoc.prems(2)
      by (intro disjI2 conjI exI [of _ s] exI [of _ b] exI [of _ "[]"] exI [of _ rest]) auto
  next
    case False
    then have lt: "unat (IntervalSize b) < unat rest" by (simp add: word_less_nat_alt not_le)
    have "insort_insert b acc = b # acc" using insort_insert_middle [of "[]" b acc] ok(4) by simp
    then have step: "heap_loop (rev (s @ [b])) rest acc = heap_loop (rev s) (rest - IntervalSize b) (b # acc)"
      using False by simp
    have rest': "unat (rest - IntervalSize b) = unat rest - unat (IntervalSize b)" "0 < rest - IntervalSize b"
      using False lt by (auto simp: unat_sub word_less_nat_alt)
    show ?thesis
      using snoc.IH [OF ok(1) rest'(2)]
    proof (elim disjE conjE exE, goal_cases)
      case 1
      then show ?case using cb rest'(1) step lt by (intro disjI1) auto
    next
      case (2 pre c post k)
      then have "card (addrs (post @ [b])) = card (addrs post) + unat (IntervalSize b)"
        using ok(2) by (intro card_addrs_snoc) (auto simp: ivs_ok_append)
      then show ?case using 2 cb rest'(1) step lt
        by (intro disjI2 conjI exI [of _ pre] exI [of _ c] exI [of _ "post @ [b]"] exI [of _ k]) auto
    qed
  qed
qed (auto simp: word_less_nat_alt)

subsection \<open>Conservation of addresses\<close>

definition region_range :: "MemoryRegionInfo \<Rightarrow> u32 set" where
  "region_range r = ivl (Interval (region_base r) (region_base r + region_size r))"

definition region_inv :: "MemoryRegionInfo \<Rightarrow> bool" where
  "region_inv r \<longleftrightarrow> ivs_ok (free_blocks r) \<and> addrs (free_blocks r) \<subseteq> region_range r \<and>
     unat (region_base r) + unat (region_size r) < 2 ^ 32 \<and>
     unat (used r) + card (addrs (free_blocks r)) = unat (region_size r)"

lemma region_invD:
  assumes "region_inv r"
  shows "ivs_ok (free_blocks r)" "addrs (free_blocks r) \<subseteq> region_range r"
    "unat (region_base r) + unat (region_size r) < 2 ^ 32"
    "unat (used r) + card (addrs (free_blocks r)) = unat (region_size r)"
  using assms by (simp_all add: region_inv_def)

lemma card_region_range: "region_inv r \<Longrightarrow> card (region_range r) = unat (region_size r)"
  using card_ivl [of "Interval (region_base r) (region_base r + region_size r)"]
  by (simp add: region_range_def region_inv_def word_le_add_nowrap IntervalSize_def)

lemma region_take:
  assumes inv: "region_inv r" and ok: "ivs_ok s'"
    and a: "addrs s' = addrs (free_blocks r) - A" "A \<subseteq> addrs (free_blocks r)" "card A = unat k"
  shows "region_inv (r\<lparr>free_blocks := s', used := used r + k\<rparr>)"
proof -
  note I = region_invD [OF inv]
  have c: "card (addrs s') = card (addrs (free_blocks r)) - unat k"
    "unat k \<le> card (addrs (free_blocks r))"
    unfolding a(1) using a(2,3) card_mono [OF _ a(2)] by (simp_all add: card_Diff_subset)
  then have "unat (used r + k) = unat (used r) + unat k"
    using I(4) unat_u32_bound [of "region_size r"] by (intro unat_add_nowrap) simp
  then show ?thesis
    using I c ok a(1) by (auto simp: region_inv_def region_range_def)
qed

lemma region_give:
  assumes inv: "region_inv r" and ok: "ivs_ok s'"
    and a: "addrs s' = addrs (free_blocks r) \<union> A" "A \<inter> addrs (free_blocks r) = {}"
      "A \<subseteq> region_range r" "card A = unat k"
  shows "region_inv (r\<lparr>free_blocks := s', used := used r - k\<rparr>)"
proof -
  note I = region_invD [OF inv]
  have c: "card (addrs s') = card (addrs (free_blocks r)) + unat k"
    unfolding a(1) using a(2,4) card_Un_disjoint [of "addrs (free_blocks r)" A] by (auto simp: Int_commute)
  have "card (addrs s') \<le> card (region_range r)"
    using a(1,3) I(2) by (intro card_mono) (auto simp: region_range_def)
  then have "k \<le> used r" using c I(4) card_region_range [OF inv] by (simp add: word_le_nat_alt)
  then have "unat (used r - k) = unat (used r) - unat k" "unat k \<le> unat (used r)"
    by (simp_all add: unat_sub word_le_nat_alt)
  then show ?thesis
    using I c ok a(1,3) by (auto simp: region_inv_def region_range_def)
qed

lemma Reset_inv [inv_intros]:
  assumes "Reset r b s = Some r'" "unat b + unat s < 2 ^ 32" "0 < s"
  shows "region_inv r'" "addrs (free_blocks r') = region_range r'"
    "region_base r' = b" "region_size r' = s" "used r' = 0" "\<not> is_locked r'"
proof -
  have r': "r' = r\<lparr>region_base := b, region_size := s, used := 0, free_blocks := [Interval b (b + s)]\<rparr>"
    "\<not> is_locked r" using assms(1) by (auto simp: Reset_def split: if_splits)
  then show "addrs (free_blocks r') = region_range r'" "region_base r' = b" "region_size r' = s"
    "used r' = 0" "\<not> is_locked r'" by (simp_all add: region_range_def)
  then show "region_inv r'"
    using assms(2,3) r' card_region_range [of r'] card_ivl [of "Interval b (b + s)"]
      word_less_add_nowrap [of b s]
    by (auto simp: region_inv_def region_range_def IntervalSize_def)
qed

lemma heap_blocks:
  assumes "ivs_ok (pre @ b # post)" "k \<le> IntervalSize b" "0 < k"
  defines "res \<equiv> Interval (upper b - k) (upper b) # post"
  shows "ivs_ok res" "addrs res \<subseteq> addrs (pre @ b # post)"
    "card (addrs res) = card (addrs post) + unat k"
    "\<And>x y. x \<in> addrs res \<Longrightarrow> y \<in> addrs (pre @ b # post) - addrs res \<Longrightarrow> y < x"
proof -
  have ok: "lower b < upper b" "ivs_ok post" "\<forall>y \<in> set post. upper b \<le> lower y"
     "\<forall>y \<in> set pre. upper y \<le> lower b"
    using assms(1) by (auto simp: ivs_ok_append)
  note t = tail_block [OF ok(1) assms(2)]
  show okr: "ivs_ok res" using ok t(3) assms(3) by (simp add: res_def)
  have "ivl (Interval (upper b - k) (upper b)) \<subseteq> ivl b" using t(1) by (auto simp: ivl_def)
  then show "addrs res \<subseteq> addrs (pre @ b # post)" by (auto simp: res_def)
  show "card (addrs res) = card (addrs post) + unat k"
    using card_addrs_Cons [OF okr [unfolded res_def]] by (simp add: res_def IntervalSize_def)
  have low: "upper b - k \<le> x" if "x \<in> addrs res" for x
  proof (cases "x \<in> addrs post")
    case True
    then obtain i where "i \<in> set post" "lower i \<le> x" by (auto simp: addrs_def ivl_def)
    with ok(3) have "upper b \<le> x" by (meson order_trans)
    with t(2) show ?thesis by (rule order_trans)
  next
    case False with that show ?thesis by (auto simp: res_def ivl_def)
  qed
  have high: "y < upper b - k" if "y \<in> addrs (pre @ b # post) - addrs res" for y
  proof (cases "y \<in> addrs pre")
    case True
    then obtain i where "i \<in> set pre" "y < upper i" by (auto simp: addrs_def ivl_def)
    with ok(4) have "y < lower b" by (meson less_le_trans)
    with t(1) show ?thesis by (meson less_le_trans)
  next
    case False with that show ?thesis by (auto simp: res_def ivl_def)
  qed
  show "\<And>x y. x \<in> addrs res \<Longrightarrow> y \<in> addrs (pre @ b # post) - addrs res \<Longrightarrow> y < x"
    using low high by (meson less_le_trans)
qed

lemma HeapAllocate_cases:
  assumes inv: "region_inv r" and lk: "\<not> is_locked r" and s: "0 < sz"
  obtains
    (fail) "card (addrs (free_blocks r)) < unat sz" "HeapAllocate r sz = Some ([], r)"
  | (ok) res r' where "unat sz \<le> card (addrs (free_blocks r))" "HeapAllocate r sz = Some (res, r')"
      "ivs_ok res" "addrs res \<subseteq> addrs (free_blocks r)" "card (addrs res) = unat sz"
      "addrs (free_blocks r') = addrs (free_blocks r) - addrs res" "region_inv r'"
      "\<And>x y. x \<in> addrs res \<Longrightarrow> y \<in> addrs (free_blocks r') \<Longrightarrow> y < x"
      "region_range r' = region_range r" "\<not> is_locked r'"
proof -
  note I = region_invD [OF inv]
  from I(1) have "ivs_ok (free_blocks r @ [])" by simp
  from heap_loop_spec [OF this s] show thesis
  proof (elim disjE conjE exE)
    fix res k assume "card (addrs (free_blocks r)) < unat sz" "heap_loop (rev (free_blocks r)) sz [] = (res, k)" "k \<noteq> 0"
    then show thesis using lk by (intro fail) (simp_all add: HeapAllocate_def)
  next
    fix pre b post k
    assume f: "unat sz \<le> card (addrs (free_blocks r))" "free_blocks r = pre @ b # post"
      "k \<le> IntervalSize b" "0 < k" "card (addrs post) + unat k = unat sz"
      and h: "heap_loop (rev (free_blocks r)) sz [] = (Interval (upper b - k) (upper b) # post @ [], 0)"
    let ?res = "Interval (upper b - k) (upper b) # post"
    let ?r = "r\<lparr>free_blocks := SubtractIntervals (free_blocks r) ?res, used := used r + sz\<rparr>"
    note B = heap_blocks [OF I(1) [unfolded f(2)] f(3,4), folded f(2)]
    have S: "ivs_ok (SubtractIntervals (free_blocks r) ?res)"
      "addrs (SubtractIntervals (free_blocks r) ?res) = addrs (free_blocks r) - addrs ?res"
      using SubtractIntervals_spec [OF I(1), of ?res] ivs_ok_proper [OF B(1)] by (auto simp: less_imp_le)
    have c: "card (addrs ?res) = unat sz" using B(3) f(5) by simp
    show thesis
    proof (rule ok [OF f(1), of ?res ?r])
      show "HeapAllocate r sz = Some (?res, ?r)" using h lk by (simp add: HeapAllocate_def)
      show "region_inv ?r" by (rule region_take [OF inv S B(2) c])
    qed (use B S c lk in \<open>simp_all add: region_range_def\<close>)
  qed
qed
subsection \<open>Contiguous allocation\<close>

lemma region_take_block:
  assumes inv: "region_inv r" and b: "b \<in> set (free_blocks r)"
    and n: "lower b \<le> lower n" "lower n < upper n" "upper n \<le> upper b" "IntervalSize n = sz"
  defines "r' \<equiv> r\<lparr>free_blocks := SubtractInterval (free_blocks r) n, used := used r + sz\<rparr>"
  shows "ivl n \<subseteq> addrs (free_blocks r)" "card (ivl n) = unat sz" "region_inv r'"
    "addrs (free_blocks r') = addrs (free_blocks r) - ivl n"
proof -
  note I = region_invD [OF inv]
  show sub: "ivl n \<subseteq> addrs (free_blocks r)" using b n(1,3) unfolding addrs_def ivl_def by (auto intro!: bexI [of _ b])
  show c: "card (ivl n) = unat sz" using n(2,4) card_ivl [of n] by (simp add: less_imp_le)
  have S: "ivs_ok (SubtractInterval (free_blocks r) n)"
    "addrs (SubtractInterval (free_blocks r) n) = addrs (free_blocks r) - ivl n"
    using I(1) n(2) by (simp_all add: ivs_ok_SubtractInterval addrs_SubtractInterval less_imp_le)
  then show "addrs (free_blocks r') = addrs (free_blocks r) - ivl n" by (simp add: r'_def)
  show "region_inv r'" unfolding r'_def by (rule region_take [OF inv S sub c])
qed

lemma find_first_block:
  assumes "ivs_ok s" "List.find P s = Some b"
  shows "b \<in> set s" "P b" "\<And>x. x \<in> set s \<Longrightarrow> P x \<Longrightarrow> lower b \<le> lower x"
proof -
  obtain i where i: "i < length s" "P (s ! i)" "b = s ! i" "\<forall>j<i. \<not> P (s ! j)"
    using assms(2) by (auto simp: find_Some_iff)
  then show "b \<in> set s" "P b" by simp_all
  fix x assume "x \<in> set s" "P x"
  then obtain j where j: "j < length s" "x = s ! j" "i \<le> j"
    using i(4) by (metis in_set_conv_nth not_le)
  have "s ! i \<le> s ! j" using ivs_ok_strict_sorted [OF assms(1)] j i(1) by (simp add: sorted_nth_mono)
  then show "lower b \<le> lower x"
    using i(3) j(2) less_Interval_lowerD by (metis order.order_iff_strict)
qed

lemma find_last_block:
  assumes "ivs_ok s" "List.find P (rev s) = Some b"
  shows "b \<in> set s" "P b" "\<And>x. x \<in> set s \<Longrightarrow> P x \<Longrightarrow> upper x \<le> upper b"
proof -
  obtain i where i: "i < length s" "P (rev s ! i)" "b = rev s ! i" "\<forall>j<i. \<not> P (rev s ! j)"
    using assms(2) by (auto simp: find_Some_iff)
  then show "b \<in> set s" "P b" by (metis length_rev nth_mem set_rev, simp)
  fix x assume x: "x \<in> set s" "P x"
  then obtain j where j: "j < length s" "x = rev s ! j" "i \<le> j"
    using i(4) by (metis in_set_conv_nth length_rev not_le set_rev)
  have "ivs_ok (take (length s - i) s)"
    using assms(1) ivs_ok_append [of "take (length s - i) s" "drop (length s - i) s"] by simp
  moreover have "last (take (length s - i) s) = b"
    using i(1,3) last_conv_nth [of "take (length s - i) s"] rev_nth [OF i(1)] by (cases "s = []") auto
  moreover have "x \<in> set (take (length s - i) s)"
    using j i(1) by (auto simp: in_set_conv_nth rev_nth intro!: exI [of _ "length s - Suc j"])
  ultimately show "upper x \<le> upper b" using ivs_ok_upper_last by blast
qed

lemma LinearAllocate_cases:
  assumes inv: "region_inv r" and lk: "\<not> is_locked r" and s: "0 < sz"
  obtains
    (fail) "\<forall>b \<in> set (free_blocks r). IntervalSize b < sz" "LinearAllocate r sz = Some (None, r)"
  | (ok) a r' where "LinearAllocate r sz = Some (Some a, r')"
      "\<not> (\<forall>b \<in> set (free_blocks r). IntervalSize b < sz)"
      "a \<le> a + sz" "{a ..< a + sz} \<subseteq> addrs (free_blocks r)" "card {a ..< a + sz} = unat sz"
      "addrs (free_blocks r') = addrs (free_blocks r) - {a ..< a + sz}" "region_inv r'"
      "\<And>b. b \<in> set (free_blocks r) \<Longrightarrow> sz \<le> IntervalSize b \<Longrightarrow> a \<le> lower b"
      "region_range r' = region_range r" "\<not> is_locked r'"
proof (cases "List.find (\<lambda>b. IntervalSize b \<ge> sz) (free_blocks r)")
  case None
  then have "\<forall>b \<in> set (free_blocks r). IntervalSize b < sz" by (auto simp: find_None_iff not_le)
  with None show thesis using lk by (intro fail) (simp_all add: LinearAllocate_def)
next
  case (Some b)
  note F = find_first_block [OF region_invD(1) [OF inv] Some]
  let ?n = "Interval (lower b) (lower b + sz)"
  have p: "lower b < upper b" using F(1) inv ivs_ok_proper region_invD(1) by blast
  note t = tail_block [OF p F(2)]
  have T: "lower b \<le> lower ?n" "lower ?n < upper ?n" "upper ?n \<le> upper b" "IntervalSize ?n = sz"
    using t s by (simp_all add: IntervalSize_def)
  note R = region_take_block [OF inv F(1) T]
  show thesis
    by (rule ok [of "lower b" "r\<lparr>free_blocks := SubtractInterval (free_blocks r) ?n, used := used r + sz\<rparr>"])
      (use R t F Some lk in \<open>auto simp: LinearAllocate_def ivl_def region_range_def not_less\<close>)
qed

lemma RLinearAllocate_cases:
  assumes inv: "region_inv r" and lk: "\<not> is_locked r" and s: "0 < sz"
  obtains
    (fail) "\<forall>b \<in> set (free_blocks r). IntervalSize b < sz" "RLinearAllocate r sz = Some (None, r)"
  | (ok) a r' where "RLinearAllocate r sz = Some (Some a, r')"
      "\<not> (\<forall>b \<in> set (free_blocks r). IntervalSize b < sz)"
      "a \<le> a + sz" "{a ..< a + sz} \<subseteq> addrs (free_blocks r)" "card {a ..< a + sz} = unat sz"
      "addrs (free_blocks r') = addrs (free_blocks r) - {a ..< a + sz}" "region_inv r'"
      "\<And>b. b \<in> set (free_blocks r) \<Longrightarrow> sz \<le> IntervalSize b \<Longrightarrow> upper b \<le> a + sz"
      "region_range r' = region_range r" "\<not> is_locked r'"
proof (cases "List.find (\<lambda>b. IntervalSize b \<ge> sz) (rev (free_blocks r))")
  case None
  then have "\<forall>b \<in> set (free_blocks r). IntervalSize b < sz" by (auto simp: find_None_iff not_le)
  with None show thesis using lk by (intro fail) (simp_all add: RLinearAllocate_def)
next
  case (Some b)
  note F = find_last_block [OF region_invD(1) [OF inv] Some]
  let ?n = "Interval (upper b - sz) (upper b)"
  have p: "lower b < upper b" using F(1) inv ivs_ok_proper region_invD(1) by blast
  note t = tail_block [OF p F(2)]
  have T: "lower b \<le> lower ?n" "lower ?n < upper ?n" "upper ?n \<le> upper b" "IntervalSize ?n = sz"
    using t s by (simp_all add: IntervalSize_def)
  note R = region_take_block [OF inv F(1) T]
  show thesis
    by (rule ok [of "upper b - sz" "r\<lparr>free_blocks := SubtractInterval (free_blocks r) ?n, used := used r + sz\<rparr>"])
      (use R t F Some lk in \<open>auto simp: RLinearAllocate_def ivl_def region_range_def not_less\<close>)
qed

lemma Contains_imp_block:
  assumes "ivs_ok s" "lower n < upper n" "Contains s n"
  obtains b where "b \<in> set s" "lower b \<le> lower n" "upper n \<le> upper b"
  using assms by (auto simp: Contains_spec less_imp_le)

lemma LinearAllocateAt_cases:
  assumes inv: "region_inv r" and lk: "\<not> is_locked r"
    and s: "0 < sz" "unat offset + unat sz < 2 ^ 32"
  obtains
    (fail) "\<not> Contains (free_blocks r) (Interval offset (offset + sz))"
      "LinearAllocateAt r offset sz = Some (False, r)"
  | (ok) r' where "LinearAllocateAt r offset sz = Some (True, r')"
      "{offset ..< offset + sz} \<subseteq> addrs (free_blocks r)"
      "addrs (free_blocks r') = addrs (free_blocks r) - {offset ..< offset + sz}" "region_inv r'"
      "region_range r' = region_range r" "\<not> is_locked r'"
proof (cases "Contains (free_blocks r) (Interval offset (offset + sz))")
  case False
  then show thesis using lk by (intro fail) (simp_all add: LinearAllocateAt_def)
next
  case True
  let ?n = "Interval offset (offset + sz)"
  have lt: "lower ?n < upper ?n" "IntervalSize ?n = sz"
    using word_less_add_nowrap [of offset sz] s by (simp_all add: IntervalSize_def)
  obtain b where b: "b \<in> set (free_blocks r)" "lower b \<le> lower ?n" "upper ?n \<le> upper b"
    by (rule Contains_imp_block [OF region_invD(1) [OF inv] lt(1) True])
  note R = region_take_block [OF inv b(1,2) lt(1) b(3) lt(2)]
  show thesis
    by (rule ok [of "r\<lparr>free_blocks := SubtractInterval (free_blocks r) ?n, used := used r + sz\<rparr>"])
      (use R True lk in \<open>simp_all add: LinearAllocateAt_def ivl_def region_range_def\<close>)
qed

lemma Free_cases:
  assumes inv: "region_inv r" and lk: "\<not> is_locked r" and s: "0 < sz" "unat offset + unat sz < 2 ^ 32"
  obtains
    (abort) "{offset ..< offset + sz} \<inter> addrs (free_blocks r) \<noteq> {}" "Free r offset sz = None"
  | (ok) r' where "Free r offset sz = Some r'"
      "{offset ..< offset + sz} \<inter> addrs (free_blocks r) = {}"
      "addrs (free_blocks r') = addrs (free_blocks r) \<union> {offset ..< offset + sz}"
      "{offset ..< offset + sz} \<subseteq> region_range r \<Longrightarrow> region_inv r' \<and> used r' = used r - sz"
      "region_range r' = region_range r" "\<not> is_locked r'"
proof -
  let ?n = "Interval offset (offset + sz)"
  note I = region_invD [OF inv]
  have lt: "lower ?n < upper ?n" using word_less_add_nowrap [of offset sz] s by simp
  have i: "IntersectsAny (free_blocks r) ?n \<longleftrightarrow> {offset ..< offset + sz} \<inter> addrs (free_blocks r) \<noteq> {}"
    using IntersectsAny_spec [OF I(1) lt] by (auto simp: ivl_def)
  have c: "card {offset ..< offset + sz} = unat sz"
    using card_ivl [of ?n] lt by (simp add: ivl_def IntervalSize_def less_imp_le)
  have M: "ivs_ok (InsertMerge (free_blocks r) ?n)"
    "addrs (InsertMerge (free_blocks r) ?n) = addrs (free_blocks r) \<union> {offset ..< offset + sz}"
    using InsertMerge_spec [OF I(1) lt] by (simp_all add: ivl_def)
  show thesis
  proof (cases "{offset ..< offset + sz} \<inter> addrs (free_blocks r) = {}")
    case True
    let ?r = "r\<lparr>free_blocks := InsertMerge (free_blocks r) ?n, used := used r - sz\<rparr>"
    have "Free r offset sz = Some ?r" using True i lk by (simp add: Free_def)
    moreover have "region_inv ?r" if "{offset ..< offset + sz} \<subseteq> region_range r"
      by (rule region_give [OF inv M True that c])
    ultimately show thesis using M True lk by (intro ok [of ?r]) (simp_all add: region_range_def)
  next
    case False
    then show thesis using i lk by (intro abort) (simp_all add: Free_def)
  qed
qed
subsection \<open>Histories of a region\<close>

inductive region_reach :: "MemoryRegionInfo \<Rightarrow> bool" where
  reset: "Reset r0 b s = Some r \<Longrightarrow> unat b + unat s < 2 ^ 32 \<Longrightarrow> 0 < s \<Longrightarrow> region_reach r"
| heap: "region_reach r \<Longrightarrow> 0 < sz \<Longrightarrow> HeapAllocate r sz = Some (res, r') \<Longrightarrow> region_reach r'"
| linear_at: "region_reach r \<Longrightarrow> 0 < sz \<Longrightarrow> unat offset + unat sz < 2 ^ 32 \<Longrightarrow>
    LinearAllocateAt r offset sz = Some (b, r') \<Longrightarrow> region_reach r'"
| linear: "region_reach r \<Longrightarrow> 0 < sz \<Longrightarrow> LinearAllocate r sz = Some (a, r') \<Longrightarrow> region_reach r'"
| rlinear: "region_reach r \<Longrightarrow> 0 < sz \<Longrightarrow> RLinearAllocate r sz = Some (a, r') \<Longrightarrow> region_reach r'"
| free: "region_reach r \<Longrightarrow> 0 < sz \<Longrightarrow> unat offset + unat sz < 2 ^ 32 \<Longrightarrow>
    {offset ..< offset + sz} \<subseteq> region_range r \<Longrightarrow> Free r offset sz = Some r' \<Longrightarrow> region_reach r'"

lemma region_reach_inv: "region_reach r \<Longrightarrow> region_inv r \<and> \<not> is_locked r"
proof (induction rule: region_reach.induct)
  case (reset r0 b s r)
  then show ?case using Reset_inv(1,6) [OF reset] by simp
next
  case (heap r sz res r')
  then have inv: "region_inv r" and lk: "\<not> is_locked r" by simp_all
  show ?case by (rule HeapAllocate_cases [OF inv lk heap.hyps(2)]) (use heap in auto)
next
  case (linear_at r sz offset b r')
  then have inv: "region_inv r" and lk: "\<not> is_locked r" by simp_all
  show ?case by (rule LinearAllocateAt_cases [OF inv lk linear_at.hyps(2,3)]) (use linear_at in auto)
next
  case (linear r sz a r')
  then have inv: "region_inv r" and lk: "\<not> is_locked r" by simp_all
  show ?case by (rule LinearAllocate_cases [OF inv lk linear.hyps(2)]) (use linear in auto)
next
  case (rlinear r sz a r')
  then have inv: "region_inv r" and lk: "\<not> is_locked r" by simp_all
  show ?case by (rule RLinearAllocate_cases [OF inv lk rlinear.hyps(2)]) (use rlinear in auto)
next
  case (free r sz offset r')
  then have inv: "region_inv r" and lk: "\<not> is_locked r" by simp_all
  show ?case by (rule Free_cases [OF inv lk free.hyps(2,3)]) (use free in auto)
qed

text \<open>Freeing the blocks of an allocation one by one, as \<^verbatim>\<open>Process::HeapFree\<close> and the
  process destructor do.\<close>

primrec free_all :: "MemoryRegionInfo \<Rightarrow> Interval list \<Rightarrow> MemoryRegionInfo option" where
  "free_all r [] = Some r"
| "free_all r (i # is) = do { r' \<leftarrow> Free r (lower i) (IntervalSize i); free_all r' is }"

lemma free_all_spec:
  assumes "region_inv r" "\<not> is_locked r" "ivs_ok res" "addrs res \<subseteq> region_range r"
    "addrs res \<inter> addrs (free_blocks r) = {}"
  shows "\<exists>r'. free_all r res = Some r' \<and> region_inv r' \<and>
     addrs (free_blocks r') = addrs (free_blocks r) \<union> addrs res \<and> region_size r' = region_size r"
  using assms
proof (induction res arbitrary: r)
  case (Cons i res)
  have lt: "lower i < upper i" "lower i \<le> upper i" using Cons.prems(3) by (auto intro: less_imp_le)
  have i: "unat (lower i) + unat (IntervalSize i) < 2 ^ 32" "0 < IntervalSize i"
    "lower i + IntervalSize i = upper i"
    using lt unat_u32_bound [of "upper i"] unat_IntervalSize [OF lt(2)]
    by (simp_all add: word_less_nat_alt) (simp add: IntervalSize_def)
  have iv: "{lower i ..< lower i + IntervalSize i} = ivl i" using i(3) by (simp add: ivl_def)
  have dj: "ivl i \<inter> addrs res = {}" using Cons.prems(3) by (fastforce simp: addrs_def ivl_def)
  show ?case
  proof (rule Free_cases [OF Cons.prems(1,2) i(2,1)], goal_cases)
    case abort: 1
    then show ?thesis using Cons.prems(5) unfolding iv by auto
  next
    case ok: (2 r1)
    have "\<exists>r'. free_all r1 res = Some r' \<and> region_inv r' \<and>
       addrs (free_blocks r') = addrs (free_blocks r1) \<union> addrs res \<and> region_size r' = region_size r1"
      using ok Cons.prems dj unfolding iv by (intro Cons.IH) auto
    moreover have "region_size r1 = region_size r"
      using ok(1) Cons.prems(2) by (auto simp: Free_def Let_def split: if_splits)
    ultimately show ?thesis using ok(1,3) unfolding iv by (auto simp: Un_assoc)
  qed
qed simp

subsection \<open>Properties\<close>

definition app_region :: MemoryRegionInfo where
  "app_region = \<lparr>region_base = 0, region_size = 0x04000000, used = 0,
     free_blocks = [Interval 0 0x04000000], is_locked = False\<rparr>"

lemma app_region_reach: "region_reach app_region"
  by (rule region_reach.reset [of app_region 0 "0x04000000"])
    (simp_all add: Reset_def app_region_def)

lemma app_region_unlocked: "\<not> is_locked app_region"
  by (simp add: app_region_def)

lemma app_region_card: "card (addrs (free_blocks app_region)) = 0x04000000"
  using region_reach_inv [OF app_region_reach] by (simp add: region_inv_def app_region_def)

text \<open>C3: in every state a memory region reaches from a reset through allocations and frees of
  nonempty ranges, the free blocks are ordered and disjoint, lie inside the region, and
  \<open>used\<close> plus the number of free addresses is exactly the size of the region.\<close>
theorem region_conservation:
  assumes "region_reach r"
  shows "sorted_wrt (\<lambda>a b. upper a \<le> lower b) (free_blocks r) \<and>
    addrs (free_blocks r) \<subseteq> region_range r \<and>
    unat (used r) + card (addrs (free_blocks r)) = unat (region_size r)"
  using region_reach_inv [OF assms] by (simp add: region_inv_def ivs_ok_def)

theorem region_conservation_witness:
  "unat (used app_region) + card (addrs (free_blocks app_region)) = unat (region_size app_region)"
  using region_conservation [OF app_region_reach] by simp

text \<open>\<open>HeapAllocate\<close> of a nonzero size in a reachable region fails, leaving the region as it
  was, exactly when fewer than that many addresses are free; otherwise it takes exactly
  that many free addresses out of the free set, and they are the highest free ones.\<close>
theorem heap_allocate_takes_highest:
  assumes "region_reach r" "0 < sz"
  shows "if card (addrs (free_blocks r)) < unat sz then HeapAllocate r sz = Some ([], r)
    else \<exists>res r'. HeapAllocate r sz = Some (res, r') \<and>
      addrs res \<subseteq> addrs (free_blocks r) \<and> card (addrs res) = unat sz \<and>
      addrs (free_blocks r') = addrs (free_blocks r) - addrs res \<and>
      (\<forall>x \<in> addrs res. \<forall>y \<in> addrs (free_blocks r'). y < x)"
proof -
  have inv: "region_inv r" and lk: "\<not> is_locked r" using region_reach_inv [OF assms(1)] by simp_all
  show ?thesis by (cases rule: HeapAllocate_cases [OF inv lk assms(2)]) auto
qed

theorem heap_allocate_takes_highest_witness:
  "\<exists>res r'. HeapAllocate app_region 0x1000 = Some (res, r') \<and> card (addrs res) = 0x1000"
  using heap_allocate_takes_highest [OF app_region_reach, of "0x1000"] app_region_card by auto

text \<open>the contiguous allocators of a reachable region hand out a free, non-wrapping range of
  the requested nonzero size and remove exactly it from the free set: \<open>LinearAllocate\<close> the
  one that starts lowest among the blocks that are large enough, \<open>RLinearAllocate\<close> the one
  that ends highest; both fail without changing the region exactly when no free block is
  large enough.\<close>
theorem linear_allocate_fit:
  assumes "region_reach r" "0 < sz"
  shows "if \<forall>b \<in> set (free_blocks r). IntervalSize b < sz
    then LinearAllocate r sz = Some (None, r) \<and> RLinearAllocate r sz = Some (None, r)
    else (\<exists>a r'. LinearAllocate r sz = Some (Some a, r') \<and> a \<le> a + sz \<and>
            {a ..< a + sz} \<subseteq> addrs (free_blocks r) \<and>
            addrs (free_blocks r') = addrs (free_blocks r) - {a ..< a + sz} \<and>
            (\<forall>b \<in> set (free_blocks r). sz \<le> IntervalSize b \<longrightarrow> a \<le> lower b)) \<and>
         (\<exists>a r'. RLinearAllocate r sz = Some (Some a, r') \<and> a \<le> a + sz \<and>
            {a ..< a + sz} \<subseteq> addrs (free_blocks r) \<and>
            addrs (free_blocks r') = addrs (free_blocks r) - {a ..< a + sz} \<and>
            (\<forall>b \<in> set (free_blocks r). sz \<le> IntervalSize b \<longrightarrow> upper b \<le> a + sz))"
    (is "if ?none then ?F1 \<and> ?F2 else ?S1 \<and> ?S2")
proof -
  have inv: "region_inv r" and lk: "\<not> is_locked r" using region_reach_inv [OF assms(1)] by simp_all
  have "if ?none then ?F1 else ?S1"
    by (cases rule: LinearAllocate_cases [OF inv lk assms(2)]) auto
  moreover have "if ?none then ?F2 else ?S2"
    by (cases rule: RLinearAllocate_cases [OF inv lk assms(2)]) auto
  ultimately show ?thesis by presburger
qed

theorem linear_allocate_fit_witness:
  "\<exists>a r'. LinearAllocate app_region 0x1000 = Some (Some a, r') \<and>
     {a ..< a + 0x1000} \<subseteq> addrs (free_blocks app_region)"
proof -
  have "\<not> (\<forall>b \<in> set (free_blocks app_region). IntervalSize b < 0x1000)"
    by (simp add: app_region_def IntervalSize_def)
  then show ?thesis using linear_allocate_fit [OF app_region_reach, of "0x1000"] by simp metis
qed

text \<open>what \<open>HeapAllocate\<close> returned can be given back block by block: no \<open>Free\<close> on the way
  aborts, and afterwards the free addresses and the \<open>used\<close> counter are those of before the
  allocation.\<close>
theorem heap_allocate_free_roundtrip:
  assumes "region_reach r" "0 < sz" "unat sz \<le> card (addrs (free_blocks r))"
  shows "\<exists>res r' r''. HeapAllocate r sz = Some (res, r') \<and> free_all r' res = Some r'' \<and>
    addrs (free_blocks r'') = addrs (free_blocks r) \<and> used r'' = used r"
proof -
  have inv: "region_inv r" and lk: "\<not> is_locked r" using region_reach_inv [OF assms(1)] by simp_all
  show ?thesis
  proof (rule HeapAllocate_cases [OF inv lk assms(2)], goal_cases)
    case ok: (2 res r')
    have "addrs res \<subseteq> region_range r'" using ok region_invD(2) [OF inv] by auto
    with ok obtain r'' where r'': "free_all r' res = Some r''" "region_inv r''"
      "addrs (free_blocks r'') = addrs (free_blocks r') \<union> addrs res" "region_size r'' = region_size r'"
      using free_all_spec [of r' res] by auto
    have "region_size r' = region_size r"
      using ok(2) lk by (auto simp: HeapAllocate_def split: prod.splits if_splits)
    with r'' ok have a: "addrs (free_blocks r'') = addrs (free_blocks r)" "region_size r'' = region_size r"
      by auto
    then have "unat (used r'') = unat (used r)"
      using region_invD(4) [OF r''(2)] region_invD(4) [OF inv] by (metis add_right_cancel)
    then show ?thesis using ok(2) r''(1) a(1) by auto
  qed (use assms(3) in simp)
qed

theorem heap_allocate_free_roundtrip_witness:
  "\<exists>res r' r''. HeapAllocate app_region 0x1000 = Some (res, r') \<and> free_all r' res = Some r'' \<and>
    used r'' = used app_region"
  using heap_allocate_free_roundtrip [OF app_region_reach, of "0x1000"] app_region_card by auto

text \<open>\<open>Free\<close> of a nonempty range inside an unlocked reachable region aborts exactly when some
  address of the range is already free, and otherwise makes exactly that range free.\<close>
theorem free_aborts_iff_double_free:
  assumes "region_reach r" "0 < sz" "unat offset + unat sz < 2 ^ 32"
    "{offset ..< offset + sz} \<subseteq> region_range r"
  shows "if {offset ..< offset + sz} \<inter> addrs (free_blocks r) \<noteq> {} then Free r offset sz = None
    else \<exists>r'. Free r offset sz = Some r' \<and> used r' = used r - sz \<and>
      addrs (free_blocks r') = addrs (free_blocks r) \<union> {offset ..< offset + sz}"
proof -
  have inv: "region_inv r" and lk: "\<not> is_locked r" using region_reach_inv [OF assms(1)] by simp_all
  show ?thesis by (cases rule: Free_cases [OF inv lk assms(2,3)]) (use assms(4) in auto)
qed

theorem free_aborts_iff_double_free_witness: "Free app_region 0x1000 0x1000 = None"
proof -
  have "{0x1000 ..< 0x1000 + 0x1000} \<subseteq> addrs (free_blocks app_region)"
    by (auto simp: app_region_def ivl_def intro: less_trans)
  moreover have "{0x1000 ..< 0x1000 + 0x1000} \<subseteq> region_range app_region"
    by (auto simp: app_region_def ivl_def region_range_def intro: less_trans)
  moreover have "(0x1000 :: u32) \<in> {0x1000 ..< 0x1000 + 0x1000}" by simp
  ultimately have "{0x1000 ..< 0x1000 + 0x1000} \<inter> addrs (free_blocks app_region) \<noteq> {}"
    "{0x1000 ..< 0x1000 + 0x1000} \<subseteq> region_range app_region" by blast+
  then show ?thesis
    using free_aborts_iff_double_free [OF app_region_reach, of "0x1000" "0x1000"] by simp
qed

text \<open>\<open>LinearAllocate(offset, size)\<close> in a reachable region succeeds exactly when one free
  block covers the range and starts strictly below it or is equal to it.  So a request at
  the very start of a larger free block is refused although every address of it is free:
  \<open>Contains\<close> looks for the block with \<open>upper_bound\<close> in the order that also compares the
  upper ends, and steps past the covering block.\<close>
theorem linear_allocate_at_accepts:
  assumes "region_reach r" "0 < sz" "unat offset + unat sz < 2 ^ 32"
  shows "(\<exists>r'. LinearAllocateAt r offset sz = Some (True, r')) \<longleftrightarrow>
    (\<exists>b \<in> set (free_blocks r). (lower b < offset \<and> offset + sz \<le> upper b) \<or>
       b = Interval offset (offset + sz))"
proof -
  have inv: "region_inv r" and lk: "\<not> is_locked r" using region_reach_inv [OF assms(1)] by simp_all
  have "Contains (free_blocks r) (Interval offset (offset + sz)) \<longleftrightarrow>
    (\<exists>b \<in> set (free_blocks r). (lower b < offset \<and> offset + sz \<le> upper b) \<or>
       b = Interval offset (offset + sz))"
    using Contains_spec [OF region_invD(1) [OF inv], of "Interval offset (offset + sz)"]
      word_less_add_nowrap [of offset sz] assms(2,3) by simp
  then show ?thesis using lk by (simp add: LinearAllocateAt_def Let_def split: if_split)
qed

theorem linear_allocate_at_accepts_witness:
  "LinearAllocateAt app_region 0 0x1000 = Some (False, app_region) \<and>
   {0 ..< 0x1000} \<subseteq> addrs (free_blocks app_region)"
proof -
  have "\<not> (\<exists>r'. LinearAllocateAt app_region 0 0x1000 = Some (True, r'))"
    using linear_allocate_at_accepts [OF app_region_reach, of "0x1000" 0] by (simp add: app_region_def)
  then have "LinearAllocateAt app_region 0 0x1000 = Some (False, app_region)"
    by (simp add: LinearAllocateAt_def app_region_unlocked Let_def split: if_splits)
  then show ?thesis by (auto simp: app_region_def ivl_def intro: less_trans)
qed

end
