(* ===== verification/VM_Manager.thy ===== *)
theory VM_Manager
  imports Result_Codes
begin

text \<open>
  The address space of a process, \<^verbatim>\<open>src/core/hle/kernel/vm_manager.cpp\<close> and \<^verbatim>\<open>vm_manager.h\<close>,
  and the managed host references of \<^verbatim>\<open>src/common/memory_ref.h\<close> it maps.

  \<^verbatim>\<open>std::map<VAddr, VirtualMemoryArea>\<close> is the list of its areas in key order (every area is
  stored under its own base).  An iterator is the split of that list into the areas before
  it and the areas from it on; \<open>end\<close> has nothing from it on.  Dereferencing \<open>end\<close>, stepping
  before \<open>begin\<close> and every failed \<open>ASSERT\<close> are \<open>None\<close>.  A \<^verbatim>\<open>ResultVal\<close> is a sum whose left
  values are result codes.  Host pointers and \<^verbatim>\<open>size_t\<close> are 64-bit words.

  The page table lives in a memory system whose mapping functions are not part of the
  sources; the calls made to it are recorded in order in \<open>page_calls\<close>, and \<open>pt_view\<close> says
  what a table that follows them maps.

  Shown: the areas always tile the address space; splitting and merging never change what
  any address means; mapping, unmapping and protecting change exactly the addresses of
  their range, with the documented errors; the page table always agrees with the areas.
\<close>

subsection \<open>MemoryRef\<close>

record BackingMem =
  bm_ptr :: u64
  bm_size :: u64

record MemoryRef =
  backing_mem :: "BackingMem option"
  ref_offset :: u64
  cptr :: u64
  csize :: u64

definition Init :: "MemoryRef \<Rightarrow> MemoryRef" where
  "Init r = (case backing_mem r of
       Some b \<Rightarrow> r\<lparr>cptr := bm_ptr b + ref_offset r, csize := bm_size b - ref_offset r\<rparr>
     | None \<Rightarrow> r\<lparr>cptr := 0, csize := 0\<rparr>)"

definition null_ref :: MemoryRef where
  "null_ref = \<lparr>backing_mem = None, ref_offset = 0, cptr = 0, csize = 0\<rparr>"

definition mk_MemoryRef :: "BackingMem \<Rightarrow> u64 \<Rightarrow> MemoryRef option" where
  "mk_MemoryRef b off = do {
     _ \<leftarrow> ASSERT (off \<le> bm_size b);
     Some (Init \<lparr>backing_mem = Some b, ref_offset = off, cptr = 0, csize = 0\<rparr>)
   }"

definition ref_add_assign :: "MemoryRef \<Rightarrow> u32 \<Rightarrow> MemoryRef option" where
  "ref_add_assign r offset_by = do {
     _ \<leftarrow> ASSERT (ucast offset_by < csize r);
     Some (Init (r\<lparr>ref_offset := ref_offset r + ucast offset_by\<rparr>))
   }"

definition ref_add :: "MemoryRef \<Rightarrow> u32 \<Rightarrow> MemoryRef option" where
  "ref_add r offset_by = do {
     _ \<leftarrow> ASSERT (ucast offset_by < csize r);
     b \<leftarrow> backing_mem r;
     mk_MemoryRef b (ref_offset r + ucast offset_by)
   }"

subsection \<open>Areas\<close>

datatype VMAType = VMAType_Free | VMAType_BackingMemory

type_synonym VMAPermission = u8

definition VMAPermission_None :: VMAPermission where "VMAPermission_None = 0"
definition VMAPermission_Read :: VMAPermission where "VMAPermission_Read = 1"
definition VMAPermission_Write :: VMAPermission where "VMAPermission_Write = 2"
definition VMAPermission_Execute :: VMAPermission where "VMAPermission_Execute = 4"
definition VMAPermission_ReadWrite :: VMAPermission where "VMAPermission_ReadWrite = 1 OR 2"
definition VMAPermission_ReadExecute :: VMAPermission where "VMAPermission_ReadExecute = 1 OR 4"

datatype MemoryState =
  MS_Free | MS_Reserved | MS_IO | MS_Static | MS_Code | MS_Private | MS_Shared | MS_Continuous
| MS_Aliased | MS_Alias | MS_AliasCode | MS_Locked

record VirtualMemoryArea =
  vma_base :: VAddr
  vma_size :: u32
  vma_type :: VMAType
  permissions :: VMAPermission
  meminfo_state :: MemoryState
  backing_memory :: MemoryRef

definition CanBeMergedWith :: "VirtualMemoryArea \<Rightarrow> VirtualMemoryArea \<Rightarrow> bool option" where
  "CanBeMergedWith this nxt = do {
     _ \<leftarrow> ASSERT (vma_base this + vma_size this = vma_base nxt);
     Some (if permissions this \<noteq> permissions nxt \<or> meminfo_state this \<noteq> meminfo_state nxt \<or>
              vma_type this \<noteq> vma_type nxt then False
           else if vma_type this = VMAType_BackingMemory \<and>
              cptr (backing_memory this) + ucast (vma_size this) \<noteq> cptr (backing_memory nxt) then False
           else True)
   }"

subsection \<open>VMManager\<close>

definition MAX_ADDRESS :: u32 where "MAX_ADDRESS = 0x40000000"

datatype PageCall =
  ClearTable | UnmapRegion VAddr u32 | MapMemoryRegion VAddr u32 MemoryRef

type_synonym vmas = "VirtualMemoryArea list"
type_synonym VMAIter = "vmas \<times> vmas"
type_synonym 'a ResultVal = "Result + 'a"

record VMManager =
  vma_map :: vmas
  page_calls :: "PageCall list"
  vm_locked :: bool

definition UpdatePageTableForVMA :: "VirtualMemoryArea \<Rightarrow> PageCall list \<Rightarrow> PageCall list" where
  "UpdatePageTableForVMA vma calls = calls @
     [case vma_type vma of
        VMAType_Free \<Rightarrow> UnmapRegion (vma_base vma) (vma_size vma)
      | VMAType_BackingMemory \<Rightarrow> MapMemoryRegion (vma_base vma) (vma_size vma) (backing_memory vma)]"

definition initial_vma :: VirtualMemoryArea where
  "initial_vma = \<lparr>vma_base = 0, vma_size = MAX_ADDRESS, vma_type = VMAType_Free,
     permissions = VMAPermission_None, meminfo_state = MS_Free, backing_memory = null_ref\<rparr>"

definition VM_Reset :: "VMManager \<Rightarrow> VMManager option" where
  "VM_Reset vm = do {
     _ \<leftarrow> ASSERT (\<not> vm_locked vm);
     Some (vm\<lparr>vma_map := [initial_vma],
              page_calls := UpdatePageTableForVMA initial_vma (page_calls vm @ [ClearTable])\<rparr>)
   }"

definition prev_it :: "VMAIter \<Rightarrow> VMAIter option" where
  "prev_it it = (if fst it = [] then None else Some (butlast (fst it), last (fst it) # snd it))"

fun next_it :: "VMAIter \<Rightarrow> VMAIter option" where
  "next_it (before, []) = None"
| "next_it (before, v # rest) = Some (before @ [v], rest)"

definition FindVMA :: "vmas \<Rightarrow> VAddr \<Rightarrow> VMAIter option" where
  "FindVMA m target =
     (if target \<ge> MAX_ADDRESS then Some (m, [])
      else prev_it (takeWhile (\<lambda>v. vma_base v \<le> target) m, dropWhile (\<lambda>v. vma_base v \<le> target) m))"

fun SplitVMA :: "VMAIter \<Rightarrow> u32 \<Rightarrow> VMAIter option" where
  "SplitVMA (before, []) offset_in_vma = None"
| "SplitVMA (before, vma # rest) offset_in_vma = do {
     _ \<leftarrow> ASSERT (offset_in_vma < vma_size vma);
     _ \<leftarrow> ASSERT (offset_in_vma > 0);
     let old_vma = vma\<lparr>vma_size := offset_in_vma\<rparr>;
     let new_vma = vma\<lparr>vma_base := vma_base vma + offset_in_vma,
                        vma_size := vma_size vma - offset_in_vma\<rparr>;
     ref \<leftarrow> (case vma_type vma of
               VMAType_Free \<Rightarrow> Some (backing_memory new_vma)
             | VMAType_BackingMemory \<Rightarrow> ref_add_assign (backing_memory new_vma) offset_in_vma);
     let new_vma = new_vma\<lparr>backing_memory := ref\<rparr>;
     mergeable \<leftarrow> CanBeMergedWith old_vma new_vma;
     _ \<leftarrow> ASSERT mergeable;
     Some (before @ [old_vma], new_vma # rest)
   }"

definition merge_next :: "VMAIter \<Rightarrow> VMAIter option" where
  "merge_next it = (case it of
       (before, v # nxt # rest) \<Rightarrow> do {
         mergeable \<leftarrow> CanBeMergedWith v nxt;
         Some (if mergeable then (before, v\<lparr>vma_size := vma_size v + vma_size nxt\<rparr> # rest) else it)
       }
     | (before, [v]) \<Rightarrow> Some it
     | (before, []) \<Rightarrow> None)"

definition merge_prev :: "VMAIter \<Rightarrow> VMAIter option" where
  "merge_prev it = (case it of
       (before, v # rest) \<Rightarrow>
         if before = [] then Some it
         else do {
           mergeable \<leftarrow> CanBeMergedWith (last before) v;
           Some (if mergeable
                 then (butlast before, (last before)\<lparr>vma_size := vma_size (last before) + vma_size v\<rparr> # rest)
                 else it)
         }
     | (before, []) \<Rightarrow> None)"

definition MergeAdjacent :: "VMAIter \<Rightarrow> VMAIter option" where
  "MergeAdjacent it = do { it' \<leftarrow> merge_next it; merge_prev it' }"

definition CarveVMA :: "u32 \<Rightarrow> vmas \<Rightarrow> VAddr \<Rightarrow> u32 \<Rightarrow> VMAIter ResultVal option" where
  "CarveVMA page_mask m base sz = do {
     _ \<leftarrow> ASSERT (sz AND page_mask = 0);
     _ \<leftarrow> ASSERT (base AND page_mask = 0);
     it \<leftarrow> FindVMA m base;
     (case it of
        (before, []) \<Rightarrow> Some (Inl ResultInvalidAddress)
      | (before, vma # rest) \<Rightarrow>
          let start_in_vma = base - vma_base vma; end_in_vma = start_in_vma + sz in
          if vma_type vma \<noteq> VMAType_Free then Some (Inl ResultInvalidAddressState)
          else if end_in_vma > vma_size vma then Some (Inl ResultInvalidAddressState)
          else do {
            it1 \<leftarrow> (if end_in_vma \<noteq> vma_size vma
                     then do { right \<leftarrow> SplitVMA it end_in_vma; prev_it right } else Some it);
            it2 \<leftarrow> (if start_in_vma \<noteq> 0 then SplitVMA it1 start_in_vma else Some it1);
            Some (Inr it2)
          })
   }"

text \<open>The iterator of the area stored under a key, after the map has changed around it.\<close>

definition iter_at :: "vmas \<Rightarrow> VAddr \<Rightarrow> VMAIter" where
  "iter_at m key = (takeWhile (\<lambda>v. vma_base v \<noteq> key) m, dropWhile (\<lambda>v. vma_base v \<noteq> key) m)"

text \<open>The areas from \<open>begin\<close> to \<open>lower_bound(target_end)\<close>, the range the loops inspect.\<close>

definition range_to :: "vmas \<Rightarrow> VAddr \<Rightarrow> vmas" where
  "range_to from target_end = takeWhile (\<lambda>v. vma_base v < target_end) from"

definition split_end :: "vmas \<Rightarrow> VAddr \<Rightarrow> vmas option" where
  "split_end m target_end = do {
     end_vma \<leftarrow> FindVMA m target_end;
     (case snd end_vma of
        [] \<Rightarrow> Some m
      | e # es \<Rightarrow>
          if target_end \<noteq> vma_base e
          then do { it \<leftarrow> SplitVMA end_vma (target_end - vma_base e); Some (fst it @ snd it) }
          else Some m)
   }"

definition CarveVMARange :: "u32 \<Rightarrow> vmas \<Rightarrow> VAddr \<Rightarrow> u32 \<Rightarrow> VMAIter ResultVal option" where
  "CarveVMARange page_mask m target sz = do {
     _ \<leftarrow> ASSERT (sz AND page_mask = 0);
     _ \<leftarrow> ASSERT (target AND page_mask = 0);
     let target_end = target + sz;
     _ \<leftarrow> ASSERT (target_end \<ge> target);
     _ \<leftarrow> ASSERT (target_end \<le> MAX_ADDRESS);
     _ \<leftarrow> ASSERT (sz > 0);
     begin_vma \<leftarrow> FindVMA m target;
     if list_ex (\<lambda>v. vma_type v = VMAType_Free) (range_to (snd begin_vma) target_end)
     then Some (Inl ResultInvalidAddressState)
     else (case snd begin_vma of
         [] \<Rightarrow> None
       | vma # rest \<Rightarrow> do {
           begin_vma' \<leftarrow> (if target \<noteq> vma_base vma
                           then SplitVMA begin_vma (target - vma_base vma) else Some begin_vma);
           m' \<leftarrow> split_end (fst begin_vma' @ snd begin_vma') target_end;
           Some (Inr (iter_at m' target))
         })
   }"

definition put_map :: "VMManager \<Rightarrow> VMAIter \<Rightarrow> PageCall list \<Rightarrow> VMManager" where
  "put_map vm it calls = vm\<lparr>vma_map := fst it @ snd it, page_calls := calls\<rparr>"

definition MapBackingMemory ::
  "u32 \<Rightarrow> VMManager \<Rightarrow> VAddr \<Rightarrow> MemoryRef \<Rightarrow> u32 \<Rightarrow> MemoryState \<Rightarrow>
     (VMAIter ResultVal \<times> VMManager) option" where
  "MapBackingMemory page_mask vm target mem sz state = do {
     _ \<leftarrow> ASSERT (\<not> vm_locked vm);
     _ \<leftarrow> ASSERT (cptr mem \<noteq> 0);
     carved \<leftarrow> CarveVMA page_mask (vma_map vm) target sz;
     (case carved of
        Inl err \<Rightarrow> Some (Inl err, vm)
      | Inr (before, []) \<Rightarrow> None
      | Inr (before, vma # rest) \<Rightarrow> do {
          _ \<leftarrow> ASSERT (vma_size vma = sz);
          let final_vma = vma\<lparr>vma_type := VMAType_BackingMemory, permissions := VMAPermission_ReadWrite,
                              meminfo_state := state, backing_memory := mem\<rparr>;
          let calls = UpdatePageTableForVMA final_vma (page_calls vm);
          it \<leftarrow> MergeAdjacent (before, final_vma # rest);
          Some (Inr it, put_map vm it calls)
        })
   }"

definition MapBackingMemoryToBase ::
  "u32 \<Rightarrow> VMManager \<Rightarrow> VAddr \<Rightarrow> u32 \<Rightarrow> MemoryRef \<Rightarrow> u32 \<Rightarrow> MemoryState \<Rightarrow>
     (VAddr ResultVal \<times> VMManager) option" where
  "MapBackingMemoryToBase page_mask vm base region_size mem sz state = do {
     _ \<leftarrow> ASSERT (\<not> vm_locked vm);
     vma \<leftarrow> List.find (\<lambda>vma. vma_type vma = VMAType_Free \<and>
               vma_base vma + vma_size vma > base \<and> vma_base vma + vma_size vma \<ge> base + sz) (vma_map vm);
     let target = max base (vma_base vma);
     if target + sz > base + region_size
     then Some (Inl (mk_ResultD ED_OutOfMemory EM_Kernel ES_OutOfResource EL_Permanent), vm)
     else do {
       (result, vm') \<leftarrow> MapBackingMemory page_mask vm target mem sz state;
       (case result of
          Inl err \<Rightarrow> Some (Inl err, vm')
        | Inr _ \<Rightarrow> Some (Inr target, vm'))
     }
   }"

text \<open>Changing one area in place, telling the page table and merging it with its neighbours; the
  body that \<open>Unmap\<close>, \<open>Reprotect\<close> and the loop of \<open>ChangeMemoryState\<close> share.\<close>

definition change_vma ::
  "(VirtualMemoryArea \<Rightarrow> VirtualMemoryArea) \<Rightarrow> VMAIter \<Rightarrow> PageCall list \<Rightarrow>
     (VMAIter \<times> PageCall list) option" where
  "change_vma upd it calls = (case it of
       (before, []) \<Rightarrow> None
     | (before, vma # rest) \<Rightarrow> do {
         it' \<leftarrow> MergeAdjacent (before, upd vma # rest);
         Some (it', UpdatePageTableForVMA (upd vma) calls)
       })"

lemma merge_next_length: "merge_next it = Some it' \<Longrightarrow> length (snd it') \<le> length (snd it) \<and> snd it' \<noteq> []"
  by (auto simp: merge_next_def bind_eq_Some_iff split: prod.splits list.splits if_splits)

lemma merge_prev_length: "merge_prev it = Some it' \<Longrightarrow> length (snd it') \<le> length (snd it) \<and> snd it' \<noteq> []"
  by (auto simp: merge_prev_def bind_eq_Some_iff split: prod.splits list.splits if_splits)

lemma change_vma_length:
  "change_vma upd it calls = Some (it', calls') \<Longrightarrow> length (snd it') \<le> length (snd it) \<and> snd it' \<noteq> []"
  by (fastforce simp: change_vma_def MergeAdjacent_def bind_eq_Some_iff
      split: prod.splits list.splits dest!: merge_next_length merge_prev_length)

text \<open>The loop of the range operations: every area below \<open>target_end\<close> is changed, then the
  iterator moves past the merged result.\<close>

function range_loop ::
  "(VirtualMemoryArea \<Rightarrow> VirtualMemoryArea) \<Rightarrow> VAddr \<Rightarrow> VMAIter \<Rightarrow> PageCall list \<Rightarrow>
     (VMAIter \<times> PageCall list) option" where
  "range_loop upd target_end it calls =
     (if snd it \<noteq> [] \<and> vma_base (hd (snd it)) < target_end
      then case change_vma upd it calls of
          None \<Rightarrow> None
        | Some (it', calls') \<Rightarrow> range_loop upd target_end (fst it' @ [hd (snd it')], tl (snd it')) calls'
      else Some (it, calls))"
  by pat_completeness auto
termination
proof (relation "measure (\<lambda>(_, _, it, _). length (snd it))", goal_cases)
  case (2 upd target_end it calls x it' calls')
  then have "change_vma upd it calls = Some (it', calls')" by simp
  from change_vma_length [OF this] show ?case by (cases "snd it'") auto
qed simp

declare range_loop.simps [simp del]

definition unmap_vma :: "VirtualMemoryArea \<Rightarrow> VirtualMemoryArea" where
  "unmap_vma vma = vma\<lparr>vma_type := VMAType_Free, permissions := VMAPermission_None,
     meminfo_state := MS_Free, backing_memory := null_ref\<rparr>"

definition Unmap :: "VMManager \<Rightarrow> VMAIter \<Rightarrow> (VMAIter \<times> VMManager) option" where
  "Unmap vm it = do {
     _ \<leftarrow> ASSERT (\<not> vm_locked vm);
     (it', calls) \<leftarrow> change_vma unmap_vma it (page_calls vm);
     Some (it', put_map vm it' calls)
   }"

definition UnmapRange :: "u32 \<Rightarrow> VMManager \<Rightarrow> VAddr \<Rightarrow> u32 \<Rightarrow> (Result \<times> VMManager) option" where
  "UnmapRange page_mask vm target sz = do {
     _ \<leftarrow> ASSERT (\<not> vm_locked vm);
     carved \<leftarrow> CarveVMARange page_mask (vma_map vm) target sz;
     (case carved of
        Inl err \<Rightarrow> Some (err, vm)
      | Inr vma \<Rightarrow> do {
          (it, calls) \<leftarrow> range_loop unmap_vma (target + sz) vma (page_calls vm);
          let vm' = put_map vm it calls;
          found \<leftarrow> FindVMA (vma_map vm') target;
          _ \<leftarrow> ASSERT (snd found \<noteq> [] \<and> vma_size (hd (snd found)) \<ge> sz);
          Some (ResultSuccess, vm')
        })
   }"

definition Reprotect ::
  "VMManager \<Rightarrow> VMAIter \<Rightarrow> VMAPermission \<Rightarrow> (VMAIter \<times> VMManager) option" where
  "Reprotect vm it new_perms = do {
     _ \<leftarrow> ASSERT (\<not> vm_locked vm);
     (it', calls) \<leftarrow> change_vma (permissions_update (\<lambda>_. new_perms)) it (page_calls vm);
     Some (it', put_map vm it' calls)
   }"

definition ReprotectRange ::
  "u32 \<Rightarrow> VMManager \<Rightarrow> VAddr \<Rightarrow> u32 \<Rightarrow> VMAPermission \<Rightarrow> (Result \<times> VMManager) option" where
  "ReprotectRange page_mask vm target sz new_perms = do {
     _ \<leftarrow> ASSERT (\<not> vm_locked vm);
     carved \<leftarrow> CarveVMARange page_mask (vma_map vm) target sz;
     (case carved of
        Inl err \<Rightarrow> Some (err, vm)
      | Inr vma \<Rightarrow> do {
          (it, calls) \<leftarrow> range_loop (permissions_update (\<lambda>_. new_perms)) (target + sz) vma (page_calls vm);
          Some (ResultSuccess, put_map vm it calls)
        })
   }"

definition state_mismatch :: "MemoryState \<Rightarrow> VMAPermission \<Rightarrow> VirtualMemoryArea \<Rightarrow> bool" where
  "state_mismatch expected_state expected_perms vma \<longleftrightarrow>
     meminfo_state vma \<noteq> expected_state \<or>
     (ucast (permissions vma) :: u32) AND ucast expected_perms \<noteq> ucast expected_perms"

definition ChangeMemoryState ::
  "u32 \<Rightarrow> VMManager \<Rightarrow> VAddr \<Rightarrow> u32 \<Rightarrow> MemoryState \<Rightarrow> VMAPermission \<Rightarrow> MemoryState \<Rightarrow> VMAPermission \<Rightarrow>
     (Result \<times> VMManager) option" where
  "ChangeMemoryState page_mask vm target sz expected_state expected_perms new_state new_perms =
     (if vm_locked vm then Some (ResultSuccess, vm)
      else do {
        let target_end = target + sz;
        begin_vma \<leftarrow> FindVMA (vma_map vm) target;
        if snd begin_vma = [] then Some (ResultInvalidAddress, vm)
        else if list_ex (state_mismatch expected_state expected_perms)
                  (range_to (snd begin_vma) target_end)
        then Some (ResultInvalidAddressState, vm)
        else do {
          carved \<leftarrow> CarveVMARange page_mask (vma_map vm) target sz;
          (case carved of
             Inl err \<Rightarrow> Some (err, vm)
           | Inr vma \<Rightarrow> do {
               (it, calls) \<leftarrow> range_loop (\<lambda>v. v\<lparr>permissions := new_perms, meminfo_state := new_state\<rparr>)
                 target_end vma (page_calls vm);
               Some (ResultSuccess, put_map vm it calls)
             })
        }
      })"

partial_function (option) backing_blocks ::
  "vmas \<Rightarrow> VAddr \<Rightarrow> VAddr \<Rightarrow> (MemoryRef \<times> u32) list \<Rightarrow> (MemoryRef \<times> u32) list ResultVal option" where
  "backing_blocks m interval_target range_end acc =
     (if interval_target = range_end then Some (Inr acc)
      else Option.bind (FindVMA m interval_target) (\<lambda>it.
        case snd it of
          [] \<Rightarrow> None
        | vma # _ \<Rightarrow>
            if vma_type vma \<noteq> VMAType_BackingMemory then Some (Inl ResultInvalidAddressState)
            else
              let interval_end = min range_end (vma_base vma + vma_size vma);
                  interval_size = interval_end - interval_target
              in Option.bind (ref_add (backing_memory vma) (interval_target - vma_base vma)) (\<lambda>ref.
                   backing_blocks m (interval_target + interval_size) range_end
                     (acc @ [(ref, interval_size)]))))"

definition GetBackingBlocksForRange ::
  "VMManager \<Rightarrow> VAddr \<Rightarrow> u32 \<Rightarrow> (MemoryRef \<times> u32) list ResultVal option" where
  "GetBackingBlocksForRange vm address sz = backing_blocks (vma_map vm) address (address + sz) []"

definition VM_Unlock :: "VMManager \<Rightarrow> VMManager" where
  "VM_Unlock vm = vm\<lparr>vm_locked := False\<rparr>"

subsection \<open>Meaning of an address space\<close>

definition covers :: "VirtualMemoryArea \<Rightarrow> VAddr \<Rightarrow> bool" where
  "covers v a \<longleftrightarrow> unat (vma_base v) \<le> unat a \<and> unat a < unat (vma_base v) + unat (vma_size v)"

type_synonym attr = "VMAType \<times> VMAPermission \<times> MemoryState \<times> u64 option"

definition host_at :: "VirtualMemoryArea \<Rightarrow> VAddr \<Rightarrow> u64 option" where
  "host_at v a = (if vma_type v = VMAType_BackingMemory
     then Some (cptr (backing_memory v) + ucast (a - vma_base v)) else None)"

definition attr_at :: "VirtualMemoryArea \<Rightarrow> VAddr \<Rightarrow> attr" where
  "attr_at v a = (vma_type v, permissions v, meminfo_state v, host_at v a)"

fun vm_view :: "vmas \<Rightarrow> VAddr \<Rightarrow> attr option" where
  "vm_view [] a = None"
| "vm_view (v # vs) a = (if covers v a then Some (attr_at v a) else vm_view vs a)"

fun tiles :: "nat \<Rightarrow> vmas \<Rightarrow> nat \<Rightarrow> bool" where
  "tiles s [] e \<longleftrightarrow> s = e"
| "tiles s (v # vs) e \<longleftrightarrow> unat (vma_base v) = s \<and> 0 < unat (vma_size v) \<and>
     s + unat (vma_size v) \<le> 0x40000000 \<and> tiles (s + unat (vma_size v)) vs e"

lemma vm_view_append:
  "vm_view (xs @ ys) a = (case vm_view xs a of None \<Rightarrow> vm_view ys a | Some x \<Rightarrow> Some x)"
  by (induction xs) auto

lemma tiles_append: "tiles s (xs @ ys) e \<longleftrightarrow> (\<exists>k. tiles s xs k \<and> tiles k ys e)"
  by (induction xs arbitrary: s) auto

lemma tiles_le: "tiles s vs e \<Longrightarrow> s \<le> e"
  by (induction vs arbitrary: s) force+

lemma tiles_view_None_iff: "tiles s vs e \<Longrightarrow> vm_view vs a = None \<longleftrightarrow> \<not> (s \<le> unat a \<and> unat a < e)"
proof (induction vs arbitrary: s)
  case (Cons v vs)
  from Cons.prems have "s + unat (vma_size v) \<le> e" using tiles_le by auto
  with Cons.prems Cons.IH [of "s + unat (vma_size v)"] show ?case by (auto simp: covers_def)
qed simp

lemma tiles_nil: "tiles s vs s \<Longrightarrow> vs = []"
  by (cases vs) (auto dest: tiles_le)

lemma tiles_mem:
  "tiles s vs e \<Longrightarrow> v \<in> set vs \<Longrightarrow>
     s \<le> unat (vma_base v) \<and> unat (vma_base v) + unat (vma_size v) \<le> e \<and> 0 < unat (vma_size v) \<and>
     unat (vma_base v) + unat (vma_size v) \<le> 0x40000000"
proof (induction vs arbitrary: s)
  case (Cons w vs)
  from Cons.prems have "tiles (s + unat (vma_size w)) vs e" "s + unat (vma_size w) \<le> e"
    using tiles_le by auto
  then show ?case using Cons by force
qed simp

lemma view_replace: "vm_view xs = vm_view ys \<Longrightarrow> vm_view (pre @ xs @ post) = vm_view (pre @ ys @ post)"
  by (rule ext) (simp add: vm_view_append split: option.split)

lemma area_end:
  assumes "unat (vma_base v) + unat (vma_size v) \<le> 0x40000000"
  shows "unat (vma_base v + vma_size v) = unat (vma_base v) + unat (vma_size v)"
  using assms by (intro unat_add_nowrap) simp

lemma unat_MAX [simp]: "unat MAX_ADDRESS = 0x40000000"
  by (simp add: MAX_ADDRESS_def)

lemma word_lt_MAX: "a < MAX_ADDRESS \<longleftrightarrow> unat a < 0x40000000" "MAX_ADDRESS \<le> a \<longleftrightarrow> 0x40000000 \<le> unat a"
  by (simp_all add: word_less_nat_alt word_le_nat_alt)

subsection \<open>Host references\<close>

definition backings_ok :: "BackingMem set \<Rightarrow> bool" where
  "backings_ok B \<longleftrightarrow>
     (\<forall>b \<in> B. bm_ptr b \<noteq> 0 \<and> unat (bm_ptr b) + unat (bm_size b) < 2 ^ 64) \<and>
     (\<forall>b \<in> B. \<forall>b' \<in> B. b \<noteq> b' \<longrightarrow>
        unat (bm_ptr b) + unat (bm_size b) < unat (bm_ptr b') \<or>
        unat (bm_ptr b') + unat (bm_size b') < unat (bm_ptr b))"

definition ref_to :: "BackingMem set \<Rightarrow> MemoryRef \<Rightarrow> u32 \<Rightarrow> bool" where
  "ref_to B r sz \<longleftrightarrow> (\<exists>b \<in> B. backing_mem r = Some b \<and> cptr r = bm_ptr b + ref_offset r \<and>
     csize r = bm_size b - ref_offset r \<and> unat (ref_offset r) + unat sz \<le> unat (bm_size b))"

definition vma_ok :: "BackingMem set \<Rightarrow> VirtualMemoryArea \<Rightarrow> bool" where
  "vma_ok B v \<longleftrightarrow> (vma_type v = VMAType_BackingMemory \<longrightarrow> ref_to B (backing_memory v) (vma_size v))"

lemma ref_to_facts:
  assumes "backings_ok B" "ref_to B r sz"
  obtains b where "b \<in> B" "backing_mem r = Some b" "unat (cptr r) = unat (bm_ptr b) + unat (ref_offset r)"
    "unat (csize r) = unat (bm_size b) - unat (ref_offset r)"
    "unat (ref_offset r) + unat sz \<le> unat (bm_size b)" "cptr r \<noteq> 0"
proof -
  obtain b where b: "b \<in> B" "backing_mem r = Some b" "cptr r = bm_ptr b + ref_offset r"
     "csize r = bm_size b - ref_offset r" "unat (ref_offset r) + unat sz \<le> unat (bm_size b)"
    using assms(2) by (auto simp: ref_to_def)
  have bb: "bm_ptr b \<noteq> 0" "unat (bm_ptr b) + unat (bm_size b) < 2 ^ 64"
    using assms(1) b(1) by (auto simp: backings_ok_def)
  have 1: "unat (cptr r) = unat (bm_ptr b) + unat (ref_offset r)"
    unfolding b(3) using bb(2) b(5) by (intro unat_add_nowrap) simp
  then have "unat (cptr r) \<noteq> 0" using bb(1) by (simp add: unat_eq_0)
  then have 2: "cptr r \<noteq> 0" by auto
  have "unat (csize r) = unat (bm_size b) - unat (ref_offset r)"
    unfolding b(4) using b(5) by (intro unat_sub) (simp add: word_le_nat_alt)
  with b 1 2 that show thesis by blast
qed

lemma unat_ucast_u32_u64: "unat (ucast (x :: u32) :: u64) = unat x"
  using unat_u32_bound [of x] by (simp add: unsigned_ucast_eq take_bit_nat_eq_self)

lemma ref_add_assign_ok:
  assumes "backings_ok B" "ref_to B r sz" "off < sz"
  shows "\<exists>r'. ref_add_assign r off = Some r' \<and> ref_to B r' (sz - off) \<and> cptr r' = cptr r + ucast off \<and>
     backing_mem r' = backing_mem r"
proof -
  obtain b where b: "b \<in> B" "backing_mem r = Some b"
     "unat (csize r) = unat (bm_size b) - unat (ref_offset r)"
     "unat (ref_offset r) + unat sz \<le> unat (bm_size b)"
    by (rule ref_to_facts [OF assms(1,2)])
  have c: "cptr r = bm_ptr b + ref_offset r" using assms(2) b(2) by (auto simp: ref_to_def)
  have o: "unat off < unat sz" using assms(3) by (simp add: word_less_nat_alt)
  have lt: "ucast off < csize r" using b o by (simp add: word_less_nat_alt unat_ucast_u32_u64)
  have u: "unat (ref_offset r + ucast off) = unat (ref_offset r) + unat off"
    using b(4) o unsigned_less [of "bm_size b", where ?'a = nat]
    by (subst unat_add_nowrap) (auto simp: unat_ucast_u32_u64)
  have s: "unat (sz - off) = unat sz - unat off" using o by (simp add: unat_sub word_le_nat_alt)
  have "ref_to B (Init (r\<lparr>ref_offset := ref_offset r + ucast off\<rparr>)) (sz - off)"
    unfolding ref_to_def using b u s o by (intro bexI [of _ b]) (auto simp: Init_def)
  then show ?thesis using lt b(2) c by (auto simp: ref_add_assign_def Init_def algebra_simps)
qed
subsection \<open>Splitting and merging keep the meaning\<close>

definition mergeable :: "VirtualMemoryArea \<Rightarrow> VirtualMemoryArea \<Rightarrow> bool" where
  "mergeable v n \<longleftrightarrow> permissions v = permissions n \<and> meminfo_state v = meminfo_state n \<and>
     vma_type v = vma_type n \<and>
     (vma_type v = VMAType_BackingMemory \<longrightarrow>
        cptr (backing_memory v) + ucast (vma_size v) = cptr (backing_memory n))"

abbreviation grow :: "VirtualMemoryArea \<Rightarrow> VirtualMemoryArea \<Rightarrow> VirtualMemoryArea" where
  "grow v n \<equiv> v\<lparr>vma_size := vma_size v + vma_size n\<rparr>"

lemma adjacent_word:
  assumes "tiles s (v # n # vs) e" shows "vma_base v + vma_size v = vma_base n"
proof -
  have "unat (vma_base v + vma_size v) = unat (vma_base n)" using assms by (subst area_end) auto
  then show ?thesis by simp
qed

lemma CanBeMergedWith_tiles:
  "tiles s (v # n # vs) e \<Longrightarrow> CanBeMergedWith v n = Some (mergeable v n)"
  using adjacent_word [of s v n vs e] by (auto simp: CanBeMergedWith_def mergeable_def simp del: tiles.simps)

lemma ucast_add_small:
  fixes a b :: u32
  assumes "unat a + unat b < 2 ^ 32"
  shows "(ucast (a + b) :: u64) = ucast a + ucast b"
proof -
  have "unat (ucast (a + b) :: u64) = unat (ucast a + ucast b :: u64)"
    using assms by (simp add: unat_ucast_u32_u64 unat_add_nowrap)
  then show ?thesis by simp
qed

lemma grow_size:
  assumes "tiles s (v # n # vs) e" shows "unat (vma_size v + vma_size n) = unat (vma_size v) + unat (vma_size n)"
  using assms by (intro unat_add_nowrap) auto

lemma tiles_grow: "tiles s (v # n # vs) e \<Longrightarrow> tiles s (grow v n # vs) e"
  using grow_size [of s v n vs e] by (auto simp: add.assoc)

lemma attr_shift:
  assumes "tiles s (v # n # vs) e" "mergeable v n" "covers n a"
  shows "attr_at v a = attr_at n a"
proof -
  have e: "vma_base v + vma_size v = vma_base n" by (rule adjacent_word [OF assms(1)])
  have s: "unat (vma_base n) = unat (vma_base v) + unat (vma_size v)" using assms(1) by auto
  have "unat (a - vma_base n) = unat a - unat (vma_base n)"
    using assms(3) by (intro unat_sub) (simp add: covers_def word_le_nat_alt)
  then have "unat (vma_size v) + unat (a - vma_base n) < 2 ^ 32"
    using assms(3) s unat_u32_bound [of a] by (simp add: covers_def)
  from ucast_add_small [OF this]
  have "(ucast (a - vma_base v) :: u64) = ucast (vma_size v) + ucast (a - vma_base n)"
    by (simp add: e [symmetric] algebra_simps)
  then show ?thesis using assms(2) by (auto simp: attr_at_def host_at_def mergeable_def algebra_simps)
qed

lemma view_grow:
  assumes "tiles s (v # n # vs) e" "mergeable v n"
  shows "vm_view [grow v n] = vm_view [v, n]"
proof
  fix a
  have c: "covers (grow v n) a \<longleftrightarrow> covers v a \<or> covers n a"
    using assms(1) grow_size [OF assms(1)] by (auto simp: covers_def)
  have "attr_at (grow v n) a = attr_at v a" by (simp add: attr_at_def host_at_def)
  then show "vm_view [grow v n] a = vm_view [v, n] a"
    using c attr_shift [OF assms] by auto
qed

lemma vma_ok_grow:
  assumes "backings_ok B" "vma_ok B v" "vma_ok B n" "tiles s (v # n # vs) e" "mergeable v n"
  shows "vma_ok B (grow v n)"
proof (cases "vma_type v")
  case VMAType_BackingMemory
  with assms have rv: "ref_to B (backing_memory v) (vma_size v)" and rn: "ref_to B (backing_memory n) (vma_size n)"
    and adj: "cptr (backing_memory v) + ucast (vma_size v) = cptr (backing_memory n)"
    by (auto simp: vma_ok_def mergeable_def)
  obtain b where b: "b \<in> B" "backing_mem (backing_memory v) = Some b"
     "unat (cptr (backing_memory v)) = unat (bm_ptr b) + unat (ref_offset (backing_memory v))"
     "unat (ref_offset (backing_memory v)) + unat (vma_size v) \<le> unat (bm_size b)"
    by (rule ref_to_facts [OF assms(1) rv])
  obtain c where c: "c \<in> B" "backing_mem (backing_memory n) = Some c"
     "unat (cptr (backing_memory n)) = unat (bm_ptr c) + unat (ref_offset (backing_memory n))"
     "unat (ref_offset (backing_memory n)) + unat (vma_size n) \<le> unat (bm_size c)"
    by (rule ref_to_facts [OF assms(1) rn])
  have "unat (bm_ptr b) + unat (bm_size b) < 2 ^ 64" using assms(1) b(1) by (simp add: backings_ok_def)
  with b have "unat (cptr (backing_memory v) + ucast (vma_size v)) =
     unat (bm_ptr b) + unat (ref_offset (backing_memory v)) + unat (vma_size v)"
    by (subst unat_add_nowrap) (simp_all add: unat_ucast_u32_u64)
  with adj c(3) have e: "unat (bm_ptr c) + unat (ref_offset (backing_memory n)) =
     unat (bm_ptr b) + unat (ref_offset (backing_memory v)) + unat (vma_size v)" by simp
  have "b = c"
  proof (rule ccontr)
    assume "b \<noteq> c"
    with assms(1) b(1) c(1) have "unat (bm_ptr b) + unat (bm_size b) < unat (bm_ptr c) \<or>
        unat (bm_ptr c) + unat (bm_size c) < unat (bm_ptr b)" by (auto simp: backings_ok_def)
    with e b(4) c(4) show False by linarith
  qed
  with e b c have "unat (ref_offset (backing_memory v)) + unat (vma_size v + vma_size n) \<le> unat (bm_size b)"
    using grow_size [OF assms(4)] by simp
  with rv b(2) have "ref_to B (backing_memory v) (vma_size v + vma_size n)" by (auto simp: ref_to_def)
  then show ?thesis by (simp add: vma_ok_def)
qed (simp add: vma_ok_def)

text \<open>A well-formed address space over the host allocations \<open>B\<close>.\<close>

definition map_ok :: "BackingMem set \<Rightarrow> vmas \<Rightarrow> bool" where
  "map_ok B m \<longleftrightarrow> tiles 0 m 0x40000000 \<and> (\<forall>v \<in> set m. vma_ok B v)"

definition iter_ok :: "BackingMem set \<Rightarrow> VMAIter \<Rightarrow> bool" where
  "iter_ok B it \<longleftrightarrow> map_ok B (fst it @ snd it) \<and> snd it \<noteq> []"

abbreviation iter_map :: "VMAIter \<Rightarrow> vmas" where
  "iter_map it \<equiv> fst it @ snd it"

lemma map_ok_replace:
  assumes "map_ok B (pre @ xs @ post)"
    and "\<And>s e. tiles s (xs @ post) e \<Longrightarrow> tiles s (ys @ post) e" and "\<forall>y \<in> set ys. vma_ok B y"
  shows "map_ok B (pre @ ys @ post)"
  using assms by (auto simp: map_ok_def tiles_append) blast

lemma merge_next_spec:
  assumes B: "backings_ok B" and ok: "iter_ok B it"
  shows "\<exists>it'. merge_next it = Some it' \<and> iter_ok B it' \<and> vm_view (iter_map it') = vm_view (iter_map it) \<and>
    fst it' = fst it \<and>
    ((it' = it \<and> (\<forall>v n rest. snd it = v # n # rest \<longrightarrow> \<not> mergeable v n)) \<or>
     (\<exists>v n rest. snd it = v # n # rest \<and> mergeable v n \<and> snd it' = grow v n # rest))"
proof -
  obtain pre v rest where it: "it = (pre, v # rest)"
    using ok by (cases it; cases "snd it") (auto simp: iter_ok_def)
  show ?thesis
  proof (cases rest)
    case Nil
    then show ?thesis using ok it by (auto simp: merge_next_def)
  next
    case (Cons n rest')
    have ok': "map_ok B (pre @ [v, n] @ rest')" using ok it Cons by (simp add: iter_ok_def)
    then obtain s where t: "tiles s (v # n # rest') 0x40000000" by (auto simp: map_ok_def tiles_append)
    note C = CanBeMergedWith_tiles [OF t]
    show ?thesis
    proof (cases "mergeable v n")
      case True
      have "vma_ok B (grow v n)"
        using vma_ok_grow [OF B _ _ t True] ok' by (simp add: map_ok_def)
      then have "map_ok B (pre @ [grow v n] @ rest')"
        by (intro map_ok_replace [OF ok']) (auto simp: tiles_grow simp del: tiles.simps)
      moreover have "vm_view (pre @ [grow v n] @ rest') = vm_view (pre @ [v, n] @ rest')"
        by (rule view_replace [OF view_grow [OF t True]])
      ultimately show ?thesis using it Cons C True by (auto simp: merge_next_def iter_ok_def)
    next
      case False
      then show ?thesis using it Cons C ok by (auto simp: merge_next_def)
    qed
  qed
qed

lemma merge_prev_spec:
  assumes B: "backings_ok B" and ok: "iter_ok B it"
  shows "\<exists>it'. merge_prev it = Some it' \<and> iter_ok B it' \<and> vm_view (iter_map it') = vm_view (iter_map it) \<and>
    ((it' = it \<and> (fst it \<noteq> [] \<longrightarrow> \<not> mergeable (last (fst it)) (hd (snd it)))) \<or>
     (fst it \<noteq> [] \<and> mergeable (last (fst it)) (hd (snd it)) \<and>
      it' = (butlast (fst it), grow (last (fst it)) (hd (snd it)) # tl (snd it))))"
proof -
  obtain pre v rest where it: "it = (pre, v # rest)"
    using ok by (cases it; cases "snd it") (auto simp: iter_ok_def)
  show ?thesis
  proof (cases pre rule: rev_cases)
    case Nil
    then show ?thesis using ok it by (auto simp: merge_prev_def)
  next
    case (snoc pre' p)
    have ok': "map_ok B (pre' @ [p, v] @ rest)" using ok it snoc by (simp add: iter_ok_def)
    then obtain s where t: "tiles s (p # v # rest) 0x40000000" by (auto simp: map_ok_def tiles_append)
    note C = CanBeMergedWith_tiles [OF t]
    show ?thesis
    proof (cases "mergeable p v")
      case True
      have "vma_ok B (grow p v)"
        using vma_ok_grow [OF B _ _ t True] ok' by (simp add: map_ok_def)
      then have "map_ok B (pre' @ [grow p v] @ rest)"
        by (intro map_ok_replace [OF ok']) (auto simp: tiles_grow simp del: tiles.simps)
      moreover have "vm_view (pre' @ [grow p v] @ rest) = vm_view (pre' @ [p, v] @ rest)"
        by (rule view_replace [OF view_grow [OF t True]])
      ultimately show ?thesis using it snoc C True by (auto simp: merge_prev_def iter_ok_def)
    next
      case False
      then show ?thesis using it snoc C ok by (auto simp: merge_prev_def)
    qed
  qed
qed

lemma SplitVMA_spec:
  assumes B: "backings_ok B" and ok: "map_ok B (pre @ v # rest)" and off: "0 < off" "off < vma_size v"
  shows "\<exists>new. SplitVMA (pre, v # rest) off = Some (pre @ [v\<lparr>vma_size := off\<rparr>], new # rest) \<and>
    map_ok B (pre @ [v\<lparr>vma_size := off\<rparr>, new] @ rest) \<and>
    vm_view (pre @ [v\<lparr>vma_size := off\<rparr>, new] @ rest) = vm_view (pre @ v # rest) \<and>
    vma_base new = vma_base v + off \<and> vma_size new = vma_size v - off \<and> vma_type new = vma_type v \<and>
    permissions new = permissions v \<and> meminfo_state new = meminfo_state v"
proof -
  let ?old = "v\<lparr>vma_size := off\<rparr>"
  obtain s where t: "tiles s (v # rest) 0x40000000" using ok by (auto simp: map_ok_def tiles_append)
  have vok: "vma_ok B v" using ok by (simp add: map_ok_def)
  have off': "unat off < unat (vma_size v)" "0 < unat off" "unat (vma_size v - off) = unat (vma_size v) - unat off"
    using off by (auto simp: word_less_nat_alt unat_sub word_le_nat_alt)
  have nb: "unat (vma_base v + off) = unat (vma_base v) + unat off"
    using t off' by (intro unat_add_nowrap) auto
  define r where "r = (case vma_type v of VMAType_Free \<Rightarrow> Some (backing_memory v)
     | VMAType_BackingMemory \<Rightarrow> ref_add_assign (backing_memory v) off)"
  obtain ref where ref: "r = Some ref"
    "vma_type v = VMAType_BackingMemory \<Longrightarrow> ref_to B ref (vma_size v - off) \<and> cptr ref = cptr (backing_memory v) + ucast off"
    using ref_add_assign_ok [OF B _ off(2)] vok by (cases "vma_type v") (fastforce simp: r_def vma_ok_def)+
  define new where "new = v\<lparr>vma_base := vma_base v + off, vma_size := vma_size v - off, backing_memory := ref\<rparr>"
  have t': "tiles s (?old # new # rest) 0x40000000"
    using t off' nb by (auto simp: new_def)
  have m: "mergeable ?old new" using ref(2) by (auto simp: mergeable_def new_def)
  have g: "grow ?old new = v" by (simp add: new_def)
  have S: "SplitVMA (pre, v # rest) off = Some (pre @ [?old], new # rest)"
    using ref(1) off m CanBeMergedWith_tiles [OF t'] by (cases v; cases "vma_type v") (simp_all add: r_def Let_def new_def)
  have "vma_ok B ?old"
  proof (cases "vma_type v")
    case VMAType_BackingMemory
    with vok have "ref_to B (backing_memory v) (vma_size v)" by (simp add: vma_ok_def)
    then have "ref_to B (backing_memory v) off" using off'(1) by (auto simp: ref_to_def intro!: bexI)
    then show ?thesis by (simp add: vma_ok_def)
  qed (simp add: vma_ok_def)
  moreover have "vma_ok B new" using ref(2) by (simp add: vma_ok_def new_def)
  moreover have "map_ok B (pre @ [v] @ rest)" using ok by simp
  moreover have "tiles k ([?old, new] @ rest) e" if "tiles k ([v] @ rest) e" for k e
    using that t t' off' nb by (auto simp: new_def)
  ultimately have "map_ok B (pre @ [?old, new] @ rest)"
    using map_ok_replace [of B pre "[v]" rest "[?old, new]"] by (simp del: tiles.simps)
  moreover have "vm_view (pre @ [?old, new] @ rest) = vm_view (pre @ [v] @ rest)"
    by (rule view_replace) (use view_grow [OF t' m] g in simp)
  ultimately show ?thesis using S by (intro exI [of _ new]) (auto simp: new_def)
qed

subsection \<open>Finding an area\<close>

lemma tiles_bases_before: "tiles s pre e \<Longrightarrow> v \<in> set pre \<Longrightarrow> unat (vma_base v) < e"
  using tiles_mem by fastforce

lemma tiles_bases_after: "tiles s post e \<Longrightarrow> v \<in> set post \<Longrightarrow> s \<le> unat (vma_base v)"
  using tiles_mem by blast

lemma vm_view_SomeD:
  "vm_view m a = Some x \<Longrightarrow> \<exists>pre v post. m = pre @ v # post \<and> covers v a \<and> x = attr_at v a \<and> vm_view pre a = None"
proof (induction m)
  case (Cons v m)
  show ?case
  proof (cases "covers v a")
    case True with Cons.prems show ?thesis by (intro exI [of _ "[]"]) auto
  next
    case False
    with Cons obtain pre w post where "m = pre @ w # post" "covers w a" "x = attr_at w a" "vm_view pre a = None" by auto
    with False show ?thesis by (intro exI [of _ "v # pre"]) auto
  qed
qed simp

lemma map_ok_view: "map_ok B m \<Longrightarrow> vm_view m a = None \<longleftrightarrow> 0x40000000 \<le> unat a"
  by (auto simp: map_ok_def tiles_view_None_iff not_less)

lemma FindVMA_at:
  assumes t: "tiles 0 (pre @ v # post) 0x40000000" and c: "covers v a"
  shows "FindVMA (pre @ v # post) a = Some (pre, v # post)"
proof -
  obtain k where k: "tiles 0 pre k" "tiles k (v # post) 0x40000000" using t by (auto simp: tiles_append)
  have v: "unat (vma_base v) = k" "tiles (k + unat (vma_size v)) post 0x40000000" using k(2) by auto
  have pre: "vma_base w \<le> a" if "w \<in> set pre" for w
    using tiles_bases_before [OF k(1) that] c v by (simp add: covers_def word_le_nat_alt)
  have post: "\<not> vma_base w \<le> a" if "w \<in> set post" for w
    using tiles_bases_after [OF v(2) that] c v by (simp add: covers_def word_le_nat_alt)
  have va: "vma_base v \<le> a" using c by (simp add: covers_def word_le_nat_alt)
  have lt: "unat a < 0x40000000" using c tiles_le [OF v(2)] v by (simp add: covers_def)
  have "takeWhile (\<lambda>v. vma_base v \<le> a) (pre @ v # post) = pre @ [v]"
    "dropWhile (\<lambda>v. vma_base v \<le> a) (pre @ v # post) = post"
    using pre post va by (cases post; auto simp: takeWhile_append2 dropWhile_append2)+
  then show ?thesis using lt by (simp add: FindVMA_def prev_it_def word_lt_MAX not_le)
qed

lemma FindVMA_spec:
  assumes "map_ok B m" "unat a < 0x40000000"
  obtains pre v post where "m = pre @ v # post" "covers v a" "FindVMA m a = Some (pre, v # post)"
    "vm_view m a = Some (attr_at v a)"
proof -
  from map_ok_view [OF assms(1), of a] assms(2) obtain x where "vm_view m a = Some x" by auto
  with vm_view_SomeD obtain pre v post where *: "m = pre @ v # post" "covers v a" "x = attr_at v a" by blast
  with assms(1) have "FindVMA m a = Some (pre, v # post)"
    using FindVMA_at [of pre v post a] by (simp add: map_ok_def)
  with * \<open>vm_view m a = Some x\<close> that show thesis by blast
qed

lemma FindVMA_end: "0x40000000 \<le> unat a \<Longrightarrow> FindVMA m a = Some (m, [])"
  by (simp add: FindVMA_def word_lt_MAX)

lemma tiles_split_iff:
  "tiles s m e \<Longrightarrow> (\<exists>pre post. m = pre @ post \<and> tiles s pre x \<and> tiles x post e) \<longleftrightarrow>
     x = e \<or> x \<in> (unat \<circ> vma_base) ` set m"
proof -
  assume t: "tiles s m e"
  have "\<exists>pre post. m = pre @ post \<and> tiles s pre x \<and> tiles x post e" if "v \<in> set m" "x = unat (vma_base v)" for v
  proof -
    from that(1) obtain pre post where m: "m = pre @ v # post" by (auto simp: in_set_conv_decomp)
    with t that(2) show ?thesis by (intro exI [of _ pre] exI [of _ "v # post"]) (auto simp: tiles_append)
  qed
  moreover have "x = e \<or> x \<in> (unat \<circ> vma_base) ` set m" if "m = pre @ post" "tiles x post e" for pre post
    using that by (cases post) auto
  moreover have "\<exists>pre post. m = pre @ post \<and> tiles s pre e \<and> tiles e post e"
    using t by (intro exI [of _ m] exI [of _ "[]"]) simp
  ultimately show ?thesis by (metis (no_types, lifting) comp_apply imageE)
qed

subsection \<open>The page table follows\<close>

fun pt_step :: "PageCall \<Rightarrow> (VAddr \<Rightarrow> u64 option) \<Rightarrow> VAddr \<Rightarrow> u64 option" where
  "pt_step ClearTable pt a = None"
| "pt_step (UnmapRegion b sz) pt a =
     (if unat b \<le> unat a \<and> unat a < unat b + unat sz then None else pt a)"
| "pt_step (MapMemoryRegion b sz r) pt a =
     (if unat b \<le> unat a \<and> unat a < unat b + unat sz then Some (cptr r + ucast (a - b)) else pt a)"

definition pt_view :: "PageCall list \<Rightarrow> VAddr \<Rightarrow> u64 option" where
  "pt_view calls = fold pt_step calls (\<lambda>_. None)"

definition vm_host :: "vmas \<Rightarrow> VAddr \<Rightarrow> u64 option" where
  "vm_host m a = Option.bind (vm_view m a) (\<lambda>(t, p, st, h). h)"

definition vm_inv :: "BackingMem set \<Rightarrow> VMManager \<Rightarrow> bool" where
  "vm_inv B vm \<longleftrightarrow> map_ok B (vma_map vm) \<and> pt_view (page_calls vm) = vm_host (vma_map vm)"

lemma pt_view_Update:
  "pt_view (UpdatePageTableForVMA v calls) a = (if covers v a then host_at v a else pt_view calls a)"
  by (simp add: pt_view_def UpdatePageTableForVMA_def covers_def host_at_def split: VMAType.split)

lemma view_change:
  assumes t: "tiles 0 (pre @ v # post) e" and u: "vma_base v' = vma_base v" "vma_size v' = vma_size v"
  shows "vm_view (pre @ v' # post) a = (if covers v a then Some (attr_at v' a) else vm_view (pre @ v # post) a)"
proof -
  obtain k where k: "tiles 0 pre k" "unat (vma_base v) = k" using t by (auto simp: tiles_append)
  have "covers v a \<Longrightarrow> vm_view pre a = None"
    using k by (simp add: tiles_view_None_iff covers_def)
  moreover have "covers v' a = covers v a" using u by (simp add: covers_def)
  ultimately show ?thesis by (auto simp: vm_view_append split: option.split)
qed

lemma host_change:
  assumes "tiles 0 (pre @ v # post) e" "vma_base v' = vma_base v" "vma_size v' = vma_size v"
    and "pt_view calls = vm_host (pre @ v # post)"
  shows "pt_view (UpdatePageTableForVMA v' calls) = vm_host (pre @ v' # post)"
proof
  fix a
  have "covers v' a = covers v a" using assms(2,3) by (simp add: covers_def)
  then show "pt_view (UpdatePageTableForVMA v' calls) a = vm_host (pre @ v' # post) a"
    using assms(4) by (auto simp: pt_view_Update vm_host_def view_change [OF assms(1-3)] attr_at_def)
qed

lemma map_ok_change:
  assumes "map_ok B (pre @ v # post)" "vma_base v' = vma_base v" "vma_size v' = vma_size v" "vma_ok B v'"
  shows "map_ok B (pre @ v' # post)"
  using assms by (auto simp: map_ok_def tiles_append)

lemma MergeAdjacent_spec:
  assumes B: "backings_ok B" and ok: "map_ok B (pre @ v # rest)"
  obtains it w rest' where "MergeAdjacent (pre, v # rest) = Some it" "iter_ok B it"
    "vm_view (iter_map it) = vm_view (pre @ v # rest)" "snd it = w # rest'"
    "rest' = rest \<or> (\<exists>n. rest = n # rest' \<and> mergeable v n)"
    "vma_type w = vma_type v" "permissions w = permissions v" "meminfo_state w = meminfo_state v"
    "fst it = pre \<and> vma_base w = vma_base v \<or>
     pre \<noteq> [] \<and> fst it = butlast pre \<and> vma_base w = vma_base (last pre)"
    "pre \<noteq> [] \<Longrightarrow> mergeable (last pre) v \<Longrightarrow> vma_base w = vma_base (last pre)"
proof -
  have i: "iter_ok B (pre, v # rest)" using ok by (simp add: iter_ok_def)
  obtain it1 where 1: "merge_next (pre, v # rest) = Some it1" "iter_ok B it1"
    "vm_view (iter_map it1) = vm_view (pre @ v # rest)" "fst it1 = pre"
    "it1 = (pre, v # rest) \<or> (\<exists>n rest'. rest = n # rest' \<and> mergeable v n \<and> snd it1 = grow v n # rest')"
    using merge_next_spec [OF B i] by auto
  obtain w1 rest1 where w1: "snd it1 = w1 # rest1" using 1(2) by (cases "snd it1") (auto simp: iter_ok_def)
  have w1': "vma_type w1 = vma_type v" "permissions w1 = permissions v" "meminfo_state w1 = meminfo_state v"
    "vma_base w1 = vma_base v" "backing_memory w1 = backing_memory v"
    "rest1 = rest \<or> (\<exists>n. rest = n # rest1 \<and> mergeable v n)"
    using 1(5) w1 by auto
  obtain it2 where 2: "merge_prev it1 = Some it2" "iter_ok B it2" "vm_view (iter_map it2) = vm_view (iter_map it1)"
    "(it2 = it1 \<and> (pre \<noteq> [] \<longrightarrow> \<not> mergeable (last pre) w1)) \<or>
     (pre \<noteq> [] \<and> mergeable (last pre) w1 \<and> it2 = (butlast pre, grow (last pre) w1 # rest1))"
    using merge_prev_spec [OF B 1(2)] 1(4) w1 by auto
  have M: "MergeAdjacent (pre, v # rest) = Some it2" using 1(1) 2(1) by (simp add: MergeAdjacent_def)
  have mm: "mergeable (last pre) w1 = mergeable (last pre) v" using w1' by (auto simp: mergeable_def)
  from 2(4) show thesis
  proof
    assume "it2 = it1 \<and> (pre \<noteq> [] \<longrightarrow> \<not> mergeable (last pre) w1)"
    then show thesis using M 1 2 w1 w1' mm by (intro that [of it2 w1 rest1]) auto
  next
    assume a: "pre \<noteq> [] \<and> mergeable (last pre) w1 \<and> it2 = (butlast pre, grow (last pre) w1 # rest1)"
    then show thesis using M 1 2 w1' by (intro that [of it2 "grow (last pre) w1" rest1]) (auto simp: mergeable_def)
  qed
qed

subsection \<open>Carving and mapping\<close>

declare SplitVMA.simps [simp del]

lemma CarveVMA_free:
  assumes "sz AND pm = 0" "base AND pm = 0" "FindVMA m base = Some (pre, v # post)"
    and "vma_type v = VMAType_Free" "start = base - vma_base v" "start + sz \<le> vma_size v"
  shows "CarveVMA pm m base sz = do {
      it1 \<leftarrow> (if start + sz \<noteq> vma_size v
              then do { right \<leftarrow> SplitVMA (pre, v # post) (start + sz); prev_it right } else Some (pre, v # post));
      it2 \<leftarrow> (if start \<noteq> 0 then SplitVMA it1 start else Some it1);
      Some (Inr it2) }"
  using assms(1-4,6) unfolding assms(5) not_less [symmetric] by (simp add: CarveVMA_def Let_def)

text \<open>The part of a free area that is left from an address on.\<close>

definition rest_of :: "VirtualMemoryArea \<Rightarrow> VAddr \<Rightarrow> VirtualMemoryArea \<Rightarrow> bool" where
  "rest_of v a f \<longleftrightarrow> vma_type f = VMAType_Free \<and> vma_base f = a \<and>
     unat (vma_base f) + unat (vma_size f) = unat (vma_base v) + unat (vma_size v)"

lemma CarveVMA_area:
  assumes B: "backings_ok B" and ok: "map_ok B (pre @ v # post)" and c: "covers v base"
    and al: "sz AND pm = 0" "base AND pm = 0"
    and fr: "vma_type v = VMAType_Free" and s: "0 < sz" and fit: "unat base + unat sz \<le> unat (vma_base v) + unat (vma_size v)"
  obtains pre' w post' where "CarveVMA pm (pre @ v # post) base sz = Some (Inr (pre', w # post'))"
    "map_ok B (pre' @ w # post')" "vm_view (pre' @ w # post') = vm_view (pre @ v # post)"
    "vma_base w = base" "vma_size w = sz" "vma_type w = VMAType_Free"
    "unat base + unat sz < unat (vma_base v) + unat (vma_size v) \<longrightarrow> (\<exists>f. post' = f # post \<and> rest_of v (base + sz) f)"
proof -
  obtain k where t: "tiles k (v # post) 0x40000000" using ok by (auto simp: map_ok_def tiles_append)
  have F: "FindVMA (pre @ v # post) base = Some (pre, v # post)"
    using FindVMA_at ok c by (simp add: map_ok_def)
  define start where "start = base - vma_base v"
  have st: "unat start = unat base - unat (vma_base v)" "unat (vma_base v) \<le> unat base"
    using c by (simp_all add: start_def covers_def unat_sub word_le_nat_alt)
  have en: "unat (start + sz) = unat start + unat sz" "unat start + unat sz \<le> unat (vma_size v)"
    using fit st unat_u32_bound [of "vma_size v"] by (simp_all add: unat_add_nowrap)
  have le: "start + sz \<le> vma_size v" using en by (simp add: word_le_nat_alt)
  define v1 where "v1 = v\<lparr>vma_size := start + sz\<rparr>"
  have "\<exists>post1. (if start + sz \<noteq> vma_size v then do { right \<leftarrow> SplitVMA (pre, v # post) (start + sz); prev_it right }
             else Some (pre, v # post)) = Some (pre, v1 # post1) \<and>
      map_ok B (pre @ v1 # post1) \<and> vm_view (pre @ v1 # post1) = vm_view (pre @ v # post) \<and>
      (start + sz \<noteq> vma_size v \<longrightarrow> (\<exists>f. post1 = f # post \<and> rest_of v (base + sz) f))"
  proof (cases "start + sz = vma_size v")
    case True
    then have "v1 = v" by (simp add: v1_def)
    with True ok show ?thesis by simp
  next
    case False
    with le have lt: "start + sz < vma_size v" by simp
    have "0 < start + sz" using en(1) s by (simp add: word_less_nat_alt)
    have sub: "unat (vma_size v - (start + sz)) = unat (vma_size v) - (unat start + unat sz)"
      using le en(1) by (simp add: unat_sub)
    have bs: "vma_base v + (start + sz) = base + sz" by (simp add: start_def)
    have "unat (base + sz) = unat base + unat sz"
      using fit tiles_mem [of k "v # post" "0x40000000" v] t by (intro unat_add_nowrap) simp
    then have "rest_of v (base + sz) f" if "vma_base f = vma_base v + (start + sz)" "vma_size f = vma_size v - (start + sz)" "vma_type f = vma_type v" for f
      using that sub fr st en(2) unfolding bs by (simp add: rest_of_def)
    with SplitVMA_spec [OF B ok \<open>0 < start + sz\<close> lt] show ?thesis
      using False by (fastforce simp: v1_def prev_it_def butlast_append)
  qed
  then obtain post1 where 1: "(if start + sz \<noteq> vma_size v then do { right \<leftarrow> SplitVMA (pre, v # post) (start + sz); prev_it right }
             else Some (pre, v # post)) = Some (pre, v1 # post1)"
      "map_ok B (pre @ v1 # post1)" "vm_view (pre @ v1 # post1) = vm_view (pre @ v # post)"
      "start + sz \<noteq> vma_size v \<longrightarrow> (\<exists>f. post1 = f # post \<and> rest_of v (base + sz) f)" by blast
  have "\<exists>pre2 w. (if start \<noteq> 0 then SplitVMA (pre, v1 # post1) start else Some (pre, v1 # post1)) = Some (pre2, w # post1) \<and>
     map_ok B (pre2 @ w # post1) \<and> vm_view (pre2 @ w # post1) = vm_view (pre @ v1 # post1) \<and>
     vma_base w = base \<and> vma_size w = sz \<and> vma_type w = VMAType_Free"
  proof (cases "start = 0")
    case True
    then have "vma_base v = base" by (simp add: start_def)
    with True 1(2) fr show ?thesis by (simp add: v1_def)
  next
    case False
    then have "0 < start" by (simp add: word_gt_0)
    moreover have "start < vma_size v1" using en(1) s by (simp add: v1_def word_less_nat_alt)
    ultimately obtain new where n: "SplitVMA (pre, v1 # post1) start = Some (pre @ [v1\<lparr>vma_size := start\<rparr>], new # post1)"
      "map_ok B (pre @ [v1\<lparr>vma_size := start\<rparr>, new] @ post1)"
      "vm_view (pre @ [v1\<lparr>vma_size := start\<rparr>, new] @ post1) = vm_view (pre @ v1 # post1)"
      "vma_base new = vma_base v1 + start" "vma_size new = vma_size v1 - start" "vma_type new = vma_type v1"
      using SplitVMA_spec [OF B 1(2)] by blast
    have "vma_base new = base" "vma_size new = sz" "vma_type new = VMAType_Free"
      using n(4-6) fr by (simp_all add: v1_def start_def)
    with n(1-3) False show ?thesis by (intro exI [of _ "pre @ [v1\<lparr>vma_size := start\<rparr>]"] exI [of _ new]) simp
  qed
  then obtain pre2 w where 2: "(if start \<noteq> 0 then SplitVMA (pre, v1 # post1) start else Some (pre, v1 # post1)) = Some (pre2, w # post1)"
     "map_ok B (pre2 @ w # post1)" "vm_view (pre2 @ w # post1) = vm_view (pre @ v1 # post1)"
     "vma_base w = base" "vma_size w = sz" "vma_type w = VMAType_Free" by blast
  have "CarveVMA pm (pre @ v # post) base sz = Some (Inr (pre2, w # post1))"
    by (simp only: CarveVMA_free [OF al F fr start_def le] 1(1) 2(1) bind.bind_lunit)
  moreover have "unat base + unat sz < unat (vma_base v) + unat (vma_size v) \<longrightarrow> (\<exists>f. post1 = f # post \<and> rest_of v (base + sz) f)"
  proof
    assume lt: "unat base + unat sz < unat (vma_base v) + unat (vma_size v)"
    have "start + sz \<noteq> vma_size v"
    proof
      assume "start + sz = vma_size v"
      then have "unat start + unat sz = unat (vma_size v)" using en(1) by simp
      with lt st show False by simp
    qed
    with 1(4) show "\<exists>f. post1 = f # post \<and> rest_of v (base + sz) f" by blast
  qed
  moreover have "vm_view (pre2 @ w # post1) = vm_view (pre @ v # post)" using 1(3) 2(3) by simp
  ultimately show thesis using that [OF _ 2(2) _ 2(4-6)] by blast
qed

lemma CarveVMA_busy:
  assumes "map_ok B (pre @ v # post)" "covers v base" "sz AND pm = 0" "base AND pm = 0"
    and "unat base + unat sz < 2 ^ 32"
    and "vma_type v \<noteq> VMAType_Free \<or> unat (vma_base v) + unat (vma_size v) < unat base + unat sz"
  shows "CarveVMA pm (pre @ v # post) base sz = Some (Inl ResultInvalidAddressState)"
proof -
  have F: "FindVMA (pre @ v # post) base = Some (pre, v # post)"
    using FindVMA_at assms by (simp add: map_ok_def)
  have "unat (base - vma_base v) = unat base - unat (vma_base v)" "unat (vma_base v) \<le> unat base"
    using assms(2) by (simp_all add: covers_def unat_sub word_le_nat_alt)
  then have "unat (base - vma_base v + sz) = unat base - unat (vma_base v) + unat sz"
    using assms(5) by (subst unat_add_nowrap) auto
  then have "vma_type v = VMAType_Free \<Longrightarrow> base - vma_base v + sz > vma_size v"
    using assms(6) \<open>unat (vma_base v) \<le> unat base\<close> by (auto simp: word_less_nat_alt)
  then show ?thesis using F assms(3,4) by (simp add: CarveVMA_def Let_def)
qed

lemma change_vma_spec:
  assumes B: "backings_ok B" and ok: "map_ok B (pre @ v # rest)"
    and u: "vma_base (upd v) = vma_base v" "vma_size (upd v) = vma_size v" "vma_ok B (upd v)"
    and pt: "pt_view calls = vm_host (pre @ v # rest)"
  obtains it w rest' where "change_vma upd (pre, v # rest) calls = Some (it, UpdatePageTableForVMA (upd v) calls)"
    "iter_ok B it" "pt_view (UpdatePageTableForVMA (upd v) calls) = vm_host (iter_map it)"
    "vm_view (iter_map it) = (\<lambda>a. if covers v a then Some (attr_at (upd v) a) else vm_view (pre @ v # rest) a)"
    "snd it = w # rest'" "rest' = rest \<or> (\<exists>n. rest = n # rest' \<and> mergeable (upd v) n)"
    "vma_type w = vma_type (upd v)" "permissions w = permissions (upd v)" "meminfo_state w = meminfo_state (upd v)"
    "fst it = pre \<and> vma_base w = vma_base v \<or>
     pre \<noteq> [] \<and> fst it = butlast pre \<and> vma_base w = vma_base (last pre)"
    "pre \<noteq> [] \<Longrightarrow> mergeable (last pre) (upd v) \<Longrightarrow> vma_base w = vma_base (last pre)"
proof -
  have t: "tiles 0 (pre @ v # rest) 0x40000000" using ok by (simp add: map_ok_def)
  have ok': "map_ok B (pre @ upd v # rest)" by (rule map_ok_change [OF ok u])
  show thesis
  proof (rule MergeAdjacent_spec [OF B ok'], goal_cases)
    case (1 it w rest')
    have "pt_view (UpdatePageTableForVMA (upd v) calls) = vm_host (pre @ upd v # rest)"
      by (rule host_change [OF t u(1,2) pt])
    also have "\<dots> = vm_host (iter_map it)" using 1(3) by (auto simp: vm_host_def)
    finally have h: "pt_view (UpdatePageTableForVMA (upd v) calls) = vm_host (iter_map it)" .
    have vw: "vm_view (iter_map it) =
        (\<lambda>a. if covers v a then Some (attr_at (upd v) a) else vm_view (pre @ v # rest) a)"
      unfolding 1(3) by (rule ext, rule view_change [OF t u(1,2)])
    have "change_vma upd (pre, v # rest) calls = Some (it, UpdatePageTableForVMA (upd v) calls)"
      using 1(1) by (simp add: change_vma_def)
    then show ?case by (rule that [of it w rest']) (use 1 h vw u(1) in auto)
  qed
qed

lemma MapBackingMemory_eq:
  assumes "\<not> vm_locked vm" "cptr mem \<noteq> 0"
    and "CarveVMA pm (vma_map vm) target sz = Some (Inr (pre, w # rest))" "vma_size w = sz"
  shows "MapBackingMemory pm vm target mem sz state =
    (case change_vma (\<lambda>v. v\<lparr>vma_type := VMAType_BackingMemory, permissions := VMAPermission_ReadWrite,
        meminfo_state := state, backing_memory := mem\<rparr>) (pre, w # rest) (page_calls vm) of
       None \<Rightarrow> None | Some (it, calls) \<Rightarrow> Some (Inr it, put_map vm it calls))"
  using assms by (auto simp: MapBackingMemory_def change_vma_def Let_def split: bind_split option.split)

lemma MapBackingMemory_step:
  assumes B: "backings_ok B" and inv: "vm_inv B vm" and lk: "\<not> vm_locked vm"
    and r: "ref_to B mem sz" and al: "sz AND pm = 0" "target AND pm = 0" and s: "0 < sz"
    and m: "vma_map vm = pre @ v # post" "covers v target"
    and fr: "vma_type v = VMAType_Free" and fit: "unat target + unat sz \<le> unat (vma_base v) + unat (vma_size v)"
  obtains it vm' w rest where "MapBackingMemory pm vm target mem sz state = Some (Inr it, vm')"
    "vm_inv B vm'" "\<not> vm_locked vm'"
    "\<And>a. vm_view (vma_map vm') a =
      (if unat target \<le> unat a \<and> unat a < unat target + unat sz
       then Some (VMAType_BackingMemory, VMAPermission_ReadWrite, state, Some (cptr mem + ucast (a - target)))
       else vm_view (vma_map vm) a)"
    "it = (fst it, w # rest)" "vma_map vm' = fst it @ w # rest" "vma_type w = VMAType_BackingMemory" "permissions w = VMAPermission_ReadWrite"
    "unat target + unat sz < unat (vma_base v) + unat (vma_size v) \<Longrightarrow> \<exists>f \<in> set rest. rest_of v (target + sz) f"
proof -
  have ok: "map_ok B (pre @ v # post)" and pt: "pt_view (page_calls vm) = vm_host (pre @ v # post)"
    using inv m by (simp_all add: vm_inv_def)
  have np: "cptr mem \<noteq> 0" by (rule ref_to_facts [OF B r])
  obtain pre' w post' where C: "CarveVMA pm (pre @ v # post) target sz = Some (Inr (pre', w # post'))"
    "map_ok B (pre' @ w # post')" "vm_view (pre' @ w # post') = vm_view (pre @ v # post)"
    "vma_base w = target" "vma_size w = sz" "vma_type w = VMAType_Free"
    "unat target + unat sz < unat (vma_base v) + unat (vma_size v) \<longrightarrow> (\<exists>f. post' = f # post \<and> rest_of v (target + sz) f)"
    by (rule CarveVMA_area [OF B ok m(2) al fr s fit])
  let ?upd = "\<lambda>v. v\<lparr>vma_type := VMAType_BackingMemory, permissions := VMAPermission_ReadWrite,
        meminfo_state := state, backing_memory := mem\<rparr>"
  have pt': "pt_view (page_calls vm) = vm_host (pre' @ w # post')"
    using pt C(3) by (auto simp: vm_host_def)
  have cov: "covers w a \<longleftrightarrow> unat target \<le> unat a \<and> unat a < unat target + unat sz" for a
    using C(4,5) by (simp add: covers_def)
  have wok: "vma_ok B (?upd w)" using r C(5) by (simp add: vma_ok_def)
  show thesis
  proof (rule change_vma_spec [where upd = ?upd, OF B C(2) _ _ wok pt'], goal_cases)
    case (3 it w' rest')
    have keep: "f \<in> set rest'" if "post' = f # post" "vma_type f = VMAType_Free" for f
      using 3(6) that by (auto simp: mergeable_def)
    have rest: "\<exists>f \<in> set rest'. rest_of v (target + sz) f" if "unat target + unat sz < unat (vma_base v) + unat (vma_size v)"
      using C(7) that keep by (auto simp: rest_of_def)
    show ?case
    proof (rule that [of it "put_map vm it (UpdatePageTableForVMA (?upd w) (page_calls vm))" w' rest'])
      show "MapBackingMemory pm vm target mem sz state =
          Some (Inr it, put_map vm it (UpdatePageTableForVMA (?upd w) (page_calls vm)))"
        using MapBackingMemory_eq [OF lk np, of pm target sz pre' w post' state] C m(1) 3(1) by simp
      show "it = (fst it, w' # rest')" using 3(5) by (simp add: prod_eq_iff)
      show "\<exists>f \<in> set rest'. rest_of v (target + sz) f" if "unat target + unat sz < unat (vma_base v) + unat (vma_size v)"
        by (rule rest [OF that])
    qed (use 3 lk C cov m(1) in \<open>auto simp: vm_inv_def put_map_def iter_ok_def attr_at_def host_at_def\<close>)
  qed simp_all
qed

lemma MapBackingMemory_area:
  assumes B: "backings_ok B" and inv: "vm_inv B vm" and lk: "\<not> vm_locked vm"
    and r: "ref_to B mem sz" and al: "sz AND pm = 0" "target AND pm = 0" and s: "0 < sz"
    and m: "vma_map vm = pre @ v # post" "covers v target"
    and fr: "vma_type v = VMAType_Free" and fit: "unat target + unat sz \<le> unat (vma_base v) + unat (vma_size v)"
  obtains it vm' where "MapBackingMemory pm vm target mem sz state = Some (Inr it, vm')"
    "vm_inv B vm'" "\<not> vm_locked vm'"
    "\<And>a. vm_view (vma_map vm') a =
      (if unat target \<le> unat a \<and> unat a < unat target + unat sz
       then Some (VMAType_BackingMemory, VMAPermission_ReadWrite, state, Some (cptr mem + ucast (a - target)))
       else vm_view (vma_map vm) a)"
  by (rule MapBackingMemory_step [OF assms, of state]) (rule that)

subsection \<open>Carving a range\<close>

abbreviation in_range :: "VAddr \<Rightarrow> u32 \<Rightarrow> VAddr \<Rightarrow> bool" where
  "in_range target sz a \<equiv> unat target \<le> unat a \<and> unat a < unat target + unat sz"

lemma takeWhile_bases:
  assumes "tiles s vs e" "w \<in> set vs" "vma_base w < te"
  shows "w \<in> set (takeWhile (\<lambda>v. vma_base v < te) vs)"
  using assms
proof (induction vs arbitrary: s)
  case (Cons v vs)
  show ?case
  proof (cases "w = v")
    case False
    with Cons.prems have w: "w \<in> set vs" "tiles (s + unat (vma_size v)) vs e" by auto
    from tiles_bases_after [OF w(2,1)] Cons.prems have "vma_base v < vma_base w"
      by (auto simp: word_less_nat_alt)
    from this Cons.prems(3) have "vma_base v < te" by (rule less_trans)
    then show ?thesis using Cons.IH [OF w(2,1) Cons.prems(3)] by simp
  qed (use Cons.prems in simp)
qed simp

lemma range_all:
  assumes t: "tiles 0 (pre @ v # post) 0x40000000" and c: "covers v target"
    and te: "unat (target + sz) = unat target + unat sz" "0 < sz"
  shows "(\<exists>w \<in> set (range_to (v # post) (target + sz)). P w) \<longleftrightarrow>
    (\<exists>a w. in_range target sz a \<and> w \<in> set (pre @ v # post) \<and> covers w a \<and> P w)" (is "?L \<longleftrightarrow> ?R")
proof
  obtain k where k: "tiles 0 pre k" "tiles k (v # post) 0x40000000" using t by (auto simp: tiles_append)
  { assume ?L
    then obtain w where w: "w \<in> set (range_to (v # post) (target + sz))" "P w" by blast
    then have lt: "w \<in> set (v # post)" "vma_base w < target + sz"
      by (auto simp: range_to_def dest: set_takeWhileD simp del: takeWhile.simps)
    have pos: "0 < unat (vma_size w)" using tiles_mem [OF k(2) lt(1)] by simp
    show ?R
    proof (cases "w = v")
      case True
      then show ?thesis using c w te(2)
        by (intro exI [of _ target] exI [of _ v]) (simp add: word_less_nat_alt)
    next
      case False
      with lt(1) have "w \<in> set post" by simp
      moreover have "tiles (k + unat (vma_size v)) post 0x40000000" "unat (vma_base v) = k" using k(2) by auto
      ultimately have "unat target \<le> unat (vma_base w)" using c tiles_bases_after by (fastforce simp: covers_def)
      then show ?thesis using lt pos w(2) te(1)
        by (intro exI [of _ "vma_base w"] exI [of _ w]) (auto simp: covers_def word_less_nat_alt)
    qed }
  { assume ?R
    then obtain a w where a: "in_range target sz a" "w \<in> set (pre @ v # post)" "covers w a" "P w" by blast
    have "w \<notin> set pre"
    proof
      assume "w \<in> set pre"
      with k(1) have "unat (vma_base w) + unat (vma_size w) \<le> k" using tiles_mem by blast
      moreover have "k = unat (vma_base v)" using k(2) by simp
      ultimately show False using a(1,3) c by (simp add: covers_def)
    qed
    with a(2) have "w \<in> set (v # post)" by simp
    moreover have "vma_base w < target + sz" using a te(1) by (simp add: covers_def word_less_nat_alt)
    ultimately show ?L using a(4) takeWhile_bases [OF k(2)] by (auto simp: range_to_def simp del: takeWhile.simps) }
qed

lemma view_covers:
  assumes "tiles 0 m e" "w \<in> set m" "covers w a" shows "vm_view m a = Some (attr_at w a)"
proof -
  obtain pre post where m: "m = pre @ w # post" using assms(2) by (auto simp: in_set_conv_decomp)
  then obtain k where "tiles 0 pre k" "unat (vma_base w) = k" using assms(1) by (auto simp: tiles_append)
  then have "vm_view pre a = None" using assms(3) by (simp add: tiles_view_None_iff covers_def)
  then show ?thesis using m assms(3) by (simp add: vm_view_append)
qed

definition type_at :: "vmas \<Rightarrow> VAddr \<Rightarrow> VMAType option" where
  "type_at m a = map_option fst (vm_view m a)"

lemma range_free_iff:
  assumes t: "tiles 0 (pre @ v # post) 0x40000000" and c: "covers v target"
    and te: "unat (target + sz) = unat target + unat sz" "0 < sz"
  shows "list_ex (\<lambda>v. vma_type v = VMAType_Free) (range_to (v # post) (target + sz)) \<longleftrightarrow>
    (\<exists>a. in_range target sz a \<and> type_at (pre @ v # post) a = Some VMAType_Free)"
proof -
  have "(\<exists>w \<in> set (pre @ v # post). covers w a \<and> vma_type w = VMAType_Free) \<longleftrightarrow>
      type_at (pre @ v # post) a = Some VMAType_Free" for a
  proof
    assume "\<exists>w \<in> set (pre @ v # post). covers w a \<and> vma_type w = VMAType_Free"
    then show "type_at (pre @ v # post) a = Some VMAType_Free"
      using view_covers [OF t] by (auto simp: type_at_def attr_at_def simp del: set_append)
  next
    assume "type_at (pre @ v # post) a = Some VMAType_Free"
    then obtain x where x: "vm_view (pre @ v # post) a = Some x" "fst x = VMAType_Free"
      by (auto simp: type_at_def)
    then obtain p w q where "pre @ v # post = p @ w # q" "covers w a" "x = attr_at w a"
      using vm_view_SomeD by blast
    then show "\<exists>w \<in> set (pre @ v # post). covers w a \<and> vma_type w = VMAType_Free"
      using x(2) by (intro bexI [of _ w]) (simp_all add: attr_at_def)
  qed
  then show ?thesis
    unfolding list_ex_iff range_all [OF t c te, of "\<lambda>w. vma_type w = VMAType_Free"] by blast
qed

lemma split_at_base:
  assumes B: "backings_ok B" and ok: "map_ok B (pre @ v # post)" and c: "covers v x"
  obtains pre' w post' where
    "(if x \<noteq> vma_base v then SplitVMA (pre, v # post) (x - vma_base v) else Some (pre, v # post)) = Some (pre', w # post')"
    "map_ok B (pre' @ w # post')" "vm_view (pre' @ w # post') = vm_view (pre @ v # post)" "vma_base w = x"
    "(unat \<circ> vma_base) ` set (pre' @ w # post') = insert (unat x) ((unat \<circ> vma_base) ` set (pre @ v # post))"
proof (cases "x = vma_base v")
  case True
  then show thesis using ok by (intro that [of pre v post]) auto
next
  case False
  have "unat (vma_base v) \<noteq> unat x" using False by simp
  then have "unat (x - vma_base v) = unat x - unat (vma_base v)" "unat (vma_base v) < unat x"
    using c by (simp_all add: covers_def unat_sub word_le_nat_alt del: unat_inj_iff)
  then have "0 < x - vma_base v" "x - vma_base v < vma_size v"
    using c by (auto simp: word_less_nat_alt covers_def)
  from SplitVMA_spec [OF B ok this] obtain new where n:
    "SplitVMA (pre, v # post) (x - vma_base v) = Some (pre @ [v\<lparr>vma_size := x - vma_base v\<rparr>], new # post)"
    "map_ok B (pre @ [v\<lparr>vma_size := x - vma_base v\<rparr>, new] @ post)"
    "vm_view (pre @ [v\<lparr>vma_size := x - vma_base v\<rparr>, new] @ post) = vm_view (pre @ v # post)"
    "vma_base new = vma_base v + (x - vma_base v)" by blast
  show thesis
    by (rule that [of "pre @ [v\<lparr>vma_size := x - vma_base v\<rparr>]" new post]) (use n False in auto)
qed

lemma iter_at_spec:
  assumes "tiles 0 m 0x40000000" "w \<in> set m" "vma_base w = x"
  obtains pre post where "iter_at m x = (pre, w # post)" "m = pre @ w # post" "tiles 0 pre (unat x)"
    "tiles (unat x) (w # post) 0x40000000"
proof -
  obtain pre post where m: "m = pre @ w # post" using assms(2) by (auto simp: in_set_conv_decomp)
  then obtain k where k: "tiles 0 pre k" "tiles k (w # post) 0x40000000" using assms(1) by (auto simp: tiles_append)
  then have kx: "k = unat x" using assms(3) by auto
  have "vma_base u \<noteq> x" if "u \<in> set pre" for u using tiles_bases_before [OF k(1) that] kx by auto
  then have "iter_at m x = (pre, w # post)"
    using m assms(3) by (auto simp: iter_at_def takeWhile_append2 dropWhile_append2)
  with m k kx show thesis using that by simp
qed

lemma CarveVMARange_go:
  assumes "sz AND pm = 0" "target AND pm = 0" "target \<le> target + sz" "target + sz \<le> MAX_ADDRESS" "0 < sz"
    and "FindVMA m target = Some (pre, v # post)"
    and "\<not> list_ex (\<lambda>v. vma_type v = VMAType_Free) (range_to (v # post) (target + sz))"
  shows "CarveVMARange pm m target sz = do {
      it \<leftarrow> (if target \<noteq> vma_base v then SplitVMA (pre, v # post) (target - vma_base v) else Some (pre, v # post));
      m' \<leftarrow> split_end (fst it @ snd it) (target + sz);
      Some (Inr (iter_at m' target)) }"
  using assms by (simp add: CarveVMARange_def Let_def)

lemma CarveVMARange_spec:
  assumes B: "backings_ok B" and mok: "map_ok B m" and al: "sz AND pm = 0" "target AND pm = 0"
    and s: "0 < sz" and fit: "unat target + unat sz \<le> 0x40000000"
  obtains
    (busy) a where "CarveVMARange pm m target sz = Some (Inl ResultInvalidAddressState)"
      "in_range target sz a" "type_at m a = Some VMAType_Free"
  | (ok) pre ys zs where "CarveVMARange pm m target sz = Some (Inr (pre, ys @ zs))"
      "map_ok B (pre @ ys @ zs)" "vm_view (pre @ ys @ zs) = vm_view m" "tiles 0 pre (unat target)"
      "tiles (unat target) ys (unat (target + sz))" "tiles (unat (target + sz)) zs 0x40000000"
      "unat (target + sz) = unat target + unat sz"
      "\<And>a. in_range target sz a \<Longrightarrow> type_at m a \<noteq> Some VMAType_Free"
proof -
  have s': "0 < unat sz" using s by (simp add: word_less_nat_alt)
  have te: "unat (target + sz) = unat target + unat sz" using fit by (intro unat_add_nowrap) simp
  have asserts: "target \<le> target + sz" "target + sz \<le> MAX_ADDRESS"
    using te fit by (simp_all add: word_le_nat_alt)
  obtain pre v post where v: "m = pre @ v # post" "covers v target" "FindVMA m target = Some (pre, v # post)"
    by (rule FindVMA_spec [OF mok, of target]) (use fit s' in auto)
  have t: "tiles 0 (pre @ v # post) 0x40000000" using mok v by (simp add: map_ok_def)
  note R = range_free_iff [OF t v(2) te s]
  show thesis
  proof (cases "list_ex (\<lambda>v. vma_type v = VMAType_Free) (range_to (v # post) (target + sz))")
    case True
    then obtain a where a: "in_range target sz a" "type_at m a = Some VMAType_Free" using R v(1) by auto
    have "CarveVMARange pm m target sz = Some (Inl ResultInvalidAddressState)"
      using True al asserts s v(3) by (simp add: CarveVMARange_def Let_def)
    from busy [OF this a] show thesis .
  next
    case False
    obtain pre1 w1 post1 where 1:
      "(if target \<noteq> vma_base v then SplitVMA (pre, v # post) (target - vma_base v) else Some (pre, v # post)) = Some (pre1, w1 # post1)"
      "map_ok B (pre1 @ w1 # post1)" "vm_view (pre1 @ w1 # post1) = vm_view (pre @ v # post)" "vma_base w1 = target"
      by (rule split_at_base [OF B _ v(2)]) (use mok v in auto)
    let ?m1 = "pre1 @ w1 # post1"
    have "\<exists>m2. split_end ?m1 (target + sz) = Some m2 \<and> map_ok B m2 \<and> vm_view m2 = vm_view ?m1 \<and>
       (unat \<circ> vma_base) ` set ?m1 \<subseteq> (unat \<circ> vma_base) ` set m2 \<and>
       (unat (target + sz) = 0x40000000 \<or> unat (target + sz) \<in> (unat \<circ> vma_base) ` set m2)"
    proof (cases "unat (target + sz) < 0x40000000")
      case False
      then show ?thesis using 1(2) te fit by (intro exI [of _ ?m1]) (auto simp: split_end_def FindVMA_end)
    next
      case True
      obtain pe e poe where e: "?m1 = pe @ e # poe" "covers e (target + sz)" "FindVMA ?m1 (target + sz) = Some (pe, e # poe)"
        by (rule FindVMA_spec [OF 1(2) True])
      obtain pre2 w2 post2 where 2:
        "(if target + sz \<noteq> vma_base e then SplitVMA (pe, e # poe) (target + sz - vma_base e) else Some (pe, e # poe)) = Some (pre2, w2 # post2)"
        "map_ok B (pre2 @ w2 # post2)" "vm_view (pre2 @ w2 # post2) = vm_view ?m1"
        "(unat \<circ> vma_base) ` set (pre2 @ w2 # post2) = insert (unat (target + sz)) ((unat \<circ> vma_base) ` set ?m1)"
        unfolding e(1) by (rule split_at_base [OF B _ e(2)]) (use 1(2) e(1) in auto)
      have "split_end ?m1 (target + sz) = Some (pre2 @ w2 # post2)"
        using e 2(1) by (auto simp: split_end_def split: if_splits)
      with 2 show ?thesis by auto
    qed
    then obtain m2 where m2: "split_end ?m1 (target + sz) = Some m2" "map_ok B m2" "vm_view m2 = vm_view ?m1"
       "(unat \<circ> vma_base) ` set ?m1 \<subseteq> (unat \<circ> vma_base) ` set m2"
       "unat (target + sz) = 0x40000000 \<or> unat (target + sz) \<in> (unat \<circ> vma_base) ` set m2" by blast
    have "unat target \<in> (unat \<circ> vma_base) ` set m2" using m2(4) 1(4) by auto
    then obtain w where w: "w \<in> set m2" "vma_base w = target" by auto
    have t2: "tiles 0 m2 0x40000000" using m2(2) by (simp add: map_ok_def)
    obtain p q where pq: "iter_at m2 target = (p, w # q)" "m2 = p @ w # q" "tiles 0 p (unat target)"
      "tiles (unat target) (w # q) 0x40000000" by (rule iter_at_spec [OF t2 w])
    have "unat (target + sz) = 0x40000000 \<or> unat (target + sz) \<in> (unat \<circ> vma_base) ` set (w # q)"
      using m2(5) tiles_bases_before [OF pq(3)] te s' pq(2) by fastforce
    with tiles_split_iff [OF pq(4), of "unat (target + sz)"] obtain ys zs where
      yz: "w # q = ys @ zs" "tiles (unat target) ys (unat (target + sz))" "tiles (unat (target + sz)) zs 0x40000000"
      by auto
    have C: "CarveVMARange pm m target sz = Some (Inr (p, ys @ zs))"
      by (simp only: CarveVMARange_go [OF al asserts s v(3) False] 1(1) m2(1) pq(1) yz(1)
          bind.bind_lunit fst_conv snd_conv)
    have "type_at m a \<noteq> Some VMAType_Free" if "in_range target sz a" for a
      using R False v(1) that by auto
    then show thesis
      by (intro ok [OF C]) (use m2 pq yz te 1(3) v(1) in \<open>auto simp del: append_assoc\<close>)
  qed
qed

subsection \<open>The range loop\<close>

text \<open>What the loop needs of the change it applies: it keeps the extent of an area and its
  reference well-formed, acts on attributes as \<open>g\<close>, and an area a changed one merges with
  is one the change would leave as it is.\<close>

definition area_change :: "BackingMem set \<Rightarrow> (VirtualMemoryArea \<Rightarrow> VirtualMemoryArea) \<Rightarrow> (attr \<Rightarrow> attr) \<Rightarrow> bool" where
  "area_change B upd g \<longleftrightarrow>
     (\<forall>v. vma_base (upd v) = vma_base v \<and> vma_size (upd v) = vma_size v) \<and>
     (\<forall>v. vma_ok B v \<longrightarrow> vma_ok B (upd v)) \<and>
     (\<forall>v a. attr_at (upd v) a = g (attr_at v a)) \<and>
     (\<forall>v n a. mergeable (upd v) n \<longrightarrow> g (attr_at n a) = attr_at n a)"

lemma range_loop_stop:
  "snd it = [] \<or> \<not> vma_base (hd (snd it)) < te \<Longrightarrow> range_loop upd te it calls = Some (it, calls)"
  by (subst range_loop.simps) auto

lemma range_loop_step:
  "vma_base v < te \<Longrightarrow> change_vma upd (pre, v # rest) calls = Some (it, calls') \<Longrightarrow> snd it = w # rest' \<Longrightarrow>
   range_loop upd te (pre, v # rest) calls = range_loop upd te (fst it @ [w], rest') calls'"
  by (subst range_loop.simps) simp

lemma iter_next_tiles:
  assumes "iter_ok B it" "snd it = w # rest'" "tiles s' rest' 0x40000000"
  shows "map_ok B ((fst it @ [w]) @ rest')" "tiles 0 (fst it @ [w]) s'"
proof -
  show m: "map_ok B ((fst it @ [w]) @ rest')" using assms(1,2) by (simp add: iter_ok_def)
  then obtain k where "tiles 0 (fst it @ [w]) k" "tiles k rest' 0x40000000"
    by (auto simp only: map_ok_def tiles_append)
  moreover have "tiles a xs e \<Longrightarrow> tiles b xs e \<Longrightarrow> a = b" for a b xs e
    by (cases xs) auto
  ultimately show "tiles 0 (fst it @ [w]) s'" using assms(3) by blast
qed

lemma range_loop_spec:
  assumes B: "backings_ok B" and u: "area_change B upd g"
    and "map_ok B (pre @ ys @ zs)" "tiles 0 pre s" "tiles s ys (unat te)" "tiles (unat te) zs 0x40000000"
    and "pt_view calls = vm_host (pre @ ys @ zs)"
  shows "\<exists>it calls'. range_loop upd te (pre, ys @ zs) calls = Some (it, calls') \<and> map_ok B (iter_map it) \<and>
    pt_view calls' = vm_host (iter_map it) \<and>
    vm_view (iter_map it) = (\<lambda>a. if s \<le> unat a \<and> unat a < unat te then map_option g (vm_view (pre @ ys @ zs) a)
                                 else vm_view (pre @ ys @ zs) a)"
  using assms(3-)
proof (induction ys arbitrary: pre zs s calls rule: length_induct)
  case (1 ys)
  have zs: "snd (p, zs) = [] \<or> \<not> vma_base (hd (snd (p, zs))) < te" for p :: vmas
    using 1(5) by (cases zs) (auto simp: word_less_nat_alt)
  show ?case
  proof (cases ys)
    case Nil
    then show ?thesis using 1 range_loop_stop [OF zs, of upd pre] by (auto simp: fun_eq_iff)
  next
    case (Cons v ys')
    have v: "unat (vma_base v) = s" "tiles (s + unat (vma_size v)) ys' (unat te)" "0 < unat (vma_size v)"
      using 1(4) Cons by auto
    have lt: "vma_base v < te" using tiles_le [OF v(2)] v(1,3) by (simp add: word_less_nat_alt)
    have ok: "map_ok B (pre @ v # ys' @ zs)" and pt: "pt_view calls = vm_host (pre @ v # ys' @ zs)"
      using 1(2,6) Cons by simp_all
    have t: "tiles 0 (pre @ v # ys' @ zs) 0x40000000" using ok by (simp add: map_ok_def)
    have upd: "vma_base (upd v) = vma_base v" "vma_size (upd v) = vma_size v" "vma_ok B (upd v)"
      "\<And>a. attr_at (upd v) a = g (attr_at v a)" "\<And>n a. mergeable (upd v) n \<Longrightarrow> g (attr_at n a) = attr_at n a"
      using u ok by (auto simp: area_change_def map_ok_def)
    obtain it w rest' where c: "change_vma upd (pre, v # ys' @ zs) calls = Some (it, UpdatePageTableForVMA (upd v) calls)"
      "iter_ok B it" "pt_view (UpdatePageTableForVMA (upd v) calls) = vm_host (iter_map it)"
      "vm_view (iter_map it) = (\<lambda>a. if covers v a then Some (attr_at (upd v) a) else vm_view (pre @ v # ys' @ zs) a)"
      "snd it = w # rest'" "rest' = ys' @ zs \<or> (\<exists>n. ys' @ zs = n # rest' \<and> mergeable (upd v) n)"
      by (rule change_vma_spec [where upd = upd, OF B ok upd(1-3) pt])
    have vv: "vm_view (pre @ v # ys' @ zs) a = Some (attr_at v a)" if "covers v a" for a
      using view_covers [OF t _ that] by simp
    have view1: "vm_view (iter_map it) a = (if covers v a then map_option g (vm_view (pre @ v # ys' @ zs) a)
        else vm_view (pre @ v # ys' @ zs) a)" for a
      using vv [of a] upd(4) by (simp add: c(4))
    have cv: "covers v a \<longleftrightarrow> s \<le> unat a \<and> unat a < s + unat (vma_size v)" for a
      using v(1) by (simp add: covers_def)
    let ?calls = "UpdatePageTableForVMA (upd v) calls"
    have eq: "range_loop upd te (pre, ys @ zs) calls = range_loop upd te (fst it @ [w], rest') ?calls"
      using range_loop_step [OF lt c(1,5)] Cons by simp
    have mp: "(fst it @ [w]) @ rest' = iter_map it" using c(5) by simp
    from c(6) consider (plain) "rest' = ys' @ zs"
      | (inner) n ys'' where "ys' = n # ys''" "rest' = ys'' @ zs" "mergeable (upd v) n"
      | (outer) n zs' where "ys' = []" "zs = n # zs'" "rest' = zs'" "mergeable (upd v) n"
      by (cases ys') auto
    then show ?thesis
    proof cases
      case plain
      have t': "tiles (s + unat (vma_size v)) rest' 0x40000000"
        using v(2) 1(5) by (auto simp: plain tiles_append)
      note N = iter_next_tiles [OF c(2,5) t']
      have "\<exists>it' calls'. range_loop upd te (fst it @ [w], ys' @ zs) ?calls = Some (it', calls') \<and> map_ok B (iter_map it') \<and>
        pt_view calls' = vm_host (iter_map it') \<and> vm_view (iter_map it') =
          (\<lambda>a. if s + unat (vma_size v) \<le> unat a \<and> unat a < unat te then map_option g (vm_view ((fst it @ [w]) @ ys' @ zs) a)
               else vm_view ((fst it @ [w]) @ ys' @ zs) a)"
        by (rule 1(1) [rule_format]) (use N v(2) 1(5) c(3) mp plain Cons in simp_all)
      then show ?thesis unfolding eq plain using mp plain view1 cv tiles_le [OF v(2)] Cons
        by (fastforce simp: fun_eq_iff)
    next
      case inner
      have n: "unat (vma_base n) = s + unat (vma_size v)"
        "tiles (s + unat (vma_size v) + unat (vma_size n)) ys'' (unat te)" using v(2) inner by auto
      have t': "tiles (s + unat (vma_size v) + unat (vma_size n)) rest' 0x40000000"
        using n(2) 1(5) by (auto simp: inner tiles_append)
      note N = iter_next_tiles [OF c(2,5) t']
      have "\<exists>it' calls'. range_loop upd te (fst it @ [w], ys'' @ zs) ?calls = Some (it', calls') \<and> map_ok B (iter_map it') \<and>
        pt_view calls' = vm_host (iter_map it') \<and> vm_view (iter_map it') =
          (\<lambda>a. if s + unat (vma_size v) + unat (vma_size n) \<le> unat a \<and> unat a < unat te
               then map_option g (vm_view ((fst it @ [w]) @ ys'' @ zs) a) else vm_view ((fst it @ [w]) @ ys'' @ zs) a)"
        by (rule 1(1) [rule_format]) (use N n(2) 1(5) c(3) mp inner Cons in simp_all)
      moreover have "map_option g (vm_view (pre @ v # ys' @ zs) a) = vm_view (pre @ v # ys' @ zs) a" if "covers n a" for a
        using view_covers [OF t _ that] upd(5) [OF inner(3)] inner(1) by simp
      moreover have "covers n a \<longleftrightarrow> s + unat (vma_size v) \<le> unat a \<and> unat a < s + unat (vma_size v) + unat (vma_size n)" for a
        using n(1) by (simp add: covers_def)
      ultimately show ?thesis unfolding eq inner(2) using mp inner(1,2) view1 cv tiles_le [OF n(2)] Cons
        by (fastforce simp: fun_eq_iff)
    next
      case outer
      have "s + unat (vma_size v) = unat te" using v(2) outer(1) by simp
      moreover have "range_loop upd te (fst it @ [w], rest') ?calls = Some ((fst it @ [w], rest'), ?calls)"
        by (rule range_loop_stop) (use 1(5) outer tiles_bases_after in \<open>cases rest'; force simp: word_less_nat_alt\<close>)
      ultimately show ?thesis unfolding eq using mp c(2,3) view1 cv Cons
        by (auto simp: fun_eq_iff iter_ok_def c(5))
    qed
  qed
qed

lemma area_change_unmap:
  "area_change B unmap_vma (\<lambda>_. (VMAType_Free, VMAPermission_None, MS_Free, None))"
  by (auto simp: area_change_def unmap_vma_def vma_ok_def attr_at_def host_at_def mergeable_def)

lemma area_change_reprotect:
  "area_change B (permissions_update (\<lambda>_. p)) (\<lambda>(t, _, st, h). (t, p, st, h))"
  by (auto simp: area_change_def vma_ok_def attr_at_def host_at_def mergeable_def)

lemma area_change_state:
  "area_change B (\<lambda>v. v\<lparr>permissions := p, meminfo_state := st\<rparr>) (\<lambda>(t, _, _, h). (t, p, st, h))"
  by (auto simp: area_change_def vma_ok_def attr_at_def host_at_def mergeable_def)

subsection \<open>Range operations\<close>

definition free_area :: "VirtualMemoryArea \<Rightarrow> bool" where
  "free_area v \<longleftrightarrow> vma_type v = VMAType_Free \<and> permissions v = VMAPermission_None \<and> meminfo_state v = MS_Free"

lemma tiles_last_end:
  "tiles s pre e \<Longrightarrow> pre \<noteq> [] \<Longrightarrow> unat (vma_base (last pre)) + unat (vma_size (last pre)) = e"
  by (induction pre arbitrary: s) auto

lemma unmap_run:
  assumes B: "backings_ok B"
    and "map_ok B (pre @ frm)" "pt_view calls = vm_host (pre @ frm)" "pre \<noteq> []" "free_area (last pre)"
    and "unat (vma_base (last pre)) \<le> t" "unat te \<le> 0x40000000"
    and "range_loop unmap_vma te (pre, frm) calls = Some (it, calls')"
  shows "fst it \<noteq> [] \<and> unat (vma_base (last (fst it))) \<le> t \<and>
    unat te \<le> unat (vma_base (last (fst it))) + unat (vma_size (last (fst it)))"
  using assms(2-)
proof (induction frm arbitrary: pre calls rule: length_induct)
  case (1 frm)
  obtain s where s: "tiles 0 pre s" "tiles s frm 0x40000000" using 1(2) by (auto simp: map_ok_def tiles_append)
  note e = tiles_last_end [OF s(1) 1(4)]
  show ?case
  proof (cases "frm \<noteq> [] \<and> vma_base (hd frm) < te")
    case False
    then have "it = (pre, frm)" using 1(8) range_loop_stop [of "(pre, frm)" te unmap_vma calls] by auto
    moreover have "unat te \<le> s" using False s(2) 1(7) by (cases "frm") (auto simp: word_less_nat_alt)
    ultimately show ?thesis using 1(4,6) e by simp
  next
    case True
    then obtain v rest where f: "frm = v # rest" "vma_base v < te" by (cases "frm") auto
    have ok: "map_ok B (pre @ v # rest)" and pt: "pt_view calls = vm_host (pre @ v # rest)"
      and u: "vma_base (unmap_vma v) = vma_base v" "vma_size (unmap_vma v) = vma_size v" "vma_ok B (unmap_vma v)"
      using 1(2,3) f(1) by (simp_all add: unmap_vma_def vma_ok_def)
    have mg: "mergeable (last pre) (unmap_vma v)"
      using 1(5) by (simp add: mergeable_def free_area_def unmap_vma_def)
    obtain it' w rest' where c: "change_vma unmap_vma (pre, v # rest) calls = Some (it', UpdatePageTableForVMA (unmap_vma v) calls)"
      "iter_ok B it'" "pt_view (UpdatePageTableForVMA (unmap_vma v) calls) = vm_host (iter_map it')"
      "snd it' = w # rest'" "rest' = rest \<or> (\<exists>n. rest = n # rest' \<and> mergeable (unmap_vma v) n)"
      "vma_type w = vma_type (unmap_vma v)" "permissions w = permissions (unmap_vma v)"
      "meminfo_state w = meminfo_state (unmap_vma v)" "vma_base w = vma_base (last pre)"
      by (rule change_vma_spec [where upd = unmap_vma, OF B ok u pt]) (use mg 1(4) in blast)
    have "free_area w" using c(6-8) by (simp add: free_area_def unmap_vma_def)
    moreover have "range_loop unmap_vma te (fst it' @ [w], rest') (UpdatePageTableForVMA (unmap_vma v) calls) = Some (it, calls')"
      using range_loop_step [OF f(2) c(1,4)] 1(8) f(1) by simp
    moreover have "length rest' < length frm" using c(5) f(1) by auto
    ultimately show ?thesis
      using c(2,3,4,9) 1(6,7)
      by (intro 1(1) [rule_format, of rest' "fst it' @ [w]"]) (simp_all add: iter_ok_def)
  qed
qed

lemma UnmapRange_found:
  assumes B: "backings_ok B" and ok: "map_ok B (pre @ ys @ zs)"
    and t: "tiles 0 pre (unat target)" "tiles (unat target) ys (unat te)" "tiles (unat te) zs 0x40000000"
    and te: "unat te = unat target + unat sz" "0 < sz"
    and pt: "pt_view calls = vm_host (pre @ ys @ zs)"
    and l: "range_loop unmap_vma te (pre, ys @ zs) calls = Some (it, calls')" and ok': "map_ok B (iter_map it)"
  shows "\<exists>p w q. FindVMA (iter_map it) target = Some (p, w # q) \<and> sz \<le> vma_size w"
proof -
  have s: "0 < unat sz" using te(2) by (simp add: word_less_nat_alt)
  obtain v ys' where ys: "ys = v # ys'" using t(2) te s by (cases ys) auto
  have v: "vma_base v < te" "unat (vma_base v) = unat target" using t(2) ys te s by (auto simp: word_less_nat_alt)
  have ok1: "map_ok B (pre @ v # ys' @ zs)" and pt1: "pt_view calls = vm_host (pre @ v # ys' @ zs)"
    and u: "vma_base (unmap_vma v) = vma_base v" "vma_size (unmap_vma v) = vma_size v" "vma_ok B (unmap_vma v)"
    using ok pt ys by (simp_all add: unmap_vma_def vma_ok_def)
  obtain it' w rest' where c: "change_vma unmap_vma (pre, v # ys' @ zs) calls = Some (it', UpdatePageTableForVMA (unmap_vma v) calls)"
      "iter_ok B it'" "pt_view (UpdatePageTableForVMA (unmap_vma v) calls) = vm_host (iter_map it')"
      "snd it' = w # rest'"
      "vma_type w = vma_type (unmap_vma v)" "permissions w = permissions (unmap_vma v)"
      "meminfo_state w = meminfo_state (unmap_vma v)"
      "fst it' = pre \<and> vma_base w = vma_base v \<or> pre \<noteq> [] \<and> fst it' = butlast pre \<and> vma_base w = vma_base (last pre)"
    by (rule change_vma_spec [where upd = unmap_vma, OF B ok1 u pt1]) blast
  have base: "unat (vma_base w) \<le> unat target"
  proof (cases "vma_base w = vma_base v")
    case False
    with c(8) have "vma_base w = vma_base (last pre)" "pre \<noteq> []" by auto
    then show ?thesis using tiles_bases_before [OF t(1), of "last pre"] by simp
  qed (use v in simp)
  have fw: "free_area w" using c(5-7) by (simp add: free_area_def unmap_vma_def)
  have "range_loop unmap_vma te (fst it' @ [w], rest') (UpdatePageTableForVMA (unmap_vma v) calls) = Some (it, calls')"
    using range_loop_step [OF v(1) c(1,4)] l ys by simp
  from unmap_run [OF B _ _ _ _ _ _ this, of "unat target"] c(2,3,4) base fw tiles_le [OF t(3)]
  have r: "fst it \<noteq> []" "unat (vma_base (last (fst it))) \<le> unat target"
    "unat te \<le> unat (vma_base (last (fst it))) + unat (vma_size (last (fst it)))"
    by (simp_all add: iter_ok_def)
  let ?l = "last (fst it)"
  have m: "iter_map it = butlast (fst it) @ ?l # snd it" using r(1) by simp
  have "covers ?l target" using r te s by (simp add: covers_def)
  then have "FindVMA (iter_map it) target = Some (butlast (fst it), ?l # snd it)"
    using FindVMA_at [of "butlast (fst it)" ?l "snd it" target] ok' unfolding m by (simp add: map_ok_def)
  moreover have "sz \<le> vma_size ?l" using r te by (simp add: word_le_nat_alt)
  ultimately show ?thesis by blast
qed

lemma carve_and_loop:
  assumes B: "backings_ok B" and inv: "vm_inv B vm" and u: "area_change B upd g"
    and al: "sz AND pm = 0" "target AND pm = 0" and s: "0 < sz" and fit: "unat target + unat sz \<le> 0x40000000"
  obtains
    (busy) a where "CarveVMARange pm (vma_map vm) target sz = Some (Inl ResultInvalidAddressState)"
      "in_range target sz a" "type_at (vma_map vm) a = Some VMAType_Free"
  | (ok) pre ys zs it calls where "CarveVMARange pm (vma_map vm) target sz = Some (Inr (pre, ys @ zs))"
      "range_loop upd (target + sz) (pre, ys @ zs) (page_calls vm) = Some (it, calls)"
      "vm_inv B (put_map vm it calls)"
      "vm_view (iter_map it) = (\<lambda>a. if in_range target sz a then map_option g (vm_view (vma_map vm) a)
                                     else vm_view (vma_map vm) a)"
      "\<And>a. in_range target sz a \<Longrightarrow> type_at (vma_map vm) a \<noteq> Some VMAType_Free"
      "map_ok B (pre @ ys @ zs)" "tiles 0 pre (unat target)" "tiles (unat target) ys (unat (target + sz))"
      "tiles (unat (target + sz)) zs 0x40000000" "unat (target + sz) = unat target + unat sz"
      "pt_view (page_calls vm) = vm_host (pre @ ys @ zs)"
proof -
  have mok: "map_ok B (vma_map vm)" and pt: "pt_view (page_calls vm) = vm_host (vma_map vm)"
    using inv by (simp_all add: vm_inv_def)
  show thesis
  proof (rule CarveVMARange_spec [OF B mok al s fit], goal_cases)
    case (1 a) then show ?case by (rule busy)
  next
    case (2 pre ys zs)
    have pt': "pt_view (page_calls vm) = vm_host (pre @ ys @ zs)" using pt 2(3) by (auto simp: vm_host_def)
    from range_loop_spec [OF B u 2(2,4,5,6) pt'] obtain it calls where
      l: "range_loop upd (target + sz) (pre, ys @ zs) (page_calls vm) = Some (it, calls)" "map_ok B (iter_map it)"
      "pt_view calls = vm_host (iter_map it)"
      "vm_view (iter_map it) = (\<lambda>a. if unat target \<le> unat a \<and> unat a < unat (target + sz)
         then map_option g (vm_view (pre @ ys @ zs) a) else vm_view (pre @ ys @ zs) a)" by blast
    show ?case
      by (rule ok [OF 2(1) l(1)]) (use l(2-4) 2 pt' in \<open>auto simp: vm_inv_def put_map_def\<close>)
  qed
qed

lemma UnmapRange_cases:
  assumes B: "backings_ok B" and inv: "vm_inv B vm" and lk: "\<not> vm_locked vm"
    and al: "sz AND pm = 0" "target AND pm = 0" and s: "0 < sz" and fit: "unat target + unat sz \<le> 0x40000000"
  obtains
    (busy) a where "UnmapRange pm vm target sz = Some (ResultInvalidAddressState, vm)"
      "in_range target sz a" "type_at (vma_map vm) a = Some VMAType_Free"
  | (ok) vm' where "UnmapRange pm vm target sz = Some (ResultSuccess, vm')" "vm_inv B vm'" "\<not> vm_locked vm'"
      "vm_view (vma_map vm') = (\<lambda>a. if in_range target sz a then Some (VMAType_Free, VMAPermission_None, MS_Free, None)
                                     else vm_view (vma_map vm) a)"
      "\<And>a. in_range target sz a \<Longrightarrow> type_at (vma_map vm) a \<noteq> Some VMAType_Free"
proof -
  show thesis
  proof (rule carve_and_loop [OF B inv area_change_unmap al s fit], goal_cases)
  case (1 a)
  then show ?case using lk by (intro busy [of a]) (simp_all add: UnmapRange_def)
next
  case (2 pre ys zs it calls)
  obtain p w q where f: "FindVMA (iter_map it) target = Some (p, w # q)" "sz \<le> vma_size w"
    using UnmapRange_found [OF B 2(6-10) s 2(11,2)] 2(3) by (auto simp: vm_inv_def put_map_def)
  have mok: "map_ok B (vma_map vm)" using inv by (simp add: vm_inv_def)
  have v: "vm_view (vma_map vm) a \<noteq> None" if "in_range target sz a" for a
    using that fit by (simp add: map_ok_view [OF mok])
  show ?case
  proof (rule ok [of "put_map vm it calls"])
    show "UnmapRange pm vm target sz = Some (ResultSuccess, put_map vm it calls)"
      using lk 2(1,2) f by (simp add: UnmapRange_def put_map_def Let_def)
    show "vm_view (vma_map (put_map vm it calls)) = (\<lambda>a. if in_range target sz a then Some (VMAType_Free, VMAPermission_None, MS_Free, None)
                                     else vm_view (vma_map vm) a)"
      using 2(4) v by (auto simp: put_map_def fun_eq_iff)
  qed (use 2 lk in \<open>simp_all add: put_map_def\<close>)
qed
qed

lemma ReprotectRange_cases:
  assumes B: "backings_ok B" and inv: "vm_inv B vm" and lk: "\<not> vm_locked vm"
    and al: "sz AND pm = 0" "target AND pm = 0" and s: "0 < sz" and fit: "unat target + unat sz \<le> 0x40000000"
  obtains
    (busy) a where "ReprotectRange pm vm target sz perms = Some (ResultInvalidAddressState, vm)"
      "in_range target sz a" "type_at (vma_map vm) a = Some VMAType_Free"
  | (ok) vm' where "ReprotectRange pm vm target sz perms = Some (ResultSuccess, vm')" "vm_inv B vm'" "\<not> vm_locked vm'"
      "vm_view (vma_map vm') = (\<lambda>a. if in_range target sz a
         then map_option (\<lambda>(t, _, st, h). (t, perms, st, h)) (vm_view (vma_map vm) a) else vm_view (vma_map vm) a)"
      "\<And>a. in_range target sz a \<Longrightarrow> type_at (vma_map vm) a \<noteq> Some VMAType_Free"
proof -
  show thesis
  proof (rule carve_and_loop [OF B inv area_change_reprotect [where p = perms] al s fit], goal_cases)
  case (1 a)
  then show ?case using lk by (intro busy [of a]) (simp_all add: ReprotectRange_def)
next
  case (2 pre ys zs it calls)
  then show ?case using lk
    by (intro ok [of "put_map vm it calls"]) (simp_all add: ReprotectRange_def put_map_def)
qed
qed

definition attr_mismatch :: "MemoryState \<Rightarrow> VMAPermission \<Rightarrow> attr \<Rightarrow> bool" where
  "attr_mismatch es ep = (\<lambda>(t, p, st, h). st \<noteq> es \<or> (ucast p :: u32) AND ucast ep \<noteq> ucast ep)"

lemma range_mismatch_iff:
  assumes t: "tiles 0 (pre @ v # post) 0x40000000" and c: "covers v target"
    and te: "unat (target + sz) = unat target + unat sz" "0 < sz"
  shows "list_ex (state_mismatch es ep) (range_to (v # post) (target + sz)) \<longleftrightarrow>
    (\<exists>a x. in_range target sz a \<and> vm_view (pre @ v # post) a = Some x \<and> attr_mismatch es ep x)"
proof -
  have eq: "state_mismatch es ep w = attr_mismatch es ep (attr_at w a)" for w a
    by (simp add: state_mismatch_def attr_mismatch_def attr_at_def)
  have "(\<exists>w \<in> set (pre @ v # post). covers w a \<and> state_mismatch es ep w) \<longleftrightarrow>
      (\<exists>x. vm_view (pre @ v # post) a = Some x \<and> attr_mismatch es ep x)" for a
  proof
    assume "\<exists>w \<in> set (pre @ v # post). covers w a \<and> state_mismatch es ep w"
    then obtain w where w: "w \<in> set (pre @ v # post)" "covers w a" "state_mismatch es ep w" by blast
    with view_covers [OF t w(1,2)] eq [of w a] show "\<exists>x. vm_view (pre @ v # post) a = Some x \<and> attr_mismatch es ep x" by blast
  next
    assume "\<exists>x. vm_view (pre @ v # post) a = Some x \<and> attr_mismatch es ep x"
    then obtain x where x: "vm_view (pre @ v # post) a = Some x" "attr_mismatch es ep x" by blast
    then obtain p w q where "pre @ v # post = p @ w # q" "covers w a" "x = attr_at w a"
      using vm_view_SomeD by blast
    then show "\<exists>w \<in> set (pre @ v # post). covers w a \<and> state_mismatch es ep w"
      using x(2) eq by (intro bexI [of _ w]) simp_all
  qed
  then show ?thesis unfolding list_ex_iff range_all [OF t c te, of "state_mismatch es ep"] by blast
qed

lemma ChangeMemoryState_cases:
  assumes B: "backings_ok B" and inv: "vm_inv B vm" and lk: "\<not> vm_locked vm"
    and al: "sz AND pm = 0" "target AND pm = 0" and s: "0 < sz" and fit: "unat target + unat sz \<le> 0x40000000"
  obtains
    (refused) a x where "ChangeMemoryState pm vm target sz es ep ns np = Some (ResultInvalidAddressState, vm)"
      "in_range target sz a" "vm_view (vma_map vm) a = Some x" "attr_mismatch es ep x \<or> fst x = VMAType_Free"
  | (ok) vm' where "ChangeMemoryState pm vm target sz es ep ns np = Some (ResultSuccess, vm')" "vm_inv B vm'" "\<not> vm_locked vm'"
      "vm_view (vma_map vm') = (\<lambda>a. if in_range target sz a
         then map_option (\<lambda>(t, _, _, h). (t, np, ns, h)) (vm_view (vma_map vm) a) else vm_view (vma_map vm) a)"
      "\<And>a x. in_range target sz a \<Longrightarrow> vm_view (vma_map vm) a = Some x \<Longrightarrow> \<not> attr_mismatch es ep x \<and> fst x \<noteq> VMAType_Free"
proof -
  have mok: "map_ok B (vma_map vm)" using inv by (simp add: vm_inv_def)
  have te: "unat (target + sz) = unat target + unat sz" using fit by (intro unat_add_nowrap) simp
  obtain pre v post where v: "vma_map vm = pre @ v # post" "covers v target" "FindVMA (vma_map vm) target = Some (pre, v # post)"
    by (rule FindVMA_spec [OF mok, of target]) (use fit s in \<open>auto simp: word_less_nat_alt\<close>)
  have t: "tiles 0 (pre @ v # post) 0x40000000" using mok v(1) by (simp add: map_ok_def)
  note R = range_mismatch_iff [OF t v(2) te s, of es ep]
  show thesis
  proof (cases "list_ex (state_mismatch es ep) (range_to (v # post) (target + sz))")
    case True
    then obtain a x where "in_range target sz a" "vm_view (vma_map vm) a = Some x" "attr_mismatch es ep x"
      using R v(1) by auto
    then show thesis using True lk v(3) by (intro refused [of a x]) (simp_all add: ChangeMemoryState_def Let_def)
  next
    case False
    then have nm: "\<not> attr_mismatch es ep x" if "in_range target sz a" "vm_view (vma_map vm) a = Some x" for a x
      using R that unfolding v(1) by blast
    show thesis
    proof (rule carve_and_loop [OF B inv area_change_state [where p = np and st = ns] al s fit], goal_cases)
      case (1 a)
      then obtain x where "vm_view (vma_map vm) a = Some x" "fst x = VMAType_Free" by (auto simp: type_at_def)
      with 1 show ?case using False lk v(3)
        by (intro refused [of a x]) (simp_all add: ChangeMemoryState_def Let_def)
    next
      case (2 pre' ys zs it calls)
      show ?case
      proof (rule ok [of "put_map vm it calls"])
        fix a x assume "in_range target sz a" "vm_view (vma_map vm) a = Some x"
        then show "\<not> attr_mismatch es ep x \<and> fst x \<noteq> VMAType_Free"
          using nm 2(5) [of a] by (simp add: type_at_def)
      qed (use 2 False lk v(3) in \<open>simp_all add: ChangeMemoryState_def Let_def put_map_def\<close>)
    qed
  qed
qed

subsection \<open>Backing blocks of a range\<close>

definition expand :: "(MemoryRef \<times> u32) list \<Rightarrow> u64 list" where
  "expand bs = concat (map (\<lambda>(r, n). map (\<lambda>i. cptr r + of_nat i) [0 ..< unat n]) bs)"

lemma ref_add_ok:
  assumes "backings_ok B" "ref_to B r sz" "off < sz"
  shows "\<exists>r'. ref_add r off = Some r' \<and> cptr r' = cptr r + ucast off"
proof -
  obtain b where b: "b \<in> B" "backing_mem r = Some b"
     "unat (csize r) = unat (bm_size b) - unat (ref_offset r)"
     "unat (ref_offset r) + unat sz \<le> unat (bm_size b)"
    by (rule ref_to_facts [OF assms(1,2)])
  have c: "cptr r = bm_ptr b + ref_offset r" using assms(2) b(2) by (auto simp: ref_to_def)
  have o: "unat off < unat sz" using assms(3) by (simp add: word_less_nat_alt)
  have "ucast off < csize r" using b o by (simp add: word_less_nat_alt unat_ucast_u32_u64)
  moreover have "unat (ref_offset r + ucast off) = unat (ref_offset r) + unat off"
    using b(4) o unsigned_less [of "bm_size b", where ?'a = nat]
    by (subst unat_add_nowrap) (auto simp: unat_ucast_u32_u64)
  then have "ref_offset r + ucast off \<le> bm_size b" using b(4) o by (simp add: word_le_nat_alt)
  ultimately show ?thesis using b(2) c by (simp add: ref_add_def mk_MemoryRef_def Init_def)
qed

lemma map_ok_covers: "map_ok B m \<Longrightarrow> v \<in> set m \<Longrightarrow> covers v a \<Longrightarrow> vm_view m a = Some (attr_at v a)"
  unfolding map_ok_def using view_covers by blast

lemma host_in_area:
  assumes "map_ok B m" "v \<in> set m" "vma_type v = VMAType_BackingMemory" "covers v cur" "covers v (cur + of_nat i)"
    and "unat cur + i < 2 ^ 32"
  shows "the (vm_host m (cur + of_nat i)) = cptr (backing_memory v) + ucast (cur - vma_base v) + of_nat i"
proof -
  have i: "unat (of_nat i :: u32) = i" using assms(6) by (simp add: unat_of_nat)
  have d: "unat (cur - vma_base v) = unat cur - unat (vma_base v)" "unat (vma_base v) \<le> unat cur"
    using assms(4) by (simp_all add: covers_def unat_sub word_le_nat_alt)
  have "(ucast (cur - vma_base v + of_nat i) :: u64) = ucast (cur - vma_base v) + ucast (of_nat i :: u32)"
    using assms(6) d i by (intro ucast_add_small) simp
  moreover have "(ucast (of_nat i :: u32) :: u64) = of_nat i"
  proof -
    have "unat (ucast (of_nat i :: u32) :: u64) = unat (of_nat i :: u64)"
      using i assms(6) by (simp add: unat_ucast_u32_u64 unat_of_nat)
    then show ?thesis by simp
  qed
  moreover have "vm_view m (cur + of_nat i) = Some (attr_at v (cur + of_nat i))"
    by (rule map_ok_covers [OF assms(1,2,5)])
  ultimately show ?thesis using assms(3) by (simp add: vm_host_def attr_at_def host_at_def algebra_simps)
qed

lemma upt_split_map: "n \<le> k \<Longrightarrow> map f [0 ..< k] = map f [0 ..< n] @ map (\<lambda>i. f (n + i)) [0 ..< k - n]" for n k :: nat
proof (rule nth_equalityI, simp)
  fix i assume "n \<le> k" "i < length (map f [0 ..< k])"
  then show "map f [0 ..< k] ! i = (map f [0 ..< n] @ map (\<lambda>i. f (n + i)) [0 ..< k - n]) ! i"
    by (cases "i < n") (simp_all add: nth_append)
qed

lemma backing_blocks_spec:
  assumes B: "backings_ok B" and ok: "map_ok B m" and "unat cur \<le> unat te" "unat te \<le> 0x40000000"
  shows "if \<exists>a. unat cur \<le> unat a \<and> unat a < unat te \<and> type_at m a = Some VMAType_Free
    then backing_blocks m cur te acc = Some (Inl ResultInvalidAddressState)
    else \<exists>bs. backing_blocks m cur te acc = Some (Inr (acc @ bs)) \<and>
      expand bs = map (\<lambda>i. the (vm_host m (cur + of_nat i))) [0 ..< unat te - unat cur] \<and> (\<forall>b \<in> set bs. 0 < snd b)"
  using assms(3-)
proof (induction "unat te - unat cur" arbitrary: cur acc rule: less_induct)
  case less
  show ?case
  proof (cases "cur = te")
    case True
    then show ?thesis by (subst backing_blocks.simps; auto simp: expand_def backing_blocks.simps)
  next
    case False
    then have lt: "unat cur < unat te" using less.prems(1) by (metis le_neq_implies_less unat_inj_iff)
    obtain pre v post where v: "m = pre @ v # post" "covers v cur" "FindVMA m cur = Some (pre, v # post)"
      "vm_view m cur = Some (attr_at v cur)"
      by (rule FindVMA_spec [OF ok, of cur]) (use lt less.prems(2) in auto)
    have vm: "vma_ok B v" "v \<in> set m" using ok v(1) by (auto simp: map_ok_def)
    have ve: "unat (vma_base v) + unat (vma_size v) \<le> 0x40000000"
      using ok tiles_mem [of 0 m _ v] vm(2) by (simp add: map_ok_def)
    show ?thesis
    proof (cases "vma_type v")
      case VMAType_Free
      then have "type_at m cur = Some VMAType_Free" using v(4) by (simp add: type_at_def attr_at_def)
      moreover have "backing_blocks m cur te acc = Some (Inl ResultInvalidAddressState)"
        using False v(3) VMAType_Free by (subst backing_blocks.simps) simp
      ultimately show ?thesis using lt by auto
    next
      case VMAType_BackingMemory
      define off where "off = cur - vma_base v"
      have o: "unat off = unat cur - unat (vma_base v)" "unat (vma_base v) \<le> unat cur"
        using v(2) by (simp_all add: off_def covers_def unat_sub word_le_nat_alt)
      have "off < vma_size v" using o v(2) by (simp add: covers_def word_less_nat_alt)
      with vm(1) VMAType_BackingMemory obtain r where r: "ref_add (backing_memory v) off = Some r"
          "cptr r = cptr (backing_memory v) + ucast off"
        using ref_add_ok [OF B, of "backing_memory v" "vma_size v" off] by (auto simp: vma_ok_def)
      define stop where "stop = min te (vma_base v + vma_size v)"
      have stop: "unat stop = min (unat te) (unat (vma_base v) + unat (vma_size v))"
        using area_end [OF ve] by (simp add: stop_def min_def word_le_nat_alt)
      define n where "n = stop - cur"
      have n: "unat n = unat stop - unat cur" "0 < unat n" "unat stop \<le> unat te" "unat cur < unat stop"
        using stop lt v(2) by (simp_all add: n_def unat_sub word_le_nat_alt covers_def)
      have cn: "cur + n = stop" by (simp add: n_def)
      have step: "backing_blocks m cur te acc = backing_blocks m stop te (acc @ [(r, n)])"
        using False v(3) VMAType_BackingMemory r(1)
        by (subst backing_blocks.simps) (simp add: Let_def stop_def [symmetric] off_def [symmetric] n_def [symmetric] cn)
      have in_v: "covers v a" if "unat cur \<le> unat a" "unat a < unat stop" for a
        using that stop o v(2) by (simp add: covers_def)
      then have nf: "type_at m a \<noteq> Some VMAType_Free" if "unat cur \<le> unat a" "unat a < unat stop" for a
        using map_ok_covers [OF ok vm(2), of a] that VMAType_BackingMemory by (simp add: type_at_def attr_at_def)
      have ex: "(\<exists>a. unat cur \<le> unat a \<and> unat a < unat te \<and> type_at m a = Some VMAType_Free) \<longleftrightarrow>
          (\<exists>a. unat stop \<le> unat a \<and> unat a < unat te \<and> type_at m a = Some VMAType_Free)"
        (is "?l \<longleftrightarrow> ?r")
      proof
        assume ?l
        then obtain a where "unat cur \<le> unat a" "unat a < unat te" "type_at m a = Some VMAType_Free" by blast
        moreover from this have "unat stop \<le> unat a" using nf [of a] by force
        ultimately show ?r by blast
      next
        assume ?r
        then obtain a where a: "unat stop \<le> unat a" "unat a < unat te" "type_at m a = Some VMAType_Free" by blast
        then have "unat cur \<le> unat a" using n(4) by simp
        with a show ?l by blast
      qed
      have here: "map (\<lambda>i. cptr r + of_nat i) [0 ..< unat n] = map (\<lambda>i. the (vm_host m (cur + of_nat i))) [0 ..< unat n]"
      proof (rule map_cong [OF refl])
        fix i assume i: "i \<in> set [0 ..< unat n]"
        have u: "unat (cur + of_nat i) = unat cur + i"
          using i n(1,3) less.prems(2) by (subst unat_add_nowrap) (simp_all add: unat_of_nat)
        have "covers v (cur + of_nat i)" using u i n(1) by (intro in_v) auto
        then show "cptr r + of_nat i = the (vm_host m (cur + of_nat i))"
          using host_in_area [OF ok vm(2) VMAType_BackingMemory v(2), of i] i n(1,3) less.prems(2) r(2)
          by (simp add: off_def)
      qed
      have rest: "map (\<lambda>i. the (vm_host m (cur + of_nat i))) [0 ..< unat te - unat cur] =
          map (\<lambda>i. the (vm_host m (cur + of_nat i))) [0 ..< unat n] @
          map (\<lambda>i. the (vm_host m (stop + of_nat i))) [0 ..< unat te - unat stop]"
        using upt_split_map [of "unat n" "unat te - unat cur" "\<lambda>i. the (vm_host m (cur + of_nat i))"] n
        by (simp add: add.assoc [symmetric] cn)
      have dec: "unat te - unat stop < unat te - unat cur" using n by simp
      note IH = less.hyps [OF dec n(3) less.prems(2), of "acc @ [(r, n)]"]
      show ?thesis
      proof (cases "\<exists>a. unat stop \<le> unat a \<and> unat a < unat te \<and> type_at m a = Some VMAType_Free")
        case True
        then show ?thesis unfolding step ex if_P [OF True] using IH [unfolded if_P [OF True]] by simp
      next
        case False
        then obtain bs where bs: "backing_blocks m stop te (acc @ [(r, n)]) = Some (Inr ((acc @ [(r, n)]) @ bs))"
          "expand bs = map (\<lambda>i. the (vm_host m (stop + of_nat i))) [0 ..< unat te - unat stop]" "\<forall>b \<in> set bs. 0 < snd b"
          using IH [unfolded if_not_P [OF False]] by blast
        have "expand ((r, n) # bs) = map (\<lambda>i. the (vm_host m (cur + of_nat i))) [0 ..< unat te - unat cur]"
          unfolding rest here [symmetric] bs(2) [symmetric] by (simp add: expand_def)
        moreover have "0 < n" using n(2) by (simp add: word_less_nat_alt)
        ultimately show ?thesis unfolding step ex if_not_P [OF False] using bs(1,3) by (intro exI [of _ "(r, n) # bs"]) simp
      qed
    qed
  qed
qed

subsection \<open>Histories of an address space\<close>

lemma unat_add_le: "a \<le> a + b \<Longrightarrow> unat (a + b) = unat a + unat b" for a b :: "'a::len word"
  by (metis unat_plus_simple)

lemma CarveVMARange_SomeD:
  assumes "CarveVMARange pm m target sz = Some r"
  shows "sz AND pm = 0" "target AND pm = 0" "0 < sz" "unat target + unat sz \<le> 0x40000000"
proof -
  have a: "sz AND pm = 0" "target AND pm = 0" "target \<le> target + sz" "target + sz \<le> MAX_ADDRESS" "0 < sz"
    using assms by (auto simp: CarveVMARange_def Let_def split: if_splits)
  then show "sz AND pm = 0" "target AND pm = 0" "0 < sz" by simp_all
  show "unat target + unat sz \<le> 0x40000000"
    using a(3,4) unat_add_le [OF a(3)] by (simp add: word_le_nat_alt)
qed

lemma SplitVMA_SomeD: "SplitVMA (pre, v # rest) off = Some it \<Longrightarrow> 0 < off \<and> off < vma_size v"
  by (auto simp: SplitVMA.simps Let_def split: if_splits)

lemma CarveVMA_InrD:
  assumes mok: "map_ok B m" and c: "CarveVMA pm m base sz = Some (Inr it)"
  obtains pre v post where "sz AND pm = 0" "base AND pm = 0" "m = pre @ v # post" "covers v base"
    "vma_type v = VMAType_Free" "0 < sz" "unat base + unat sz \<le> unat (vma_base v) + unat (vma_size v)"
proof -
  have al: "sz AND pm = 0" "base AND pm = 0" using c by (auto simp: CarveVMA_def split: if_splits)
  have "unat base < 0x40000000"
    using c al by (rule_tac ccontr) (simp add: CarveVMA_def FindVMA_end)
  then obtain pre v post where v: "m = pre @ v # post" "covers v base" "FindVMA m base = Some (pre, v # post)"
    by (rule FindVMA_spec [OF mok])
  define start where "start = base - vma_base v"
  have st: "unat start = unat base - unat (vma_base v)" "unat (vma_base v) \<le> unat base" "unat start < unat (vma_size v)"
    using v(2) by (auto simp: start_def covers_def unat_sub word_le_nat_alt)
  have fr: "vma_type v = VMAType_Free" and le: "start + sz \<le> vma_size v"
    using c al v(3) by (auto simp: CarveVMA_def Let_def start_def split: if_splits)
  from c [unfolded CarveVMA_free [OF al v(3) fr start_def le]] obtain it1 where
    1: "(if start + sz \<noteq> vma_size v then do { right \<leftarrow> SplitVMA (pre, v # post) (start + sz); prev_it right }
         else Some (pre, v # post)) = Some it1"
    "(if start \<noteq> 0 then SplitVMA it1 start else Some it1) = Some it"
    by (auto simp: bind_eq_Some_iff)
  have "start < start + sz"
  proof (cases "start + sz = vma_size v")
    case True
    then show ?thesis using st(3) by (simp add: word_less_nat_alt)
  next
    case False
    then obtain right where r: "SplitVMA (pre, v # post) (start + sz) = Some right" "prev_it right = Some it1"
      using 1(1) by (auto simp: bind_eq_Some_iff)
    have 0: "0 < start + sz" using SplitVMA_SomeD [OF r(1)] by simp
    have "fst right = pre @ [v\<lparr>vma_size := start + sz\<rparr>]"
      using r(1) by (auto simp: SplitVMA.simps Let_def bind_eq_Some_iff split: if_splits)
    then have "it1 = (pre, v\<lparr>vma_size := start + sz\<rparr> # snd right)" using r(2) by (auto simp: prev_it_def)
    then show ?thesis using 0 1(2) SplitVMA_SomeD by (cases "start = 0") fastforce+
  qed
  moreover from this have "unat (start + sz) = unat start + unat sz" by (simp add: unat_add_le less_imp_le)
  ultimately have "0 < unat sz" "unat start + unat sz \<le> unat (vma_size v)"
    using le by (simp_all add: word_less_nat_alt word_le_nat_alt)
  with st al v fr that show thesis by (simp add: word_less_nat_alt)
qed

inductive vm_reach :: "BackingMem set \<Rightarrow> VMManager \<Rightarrow> bool" for B where
  reset: "VM_Reset vm0 = Some vm \<Longrightarrow> vm_reach B vm"
| map: "vm_reach B vm \<Longrightarrow> ref_to B mem sz \<Longrightarrow>
    MapBackingMemory pm vm target mem sz st = Some (r, vm') \<Longrightarrow> vm_reach B vm'"
| map_base: "vm_reach B vm \<Longrightarrow> ref_to B mem sz \<Longrightarrow>
    MapBackingMemoryToBase pm vm base region_size mem sz st = Some (ra, vm') \<Longrightarrow> vm_reach B vm'"
| unmap: "vm_reach B vm \<Longrightarrow> UnmapRange pm vm target sz = Some (res, vm') \<Longrightarrow> vm_reach B vm'"
| protect: "vm_reach B vm \<Longrightarrow> ReprotectRange pm vm target sz perms = Some (res, vm') \<Longrightarrow> vm_reach B vm'"
| protect_one: "vm_reach B vm \<Longrightarrow> iter_map it = vma_map vm \<Longrightarrow> Reprotect vm it perms = Some (it', vm') \<Longrightarrow> vm_reach B vm'"
| change: "vm_reach B vm \<Longrightarrow> ChangeMemoryState pm vm target sz es ep ns np = Some (res, vm') \<Longrightarrow> vm_reach B vm'"

lemma MapBackingMemory_inv:
  assumes B: "backings_ok B" and i: "vm_inv B vm \<and> \<not> vm_locked vm" and r: "ref_to B mem sz"
    and m: "MapBackingMemory pm vm target mem sz st = Some (res, vm')"
  shows "vm_inv B vm' \<and> \<not> vm_locked vm'"
proof -
  obtain c where c: "CarveVMA pm (vma_map vm) target sz = Some c"
    using m by (auto simp: MapBackingMemory_def bind_eq_Some_iff split: if_splits)
  have lk: "\<not> vm_locked vm" and inv: "vm_inv B vm" and mok: "map_ok B (vma_map vm)"
    using i by (simp_all add: vm_inv_def)
  show ?thesis
  proof (cases c)
    case (Inl err)
    then have "vm' = vm" using m c by (auto simp: MapBackingMemory_def split: if_splits)
    with i show ?thesis by simp
  next
    case (Inr it)
    with c have c': "CarveVMA pm (vma_map vm) target sz = Some (Inr it)" by simp
    obtain pre v post where v: "sz AND pm = 0" "target AND pm = 0" "vma_map vm = pre @ v # post" "covers v target"
      "vma_type v = VMAType_Free" "0 < sz" "unat target + unat sz \<le> unat (vma_base v) + unat (vma_size v)"
      by (rule CarveVMA_InrD [OF mok c'])
    show ?thesis
      by (rule MapBackingMemory_area [OF B inv lk r v(1,2,6,3,4,5,7), of st]) (use m in auto)
  qed
qed

lemma MapBackingMemoryToBase_inv:
  assumes "backings_ok B" "vm_inv B vm \<and> \<not> vm_locked vm" "ref_to B mem sz"
    and "MapBackingMemoryToBase pm vm base region_size mem sz st = Some (res, vm')"
  shows "vm_inv B vm' \<and> \<not> vm_locked vm'"
proof -
  have "vm' = vm \<or> (\<exists>target r. MapBackingMemory pm vm target mem sz st = Some (r, vm'))"
    using assms(2,4)
    by (auto simp: MapBackingMemoryToBase_def Let_def bind_eq_Some_iff split: if_splits)
      (auto split: sum.splits)
  then show ?thesis using MapBackingMemory_inv [OF assms(1-3)] assms(2) by blast
qed

lemma Reprotect_inv:
  assumes B: "backings_ok B" and i: "vm_inv B vm \<and> \<not> vm_locked vm" and m: "iter_map it = vma_map vm"
    and r: "Reprotect vm it perms = Some (it', vm')"
  shows "vm_inv B vm' \<and> \<not> vm_locked vm'"
proof -
  let ?upd = "permissions_update (\<lambda>_. perms)"
  obtain calls where c: "change_vma ?upd it (page_calls vm) = Some (it', calls)" "vm' = put_map vm it' calls"
    using r by (auto simp: Reprotect_def bind_eq_Some_iff split: if_splits)
  obtain pre v rest where it: "it = (pre, v # rest)"
    using c(1) by (cases it; cases "snd it") (auto simp: change_vma_def)
  have ok: "map_ok B (pre @ v # rest)" and pt: "pt_view (page_calls vm) = vm_host (pre @ v # rest)"
    using i m it by (simp_all add: vm_inv_def)
  have vok: "vma_ok B (?upd v)" using ok by (simp add: vma_ok_def map_ok_def)
  show ?thesis
    by (rule change_vma_spec [where upd = ?upd, OF B ok _ _ vok pt])
      (use c it i in \<open>auto simp: vm_inv_def iter_ok_def put_map_def\<close>)
qed

lemma vm_reach_inv:
  assumes B: "backings_ok B" shows "vm_reach B vm \<Longrightarrow> vm_inv B vm \<and> \<not> vm_locked vm"
proof (induction rule: vm_reach.induct)
  case (reset vm0 vm)
  then have vm: "vma_map vm = [initial_vma]" "\<not> vm_locked vm"
    "page_calls vm = UpdatePageTableForVMA initial_vma (page_calls vm0 @ [ClearTable])"
    by (auto simp: VM_Reset_def split: if_splits)
  have "pt_view (page_calls vm0 @ [ClearTable]) a = None" for a by (simp add: pt_view_def)
  then have "pt_view (page_calls vm) = vm_host (vma_map vm)"
    by (auto simp: vm vm_host_def pt_view_Update attr_at_def host_at_def initial_vma_def fun_eq_iff)
  then show ?case using vm by (simp add: vm_inv_def map_ok_def initial_vma_def vma_ok_def)
next
  case (map vm mem sz pm target st r vm')
  then show ?case using MapBackingMemory_inv [OF B] by blast
next
  case (map_base vm mem sz pm base region_size st ra vm')
  then show ?case using MapBackingMemoryToBase_inv [OF B] by blast
next
  case (unmap vm pm target sz res vm')
  then obtain c where "CarveVMARange pm (vma_map vm) target sz = Some c"
    by (auto simp: UnmapRange_def bind_eq_Some_iff split: if_splits)
  note D = CarveVMARange_SomeD [OF this]
  show ?case by (rule UnmapRange_cases [OF B _ _ D, of vm]) (use unmap in auto)
next
  case (protect vm pm target sz perms res vm')
  then obtain c where "CarveVMARange pm (vma_map vm) target sz = Some c"
    by (auto simp: ReprotectRange_def bind_eq_Some_iff split: if_splits)
  note D = CarveVMARange_SomeD [OF this]
  show ?case by (rule ReprotectRange_cases [OF B _ _ D, of vm perms]) (use protect in auto)
next
  case (protect_one vm it perms it' vm')
  then show ?case using Reprotect_inv [OF B] by blast
next
  case (change vm pm target sz es ep ns np res vm')
  show ?case
  proof (cases "\<exists>c. CarveVMARange pm (vma_map vm) target sz = Some c")
    case True
    then obtain c where "CarveVMARange pm (vma_map vm) target sz = Some c" by blast
    note D = CarveVMARange_SomeD [OF this]
    show ?thesis by (rule ChangeMemoryState_cases [OF B _ _ D, of vm es ep ns np]) (use change in auto)
  next
    case False
    then have "vm' = vm" using change
      by (auto simp: ChangeMemoryState_def Let_def bind_eq_Some_iff split: if_splits)
    with change show ?thesis by simp
  qed
qed

subsection \<open>The first area a mapping may go to\<close>

definition first_free :: "VAddr \<Rightarrow> u32 \<Rightarrow> vmas \<Rightarrow> VirtualMemoryArea option" where
  "first_free base sz m = List.find (\<lambda>vma. vma_type vma = VMAType_Free \<and>
     vma_base vma + vma_size vma > base \<and> vma_base vma + vma_size vma \<ge> base + sz) m"

lemma first_free_area:
  assumes "map_ok B m" "first_free base sz m = Some v"
  obtains pre post where "m = pre @ v # post" "vma_type v = VMAType_Free" "covers v (max base (vma_base v))"
    "unat (vma_base v + vma_size v) = unat (vma_base v) + unat (vma_size v)"
proof -
  from assms(2) have v: "v \<in> set m" "vma_type v = VMAType_Free" "base < vma_base v + vma_size v"
    by (auto simp: first_free_def find_Some_iff)
  have t: "tiles 0 m 0x40000000" using assms(1) by (simp add: map_ok_def)
  note ends = tiles_mem [OF t v(1)] area_end [of v]
  obtain pre post where "m = pre @ v # post" using v(1) by (auto simp: in_set_conv_decomp)
  then show thesis
    using that v ends by (auto simp: covers_def word_less_nat_alt max_def word_le_nat_alt)
qed

lemma map_to_base_ok:
  assumes B: "backings_ok B" and inv: "vm_inv B vm" and lk: "\<not> vm_locked vm"
    and r: "ref_to B mem sz" and al: "sz AND pm = 0" "max base (vma_base v) AND pm = 0" and s: "0 < sz"
    and v: "first_free base sz (vma_map vm) = Some v"
    and fit: "unat (max base (vma_base v)) + unat sz \<le> unat (vma_base v) + unat (vma_size v)"
    and reg: "\<not> max base (vma_base v) + sz > base + region_size"
  obtains vm' where "MapBackingMemoryToBase pm vm base region_size mem sz state = Some (Inr (max base (vma_base v)), vm')"
    "vm_inv B vm'" "\<not> vm_locked vm'"
    "\<And>a. vm_view (vma_map vm') a = (if in_range (max base (vma_base v)) sz a
       then Some (VMAType_BackingMemory, VMAPermission_ReadWrite, state, Some (cptr mem + ucast (a - max base (vma_base v))))
       else vm_view (vma_map vm) a)"
proof -
  have mok: "map_ok B (vma_map vm)" using inv by (simp add: vm_inv_def)
  obtain pre post where m: "vma_map vm = pre @ v # post" "vma_type v = VMAType_Free" "covers v (max base (vma_base v))"
    by (rule first_free_area [OF mok v])
  show thesis
  proof (rule MapBackingMemory_area [OF B inv lk r al s m(1,3,2) fit, of state], goal_cases)
    case (1 it vm')
    then show ?case
      using that [of vm'] v reg lk by (simp add: MapBackingMemoryToBase_def first_free_def Let_def)
  qed
qed

lemma map_to_base_misfit:
  assumes inv: "vm_inv B vm" and lk: "\<not> vm_locked vm" and np: "cptr mem \<noteq> 0"
    and al: "sz AND pm = 0" "max base (vma_base v) AND pm = 0" and s: "0 < sz"
    and v: "first_free base sz (vma_map vm) = Some v"
    and fit: "unat (vma_base v) + unat (vma_size v) < unat (max base (vma_base v)) + unat sz"
    and wrap: "unat (max base (vma_base v)) + unat sz < 2 ^ 32"
    and reg: "\<not> max base (vma_base v) + sz > base + region_size"
  shows "MapBackingMemoryToBase pm vm base region_size mem sz state = Some (Inl ResultInvalidAddressState, vm)"
proof -
  have mok: "map_ok B (vma_map vm)" using inv by (simp add: vm_inv_def)
  obtain pre post where m: "vma_map vm = pre @ v # post" "vma_type v = VMAType_Free" "covers v (max base (vma_base v))"
    by (rule first_free_area [OF mok v])
  have "CarveVMA pm (vma_map vm) (max base (vma_base v)) sz = Some (Inl ResultInvalidAddressState)"
    using CarveVMA_busy [of B pre v post "max base (vma_base v)" sz pm] mok m al wrap fit by simp
  then show ?thesis using v reg lk np by (simp add: MapBackingMemoryToBase_def MapBackingMemory_def first_free_def Let_def)
qed

subsection \<open>Properties\<close>

definition blank_vm :: VMManager where
  "blank_vm = \<lparr>vma_map = [], page_calls = [], vm_locked = False\<rparr>"

definition fresh_vm :: VMManager where
  "fresh_vm = \<lparr>vma_map = [initial_vma],
     page_calls = [ClearTable, UnmapRegion 0 MAX_ADDRESS], vm_locked = False\<rparr>"

definition test_mem :: BackingMem where
  "test_mem = \<lparr>bm_ptr = 0x7F0000000000, bm_size = 0x100000\<rparr>"

definition test_ref :: MemoryRef where
  "test_ref = \<lparr>backing_mem = Some test_mem, ref_offset = 0, cptr = 0x7F0000000000, csize = 0x100000\<rparr>"

lemma fresh_vm_reach: "vm_reach {test_mem} fresh_vm"
  by (rule vm_reach.reset [of blank_vm])
    (simp add: VM_Reset_def blank_vm_def fresh_vm_def UpdatePageTableForVMA_def initial_vma_def)

lemma test_mem_ok: "backings_ok {test_mem}"
  by (simp add: backings_ok_def test_mem_def)

lemma test_ref_to: "ref_to {test_mem} test_ref 0x4000"
  by (simp add: ref_to_def test_ref_def test_mem_def)

lemma fresh_find: "FindVMA (vma_map fresh_vm) 0x8000 = Some ([], [initial_vma])"
  by (simp add: FindVMA_def fresh_vm_def initial_vma_def MAX_ADDRESS_def prev_it_def)

text \<open>C2: in every state an address space reaches, its areas are nonempty and tile it from
  address 0 to \<open>MAX_ADDRESS\<close> without gap or overlap, and the page table that received its
  calls maps every address exactly where the area of that address says.\<close>
theorem address_space_invariant:
  assumes "backings_ok B" "vm_reach B vm"
  shows "tiles 0 (vma_map vm) (unat MAX_ADDRESS) \<and>
    pt_view (page_calls vm) = vm_host (vma_map vm)"
  using vm_reach_inv [OF assms] by (simp add: vm_inv_def map_ok_def)

theorem address_space_invariant_witness:
  "tiles 0 (vma_map fresh_vm) (unat MAX_ADDRESS) \<and> pt_view (page_calls fresh_vm) = vm_host (vma_map fresh_vm)"
  using address_space_invariant [OF test_mem_ok fresh_vm_reach] .

text \<open>\<open>MapBackingMemory\<close> of a page-aligned nonempty range inside the address space succeeds
  exactly when the area at the target is free and reaches to the end of the range; then
  exactly the addresses of the range become readable and writable memory in the given
  state, backed by consecutive host bytes from the reference on; otherwise it returns
  \<open>ResultInvalidAddressState\<close> and nothing changes.\<close>
theorem map_backing_memory_effect:
  assumes "backings_ok B" "vm_reach B vm" "ref_to B mem sz" "0 < sz"
    and "sz AND pm = 0" "target AND pm = 0" "unat target + unat sz \<le> unat MAX_ADDRESS"
    and "FindVMA (vma_map vm) target = Some (pre, v # post)"
  shows "if vma_type v = VMAType_Free \<and> unat target + unat sz \<le> unat (vma_base v) + unat (vma_size v)
    then \<exists>it vm'. MapBackingMemory pm vm target mem sz state = Some (Inr it, vm') \<and>
      vm_view (vma_map vm') = (\<lambda>a.
        if unat target \<le> unat a \<and> unat a < unat target + unat sz
        then Some (VMAType_BackingMemory, VMAPermission_ReadWrite, state, Some (cptr mem + ucast (a - target)))
        else vm_view (vma_map vm) a)
    else MapBackingMemory pm vm target mem sz state = Some (Inl ResultInvalidAddressState, vm)"
proof -
  have inv: "vm_inv B vm" and lk: "\<not> vm_locked vm" using vm_reach_inv [OF assms(1,2)] by simp_all
  then have mok: "map_ok B (vma_map vm)" by (simp add: vm_inv_def)
  have "unat target < 0x40000000" using assms(4,7) by (simp add: word_less_nat_alt)
  then obtain p w q where "vma_map vm = p @ w # q" "covers w target" "FindVMA (vma_map vm) target = Some (p, w # q)"
    by (rule FindVMA_spec [OF mok])
  with assms(8) have v: "vma_map vm = pre @ v # post" "covers v target" by auto
  have np: "cptr mem \<noteq> 0" by (rule ref_to_facts [OF assms(1,3)])
  show ?thesis
  proof (cases "vma_type v = VMAType_Free \<and> unat target + unat sz \<le> unat (vma_base v) + unat (vma_size v)")
    case True
    then have fr: "vma_type v = VMAType_Free" and fit: "unat target + unat sz \<le> unat (vma_base v) + unat (vma_size v)"
      by simp_all
    show ?thesis unfolding if_P [OF True]
    proof (rule MapBackingMemory_area [OF assms(1) inv lk assms(3,5,6,4) v fr fit, of state], goal_cases)
      case (1 it vm')
      then show ?case by (intro exI [of _ it] exI [of _ vm']) (simp add: fun_eq_iff)
    qed
  next
    case False
    have "CarveVMA pm (vma_map vm) target sz = Some (Inl ResultInvalidAddressState)"
      unfolding v(1) using False assms(7) mok v
      by (intro CarveVMA_busy [OF _ v(2) assms(5,6)]) auto
    then show ?thesis using False lk np by (auto simp: MapBackingMemory_def)
  qed
qed

theorem map_backing_memory_effect_witness:
  "\<exists>it vm'. MapBackingMemory 0xFFF fresh_vm 0x8000 test_ref 0x4000 MS_Private = Some (Inr it, vm') \<and>
     vm_view (vma_map vm') 0x9000 =
       Some (VMAType_BackingMemory, VMAPermission_ReadWrite, MS_Private, Some 0x7F0000001000)"
proof -
  have "vma_type initial_vma = VMAType_Free \<and>
     unat (0x8000 :: u32) + unat (0x4000 :: u32) \<le> unat (vma_base initial_vma) + unat (vma_size initial_vma)"
    by (simp add: initial_vma_def)
  note c = if_P [OF this]
  have p: "(0 :: u32) < 0x4000" "(0x4000 :: u32) AND 0xFFF = 0" "(0x8000 :: u32) AND 0xFFF = 0"
    "unat (0x8000 :: u32) + unat (0x4000 :: u32) \<le> unat MAX_ADDRESS" by simp_all
  obtain it vm' where "MapBackingMemory 0xFFF fresh_vm 0x8000 test_ref 0x4000 MS_Private = Some (Inr it, vm')"
    "vm_view (vma_map vm') = (\<lambda>a.
        if unat (0x8000 :: u32) \<le> unat a \<and> unat a < unat (0x8000 :: u32) + unat (0x4000 :: u32)
        then Some (VMAType_BackingMemory, VMAPermission_ReadWrite, MS_Private, Some (cptr test_ref + ucast (a - 0x8000)))
        else vm_view (vma_map fresh_vm) a)"
    using map_backing_memory_effect [OF test_mem_ok fresh_vm_reach test_ref_to p fresh_find,
        of MS_Private, unfolded c] by blast
  then show ?thesis by (simp add: test_ref_def)
qed

text \<open>\<open>UnmapRange\<close> on a page-aligned nonempty range inside the address space returns
  \<open>ResultInvalidAddressState\<close> without change when part of the range is free; otherwise it
  succeeds (none of its assertions fires, the final one on the merged free area included),
  makes exactly the addresses of the range free and leaves every other address as it was.\<close>
theorem unmap_range_effect:
  assumes "backings_ok B" "vm_reach B vm" "0 < sz"
    and "sz AND pm = 0" "target AND pm = 0" "unat target + unat sz \<le> unat MAX_ADDRESS"
  shows "if \<exists>a. in_range target sz a \<and> type_at (vma_map vm) a = Some VMAType_Free
    then UnmapRange pm vm target sz = Some (ResultInvalidAddressState, vm)
    else \<exists>vm'. UnmapRange pm vm target sz = Some (ResultSuccess, vm') \<and>
      vm_view (vma_map vm') = (\<lambda>a. if in_range target sz a
        then Some (VMAType_Free, VMAPermission_None, MS_Free, None) else vm_view (vma_map vm) a)"
proof -
  have i: "vm_inv B vm" "\<not> vm_locked vm" using vm_reach_inv [OF assms(1,2)] by simp_all
  have fit: "unat target + unat sz \<le> 0x40000000" using assms(6) by simp
  show ?thesis by (rule UnmapRange_cases [OF assms(1) i assms(4,5,3) fit]) auto
qed

definition mapped_vm :: VMManager where
  "mapped_vm = snd (the (MapBackingMemory 0xFFF fresh_vm 0x8000 test_ref 0x4000 MS_Private))"

lemma mapped_vm_run:
  "\<exists>it. MapBackingMemory 0xFFF fresh_vm 0x8000 test_ref 0x4000 MS_Private = Some (Inr it, mapped_vm)"
  "vma_map mapped_vm =
    [initial_vma\<lparr>vma_size := 0x8000\<rparr>,
     \<lparr>vma_base = 0x8000, vma_size = 0x4000, vma_type = VMAType_BackingMemory,
      permissions = VMAPermission_ReadWrite, meminfo_state = MS_Private, backing_memory = test_ref\<rparr>,
     initial_vma\<lparr>vma_base := 0xC000, vma_size := 0x3FFF4000\<rparr>]"
  by (simp_all add: mapped_vm_def MapBackingMemory_def test_ref_def CarveVMA_def fresh_find
      SplitVMA.simps initial_vma_def MAX_ADDRESS_def CanBeMergedWith_def Let_def prev_it_def
      MergeAdjacent_def merge_next_def merge_prev_def put_map_def fresh_vm_def FindVMA_def)

lemma mapped_vm_reach: "vm_reach {test_mem} mapped_vm"
  using vm_reach.map [OF fresh_vm_reach test_ref_to] mapped_vm_run(1) by blast

lemma mapped_vm_type:
  assumes "unat (0x8000 :: u32) \<le> unat a" "unat a < unat (0x8000 :: u32) + unat (0x4000 :: u32)"
  shows "vm_view (vma_map mapped_vm) a =
    Some (VMAType_BackingMemory, VMAPermission_ReadWrite, MS_Private, Some (0x7F0000000000 + ucast (a - 0x8000)))"
  using assms by (simp add: mapped_vm_run(2) covers_def attr_at_def host_at_def initial_vma_def test_ref_def)

theorem unmap_range_effect_witness:
  "\<exists>vm'. UnmapRange 0xFFF mapped_vm 0x8000 0x4000 = Some (ResultSuccess, vm') \<and>
     vm_view (vma_map vm') 0x9000 = Some (VMAType_Free, VMAPermission_None, MS_Free, None)"
proof -
  have "\<not> (\<exists>a. in_range 0x8000 0x4000 a \<and> type_at (vma_map mapped_vm) a = Some VMAType_Free)"
    by (auto simp: type_at_def mapped_vm_type)
  note c = if_not_P [OF this]
  obtain vm' where "UnmapRange 0xFFF mapped_vm 0x8000 0x4000 = Some (ResultSuccess, vm')"
    "vm_view (vma_map vm') = (\<lambda>a. if in_range 0x8000 0x4000 a
        then Some (VMAType_Free, VMAPermission_None, MS_Free, None) else vm_view (vma_map mapped_vm) a)"
    using unmap_range_effect [OF test_mem_ok mapped_vm_reach, of "0x4000" "0xFFF" "0x8000"] unfolding c by auto
  then show ?thesis by simp
qed

text \<open>\<open>ReprotectRange\<close> on a page-aligned nonempty range inside the address space returns
  \<open>ResultInvalidAddressState\<close> without change when part of the range is free; otherwise it
  changes the permissions of exactly the addresses of the range, and their type, state and
  host bytes stay.\<close>
theorem reprotect_range_effect:
  assumes "backings_ok B" "vm_reach B vm" "0 < sz"
    and "sz AND pm = 0" "target AND pm = 0" "unat target + unat sz \<le> unat MAX_ADDRESS"
  shows "if \<exists>a. in_range target sz a \<and> type_at (vma_map vm) a = Some VMAType_Free
    then ReprotectRange pm vm target sz perms = Some (ResultInvalidAddressState, vm)
    else \<exists>vm'. ReprotectRange pm vm target sz perms = Some (ResultSuccess, vm') \<and>
      vm_view (vma_map vm') = (\<lambda>a. if in_range target sz a
        then map_option (\<lambda>(t, _, st, h). (t, perms, st, h)) (vm_view (vma_map vm) a)
        else vm_view (vma_map vm) a)"
proof -
  have i: "vm_inv B vm" "\<not> vm_locked vm" using vm_reach_inv [OF assms(1,2)] by simp_all
  have fit: "unat target + unat sz \<le> 0x40000000" using assms(6) by simp
  show ?thesis by (rule ReprotectRange_cases [OF assms(1) i assms(4,5,3) fit, of perms]) auto
qed

theorem reprotect_range_effect_witness:
  "\<exists>vm'. ReprotectRange 0xFFF mapped_vm 0x9000 0x1000 VMAPermission_Read = Some (ResultSuccess, vm') \<and>
     vm_view (vma_map vm') 0x9000 =
       Some (VMAType_BackingMemory, VMAPermission_Read, MS_Private, Some 0x7F0000001000)"
proof -
  have "\<not> (\<exists>a. in_range 0x9000 0x1000 a \<and> type_at (vma_map mapped_vm) a = Some VMAType_Free)"
    by (auto simp: type_at_def mapped_vm_type)
  note c = if_not_P [OF this]
  obtain vm' where "ReprotectRange 0xFFF mapped_vm 0x9000 0x1000 VMAPermission_Read = Some (ResultSuccess, vm')"
    "vm_view (vma_map vm') = (\<lambda>a. if in_range 0x9000 0x1000 a
        then map_option (\<lambda>(t, _, st, h). (t, VMAPermission_Read, st, h)) (vm_view (vma_map mapped_vm) a)
        else vm_view (vma_map mapped_vm) a)"
    using reprotect_range_effect [OF test_mem_ok mapped_vm_reach, of "0x1000" "0xFFF" "0x9000" VMAPermission_Read]
    unfolding c by auto
  then show ?thesis by (simp add: mapped_vm_type)
qed

text \<open>\<open>ChangeMemoryState\<close> on a page-aligned nonempty range inside the address space returns
  \<open>ResultInvalidAddressState\<close> without change when some address of the range is free, is not
  in the expected state or lacks one of the expected permissions; otherwise it sets the new
  state and permissions on exactly the addresses of the range.\<close>
theorem change_memory_state_effect:
  assumes "backings_ok B" "vm_reach B vm" "0 < sz"
    and "sz AND pm = 0" "target AND pm = 0" "unat target + unat sz \<le> unat MAX_ADDRESS"
  shows "if \<exists>a x. in_range target sz a \<and> vm_view (vma_map vm) a = Some x \<and>
        (attr_mismatch es ep x \<or> fst x = VMAType_Free)
    then ChangeMemoryState pm vm target sz es ep ns np = Some (ResultInvalidAddressState, vm)
    else \<exists>vm'. ChangeMemoryState pm vm target sz es ep ns np = Some (ResultSuccess, vm') \<and>
      vm_view (vma_map vm') = (\<lambda>a. if in_range target sz a
        then map_option (\<lambda>(t, _, _, h). (t, np, ns, h)) (vm_view (vma_map vm) a)
        else vm_view (vma_map vm) a)"
proof -
  have i: "vm_inv B vm" "\<not> vm_locked vm" using vm_reach_inv [OF assms(1,2)] by simp_all
  have fit: "unat target + unat sz \<le> 0x40000000" using assms(6) by simp
  show ?thesis
  proof (rule ChangeMemoryState_cases [OF assms(1) i assms(4,5,3) fit, of es ep ns np], goal_cases)
    case (1 a x)
    then have "\<exists>a x. in_range target sz a \<and> vm_view (vma_map vm) a = Some x \<and>
        (attr_mismatch es ep x \<or> fst x = VMAType_Free)" by blast
    note c = if_P [OF this]
    from 1(1) show ?case unfolding c .
  next
    case (2 vm')
    then have "\<not> (\<exists>a x. in_range target sz a \<and> vm_view (vma_map vm) a = Some x \<and>
        (attr_mismatch es ep x \<or> fst x = VMAType_Free))" by blast
    note c = if_not_P [OF this]
    from 2(1,4) show ?case unfolding c by blast
  qed
qed

theorem change_memory_state_effect_witness:
  "\<exists>vm'. ChangeMemoryState 0xFFF mapped_vm 0x8000 0x1000 MS_Private VMAPermission_Read MS_Locked
       VMAPermission_None = Some (ResultSuccess, vm') \<and>
     vm_view (vma_map vm') 0x8000 =
       Some (VMAType_BackingMemory, VMAPermission_None, MS_Locked, Some 0x7F0000000000)"
proof -
  have "\<not> (\<exists>a x. in_range 0x8000 0x1000 a \<and> vm_view (vma_map mapped_vm) a = Some x \<and>
        (attr_mismatch MS_Private VMAPermission_Read x \<or> fst x = VMAType_Free))"
    by (auto simp: mapped_vm_type attr_mismatch_def VMAPermission_Read_def VMAPermission_ReadWrite_def)
  note c = if_not_P [OF this]
  have p: "(0 :: u32) < 0x1000" "(0x1000 :: u32) AND 0xFFF = 0" "(0x8000 :: u32) AND 0xFFF = 0"
    "unat (0x8000 :: u32) + unat (0x1000 :: u32) \<le> unat MAX_ADDRESS" by simp_all
  obtain vm' where "ChangeMemoryState 0xFFF mapped_vm 0x8000 0x1000 MS_Private VMAPermission_Read MS_Locked
       VMAPermission_None = Some (ResultSuccess, vm')"
    "vm_view (vma_map vm') = (\<lambda>a. if in_range 0x8000 0x1000 a
        then map_option (\<lambda>(t, _, _, h). (t, VMAPermission_None, MS_Locked, h)) (vm_view (vma_map mapped_vm) a)
        else vm_view (vma_map mapped_vm) a)"
    using change_memory_state_effect [OF test_mem_ok mapped_vm_reach p, of MS_Private
        VMAPermission_Read MS_Locked VMAPermission_None, unfolded c] by blast
  then show ?thesis by (simp add: mapped_vm_type)
qed

text \<open>for a range inside the address space, \<open>GetBackingBlocksForRange\<close> terminates; it returns
  \<open>ResultInvalidAddressState\<close> exactly when part of the range is free, and otherwise blocks
  whose host bytes, laid end to end, are the host bytes of the range's addresses in order.\<close>
theorem backing_blocks_cover_range:
  assumes "backings_ok B" "vm_reach B vm" "unat address + unat sz \<le> unat MAX_ADDRESS"
  shows "if \<exists>a. in_range address sz a \<and> type_at (vma_map vm) a = Some VMAType_Free
    then GetBackingBlocksForRange vm address sz = Some (Inl ResultInvalidAddressState)
    else \<exists>bs. GetBackingBlocksForRange vm address sz = Some (Inr bs) \<and>
      expand bs = map (\<lambda>i. the (vm_host (vma_map vm) (address + of_nat i))) [0 ..< unat sz] \<and> (\<forall>b \<in> set bs. 0 < snd b)"
proof -
  have ok: "map_ok B (vma_map vm)" using vm_reach_inv [OF assms(1,2)] by (simp add: vm_inv_def)
  have u: "unat (address + sz) = unat address + unat sz"
    using assms(3) by (intro unat_add_nowrap) simp
  show ?thesis
    using backing_blocks_spec [OF assms(1) ok, of address "address + sz" "[]"] assms(3)
    unfolding u GetBackingBlocksForRange_def append_Nil add_diff_cancel_left' by simp
qed

theorem backing_blocks_cover_range_witness:
  "\<exists>bs. GetBackingBlocksForRange mapped_vm 0x8000 0x2 = Some (Inr bs) \<and>
     expand bs = [0x7F0000000000, 0x7F0000000001]"
proof -
  have "\<not> (\<exists>a. in_range 0x8000 0x2 a \<and> type_at (vma_map mapped_vm) a = Some VMAType_Free)"
    by (auto simp: type_at_def mapped_vm_type)
  note c = if_not_P [OF this]
  obtain bs where bs: "GetBackingBlocksForRange mapped_vm 0x8000 0x2 = Some (Inr bs)"
    "expand bs = map (\<lambda>i. the (vm_host (vma_map mapped_vm) (0x8000 + of_nat i))) [0 ..< unat (0x2 :: u32)]"
    using backing_blocks_cover_range [OF test_mem_ok mapped_vm_reach, of "0x8000" "0x2"] unfolding c by auto
  moreover have "[0 ..< unat (0x2 :: u32)] = [0, 1]" by (simp add: upt_rec)
  ultimately show ?thesis by (simp add: vm_host_def mapped_vm_type)
qed

text \<open>\<open>MapBackingMemoryToBase\<close> asked for a range that ends beyond the address space does not
  return the out-of-memory result its next check is meant to give: no area matches the
  search, and the base of the end iterator is read first, so the run is undefined.\<close>
theorem map_to_base_reads_end:
  assumes "backings_ok B" "vm_reach B vm" "unat MAX_ADDRESS < unat base + unat sz" "unat base + unat sz < 2 ^ 32"
  shows "MapBackingMemoryToBase pm vm base region_size mem sz state = None"
proof -
  have t: "tiles 0 (vma_map vm) 0x40000000" using vm_reach_inv [OF assms(1,2)] by (simp add: vm_inv_def map_ok_def)
  have "\<not> vma_base v + vma_size v \<ge> base + sz" if "v \<in> set (vma_map vm)" for v
    using tiles_mem [OF t that] area_end [of v] unat_add_nowrap [of base sz] assms(3,4)
    by (simp add: word_le_nat_alt)
  then have "List.find (\<lambda>vma. vma_type vma = VMAType_Free \<and>
      vma_base vma + vma_size vma > base \<and> vma_base vma + vma_size vma \<ge> base + sz) (vma_map vm) = None"
    by (auto simp: find_None_iff)
  then show ?thesis by (simp add: MapBackingMemoryToBase_def)
qed

theorem map_to_base_reads_end_witness:
  "MapBackingMemoryToBase 0xFFF fresh_vm 0x3FFFF000 0x2000 test_ref 0x2000 MS_Private = None"
  by (rule map_to_base_reads_end [OF test_mem_ok fresh_vm_reach]) simp_all


text \<open>\<open>MapBackingMemoryToBase\<close> looks at one area only: the first free one that ends at or beyond
  \<open>base + size\<close>.  When the request fits there it is mapped at the start of that area, or at
  the base when the area starts below it, and exactly those addresses change.  When that area
  starts above the base and is too short, the call returns \<open>ResultInvalidAddressState\<close> and
  changes nothing, however much free space follows.\<close>
theorem map_to_base_first_hole:
  assumes "backings_ok B" "vm_reach B vm" "ref_to B mem sz" "0 < sz" "sz AND pm = 0"
    and "first_free base sz (vma_map vm) = Some v" "target = max base (vma_base v)" "target AND pm = 0"
    and "unat target + unat sz < 2 ^ 32" "target + sz \<le> base + region_size"
  shows "if unat target + unat sz \<le> unat (vma_base v) + unat (vma_size v)
    then \<exists>vm'. MapBackingMemoryToBase pm vm base region_size mem sz state = Some (Inr target, vm') \<and>
      vm_view (vma_map vm') = (\<lambda>a. if in_range target sz a
        then Some (VMAType_BackingMemory, VMAPermission_ReadWrite, state, Some (cptr mem + ucast (a - target)))
        else vm_view (vma_map vm) a)
    else MapBackingMemoryToBase pm vm base region_size mem sz state = Some (Inl ResultInvalidAddressState, vm)"
proof -
  have i: "vm_inv B vm" "\<not> vm_locked vm" using vm_reach_inv [OF assms(1,2)] by simp_all
  have np: "cptr mem \<noteq> 0" by (rule ref_to_facts [OF assms(1,3)])
  have al: "max base (vma_base v) AND pm = 0" and reg: "\<not> max base (vma_base v) + sz > base + region_size"
    and wrap: "unat (max base (vma_base v)) + unat sz < 2 ^ 32"
    using assms(7-10) by simp_all
  show ?thesis
  proof (cases "unat target + unat sz \<le> unat (vma_base v) + unat (vma_size v)")
    case True
    then have fit: "unat (max base (vma_base v)) + unat sz \<le> unat (vma_base v) + unat (vma_size v)" using assms(7) by simp
    obtain vm' where "MapBackingMemoryToBase pm vm base region_size mem sz state = Some (Inr (max base (vma_base v)), vm')"
      "\<And>a. vm_view (vma_map vm') a = (if in_range (max base (vma_base v)) sz a
        then Some (VMAType_BackingMemory, VMAPermission_ReadWrite, state, Some (cptr mem + ucast (a - max base (vma_base v))))
        else vm_view (vma_map vm) a)"
      by (rule map_to_base_ok [OF assms(1) i assms(3,5) al assms(4,6) fit reg, of state]) blast
    with True show ?thesis using assms(7) by (auto simp: fun_eq_iff)
  next
    case False
    then have fit: "unat (vma_base v) + unat (vma_size v) < unat (max base (vma_base v)) + unat sz" using assms(7) by simp
    show ?thesis using map_to_base_misfit [OF i np assms(5) al assms(4,6) fit wrap reg] False by simp
  qed
qed

definition hole_vm :: VMManager where
  "hole_vm = snd (the (MapBackingMemory 0xFFF (snd (the (MapBackingMemory 0xFFF fresh_vm 0x4000000 test_ref 0x1000 MS_Shared)))
     0x4002000 test_ref 0x1000 MS_Shared))"

lemma hole_vm_reach: "vm_reach {test_mem} hole_vm"
proof -
  have ref: "ref_to {test_mem} test_ref 0x1000" by (simp add: ref_to_def test_ref_def test_mem_def)
  let ?m1 = "MapBackingMemory 0xFFF fresh_vm 0x4000000 test_ref 0x1000 MS_Shared"
  let ?m2 = "MapBackingMemory 0xFFF (snd (the ?m1)) 0x4002000 test_ref 0x1000 MS_Shared"
  have "?m1 \<noteq> None" "?m2 \<noteq> None" by code_simp+
  then obtain r vm r2 vm2 where 1: "?m1 = Some (r, vm)" and 2: "?m2 = Some (r2, vm2)" by (metis option.exhaust prod.exhaust)
  have "vm_reach {test_mem} vm" by (rule vm_reach.map [OF fresh_vm_reach ref 1])
  from vm_reach.map [OF this ref] 2 show ?thesis by (simp add: hole_vm_def 1)
qed

theorem map_to_base_first_hole_witness:
  "\<exists>v. first_free 0x4000000 0x2000 (vma_map hole_vm) = Some v \<and>
     MapBackingMemoryToBase 0xFFF hole_vm 0x4000000 0x4000000 test_ref 0x2000 MS_Shared = Some (Inl ResultInvalidAddressState, hole_vm)"
proof -
  have f: "map_option (\<lambda>v. (vma_base v, vma_size v)) (first_free 0x4000000 0x2000 (vma_map hole_vm)) = Some (0x4001000, 0x1000)"
    by code_simp
  then obtain v where v: "first_free 0x4000000 0x2000 (vma_map hole_vm) = Some v" "vma_base v = 0x4001000" "vma_size v = 0x1000" by auto
  have ref: "ref_to {test_mem} test_ref 0x2000" by (simp add: ref_to_def test_ref_def test_mem_def)
  have m: "0x4001000 = max 0x4000000 (vma_base v)" by (simp add: v(2))
  show ?thesis
    using map_to_base_first_hole [OF test_mem_ok hole_vm_reach ref _ _ v(1) m, where pm = "0xFFF" and region_size = "0x4000000"
        and state = MS_Shared] v by simp
qed

definition host_block :: "u64 \<Rightarrow> MemoryRef" where
  "host_block p = \<lparr>backing_mem = Some \<lparr>bm_ptr = p, bm_size = 0x1000\<rparr>, ref_offset = 0, cptr = p, csize = 0x1000\<rparr>"

definition two_blocks_vm :: "VMManager option" where
  "two_blocks_vm = do {
     (_, vm) \<leftarrow> MapBackingMemory 0xFFF fresh_vm 0x1000 (host_block 0x10000) 0x1000 MS_Private;
     (_, vm') \<leftarrow> MapBackingMemory 0xFFF vm 0x2000 (host_block 0x11000) 0x1000 MS_Private;
     Some vm'
   }"

text \<open>two host allocations that happen to be adjacent in host memory, mapped at adjacent
  addresses, are merged into one area although the area is documented to have a single
  host allocation behind it; unmapping the second half then trips the bounds assertion of
  \<^verbatim>\<open>MemoryRef::operator+=\<close> and aborts.\<close>
theorem merge_across_allocations_aborts:
  "\<exists>vm. two_blocks_vm = Some vm \<and> map vma_size (vma_map vm) = [0x1000, 0x2000, 0x3FFFD000] \<and>
     UnmapRange 0xFFF vm 0x2000 0x1000 = None"
proof -
  have 1: "map_option (\<lambda>vm. map vma_size (vma_map vm)) two_blocks_vm = Some [0x1000, 0x2000, 0x3FFFD000]"
    by code_simp
  have 2: "map_option (\<lambda>vm. UnmapRange 0xFFF vm 0x2000 0x1000 = None) two_blocks_vm = Some True"
    by code_simp
  from 1 obtain vm where vm: "two_blocks_vm = Some vm" by blast
  show ?thesis by (rule exI [of _ vm]) (use 1 2 in \<open>simp add: vm\<close>)
qed

end
