(* ===== verification/Resource_Limit.thy ===== *)
theory Resource_Limit
  imports Memory_Region
begin

text \<open>
  Resource limits of process categories, \<^verbatim>\<open>src/core/hle/kernel/resource_limit.cpp\<close> and
  \<^verbatim>\<open>resource_limit.h\<close>, and the core-1 CPU time classes of \<^verbatim>\<open>kernel.h\<close>.

  An \<^verbatim>\<open>s32\<close> is an integer and signed overflow, which is undefined, is \<open>None\<close>; so is an index
  outside the arrays of ten values.  \<open>ApplyAppMaxCPUSetting\<close> returns, next to the updated
  limit, the schedule mode it hands to \<^verbatim>\<open>KernelSystem::SetCore1ScheduleMode\<close>.

  Shown: reserving and releasing keep exact count of what is held, also beyond the limit
  (the code logs and goes on); every category of the table is the one its limits were
  written for; the CPU time an application gets is the table's, the header's or the default.
\<close>

subsection \<open>Signed 32-bit arithmetic\<close>

definition s32_range :: "int \<Rightarrow> bool" where
  "s32_range v \<longleftrightarrow> - (2 ^ 31) \<le> v \<and> v < 2 ^ 31"

definition s32_arith :: "int \<Rightarrow> int option" where
  "s32_arith v = (if s32_range v then Some v else None)"

subsection \<open>ResourceLimit\<close>

datatype ResourceLimitCategory = RLC_Application | RLC_SysApplet | RLC_LibApplet | RLC_Other

fun category_index :: "ResourceLimitCategory \<Rightarrow> nat" where
  "category_index RLC_Application = 0"
| "category_index RLC_SysApplet = 1"
| "category_index RLC_LibApplet = 2"
| "category_index RLC_Other = 3"

type_synonym ResourceLimitType = u32

definition RLT_Priority :: ResourceLimitType where "RLT_Priority = 0"
definition RLT_Commit :: ResourceLimitType where "RLT_Commit = 1"
definition RLT_Thread :: ResourceLimitType where "RLT_Thread = 2"
definition RLT_Event :: ResourceLimitType where "RLT_Event = 3"
definition RLT_Mutex :: ResourceLimitType where "RLT_Mutex = 4"
definition RLT_Semaphore :: ResourceLimitType where "RLT_Semaphore = 5"
definition RLT_Timer :: ResourceLimitType where "RLT_Timer = 6"
definition RLT_SharedMemory :: ResourceLimitType where "RLT_SharedMemory = 7"
definition RLT_AddressArbiter :: ResourceLimitType where "RLT_AddressArbiter = 8"
definition RLT_CpuTime :: ResourceLimitType where "RLT_CpuTime = 9"
definition RLT_Max :: nat where "RLT_Max = 10"

lemmas rlt_defs = RLT_Priority_def RLT_Commit_def RLT_Thread_def RLT_Event_def RLT_Mutex_def
  RLT_Semaphore_def RLT_Timer_def RLT_SharedMemory_def RLT_AddressArbiter_def RLT_CpuTime_def RLT_Max_def

record ResourceLimit =
  m_category :: ResourceLimitCategory
  m_limit_values :: "int list"
  m_current_values :: "int list"
  m_name :: string

definition RL_Create :: "ResourceLimitCategory \<Rightarrow> string \<Rightarrow> ResourceLimit" where
  "RL_Create category name = \<lparr>m_category = category, m_limit_values = replicate RLT_Max 0,
     m_current_values = replicate RLT_Max 0, m_name = name\<rparr>"

definition at_index :: "int list \<Rightarrow> ResourceLimitType \<Rightarrow> int option" where
  "at_index vs ty = (if unat ty < length vs then Some (vs ! unat ty) else None)"

definition set_index :: "int list \<Rightarrow> ResourceLimitType \<Rightarrow> int \<Rightarrow> int list option" where
  "set_index vs ty v = (if unat ty < length vs then Some (vs[unat ty := v]) else None)"

definition GetCurrentValue :: "ResourceLimit \<Rightarrow> ResourceLimitType \<Rightarrow> int option" where
  "GetCurrentValue rl ty = at_index (m_current_values rl) ty"

definition GetLimitValue :: "ResourceLimit \<Rightarrow> ResourceLimitType \<Rightarrow> int option" where
  "GetLimitValue rl ty = at_index (m_limit_values rl) ty"

definition SetCurrentValue :: "ResourceLimit \<Rightarrow> ResourceLimitType \<Rightarrow> int \<Rightarrow> ResourceLimit option" where
  "SetCurrentValue rl ty v = do {
     vs \<leftarrow> set_index (m_current_values rl) ty v;
     Some (rl\<lparr>m_current_values := vs\<rparr>)
   }"

definition SetLimitValue :: "ResourceLimit \<Rightarrow> ResourceLimitType \<Rightarrow> int \<Rightarrow> ResourceLimit option" where
  "SetLimitValue rl ty v = do {
     vs \<leftarrow> set_index (m_limit_values rl) ty v;
     Some (rl\<lparr>m_limit_values := vs\<rparr>)
   }"

definition Reserve :: "ResourceLimit \<Rightarrow> ResourceLimitType \<Rightarrow> int \<Rightarrow> (bool \<times> ResourceLimit) option" where
  "Reserve rl ty amount = do {
     limit \<leftarrow> at_index (m_limit_values rl) ty;
     cur \<leftarrow> at_index (m_current_values rl) ty;
     new_value \<leftarrow> s32_arith (cur + amount);
     rl' \<leftarrow> SetCurrentValue rl ty new_value;
     Some (True, rl')
   }"

definition Release :: "ResourceLimit \<Rightarrow> ResourceLimitType \<Rightarrow> int \<Rightarrow> (bool \<times> ResourceLimit) option" where
  "Release rl ty amount = do {
     val \<leftarrow> at_index (m_current_values rl) ty;
     new_value \<leftarrow> s32_arith (val - amount);
     rl' \<leftarrow> SetCurrentValue rl ty new_value;
     Some (True, rl')
   }"

subsection \<open>CPU time of applications on core 1\<close>

datatype Core1ScheduleMode = SM_Multi | SM_Single

definition PREEMPTION_DISABLED :: int where "PREEMPTION_DISABLED = 0"
definition PREEMPTION_SYSMODULE :: int where "PREEMPTION_SYSMODULE = 1000"
definition PREEMPTION_EXCEMPTED :: int where "PREEMPTION_EXCEMPTED = 10000"

definition cpu_time_overrides :: "(u32 \<times> int) list" where
  "cpu_time_overrides =
    [(0x205, PREEMPTION_EXCEMPTED), (0x215, PREEMPTION_EXCEMPTED), (0x225, PREEMPTION_EXCEMPTED),
     (0x304, PREEMPTION_EXCEMPTED), (0x32E, PREEMPTION_EXCEMPTED),
     (0x334, 30), (0x335, 30), (0x336, 30),
     (0x348, PREEMPTION_EXCEMPTED), (0x368, PREEMPTION_EXCEMPTED), (0x562, PREEMPTION_EXCEMPTED),
     (0x349, PREEMPTION_EXCEMPTED), (0x370, PREEMPTION_EXCEMPTED), (0x389, PREEMPTION_EXCEMPTED),
     (0x490, PREEMPTION_EXCEMPTED), (0x491, PREEMPTION_EXCEMPTED)]"

definition cpu_setting :: "u64 \<Rightarrow> u8 \<Rightarrow> u8 \<Rightarrow> Core1ScheduleMode \<times> int \<times> int" where
  "cpu_setting program_id exh_mode exh_cpu_limit =
     (if exh_mode = 0 \<and> exh_cpu_limit = 0
      then
        let uID = ucast (drop_bit 8 program_id AND 0xFFFFF) :: u32 in
        case List.find (\<lambda>v. fst v = uID) cpu_time_overrides of
          Some (_, time) \<Rightarrow>
            if 100 < time \<and> time < 200 then (SM_Multi, time - 100, time - 100)
            else (SM_Single, time, time)
        | None \<Rightarrow> (SM_Single, 80, 25)
      else (if exh_mode = 0 then SM_Single else SM_Multi, uint exh_cpu_limit, PREEMPTION_DISABLED))"

definition ApplyAppMaxCPUSetting ::
  "ResourceLimit \<Rightarrow> u64 \<Rightarrow> u8 \<Rightarrow> u8 \<Rightarrow> (Core1ScheduleMode \<times> ResourceLimit) option" where
  "ApplyAppMaxCPUSetting rl program_id exh_mode exh_cpu_limit =
     (case cpu_setting program_id exh_mode exh_cpu_limit of (final_mode, limit_cpu_time, set_cpu_time) \<Rightarrow> do {
        rl1 \<leftarrow> SetLimitValue rl RLT_CpuTime limit_cpu_time;
        rl2 \<leftarrow> SetCurrentValue rl1 RLT_CpuTime set_cpu_time;
        Some (final_mode, rl2)
      })"

subsection \<open>ResourceLimitList\<close>

definition with_limits :: "ResourceLimit \<Rightarrow> (ResourceLimitType \<times> int) list \<Rightarrow> ResourceLimit option" where
  "with_limits rl vs = fold (\<lambda>(ty, v) r. Option.bind r (\<lambda>r'. SetLimitValue r' ty v)) vs (Some rl)"

definition application_limits :: "u32 \<Rightarrow> (ResourceLimitType \<times> int) list" where
  "application_limits appmemalloc_size =
    [(RLT_Priority, 0x18), (RLT_Commit, sint appmemalloc_size), (RLT_Thread, 0x20), (RLT_Event, 0x20),
     (RLT_Mutex, 0x20), (RLT_Semaphore, 0x8), (RLT_Timer, 0x8), (RLT_SharedMemory, 0x10),
     (RLT_AddressArbiter, 0x2), (RLT_CpuTime, PREEMPTION_DISABLED)]"

definition sysapplet_limits :: "bool \<Rightarrow> (ResourceLimitType \<times> int) list" where
  "sysapplet_limits is_new_3ds =
    [(RLT_Priority, 0x4), (RLT_Commit, if is_new_3ds then 0x5E06000 else 0x2606000),
     (RLT_Thread, if is_new_3ds then 0x1D else 0xE), (RLT_Event, if is_new_3ds then 0xB else 0x8),
     (RLT_Mutex, 0x8), (RLT_Semaphore, 0x4), (RLT_Timer, 0x4), (RLT_SharedMemory, 0x8),
     (RLT_AddressArbiter, 0x3), (RLT_CpuTime, PREEMPTION_EXCEMPTED)]"

definition libapplet_limits :: "(ResourceLimitType \<times> int) list" where
  "libapplet_limits =
    [(RLT_Priority, 0x4), (RLT_Commit, 0x602000), (RLT_Thread, 0xE), (RLT_Event, 0x8),
     (RLT_Mutex, 0x8), (RLT_Semaphore, 0x4), (RLT_Timer, 0x4), (RLT_SharedMemory, 0x8),
     (RLT_AddressArbiter, 0x1), (RLT_CpuTime, PREEMPTION_EXCEMPTED)]"

definition other_limits :: "bool \<Rightarrow> (ResourceLimitType \<times> int) list" where
  "other_limits is_new_3ds =
    [(RLT_Priority, 0x4), (RLT_Commit, if is_new_3ds then 0x2182000 else 0x1682000),
     (RLT_Thread, if is_new_3ds then 0xE1 else 0xCA), (RLT_Event, if is_new_3ds then 0x108 else 0xF8),
     (RLT_Mutex, if is_new_3ds then 0x25 else 0x23), (RLT_Semaphore, if is_new_3ds then 0x43 else 0x40),
     (RLT_Timer, if is_new_3ds then 0x2C else 0x2B), (RLT_SharedMemory, if is_new_3ds then 0x1F else 0x1E),
     (RLT_AddressArbiter, if is_new_3ds then 0x2D else 0x2B), (RLT_CpuTime, PREEMPTION_SYSMODULE)]"

definition mk_ResourceLimitList :: "bool \<Rightarrow> u32 \<Rightarrow> ResourceLimit list option" where
  "mk_ResourceLimitList is_new_3ds appmemalloc_size = do {
     app \<leftarrow> with_limits (RL_Create RLC_Application ''Applications'') (application_limits appmemalloc_size);
     sys \<leftarrow> with_limits (RL_Create RLC_SysApplet ''System Applets'') (sysapplet_limits is_new_3ds);
     lib \<leftarrow> with_limits (RL_Create RLC_LibApplet ''Library Applets'') libapplet_limits;
     oth \<leftarrow> with_limits (RL_Create RLC_Other ''Others'') (other_limits is_new_3ds);
     Some [app, sys, lib, oth]
   }"

definition GetForCategory :: "ResourceLimit list \<Rightarrow> ResourceLimitCategory \<Rightarrow> ResourceLimit" where
  "GetForCategory rls category = rls ! category_index category"

subsection \<open>Facts\<close>

definition rl_ok :: "ResourceLimit \<Rightarrow> bool" where
  "rl_ok rl \<longleftrightarrow> length (m_limit_values rl) = RLT_Max \<and> length (m_current_values rl) = RLT_Max"

lemma RL_Create_ok [simp]: "rl_ok (RL_Create c n)"
  by (simp add: rl_ok_def RL_Create_def)

lemma replicate_RLT_Max: "replicate RLT_Max v = [v, v, v, v, v, v, v, v, v, v]"
  by (simp add: RLT_Max_def eval_nat_numeral)

lemma Reserve_spec:
  assumes "rl_ok rl" "unat ty < RLT_Max" "s32_range (m_current_values rl ! unat ty + amount)"
  shows "Reserve rl ty amount = Some (True, rl\<lparr>m_current_values :=
     (m_current_values rl)[unat ty := m_current_values rl ! unat ty + amount]\<rparr>)"
  using assms by (simp add: Reserve_def at_index_def s32_arith_def SetCurrentValue_def set_index_def rl_ok_def)

lemma Release_spec:
  assumes "rl_ok rl" "unat ty < RLT_Max" "s32_range (m_current_values rl ! unat ty - amount)"
  shows "Release rl ty amount = Some (True, rl\<lparr>m_current_values :=
     (m_current_values rl)[unat ty := m_current_values rl ! unat ty - amount]\<rparr>)"
  using assms by (simp add: Release_def at_index_def s32_arith_def SetCurrentValue_def set_index_def rl_ok_def)

text \<open>Accounting: a sequence of reservations (positive amounts) and releases (negative ones).\<close>

fun rl_run :: "ResourceLimit \<Rightarrow> (ResourceLimitType \<times> int) list \<Rightarrow> ResourceLimit option" where
  "rl_run rl [] = Some rl"
| "rl_run rl ((ty, k) # ops) = do {
     (_, rl') \<leftarrow> (if 0 \<le> k then Reserve rl ty k else Release rl ty (- k));
     rl_run rl' ops
   }"

definition held_after :: "int \<Rightarrow> (ResourceLimitType \<times> int) list \<Rightarrow> ResourceLimitType \<Rightarrow> int" where
  "held_after v ops ty = v + sum_list (map snd (filter (\<lambda>op. fst op = ty) ops))"

lemma rl_step:
  assumes "rl_ok rl" "(if 0 \<le> k then Reserve rl ty k else Release rl ty (- k)) = Some (b, rl')"
  shows "rl_ok rl' \<and> m_limit_values rl' = m_limit_values rl \<and> unat ty < RLT_Max \<and>
    m_current_values rl' = (m_current_values rl)[unat ty := m_current_values rl ! unat ty + k]"
  using assms
  by (auto simp: Reserve_def Release_def at_index_def s32_arith_def SetCurrentValue_def set_index_def
      rl_ok_def bind_eq_Some_iff split: if_splits)

lemma rl_run_spec:
  assumes "rl_ok rl" "rl_run rl ops = Some rl'" "unat ty < RLT_Max"
  shows "rl_ok rl' \<and> m_limit_values rl' = m_limit_values rl \<and>
    m_current_values rl' ! unat ty = held_after (m_current_values rl ! unat ty) ops ty"
  using assms(1,2)
proof (induction rl ops rule: rl_run.induct)
  case (2 rl ty' k ops)
  obtain b rl1 where s: "(if 0 \<le> k then Reserve rl ty' k else Release rl ty' (- k)) = Some (b, rl1)"
    "rl_run rl1 ops = Some rl'"
    using 2(3) by (auto simp: bind_eq_Some_iff)
  note S = rl_step [OF 2(2) s(1)]
  have "rl_ok rl' \<and> m_limit_values rl' = m_limit_values rl1 \<and>
    m_current_values rl' ! unat ty = held_after (m_current_values rl1 ! unat ty) ops ty"
    by (rule 2(1) [OF s(1) refl]) (use S s(2) in auto)
  moreover have "m_current_values rl1 ! unat ty = m_current_values rl ! unat ty + (if ty' = ty then k else 0)"
    using S 2(2) assms(3) by (auto simp: nth_list_update rl_ok_def)
  ultimately show ?case using S by (auto simp: held_after_def)
qed (simp add: held_after_def)

subsection \<open>Properties\<close>

text \<open>C31: after any sequence of reservations and releases that does not overflow, the current value
  of every resource type is its initial value plus exactly what was reserved and minus what
  was released for that type, and the limits are untouched; this also holds past the limit,
  which the code only logs.\<close>
theorem resource_accounting:
  assumes "rl_ok rl" "rl_run rl ops = Some rl'" "unat ty < RLT_Max"
  shows "GetCurrentValue rl' ty = Some (held_after (m_current_values rl ! unat ty) ops ty) \<and>
    GetLimitValue rl' ty = GetLimitValue rl ty"
  using rl_run_spec [OF assms] assms(3) by (simp add: GetCurrentValue_def GetLimitValue_def at_index_def rl_ok_def)

theorem resource_accounting_witness:
  "\<exists>rl'. rl_run (RL_Create RLC_Other ''x'') [(RLT_Thread, 3), (RLT_Event, 1), (RLT_Thread, -1)] = Some rl' \<and>
     GetCurrentValue rl' RLT_Thread = Some 2 \<and> GetLimitValue rl' RLT_Thread = Some 0"
proof -
  let ?ops = "[(RLT_Thread, 3), (RLT_Event, 1), (RLT_Thread, -1)]"
  have "\<exists>rl'. rl_run (RL_Create RLC_Other ''x'') ?ops = Some rl'"
    by (simp add: Reserve_def Release_def RL_Create_def at_index_def s32_arith_def s32_range_def
        SetCurrentValue_def set_index_def rlt_defs)
  then obtain rl' where r: "rl_run (RL_Create RLC_Other ''x'') ?ops = Some rl'" by blast
  show ?thesis
    using resource_accounting [OF RL_Create_ok r, of RLT_Thread] r
    by (auto simp: held_after_def RL_Create_def GetLimitValue_def at_index_def rlt_defs)
qed

text \<open>the list the constructor builds is well formed: it has one limit for each category, found
  under that category, every current value is zero, and the CPU time limits are what the
  core-1 scheduler distinguishes: application threads are preemptible, applets exempted,
  system modules marked as such; the application's commit limit is its memory region's size.\<close>
theorem resource_limit_list_wellformed:
  assumes "appmem < 0x80000000"
  shows "\<exists>rls. mk_ResourceLimitList is_new appmem = Some rls \<and> length rls = 4 \<and>
    (\<forall>c. m_category (GetForCategory rls c) = c \<and> rl_ok (GetForCategory rls c) \<and>
       m_current_values (GetForCategory rls c) = replicate RLT_Max 0) \<and>
    GetLimitValue (GetForCategory rls RLC_Application) RLT_CpuTime = Some PREEMPTION_DISABLED \<and>
    GetLimitValue (GetForCategory rls RLC_SysApplet) RLT_CpuTime = Some PREEMPTION_EXCEMPTED \<and>
    GetLimitValue (GetForCategory rls RLC_LibApplet) RLT_CpuTime = Some PREEMPTION_EXCEMPTED \<and>
    GetLimitValue (GetForCategory rls RLC_Other) RLT_CpuTime = Some PREEMPTION_SYSMODULE \<and>
    GetLimitValue (GetForCategory rls RLC_Application) RLT_Commit = Some (uint appmem)"
proof -
  have s: "sint appmem = uint appmem"
  proof -
    have "uint appmem < 2 ^ 31" using assms by (simp add: word_less_def)
    moreover have "0 \<le> uint appmem" by simp
    ultimately have "- (2 ^ 31) \<le> uint appmem" "uint appmem < 2 ^ 31" by linarith+
    then show ?thesis by (simp add: sint_uint signed_take_bit_int_eq_self_iff)
  qed
  note d = with_limits_def SetLimitValue_def set_index_def RL_Create_def replicate_RLT_Max rlt_defs
  have app: "\<exists>r. with_limits (RL_Create RLC_Application n) (application_limits appmem) = Some r \<and>
      m_category r = RLC_Application \<and> rl_ok r \<and> m_current_values r = replicate RLT_Max 0 \<and>
      GetLimitValue r RLT_CpuTime = Some PREEMPTION_DISABLED \<and> GetLimitValue r RLT_Commit = Some (uint appmem)" for n
    by (simp add: application_limits_def d rl_ok_def GetLimitValue_def at_index_def s)
  have sys: "\<exists>r. with_limits (RL_Create RLC_SysApplet n) (sysapplet_limits is_new) = Some r \<and>
      m_category r = RLC_SysApplet \<and> rl_ok r \<and> m_current_values r = replicate RLT_Max 0 \<and>
      GetLimitValue r RLT_CpuTime = Some PREEMPTION_EXCEMPTED" for n
    by (simp add: sysapplet_limits_def d rl_ok_def GetLimitValue_def at_index_def)
  have lib: "\<exists>r. with_limits (RL_Create RLC_LibApplet n) libapplet_limits = Some r \<and>
      m_category r = RLC_LibApplet \<and> rl_ok r \<and> m_current_values r = replicate RLT_Max 0 \<and>
      GetLimitValue r RLT_CpuTime = Some PREEMPTION_EXCEMPTED" for n
    by (simp add: libapplet_limits_def d rl_ok_def GetLimitValue_def at_index_def)
  have oth: "\<exists>r. with_limits (RL_Create RLC_Other n) (other_limits is_new) = Some r \<and>
      m_category r = RLC_Other \<and> rl_ok r \<and> m_current_values r = replicate RLT_Max 0 \<and>
      GetLimitValue r RLT_CpuTime = Some PREEMPTION_SYSMODULE" for n
    by (simp add: other_limits_def d rl_ok_def GetLimitValue_def at_index_def)
  obtain a b c e where l: "mk_ResourceLimitList is_new appmem = Some [a, b, c, e]"
    "m_category a = RLC_Application" "rl_ok a" "m_current_values a = replicate RLT_Max 0"
    "GetLimitValue a RLT_CpuTime = Some PREEMPTION_DISABLED" "GetLimitValue a RLT_Commit = Some (uint appmem)"
    "m_category b = RLC_SysApplet" "rl_ok b" "m_current_values b = replicate RLT_Max 0"
    "GetLimitValue b RLT_CpuTime = Some PREEMPTION_EXCEMPTED"
    "m_category c = RLC_LibApplet" "rl_ok c" "m_current_values c = replicate RLT_Max 0"
    "GetLimitValue c RLT_CpuTime = Some PREEMPTION_EXCEMPTED"
    "m_category e = RLC_Other" "rl_ok e" "m_current_values e = replicate RLT_Max 0"
    "GetLimitValue e RLT_CpuTime = Some PREEMPTION_SYSMODULE"
    using app [of "''Applications''"] sys [of "''System Applets''"] lib [of "''Library Applets''"] oth [of "''Others''"]
    by (auto simp: mk_ResourceLimitList_def)
  have "m_category (GetForCategory [a, b, c, e] k) = k \<and> rl_ok (GetForCategory [a, b, c, e] k) \<and>
       m_current_values (GetForCategory [a, b, c, e] k) = replicate RLT_Max 0" for k
    using l by (cases k) (simp_all add: GetForCategory_def)
  with l show ?thesis by (intro exI [of _ "[a, b, c, e]"]) (simp add: GetForCategory_def)
qed

theorem resource_limit_list_wellformed_witness:
  "\<exists>rls. mk_ResourceLimitList True 0x07C00000 = Some rls \<and> length rls = 4"
  using resource_limit_list_wellformed [of "0x07C00000" True] by auto

text \<open>\<open>ApplyAppMaxCPUSetting\<close> never uses its multi-mode override path: an application whose
  header leaves both fields zero runs in single mode, with the CPU time the override table
  gives its unique id for both limit and current value, or with limit 80 and value 25 when
  it is not listed; any other application gets the header's limit, and preemption stays
  disabled until it asks for it.\<close>
theorem app_cpu_setting:
  assumes "rl_ok rl"
  shows "\<exists>mode rl'. ApplyAppMaxCPUSetting rl program_id exh_mode exh_limit = Some (mode, rl') \<and>
    (if exh_mode = 0 \<and> exh_limit = 0
     then mode = SM_Single \<and>
       (case map_of cpu_time_overrides (ucast (drop_bit 8 program_id AND 0xFFFFF)) of
          Some t \<Rightarrow> GetLimitValue rl' RLT_CpuTime = Some t \<and> GetCurrentValue rl' RLT_CpuTime = Some t
        | None \<Rightarrow> GetLimitValue rl' RLT_CpuTime = Some 80 \<and> GetCurrentValue rl' RLT_CpuTime = Some 25)
     else mode = (if exh_mode = 0 then SM_Single else SM_Multi) \<and>
       GetLimitValue rl' RLT_CpuTime = Some (uint exh_limit) \<and>
       GetCurrentValue rl' RLT_CpuTime = Some PREEMPTION_DISABLED)"
proof -
  have f: "map_of xs k = map_option snd (List.find (\<lambda>v. fst v = k) xs)" for xs :: "(u32 \<times> int) list" and k
    by (induction xs) auto
  have nm: "\<not> (100 < t \<and> t < 200)" if "List.find P cpu_time_overrides = Some (k, t)" for P k t
  proof -
    have "(k, t) \<in> set cpu_time_overrides" using that by (metis find_Some_iff nth_mem)
    then show ?thesis by (auto simp: cpu_time_overrides_def PREEMPTION_EXCEMPTED_def)
  qed
  obtain mode l c where cs: "cpu_setting program_id exh_mode exh_limit = (mode, l, c)" using prod_cases3 by blast
  have r: "\<exists>rl'. ApplyAppMaxCPUSetting rl program_id exh_mode exh_limit = Some (mode, rl') \<and>
      GetLimitValue rl' RLT_CpuTime = Some l \<and> GetCurrentValue rl' RLT_CpuTime = Some c"
    using assms by (simp add: ApplyAppMaxCPUSetting_def cs SetLimitValue_def SetCurrentValue_def set_index_def
        GetLimitValue_def GetCurrentValue_def at_index_def rl_ok_def rlt_defs)
  have "if exh_mode = 0 \<and> exh_limit = 0
     then mode = SM_Single \<and>
       (case map_of cpu_time_overrides (ucast (drop_bit 8 program_id AND 0xFFFFF)) of
          Some t \<Rightarrow> l = t \<and> c = t | None \<Rightarrow> l = 80 \<and> c = 25)
     else mode = (if exh_mode = 0 then SM_Single else SM_Multi) \<and> l = uint exh_limit \<and> c = PREEMPTION_DISABLED"
    using cs nm by (auto simp: cpu_setting_def f Let_def split: option.splits prod.splits if_splits)
  with r show ?thesis by (auto split: option.splits if_splits)
qed

theorem app_cpu_setting_witness:
  "\<exists>mode rl'. ApplyAppMaxCPUSetting (RL_Create RLC_Application ''a'') 0x0004000000033500 0 0 = Some (mode, rl') \<and>
     mode = SM_Single \<and> GetCurrentValue rl' RLT_CpuTime = Some 30"
proof -
  have "(ucast (drop_bit 8 (0x0004000000033500 :: u64) AND 0xFFFFF) :: u32) = 0x335" by simp
  then have m: "map_of cpu_time_overrides (ucast (drop_bit 8 (0x0004000000033500 :: u64) AND 0xFFFFF)) = Some 30"
    by (simp add: cpu_time_overrides_def)
  show ?thesis
    using app_cpu_setting [OF RL_Create_ok, of RLC_Application "''a''" "0x0004000000033500" 0 0] unfolding m by auto
qed

end
