(* ===== verification/Thread_Queue.thy ===== *)
theory Thread_Queue
  imports Prelude
begin

text \<open>
  The priority queue of thread ids, \<^verbatim>\<open>src/common/thread_queue_list.h\<close>.

  A queue pointer is null, the sentinel \<open>invalid()\<close> or the index of a queue in the array, and
  pointers into the array compare as indices.  A malloc'd block is a list of cells; a cell
  that was never written is \<open>None\<close>, and reading it, an index outside the block or a null
  block is the undefined run \<open>None\<close>.  \<open>heap_ok n\<close> says whether \<^verbatim>\<open>realloc\<close> finds room for \<open>n\<close>
  elements.  Sizes are unbounded.  \<open>pop_first\<close> and \<open>pop_first_better\<close> return 0 in the code when
  nothing is queued, which is \<open>None\<close> here.

  Shown: on prepared queues the structure is one list of ids per priority with the pops
  taking from the best nonempty priority, provided the heap has room whenever a block
  must grow.
\<close>

subsection \<open>Model\<close>

definition NUM_QUEUES :: nat where "NUM_QUEUES = 128"
definition INITIAL_CAPACITY :: nat where "INITIAL_CAPACITY = 32"

datatype QPtr = QNull | QInvalid | QIdx nat

record 'id Queue =
  q_next :: QPtr
  q_first :: nat
  q_end :: nat
  q_data :: "'id option list option"
  q_capacity :: nat

record 'id ThreadQueueList =
  tq_first :: QPtr
  tq_queues :: "'id Queue list"

definition zero_queue :: "'id Queue" where
  "zero_queue = \<lparr>q_next = QNull, q_first = 0, q_end = 0, q_data = None, q_capacity = 0\<rparr>"

definition mk_ThreadQueueList :: "'id ThreadQueueList" where
  "mk_ThreadQueueList = \<lparr>tq_first = QInvalid, tq_queues = replicate NUM_QUEUES zero_queue\<rparr>"

definition clear :: "'id ThreadQueueList \<Rightarrow> 'id ThreadQueueList" where
  "clear tq = tq\<lparr>tq_first := QInvalid, tq_queues := replicate NUM_QUEUES zero_queue\<rparr>"

definition get_q :: "'id ThreadQueueList \<Rightarrow> nat \<Rightarrow> 'id Queue option" where
  "get_q tq p = (if p < length (tq_queues tq) then Some (tq_queues tq ! p) else None)"

definition put_q :: "'id ThreadQueueList \<Rightarrow> nat \<Rightarrow> 'id Queue \<Rightarrow> 'id ThreadQueueList" where
  "put_q tq p q = tq\<lparr>tq_queues := (tq_queues tq)[p := q]\<rparr>"

definition rd :: "'id Queue \<Rightarrow> nat \<Rightarrow> 'id option" where
  "rd q i = do { d \<leftarrow> q_data q; if i < length d then d ! i else None }"

definition wr :: "'id Queue \<Rightarrow> nat \<Rightarrow> 'id \<Rightarrow> 'id Queue option" where
  "wr q i x = do { d \<leftarrow> q_data q; if i < length d then Some (q\<lparr>q_data := Some (d[i := Some x])\<rparr>) else None }"

text \<open>\<^verbatim>\<open>memmove(&data[to], &data[from], n * sizeof(IdType))\<close>.\<close>

definition memmove_q :: "'id Queue \<Rightarrow> nat \<Rightarrow> nat \<Rightarrow> nat \<Rightarrow> 'id Queue option" where
  "memmove_q q to frm n = do {
     d \<leftarrow> q_data q;
     if to + n \<le> length d \<and> frm + n \<le> length d
     then Some (q\<lparr>q_data := Some (take to d @ take n (drop frm d) @ drop (to + n) d)\<rparr>)
     else None
   }"

definition rebalance :: "(nat \<Rightarrow> bool) \<Rightarrow> 'id Queue \<Rightarrow> 'id Queue option" where
  "rebalance heap_ok cur =
     (let sz = q_end cur - q_first cur;
          cur' = (if sz + 2 \<ge> q_capacity cur \<and> heap_ok (q_capacity cur * 2)
                  then cur\<lparr>q_capacity := q_capacity cur * 2,
                           q_data := map_option (\<lambda>d. d @ replicate (q_capacity cur * 2 - length d) None) (q_data cur)\<rparr>
                  else cur);
          newFirst = (q_capacity cur' - sz) div 2
      in if newFirst \<noteq> q_first cur'
         then do {
           moved \<leftarrow> memmove_q cur' newFirst (q_first cur') sz;
           Some (moved\<lparr>q_first := newFirst, q_end := newFirst + sz\<rparr>)
         }
         else Some cur')"

definition push_front :: "(nat \<Rightarrow> bool) \<Rightarrow> 'id ThreadQueueList \<Rightarrow> nat \<Rightarrow> 'id \<Rightarrow> 'id ThreadQueueList option" where
  "push_front heap_ok tq priority threadID = do {
     cur \<leftarrow> get_q tq priority;
     _ \<leftarrow> ASSERT (q_first cur > 0);
     let cur1 = cur\<lparr>q_first := q_first cur - 1\<rparr>;
     cur2 \<leftarrow> wr cur1 (q_first cur1) threadID;
     cur3 \<leftarrow> (if q_first cur2 = 0 then rebalance heap_ok cur2 else Some cur2);
     Some (put_q tq priority cur3)
   }"

definition push_back :: "(nat \<Rightarrow> bool) \<Rightarrow> 'id ThreadQueueList \<Rightarrow> nat \<Rightarrow> 'id \<Rightarrow> 'id ThreadQueueList option" where
  "push_back heap_ok tq priority threadID = do {
     cur \<leftarrow> get_q tq priority;
     cur1 \<leftarrow> wr cur (q_end cur) threadID;
     let cur2 = cur1\<lparr>q_end := q_end cur + 1\<rparr>;
     cur3 \<leftarrow> (if q_end cur2 = q_capacity cur2 then rebalance heap_ok cur2 else Some cur2);
     Some (put_q tq priority cur3)
   }"

partial_function (option) pop_from ::
  "QPtr \<Rightarrow> 'id ThreadQueueList \<Rightarrow> ('id option \<times> 'id ThreadQueueList) option" where
  "pop_from cur tq = (case cur of
       QInvalid \<Rightarrow> Some (None, tq)
     | QNull \<Rightarrow> None
     | QIdx i \<Rightarrow> Option.bind (get_q tq i) (\<lambda>q.
         if q_end q > q_first q
         then Option.bind (rd q (q_first q)) (\<lambda>x.
                Some (Some x, put_q tq i (q\<lparr>q_first := q_first q + 1\<rparr>)))
         else pop_from (q_next q) tq))"

definition pop_first :: "'id ThreadQueueList \<Rightarrow> ('id option \<times> 'id ThreadQueueList) option" where
  "pop_first tq = pop_from (tq_first tq) tq"

partial_function (option) pop_better_from ::
  "QPtr \<Rightarrow> nat \<Rightarrow> 'id ThreadQueueList \<Rightarrow> ('id option \<times> 'id ThreadQueueList) option" where
  "pop_better_from cur stop tq = (case cur of
       QInvalid \<Rightarrow> Some (None, tq)
     | QNull \<Rightarrow> None
     | QIdx i \<Rightarrow>
         if i < stop
         then Option.bind (get_q tq i) (\<lambda>q.
                if q_end q > q_first q
                then Option.bind (rd q (q_first q)) (\<lambda>x.
                       Some (Some x, put_q tq i (q\<lparr>q_first := q_first q + 1\<rparr>)))
                else pop_better_from (q_next q) stop tq)
         else Some (None, tq))"

definition pop_first_better ::
  "'id ThreadQueueList \<Rightarrow> nat \<Rightarrow> ('id option \<times> 'id ThreadQueueList) option" where
  "pop_first_better tq priority = pop_better_from (tq_first tq) priority tq"

fun index_in :: "'id Queue \<Rightarrow> 'id \<Rightarrow> nat list \<Rightarrow> nat option option" where
  "index_in q x [] = Some None"
| "index_in q x (i # is) = do {
     y \<leftarrow> rd q i;
     if y = x then Some (Some i) else index_in q x is
   }"

definition remove :: "'id ThreadQueueList \<Rightarrow> nat \<Rightarrow> 'id \<Rightarrow> 'id ThreadQueueList option" where
  "remove tq priority threadID = do {
     cur \<leftarrow> get_q tq priority;
     found \<leftarrow> index_in cur threadID [q_first cur ..< q_end cur];
     (case found of
        None \<Rightarrow> Some tq
      | Some i \<Rightarrow> do {
          let cur1 = cur\<lparr>q_end := q_end cur - 1\<rparr>;
          cur2 \<leftarrow> (if q_end cur1 - i > 0 then memmove_q cur1 i (i + 1) (q_end cur1 - i) else Some cur1);
          Some (put_q tq priority cur2)
        })
   }"

definition rotate_q :: "(nat \<Rightarrow> bool) \<Rightarrow> 'id ThreadQueueList \<Rightarrow> nat \<Rightarrow> 'id ThreadQueueList option" where
  "rotate_q heap_ok tq priority = do {
     cur \<leftarrow> get_q tq priority;
     if q_end cur > q_first cur + 1
     then do {
       x \<leftarrow> rd cur (q_first cur);
       cur1 \<leftarrow> wr cur (q_end cur) x;
       let cur2 = cur1\<lparr>q_first := q_first cur + 1, q_end := q_end cur + 1\<rparr>;
       cur3 \<leftarrow> (if q_end cur2 = q_capacity cur2 then rebalance heap_ok cur2 else Some cur2);
       Some (put_q tq priority cur3)
     }
     else Some tq
   }"

definition empty :: "'id ThreadQueueList \<Rightarrow> nat \<Rightarrow> bool option" where
  "empty tq priority = do { cur \<leftarrow> get_q tq priority; Some (q_first cur = q_end cur) }"

fun contains_from :: "'id ThreadQueueList \<Rightarrow> 'id \<Rightarrow> nat list \<Rightarrow> nat option option" where
  "contains_from tq uid [] = Some None"
| "contains_from tq uid (i # is) = do {
     q \<leftarrow> get_q tq i;
     if q_data q = None then contains_from tq uid is
     else do {
       found \<leftarrow> index_in q uid [q_first q ..< q_end q];
       (case found of Some _ \<Rightarrow> Some (Some i) | None \<Rightarrow> contains_from tq uid is)
     }
   }"

definition contains :: "'id ThreadQueueList \<Rightarrow> 'id \<Rightarrow> nat option option" where
  "contains tq uid = contains_from tq uid [0 ..< NUM_QUEUES]"

text \<open>\<open>link\<close>: a new queue of initial capacity goes behind the nearest better queue in use.\<close>

definition link :: "'id ThreadQueueList \<Rightarrow> nat \<Rightarrow> 'id ThreadQueueList option" where
  "link tq priority = do {
     cur \<leftarrow> get_q tq priority;
     let cur1 = cur\<lparr>q_data := Some (replicate INITIAL_CAPACITY None), q_capacity := INITIAL_CAPACITY,
                    q_first := INITIAL_CAPACITY div 2, q_end := INITIAL_CAPACITY div 2\<rparr>;
     (case List.find (\<lambda>i. q_next (tq_queues tq ! i) \<noteq> QNull) (rev [0 ..< priority]) of
        Some i \<Rightarrow>
          let prev = tq_queues tq ! i in
          Some (put_q (put_q tq priority (cur1\<lparr>q_next := q_next prev\<rparr>)) i (prev\<lparr>q_next := QIdx priority\<rparr>))
      | None \<Rightarrow> Some ((put_q tq priority (cur1\<lparr>q_next := tq_first tq\<rparr>))\<lparr>tq_first := QIdx priority\<rparr>))
   }"

definition prepare :: "'id ThreadQueueList \<Rightarrow> nat \<Rightarrow> 'id ThreadQueueList option" where
  "prepare tq priority = do {
     cur \<leftarrow> get_q tq priority;
     if q_next cur = QNull then link tq priority else Some tq
   }"

subsection \<open>One queue\<close>

text \<open>\<open>qraw q xs\<close>: the block holds \<open>xs\<close>; \<open>qrep\<close> adds the room at both ends that pushes rely on.\<close>

definition qraw :: "'id Queue \<Rightarrow> 'id list \<Rightarrow> bool" where
  "qraw q xs \<longleftrightarrow> (\<exists>d. q_data q = Some d \<and> length d = q_capacity q \<and> q_first q \<le> q_end q \<and>
     q_end q \<le> q_capacity q \<and> 4 \<le> q_capacity q \<and> q_end q = q_first q + length xs \<and>
     take (length xs) (drop (q_first q) d) = map Some xs)"

definition qrep :: "'id Queue \<Rightarrow> 'id list \<Rightarrow> bool" where
  "qrep q xs \<longleftrightarrow> qraw q xs \<and> 0 < q_first q \<and> q_end q < q_capacity q"

lemma qrawE:
  assumes "qraw q xs"
  obtains l r where "q_data q = Some (l @ map Some xs @ r)" "length l = q_first q"
    "q_end q = q_first q + length xs" "q_capacity q = length l + length xs + length r" "4 \<le> q_capacity q"
proof -
  from assms obtain d where d: "q_data q = Some d" "length d = q_capacity q" "q_end q \<le> q_capacity q"
    "4 \<le> q_capacity q" "q_end q = q_first q + length xs" "take (length xs) (drop (q_first q) d) = map Some xs"
    by (auto simp: qraw_def)
  let ?l = "take (q_first q) d" and ?r = "drop (q_end q) d"
  have "d = ?l @ map Some xs @ ?r"
    using d(5) unfolding d(6) [symmetric] by (simp add: add.commute) (metis append_take_drop_id drop_drop)
  moreover have "length ?l = q_first q" using d by simp
  moreover have "length ?l + length xs + length ?r = q_capacity q" using d by simp
  ultimately show thesis using d that [of ?l ?r] by metis
qed

lemma qrawI:
  assumes "q_data q = Some (l @ map Some xs @ r)" "length l = q_first q"
    "q_end q = q_first q + length xs" "q_capacity q = length l + length xs + length r" "4 \<le> q_capacity q"
  shows "qraw q xs"
  using assms by (auto simp: qraw_def)

lemma memmove_cells:
  assumes "q_data q = Some (l @ xs @ r)" "length l = frm" "length xs = n" "to + n \<le> length (l @ xs @ r)"
  shows "\<exists>l' r'. memmove_q q to frm n = Some (q\<lparr>q_data := Some (l' @ xs @ r')\<rparr>) \<and> length l' = to \<and>
    length l' + length r' = length l + length r"
  using assms
  by (intro exI [of _ "take to (l @ xs @ r)"] exI [of _ "drop (to + n) (l @ xs @ r)"])
    (auto simp: memmove_q_def)

lemma rebalance_spec:
  assumes q: "qraw q xs" and h: "length xs + 2 < q_capacity q \<or> heap_ok (q_capacity q * 2)"
    and e: "q_first q = 0 \<or> q_end q = q_capacity q"
  shows "\<exists>q'. rebalance heap_ok q = Some q' \<and> qrep q' xs \<and> q_next q' = q_next q"
proof -
  obtain l r where d: "q_data q = Some (l @ map Some xs @ r)" "length l = q_first q"
    "q_end q = q_first q + length xs" "q_capacity q = length l + length xs + length r" "4 \<le> q_capacity q"
    by (rule qrawE [OF q])
  define grow where "grow \<longleftrightarrow> length xs + 2 \<ge> q_capacity q \<and> heap_ok (q_capacity q * 2)"
  define q1 where "q1 = (if grow
      then q\<lparr>q_capacity := q_capacity q * 2,
             q_data := map_option (\<lambda>d. d @ replicate (q_capacity q * 2 - length d) None) (q_data q)\<rparr> else q)"
  define r1 where "r1 = (if grow then r @ replicate (q_capacity q) None else r)"
  define nf where "nf = (q_capacity q1 - length xs) div 2"
  have sz: "q_end q - q_first q = length xs" using d(3) by simp
  have 1: "q_data q1 = Some (l @ map Some xs @ r1)" "q_first q1 = q_first q" "q_end q1 = q_end q" "q_next q1 = q_next q"
    "q_capacity q1 = length l + length xs + length r1" "4 \<le> q_capacity q1" "length xs + 2 < q_capacity q1"
    using d h by (auto simp: q1_def r1_def grow_def)
  have nf: "0 < nf" "nf + length xs < q_capacity q1" using 1(7) by (auto simp: nf_def)
  have ne: "nf \<noteq> q_first q1"
  proof (cases grow)
    case True
    then have "q_capacity q1 = q_capacity q * 2" "q_capacity q \<le> length xs + 2" by (simp_all add: q1_def grow_def)
    then show ?thesis using e d(3,5) nf(1) 1(2) unfolding nf_def by auto
  next
    case False
    then have "q_capacity q1 = q_capacity q" by (simp add: q1_def)
    then show ?thesis using e d(3) nf 1(2) by auto
  qed
  have R: "rebalance heap_ok q = do {
      moved \<leftarrow> memmove_q q1 nf (q_first q1) (length xs);
      Some (moved\<lparr>q_first := nf, q_end := nf + length xs\<rparr>) }"
    using ne unfolding rebalance_def Let_def sz nf_def q1_def grow_def by (simp only: if_True not_False_eq_True if_P)
  obtain l' r' where m: "memmove_q q1 nf (q_first q1) (length xs) = Some (q1\<lparr>q_data := Some (l' @ map Some xs @ r')\<rparr>)"
     "length l' = nf" "length l' + length r' = length l + length r1"
    using memmove_cells [OF 1(1), of "q_first q1" "length xs" nf] d(2) 1(2,5) nf(2) by auto
  let ?q = "q1\<lparr>q_data := Some (l' @ map Some xs @ r'), q_first := nf, q_end := nf + length xs\<rparr>"
  have "qraw ?q xs" using m(2,3) 1(5,6) by (intro qrawI [of _ l' _ r']) simp_all
  then have "qrep ?q xs" using nf by (simp add: qrep_def)
  then show ?thesis using R m(1) 1(4) by auto
qed

lemma wr_end:
  assumes "qrep q xs"
  shows "\<exists>q1. wr q (q_end q) x = Some q1 \<and> qraw (q1\<lparr>q_end := q_end q + 1\<rparr>) (xs @ [x]) \<and>
    q_next q1 = q_next q \<and> q_capacity q1 = q_capacity q \<and> q_first q1 = q_first q"
proof -
  obtain l r where d: "q_data q = Some (l @ map Some xs @ r)" "length l = q_first q"
    "q_end q = q_first q + length xs" "q_capacity q = length l + length xs + length r" "4 \<le> q_capacity q"
    using assms by (auto simp: qrep_def elim: qrawE)
  have "r \<noteq> []" using assms d by (auto simp: qrep_def)
  then obtain c r' where r: "r = c # r'" by (cases r) auto
  have u: "(l @ map Some xs @ r)[q_end q := Some x] = l @ map Some (xs @ [x]) @ r'"
    using d(2,3) r by (simp add: list_update_append)
  let ?q = "q\<lparr>q_data := Some (l @ map Some (xs @ [x]) @ r')\<rparr>"
  have "wr q (q_end q) x = Some ?q" using d(1-4) r u by (simp add: wr_def)
  moreover have "qraw (?q\<lparr>q_end := q_end q + 1\<rparr>) (xs @ [x])"
    using d r by (intro qrawI [of _ l _ r']) simp_all
  ultimately show ?thesis by auto
qed

lemma wr_front:
  assumes "qrep q xs"
  shows "\<exists>q1. wr (q\<lparr>q_first := q_first q - 1\<rparr>) (q_first q - 1) x = Some q1 \<and> qraw q1 (x # xs) \<and>
    q_next q1 = q_next q \<and> q_capacity q1 = q_capacity q \<and> q_first q1 = q_first q - 1 \<and> q_end q1 = q_end q"
proof -
  obtain l r where d: "q_data q = Some (l @ map Some xs @ r)" "length l = q_first q"
    "q_end q = q_first q + length xs" "q_capacity q = length l + length xs + length r" "4 \<le> q_capacity q" "0 < q_first q"
    using assms by (auto simp: qrep_def elim: qrawE)
  have "l \<noteq> []" using d by auto
  then obtain l' c where l: "l = l' @ [c]" by (cases l rule: rev_cases) auto
  have u: "(l @ map Some xs @ r)[q_first q - 1 := Some x] = l' @ map Some (x # xs) @ r"
  proof -
    have "q_first q - 1 = length l'" using d(2) l by simp
    then show ?thesis using l by (simp add: list_update_append)
  qed
  let ?q = "q\<lparr>q_first := q_first q - 1, q_data := Some (l' @ map Some (x # xs) @ r)\<rparr>"
  have "wr (q\<lparr>q_first := q_first q - 1\<rparr>) (q_first q - 1) x = Some ?q" using d l u by (simp add: wr_def)
  moreover have "qraw ?q (x # xs)"
    using d l by (intro qrawI [of _ l' _ r]) simp_all
  ultimately show ?thesis by auto
qed

lemma rd_cell: "qraw q xs \<Longrightarrow> i < length xs \<Longrightarrow> rd q (q_first q + i) = Some (xs ! i)"
  by (erule qrawE) (auto simp: rd_def nth_append)

lemma qrep_tail: "qrep q (x # xs) \<Longrightarrow> qrep (q\<lparr>q_first := q_first q + 1\<rparr>) xs"
proof -
  assume "qrep q (x # xs)"
  then obtain l r where d: "q_data q = Some (l @ map Some (x # xs) @ r)" "length l = q_first q"
    "q_end q = q_first q + length (x # xs)" "q_capacity q = length l + length (x # xs) + length r" "4 \<le> q_capacity q"
    "q_end q < q_capacity q"
    by (auto simp: qrep_def elim: qrawE)
  have "qraw (q\<lparr>q_first := q_first q + 1\<rparr>) xs"
    using d by (intro qrawI [of _ "l @ [Some x]" _ r]) simp_all
  then show ?thesis using d by (simp add: qrep_def)
qed

lemma qrep_nonempty: "qrep q xs \<Longrightarrow> q_end q > q_first q \<longleftrightarrow> xs \<noteq> []"
  by (auto simp: qrep_def qraw_def)

lemma index_in_spec:
  assumes "qraw q xs" "k \<le> length xs"
  shows "index_in q x [q_first q + k ..< q_end q] =
    Some (if x \<in> set (drop k xs) then Some (q_first q + k + length (takeWhile (\<lambda>y. y \<noteq> x) (drop k xs))) else None)"
  using assms
proof (induction "length xs - k" arbitrary: k)
  case 0
  then have "q_end q = q_first q + k" by (auto simp: qraw_def)
  with 0 show ?case by simp
next
  case (Suc n)
  then have k: "k < length xs" by simp
  have e: "q_end q = q_first q + length xs" using Suc.prems by (auto simp: qraw_def)
  have up: "[q_first q + k ..< q_end q] = (q_first q + k) # [q_first q + Suc k ..< q_end q]"
    using k e by (simp add: upt_conv_Cons)
  have dr: "drop k xs = xs ! k # drop (Suc k) xs" using k by (simp add: Cons_nth_drop_Suc)
  have "index_in q x [q_first q + Suc k ..< q_end q] =
    Some (if x \<in> set (drop (Suc k) xs) then Some (q_first q + Suc k + length (takeWhile (\<lambda>y. y \<noteq> x) (drop (Suc k) xs))) else None)"
    by (rule Suc.hyps(1)) (use Suc k in auto)
  then show ?case unfolding up dr using rd_cell [OF Suc.prems(1) k] by auto
qed

lemma qrep_remove_at:
  assumes q: "qrep q (ys @ x # zs)"
  shows "\<exists>q'. (if q_end q - 1 - (q_first q + length ys) > 0
      then memmove_q (q\<lparr>q_end := q_end q - 1\<rparr>) (q_first q + length ys) (q_first q + length ys + 1)
             (q_end q - 1 - (q_first q + length ys))
      else Some (q\<lparr>q_end := q_end q - 1\<rparr>)) = Some q' \<and> qrep q' (ys @ zs) \<and> q_next q' = q_next q"
proof -
  obtain l r where d: "q_data q = Some (l @ map Some (ys @ x # zs) @ r)" "length l = q_first q"
    "q_end q = q_first q + length (ys @ x # zs)" "q_capacity q = length l + length (ys @ x # zs) + length r" "4 \<le> q_capacity q"
    "q_end q < q_capacity q" "0 < q_first q"
    using q by (auto simp: qrep_def elim: qrawE)
  have n: "q_end q - 1 - (q_first q + length ys) = length zs" using d(3) by simp
  show ?thesis
  proof (cases zs)
    case Nil
    have "qraw (q\<lparr>q_end := q_end q - 1\<rparr>) ys"
      using d Nil by (intro qrawI [of _ l _ "Some x # r"]) simp_all
    then show ?thesis using n Nil d by (simp add: qrep_def)
  next
    case (Cons z zs')
    define r' where "r' = drop (length l + length ys + length zs) (l @ map Some (ys @ x # zs) @ r)"
    have lr: "length r' = Suc (length r)" using d(4) by (simp add: r'_def)
    have dd: "q_data (q\<lparr>q_end := q_end q - 1\<rparr>) = Some (l @ map Some (ys @ x # zs) @ r)" using d(1) by simp
    have "memmove_q (q\<lparr>q_end := q_end q - 1\<rparr>) (q_first q + length ys) (q_first q + length ys + 1) (length zs) =
       Some (q\<lparr>q_end := q_end q - 1, q_data := Some (l @ map Some (ys @ zs) @ r')\<rparr>)"
      unfolding memmove_q_def dd using d(2) by (simp add: r'_def)
    moreover have "qraw (q\<lparr>q_end := q_end q - 1, q_data := Some (l @ map Some (ys @ zs) @ r')\<rparr>) (ys @ zs)"
      using d lr by (intro qrawI [of _ l _ r']) simp_all
    ultimately show ?thesis using n Cons d(6,7) by (auto simp: qrep_def)
  qed
qed
subsection \<open>All queues\<close>

text \<open>
  The abstract state gives each prepared priority its list of ids.  \<open>next_used f k\<close> is the pointer to the
  first prepared queue from \<open>k\<close> on: the head pointer and the \<open>next\<close> fields are such pointers.
\<close>

type_synonym 'id prio_lists = "nat \<Rightarrow> 'id list option"

definition next_used :: "'id prio_lists \<Rightarrow> nat \<Rightarrow> QPtr" where
  "next_used f k = (case List.find (\<lambda>i. f i \<noteq> None) [k ..< NUM_QUEUES] of None \<Rightarrow> QInvalid | Some i \<Rightarrow> QIdx i)"

definition tq_rep :: "'id ThreadQueueList \<Rightarrow> 'id prio_lists \<Rightarrow> bool" where
  "tq_rep tq f \<longleftrightarrow> length (tq_queues tq) = NUM_QUEUES \<and> tq_first tq = next_used f 0 \<and>
     (\<forall>p < NUM_QUEUES. case f p of
        None \<Rightarrow> tq_queues tq ! p = zero_queue
      | Some xs \<Rightarrow> qrep (tq_queues tq ! p) xs \<and> q_next (tq_queues tq ! p) = next_used f (Suc p))"

lemma next_used_cong: "(\<And>i. (f i = None) = (g i = None)) \<Longrightarrow> next_used f k = next_used g k"
  by (simp add: next_used_def)

lemma next_used_upd: "f p \<noteq> None \<Longrightarrow> next_used (f(p \<mapsto> xs)) k = next_used f k"
  by (rule next_used_cong) auto

lemma next_used_not_null [simp]: "next_used f k \<noteq> QNull"
  by (simp add: next_used_def split: option.split)

lemma next_used_step:
  "k < NUM_QUEUES \<Longrightarrow> next_used f k = (if f k \<noteq> None then QIdx k else next_used f (Suc k))"
  by (simp add: next_used_def upt_conv_Cons)

lemma next_used_end: "NUM_QUEUES \<le> k \<Longrightarrow> next_used f k = QInvalid"
  by (simp add: next_used_def)

lemma next_used_skip:
  assumes "k \<le> m" "\<And>i. k \<le> i \<Longrightarrow> i < m \<Longrightarrow> f i = None"
  shows "next_used f k = next_used f m"
  using assms
proof (induction "m - k" arbitrary: k)
  case (Suc n)
  then have k: "k < m" "f k = None" by auto
  have "next_used f k = next_used f (Suc k)"
    using k by (cases "k < NUM_QUEUES") (simp_all add: next_used_step next_used_end)
  also have "\<dots> = next_used f m" by (rule Suc.hyps(1)) (use Suc k in auto)
  finally show ?case .
qed simp

lemma next_used_beyond: "p < k \<Longrightarrow> next_used (f(p \<mapsto> xs)) k = next_used f k"
  unfolding next_used_def by (rule arg_cong [where f = "case_option _ _"]) (rule find_cong, auto)

lemma tq_rep_get: "tq_rep tq f \<Longrightarrow> p < NUM_QUEUES \<Longrightarrow> get_q tq p = Some (tq_queues tq ! p)"
  by (simp add: tq_rep_def get_q_def)

lemma tq_rep_queue:
  assumes "tq_rep tq f" "p < NUM_QUEUES" "f p = Some xs"
  shows "qrep (tq_queues tq ! p) xs" "q_next (tq_queues tq ! p) = next_used f (Suc p)"
  using assms by (auto simp: tq_rep_def dest: spec [of _ p])

lemma tq_rep_put:
  assumes t: "tq_rep tq f" and p: "p < NUM_QUEUES" "f p = Some xs"
    and q: "qrep q ys" "q_next q = q_next (tq_queues tq ! p)"
  shows "tq_rep (put_q tq p q) (f(p \<mapsto> ys))"
proof -
  have u: "next_used (f(p \<mapsto> ys)) k = next_used f k" for k using p(2) by (simp add: next_used_upd)
  have "q_next q = next_used f (Suc p)" using tq_rep_queue(2) [OF t p] q(2) by simp
  then show ?thesis using t p q(1) unfolding tq_rep_def u
    by (auto simp: put_q_def nth_list_update split: option.splits)
qed

lemma zero_not_qrep: "\<not> qrep zero_queue xs"
  by (simp add: qrep_def zero_queue_def)

lemma prepared_iff: "tq_rep tq f \<Longrightarrow> p < NUM_QUEUES \<Longrightarrow> q_next (tq_queues tq ! p) = QNull \<longleftrightarrow> f p = None"
  by (cases "f p") (auto simp: tq_rep_def zero_queue_def tq_rep_queue(2))

lemma find_False: "List.find (\<lambda>_. False) xs = None"
  by (simp add: find_None_iff)

lemma mk_rep: "tq_rep mk_ThreadQueueList (\<lambda>_. None)"
  by (simp add: tq_rep_def mk_ThreadQueueList_def next_used_def find_False)

lemma clear_rep: "tq_rep (clear tq) (\<lambda>_. None)"
  by (simp add: tq_rep_def clear_def next_used_def find_False)

lemma fresh_qrep:
  "qrep (q\<lparr>q_data := Some (replicate INITIAL_CAPACITY None), q_capacity := INITIAL_CAPACITY,
     q_first := INITIAL_CAPACITY div 2, q_end := INITIAL_CAPACITY div 2\<rparr>) []"
  by (simp add: qrep_def qraw_def INITIAL_CAPACITY_def)

lemma qrep_next [simp]: "qrep (q\<lparr>q_next := n\<rparr>) xs = qrep q xs"
  by (simp add: qrep_def qraw_def)

lemma find_rev_upt:
  "List.find P (rev [0 ..< p]) = Some i \<Longrightarrow> i < p \<and> P i \<and> (\<forall>j. i < j \<and> j < p \<longrightarrow> \<not> P j)"
  by (induction p) (auto split: if_splits simp: less_Suc_eq)

lemma link_rep:
  assumes t: "tq_rep tq f" and p: "p < NUM_QUEUES" and n: "f p = None"
  shows "\<exists>tq'. link tq p = Some tq' \<and> tq_rep tq' (f(p \<mapsto> []))"
proof -
  let ?g = "f(p \<mapsto> [])"
  let ?cur = "(tq_queues tq ! p)\<lparr>q_data := Some (replicate INITIAL_CAPACITY None), q_capacity := INITIAL_CAPACITY,
     q_first := INITIAL_CAPACITY div 2, q_end := INITIAL_CAPACITY div 2\<rparr>"
  have len: "length (tq_queues tq) = NUM_QUEUES" and fst: "tq_first tq = next_used f 0"
    using t by (simp_all add: tq_rep_def)
  have used: "q_next (tq_queues tq ! i) \<noteq> QNull \<longleftrightarrow> f i \<noteq> None" if "i < p" for i
    using prepared_iff [OF t, of i] that p by simp
  have above: "next_used ?g k = next_used f k" if "p < k" for k using that by (rule next_used_beyond)
  have at: "next_used ?g k = QIdx p" if "k \<le> p" "\<And>i. k \<le> i \<Longrightarrow> i < p \<Longrightarrow> f i = None" for k
  proof -
    have "next_used ?g k = next_used ?g p" using that by (intro next_used_skip) auto
    then show ?thesis using p by (simp add: next_used_step)
  qed
  have below: "next_used ?g k = next_used f k" if "k \<le> i" "i < p" "f i \<noteq> None" for k i
    using that
  proof (induction "i - k" arbitrary: k)
    case 0
    then show ?case using p by (simp add: next_used_step)
  next
    case (Suc m)
    then have "next_used ?g (Suc k) = next_used f (Suc k)" by (intro Suc.hyps(1)) auto
    then show ?case using Suc p by (simp add: next_used_step)
  qed
  have skip: "next_used f (Suc k) = next_used f (Suc p)" if "Suc k \<le> Suc p" "\<And>i. k < i \<Longrightarrow> i < p \<Longrightarrow> f i = None" for k
    using that n by (intro next_used_skip) (auto simp: less_Suc_eq)
  show ?thesis
  proof (cases "List.find (\<lambda>i. q_next (tq_queues tq ! i) \<noteq> QNull) (rev [0 ..< p])")
    case None
    then have no: "f i = None" if "i < p" for i using that used by (auto simp: find_None_iff)
    have l: "link tq p = Some ((put_q tq p (?cur\<lparr>q_next := tq_first tq\<rparr>))\<lparr>tq_first := QIdx p\<rparr>)"
      unfolding link_def tq_rep_get [OF t p] using None by simp
    have nf: "next_used f 0 = next_used f (Suc p)" using no n by (intro next_used_skip) (auto simp: less_Suc_eq)
    have "tq_rep ((put_q tq p (?cur\<lparr>q_next := tq_first tq\<rparr>))\<lparr>tq_first := QIdx p\<rparr>) ?g"
      unfolding tq_rep_def
    proof (intro conjI allI impI, goal_cases)
      case 1 show ?case by (simp add: put_q_def len)
    next
      case 2 show ?case using at [of 0] no by simp
    next
      case (3 i)
      consider "i < p" | "i = p" | "i > p" by linarith
      then show ?case
      proof cases
        case 1
        then show ?thesis using t 3 no by (auto simp: tq_rep_def put_q_def split: option.splits)
      next
        case 2
        then show ?thesis using fresh_qrep p by (simp add: put_q_def len fst nf above)
      next
        case c: 3
        then show ?thesis using t 3 above [of "Suc i"] by (auto simp: tq_rep_def put_q_def split: option.splits)
      qed
    qed
    then show ?thesis using l by blast
  next
    case (Some j)
    then have j: "j < p" "f j \<noteq> None" and jm: "\<And>i. j < i \<Longrightarrow> i < p \<Longrightarrow> f i = None"
      using find_rev_upt [OF Some] used by (blast, blast) (meson find_rev_upt [OF Some] used)
    let ?prev = "tq_queues tq ! j"
    obtain ys where ys: "f j = Some ys" using j(2) by auto
    have jq: "qrep ?prev ys" "q_next ?prev = next_used f (Suc j)" using tq_rep_queue [OF t _ ys] j p by auto
    let ?tq = "put_q (put_q tq p (?cur\<lparr>q_next := q_next ?prev\<rparr>)) j (?prev\<lparr>q_next := QIdx p\<rparr>)"
    have l: "link tq p = Some ?tq"
      unfolding link_def tq_rep_get [OF t p] using Some by (simp add: Let_def)
    have "tq_rep ?tq ?g"
      unfolding tq_rep_def
    proof (intro conjI allI impI, goal_cases)
      case 1 show ?case by (simp add: put_q_def len)
    next
      case 2 show ?case using below [of 0 j] j fst by (simp add: put_q_def)
    next
      case (3 i)
      consider "i = j" | "i = p" | "i < j" | "j < i" "i < p" | "i > p" by linarith
      then show ?case
      proof cases
        case 1
        then show ?thesis using at [of "Suc j"] j jm ys jq p by (simp add: put_q_def len)
      next
        case 2
        then show ?thesis using fresh_qrep p j skip [of j] jm above by (simp add: put_q_def len jq(2) nth_list_update)
      next
        case c: 3
        then show ?thesis using t 3 j below [of "Suc i" j] by (auto simp: tq_rep_def put_q_def split: option.splits)
      next
        case c: 4
        then show ?thesis using t 3 j jm by (auto simp: tq_rep_def put_q_def split: option.splits)
      next
        case c: 5
        then show ?thesis using t 3 j above [of "Suc i"] by (auto simp: tq_rep_def put_q_def split: option.splits)
      qed
    qed
    then show ?thesis using l by blast
  qed
qed

subsection \<open>Operations on the lists\<close>

text \<open>\<open>ids f p\<close>: the ids queued at priority \<open>p\<close>; \<open>flat f\<close>: all ids, best priority first.\<close>

definition ids :: "'id prio_lists \<Rightarrow> nat \<Rightarrow> 'id list" where
  "ids f p = (case f p of None \<Rightarrow> [] | Some xs \<Rightarrow> xs)"

definition flat :: "'id prio_lists \<Rightarrow> 'id list" where
  "flat f = concat (map (ids f) [0 ..< NUM_QUEUES])"

lemma ids_upd [simp]: "ids (f(p \<mapsto> xs)) q = (if q = p then xs else ids f q)"
  by (simp add: ids_def)

lemma settle:
  assumes "qraw q xs" "q_first q = 0 \<or> q_end q = q_capacity q" "\<And>n. heap_ok n"
  shows "\<exists>q'. rebalance heap_ok q = Some q' \<and> qrep q' xs \<and> q_next q' = q_next q"
  using rebalance_spec [OF assms(1) _ assms(2)] assms(3) by blast

lemma prepare_rep:
  assumes "tq_rep tq f" "p < NUM_QUEUES"
  shows "\<exists>tq'. prepare tq p = Some tq' \<and> tq_rep tq' (f(p \<mapsto> ids f p))"
proof (cases "f p")
  case None
  then show ?thesis using link_rep [OF assms] prepared_iff [OF assms]
    by (simp add: prepare_def tq_rep_get [OF assms] ids_def)
next
  case (Some xs)
  then have "f(p \<mapsto> ids f p) = f" by (auto simp: ids_def)
  then show ?thesis using Some prepared_iff [OF assms] assms by (simp add: prepare_def tq_rep_get [OF assms])
qed

lemma push_back_rep:
  assumes t: "tq_rep tq f" and p: "p < NUM_QUEUES" "f p = Some xs" and h: "\<And>n. heap_ok n"
  shows "\<exists>tq'. push_back heap_ok tq p x = Some tq' \<and> tq_rep tq' (f(p \<mapsto> xs @ [x]))"
proof -
  let ?q = "tq_queues tq ! p"
  have q: "qrep ?q xs" by (rule tq_rep_queue(1) [OF t p])
  obtain q1 where w: "wr ?q (q_end ?q) x = Some q1" "qraw (q1\<lparr>q_end := q_end ?q + 1\<rparr>) (xs @ [x])"
    "q_next q1 = q_next ?q" "q_capacity q1 = q_capacity ?q" "q_first q1 = q_first ?q"
    using wr_end [OF q, of x] by blast
  let ?q2 = "q1\<lparr>q_end := q_end ?q + 1\<rparr>"
  have "\<exists>q3. (if q_end ?q2 = q_capacity ?q2 then rebalance heap_ok ?q2 else Some ?q2) = Some q3 \<and>
      qrep q3 (xs @ [x]) \<and> q_next q3 = q_next ?q"
  proof (cases "q_end ?q2 = q_capacity ?q2")
    case True
    then show ?thesis using settle [OF w(2) _ h] w(3) by simp
  next
    case False
    then show ?thesis using w q by (auto simp: qrep_def)
  qed
  then obtain q3 where q3: "(if q_end ?q2 = q_capacity ?q2 then rebalance heap_ok ?q2 else Some ?q2) = Some q3"
      "qrep q3 (xs @ [x])" "q_next q3 = q_next ?q" by blast
  have "push_back heap_ok tq p x = Some (put_q tq p q3)"
    unfolding push_back_def tq_rep_get [OF t p(1)] bind.bind_lunit w(1) Let_def q3(1) ..
  then show ?thesis using tq_rep_put [OF t p q3(2,3)] by blast
qed

lemma push_front_rep:
  assumes t: "tq_rep tq f" and p: "p < NUM_QUEUES" "f p = Some xs" and h: "\<And>n. heap_ok n"
  shows "\<exists>tq'. push_front heap_ok tq p x = Some tq' \<and> tq_rep tq' (f(p \<mapsto> x # xs))"
proof -
  let ?q = "tq_queues tq ! p"
  have q: "qrep ?q xs" by (rule tq_rep_queue(1) [OF t p])
  obtain q1 where w: "wr (?q\<lparr>q_first := q_first ?q - 1\<rparr>) (q_first ?q - 1) x = Some q1" "qraw q1 (x # xs)"
    "q_next q1 = q_next ?q" "q_capacity q1 = q_capacity ?q" "q_first q1 = q_first ?q - 1" "q_end q1 = q_end ?q"
    using wr_front [OF q, of x] by blast
  have "\<exists>q3. (if q_first q1 = 0 then rebalance heap_ok q1 else Some q1) = Some q3 \<and>
      qrep q3 (x # xs) \<and> q_next q3 = q_next ?q"
  proof (cases "q_first q1 = 0")
    case True
    then show ?thesis using settle [OF w(2) _ h] w(3) by simp
  next
    case False
    then show ?thesis using w q by (auto simp: qrep_def)
  qed
  then obtain q3 where q3: "(if q_first q1 = 0 then rebalance heap_ok q1 else Some q1) = Some q3"
      "qrep q3 (x # xs)" "q_next q3 = q_next ?q" by blast
  have "0 < q_first ?q" using q by (simp add: qrep_def)
  then have "push_front heap_ok tq p x = Some (put_q tq p q3)"
    unfolding push_front_def tq_rep_get [OF t p(1)] bind.bind_lunit Let_def by (simp add: w(1) [simplified] q3(1))
  then show ?thesis using tq_rep_put [OF t p q3(2,3)] by blast
qed

lemma q_end_upd: "q_end (q\<lparr>q_end := e\<rparr>) = e"
  by simp

lemma remove1_split: "x \<in> set xs \<Longrightarrow>
  \<exists>ys zs. xs = ys @ x # zs \<and> remove1 x xs = ys @ zs \<and> takeWhile (\<lambda>y. y \<noteq> x) xs = ys"
  by (drule split_list_first) (auto simp: remove1_append takeWhile_append)

lemma remove_rep:
  assumes t: "tq_rep tq f" and p: "p < NUM_QUEUES" "f p = Some xs"
  shows "\<exists>tq'. remove tq p x = Some tq' \<and> tq_rep tq' (f(p \<mapsto> remove1 x xs))"
proof -
  let ?q = "tq_queues tq ! p"
  have q: "qrep ?q xs" by (rule tq_rep_queue(1) [OF t p])
  then have i: "index_in ?q x [q_first ?q ..< q_end ?q] =
    Some (if x \<in> set xs then Some (q_first ?q + length (takeWhile (\<lambda>y. y \<noteq> x) xs)) else None)"
    using index_in_spec [of ?q xs 0 x] by (simp add: qrep_def)
  show ?thesis
  proof (cases "x \<in> set xs")
    case False
    then have "remove1 x xs = xs" "f(p \<mapsto> xs) = f" using p by (auto simp: remove1_idem)
    then show ?thesis using False i t by (simp add: remove_def tq_rep_get [OF t p(1)])
  next
    case True
    then obtain ys zs where s: "xs = ys @ x # zs" "remove1 x xs = ys @ zs" "takeWhile (\<lambda>y. y \<noteq> x) xs = ys"
      using remove1_split by metis
    obtain q' where q': "(if q_end ?q - 1 - (q_first ?q + length ys) > 0
      then memmove_q (?q\<lparr>q_end := q_end ?q - 1\<rparr>) (q_first ?q + length ys) (q_first ?q + length ys + 1)
             (q_end ?q - 1 - (q_first ?q + length ys))
      else Some (?q\<lparr>q_end := q_end ?q - 1\<rparr>)) = Some q'" "qrep q' (ys @ zs)" "q_next q' = q_next ?q"
      using qrep_remove_at [OF q [unfolded s(1)]] by blast
    have "remove tq p x = Some (put_q tq p q')"
      unfolding remove_def tq_rep_get [OF t p(1)] bind.bind_lunit i s(3)
      by (simp only: True if_True bind.bind_lunit option.case Let_def Queue.select_convs Queue.update_convs
          q_end_upd q'(1))
    then show ?thesis using tq_rep_put [OF t p q'(2,3)] s(2) by auto
  qed
qed

lemma rotate_rep:
  assumes t: "tq_rep tq f" and p: "p < NUM_QUEUES" "f p = Some xs" and h: "\<And>n. heap_ok n"
  shows "\<exists>tq'. rotate_q heap_ok tq p = Some tq' \<and> tq_rep tq' (f(p \<mapsto> rotate1 xs))"
proof -
  let ?q = "tq_queues tq ! p"
  have q: "qrep ?q xs" by (rule tq_rep_queue(1) [OF t p])
  have len: "q_end ?q = q_first ?q + length xs" using q by (auto simp: qrep_def qraw_def)
  show ?thesis
  proof (cases "length xs \<le> 1")
    case True
    then have "rotate1 xs = xs" "f(p \<mapsto> xs) = f" using p by (cases xs; auto)+
    then show ?thesis using True t len by (simp add: rotate_q_def tq_rep_get [OF t p(1)])
  next
    case False
    then obtain y ys where xs: "xs = y # ys" "ys \<noteq> []" by (cases xs) auto
    have rdy: "rd ?q (q_first ?q) = Some y" using rd_cell [of ?q xs 0] q xs by (simp add: qrep_def)
    obtain q1 where w: "wr ?q (q_end ?q) y = Some q1" "qraw (q1\<lparr>q_end := q_end ?q + 1\<rparr>) (xs @ [y])"
      "q_next q1 = q_next ?q" "q_capacity q1 = q_capacity ?q" "q_first q1 = q_first ?q"
      using wr_end [OF q, of y] by blast
    let ?q2 = "q1\<lparr>q_first := q_first ?q + 1, q_end := q_end ?q + 1\<rparr>"
    have raw: "qraw ?q2 (ys @ [y])"
    proof -
      obtain l r where d: "q_data q1 = Some (l @ map Some (y # ys @ [y]) @ r)" "length l = q_first q1"
        "q_end ?q + 1 = q_first q1 + length (y # ys @ [y])"
        "q_capacity q1 = length l + length (y # ys @ [y]) + length r" "4 \<le> q_capacity q1"
        using w(2) unfolding xs(1) by (auto elim!: qrawE)
      then show ?thesis using w(5) by (intro qrawI [of _ "l @ [Some y]" _ r]) simp_all
    qed
    have "\<exists>q3. (if q_end ?q2 = q_capacity ?q2 then rebalance heap_ok ?q2 else Some ?q2) = Some q3 \<and>
        qrep q3 (ys @ [y]) \<and> q_next q3 = q_next ?q"
    proof (cases "q_end ?q2 = q_capacity ?q2")
      case True
      then show ?thesis using settle [OF raw _ h] w(3) by simp
    next
      case False
      then show ?thesis using w q raw by (auto simp: qrep_def)
    qed
    then obtain q3 where q3: "(if q_end ?q2 = q_capacity ?q2 then rebalance heap_ok ?q2 else Some ?q2) = Some q3"
        "qrep q3 (ys @ [y])" "q_next q3 = q_next ?q" by blast
    have "rotate_q heap_ok tq p = Some (put_q tq p q3)"
      unfolding rotate_q_def tq_rep_get [OF t p(1)] bind.bind_lunit Let_def rdy w(1) q3(1)
      using False len by simp
    then show ?thesis using tq_rep_put [OF t p q3(2,3)] xs by auto
  qed
qed

lemma empty_rep:
  assumes "tq_rep tq f" "p < NUM_QUEUES"
  shows "empty tq p = Some (ids f p = [])"
proof (cases "f p")
  case None
  then have "tq_queues tq ! p = zero_queue" using assms by (auto simp: tq_rep_def split: option.splits)
  then show ?thesis using None by (simp add: empty_def tq_rep_get [OF assms] ids_def zero_queue_def)
next
  case (Some xs)
  have "q_end (tq_queues tq ! p) = q_first (tq_queues tq ! p) + length xs"
    using tq_rep_queue(1) [OF assms Some] by (auto simp: qrep_def qraw_def)
  then show ?thesis using Some by (simp add: empty_def tq_rep_get [OF assms] ids_def)
qed

subsection \<open>Popping\<close>

lemma pop_from_rep:
  assumes t: "tq_rep tq f" and k: "k \<le> NUM_QUEUES"
  shows "case List.find (\<lambda>p. ids f p \<noteq> []) [k ..< NUM_QUEUES] of
     None \<Rightarrow> pop_from (next_used f k) tq = Some (None, tq)
   | Some p \<Rightarrow> \<exists>tq'. pop_from (next_used f k) tq = Some (Some (hd (ids f p)), tq') \<and> tq_rep tq' (f(p \<mapsto> tl (ids f p)))"
  using k
proof (induction "NUM_QUEUES - k" arbitrary: k)
  case 0
  then have "k = NUM_QUEUES" by simp
  then show ?case by (simp add: next_used_end pop_from.simps)
next
  case (Suc n)
  then have k: "k < NUM_QUEUES" by simp
  have IH: "case List.find (\<lambda>p. ids f p \<noteq> []) [Suc k ..< NUM_QUEUES] of
     None \<Rightarrow> pop_from (next_used f (Suc k)) tq = Some (None, tq)
   | Some p \<Rightarrow> \<exists>tq'. pop_from (next_used f (Suc k)) tq = Some (Some (hd (ids f p)), tq') \<and> tq_rep tq' (f(p \<mapsto> tl (ids f p)))"
    by (rule Suc.hyps(1)) (use Suc in auto)
  have up: "[k ..< NUM_QUEUES] = k # [Suc k ..< NUM_QUEUES]" using k by (simp add: upt_conv_Cons)
  show ?case
  proof (cases "f k")
    case None
    then have "next_used f k = next_used f (Suc k)" "ids f k = []" using k by (simp_all add: next_used_step ids_def)
    then show ?thesis using IH by (simp only: up find.simps not_True_eq_False if_False simp_thms)
  next
    case (Some xs)
    let ?q = "tq_queues tq ! k"
    have q: "qrep ?q xs" "q_next ?q = next_used f (Suc k)" using tq_rep_queue [OF t k Some] .
    have nu: "next_used f k = QIdx k" using k Some by (simp add: next_used_step)
    show ?thesis
    proof (cases xs)
      case Nil
      then have "pop_from (next_used f k) tq = pop_from (next_used f (Suc k)) tq"
        using q qrep_nonempty [OF q(1)] unfolding nu by (subst pop_from.simps) (simp add: tq_rep_get [OF t k])
      moreover have "ids f k = []" using Some Nil by (simp add: ids_def)
      ultimately show ?thesis using IH by (simp only: up find.simps not_True_eq_False if_False simp_thms)
    next
      case (Cons y ys)
      have "rd ?q (q_first ?q) = Some y" using rd_cell [of ?q xs 0] q Cons by (simp add: qrep_def)
      then have "pop_from (next_used f k) tq = Some (Some y, put_q tq k (?q\<lparr>q_first := q_first ?q + 1\<rparr>))"
        using qrep_nonempty [OF q(1)] Cons unfolding nu by (subst pop_from.simps) (simp add: tq_rep_get [OF t k])
      moreover have "tq_rep (put_q tq k (?q\<lparr>q_first := q_first ?q + 1\<rparr>)) (f(k \<mapsto> ys))"
        by (rule tq_rep_put [OF t k Some qrep_tail]) (use q Cons in simp_all)
      moreover have "ids f k = y # ys" using Some Cons by (simp add: ids_def)
      ultimately show ?thesis by (simp add: up)
    qed
  qed
qed

lemma pop_better_eq:
  assumes t: "tq_rep tq f" and k: "k \<le> stop" "stop \<le> NUM_QUEUES"
  shows "pop_better_from (next_used f k) stop tq =
     (if (\<exists>p. k \<le> p \<and> p < stop \<and> ids f p \<noteq> []) then pop_from (next_used f k) tq else Some (None, tq))"
  using k
proof (induction "stop - k" arbitrary: k)
  case 0
  then have k: "k = stop" by simp
  have "pop_better_from (next_used f k) stop tq = Some (None, tq)"
  proof (cases "next_used f k")
    case (QIdx i)
    then have "k \<le> i" by (auto simp: next_used_def split: option.splits simp: find_Some_iff)
    then show ?thesis using QIdx k by (simp add: pop_better_from.simps)
  qed (simp_all add: pop_better_from.simps)
  then show ?case using k by auto
next
  case (Suc n)
  then have k: "k < stop" "k < NUM_QUEUES" by auto
  have IH: "pop_better_from (next_used f (Suc k)) stop tq =
     (if (\<exists>p. Suc k \<le> p \<and> p < stop \<and> ids f p \<noteq> []) then pop_from (next_used f (Suc k)) tq else Some (None, tq))"
    by (rule Suc.hyps(1)) (use Suc in auto)
  have ex: "(\<exists>p. k \<le> p \<and> p < stop \<and> ids f p \<noteq> []) \<longleftrightarrow> ids f k \<noteq> [] \<or> (\<exists>p. Suc k \<le> p \<and> p < stop \<and> ids f p \<noteq> [])"
    using k by (metis Suc_le_eq le_eq_less_or_eq)
  show ?case
  proof (cases "f k")
    case None
    then have "next_used f k = next_used f (Suc k)" "ids f k = []" using k by (simp_all add: next_used_step ids_def)
    then show ?thesis unfolding ex using IH by (simp only: simp_thms)
  next
    case (Some xs)
    let ?q = "tq_queues tq ! k"
    have q: "qrep ?q xs" "q_next ?q = next_used f (Suc k)" using tq_rep_queue [OF t k(2) Some] .
    have nu: "next_used f k = QIdx k" using k Some by (simp add: next_used_step)
    have ids: "ids f k = xs" using Some by (simp add: ids_def)
    have 1: "pop_from (QIdx k) tq = (if xs \<noteq> [] then Option.bind (rd ?q (q_first ?q)) (\<lambda>x.
                Some (Some x, put_q tq k (?q\<lparr>q_first := q_first ?q + 1\<rparr>))) else pop_from (next_used f (Suc k)) tq)"
      by (subst pop_from.simps) (simp add: tq_rep_get [OF t k(2)] qrep_nonempty [OF q(1)] q(2))
    have 2: "pop_better_from (QIdx k) stop tq = (if xs \<noteq> [] then Option.bind (rd ?q (q_first ?q)) (\<lambda>x.
                Some (Some x, put_q tq k (?q\<lparr>q_first := q_first ?q + 1\<rparr>))) else pop_better_from (next_used f (Suc k)) stop tq)"
      by (subst pop_better_from.simps) (simp add: tq_rep_get [OF t k(2)] qrep_nonempty [OF q(1)] q(2) k)
    show ?thesis unfolding ex nu ids 1 2 IH by (cases "xs = []") (simp_all only: simp_thms if_True if_False)
  qed
qed

subsection \<open>The interface of a scheduler\<close>

text \<open>
  What a scheduler relies on: a pop returns the head of the best nonempty priority and takes
  it away, and reports that nothing is queued otherwise.
\<close>

locale prio_pop =
  fixes rep :: "'s \<Rightarrow> 'id prio_lists \<Rightarrow> bool"
    and pop :: "'s \<Rightarrow> ('id option \<times> 's) option"
  assumes pop_none: "\<lbrakk>rep s f; flat f = []\<rbrakk> \<Longrightarrow> pop s = Some (None, s)"
    and pop_some: "\<lbrakk>rep s f; p < NUM_QUEUES; ids f p = x # xs; \<And>q. q < p \<Longrightarrow> ids f q = []\<rbrakk> \<Longrightarrow>
      \<exists>s'. pop s = Some (Some x, s') \<and> rep s' (f(p \<mapsto> xs))"

fun drain :: "('s \<Rightarrow> ('id option \<times> 's) option) \<Rightarrow> nat \<Rightarrow> 's \<Rightarrow> ('id list \<times> 's) option" where
  "drain pop 0 s = Some ([], s)"
| "drain pop (Suc n) s = do {
     (r, s') \<leftarrow> pop s;
     (case r of
        None \<Rightarrow> Some ([], s')
      | Some x \<Rightarrow> do { (xs, s'') \<leftarrow> drain pop n s'; Some (x # xs, s'') })
   }"

lemma flat_split:
  "p < NUM_QUEUES \<Longrightarrow> (\<And>q. q < p \<Longrightarrow> ids f q = []) \<Longrightarrow>
    flat f = ids f p @ concat (map (ids f) [Suc p ..< NUM_QUEUES])"
proof -
  assume p: "p < NUM_QUEUES" and q: "\<And>q. q < p \<Longrightarrow> ids f q = []"
  have "[0 ..< NUM_QUEUES] = [0 ..< p] @ p # [Suc p ..< NUM_QUEUES]"
    using p by (metis upt_add_eq_append upt_conv_Cons le_add_diff_inverse less_imp_le_nat zero_le)
  then show ?thesis using q by (simp add: flat_def)
qed

lemma flat_Cons:
  assumes "flat f = x # r"
  obtains p xs where "p < NUM_QUEUES" "ids f p = x # xs" "\<forall>q < p. ids f q = []" "flat (f(p \<mapsto> xs)) = r"
proof -
  let ?P = "\<lambda>p. p < NUM_QUEUES \<and> ids f p \<noteq> []"
  have "\<exists>p. ?P p"
  proof (rule ccontr)
    assume "\<not> ?thesis"
    then have "flat f = []" by (simp add: flat_def)
    then show False using assms by simp
  qed
  then obtain p where p: "?P p" "\<And>q. q < p \<Longrightarrow> \<not> ?P q" using exists_least_iff [of ?P] by blast
  then have e: "\<And>q. q < p \<Longrightarrow> ids f q = []" by auto
  obtain y ys where y: "ids f p = y # ys" using p(1) by (cases "ids f p") auto
  have f: "flat f = (y # ys) @ concat (map (ids f) [Suc p ..< NUM_QUEUES])"
    using flat_split [of p f] p(1) e y by simp
  have "flat (f(p \<mapsto> ys)) = ys @ concat (map (ids (f(p \<mapsto> ys))) [Suc p ..< NUM_QUEUES])"
    using flat_split [of p "f(p \<mapsto> ys)"] p(1) e by simp
  also have "map (ids (f(p \<mapsto> ys))) [Suc p ..< NUM_QUEUES] = map (ids f) [Suc p ..< NUM_QUEUES]" by simp
  finally have u: "flat (f(p \<mapsto> ys)) = ys @ concat (map (ids f) [Suc p ..< NUM_QUEUES])" .
  have r: "y = x" "ys @ concat (map (ids f) [Suc p ..< NUM_QUEUES]) = r" using f assms by simp_all
  show thesis by (rule that [of p ys]) (use p(1) e y [unfolded r(1)] u [unfolded r(2)] in blast)+
qed

context prio_pop
begin

lemma drain_all:
  assumes "rep s f" "length (flat f) < n"
  shows "\<exists>s'. drain pop n s = Some (flat f, s') \<and> (\<exists>g. rep s' g \<and> flat g = [])"
  using assms
proof (induction n arbitrary: s f)
  case (Suc n)
  show ?case
  proof (cases "flat f")
    case Nil
    then show ?thesis using Suc.prems(1) pop_none [OF Suc.prems(1)] by auto
  next
    case (Cons x r)
    then obtain p xs where p: "p < NUM_QUEUES" "ids f p = x # xs" "\<forall>q < p. ids f q = []" "flat (f(p \<mapsto> xs)) = r"
      by (rule flat_Cons)
    obtain s' where s': "pop s = Some (Some x, s')" "rep s' (f(p \<mapsto> xs))"
      using pop_some [OF Suc.prems(1) p(1,2)] p(3) by blast
    have "length (flat (f(p \<mapsto> xs))) < n" using Suc.prems(2) Cons p(4) by simp
    from Suc.IH [OF s'(2) this] obtain s'' where "drain pop n s' = Some (r, s'')" "\<exists>g. rep s'' g \<and> flat g = []"
      unfolding p(4) by blast
    then show ?thesis using s'(1) Cons by simp
  qed
qed simp

end

lemma find_best:
  assumes "p < NUM_QUEUES" "ids f p \<noteq> []" "\<And>q. q < p \<Longrightarrow> ids f q = []"
  shows "List.find (\<lambda>p. ids f p \<noteq> []) [0 ..< NUM_QUEUES] = Some p"
  using assms by (auto simp: find_Some_iff intro!: exI [of _ p])

interpretation tql: prio_pop tq_rep pop_first
proof
  fix s :: "'id ThreadQueueList" and f
  assume t: "tq_rep s f" and e: "flat f = []"
  have f: "tq_first s = next_used f 0" using t by (simp add: tq_rep_def)
  have "List.find (\<lambda>p. ids f p \<noteq> []) [0 ..< NUM_QUEUES] = None"
    using e by (auto simp: flat_def find_None_iff)
  then show "pop_first s = Some (None, s)"
    using pop_from_rep [OF t, of 0] by (simp add: pop_first_def f)
next
  fix s :: "'id ThreadQueueList" and f p x xs
  assume t: "tq_rep s f" and p: "p < NUM_QUEUES" "ids f p = x # xs" "\<And>q. q < p \<Longrightarrow> ids f q = []"
  have f: "tq_first s = next_used f 0" using t by (simp add: tq_rep_def)
  show "\<exists>s'. pop_first s = Some (Some x, s') \<and> tq_rep s' (f(p \<mapsto> xs))"
    using pop_from_rep [OF t, of 0] find_best [of p f] p by (simp add: pop_first_def f)
qed

subsection \<open>Properties\<close>


definition tq_example :: "nat ThreadQueueList" where
  "tq_example = the (do {
     a \<leftarrow> prepare mk_ThreadQueueList 48;
     b \<leftarrow> prepare a 24;
     c \<leftarrow> push_back (\<lambda>_. True) b 48 1;
     d \<leftarrow> push_back (\<lambda>_. True) c 24 2;
     push_back (\<lambda>_. True) d 48 3 })"

lemma tq_example_rep: "tq_rep tq_example ((\<lambda>_. None)(48 \<mapsto> [1, 3], 24 \<mapsto> [2]))"
proof -
  let ?e = "(\<lambda>_. None) :: nat prio_lists"
  have n: "48 < NUM_QUEUES" "24 < NUM_QUEUES" by (simp_all add: NUM_QUEUES_def)
  obtain a where a: "prepare mk_ThreadQueueList 48 = Some a" "tq_rep a (?e(48 \<mapsto> []))"
    using prepare_rep [OF mk_rep n(1)] by (auto simp: ids_def)
  obtain b where b: "prepare a 24 = Some b" "tq_rep b (?e(48 \<mapsto> [], 24 \<mapsto> []))"
    using prepare_rep [OF a(2) n(2)] by (auto simp: ids_def)
  obtain c where c: "push_back (\<lambda>_. True) b 48 1 = Some c" "tq_rep c (?e(48 \<mapsto> [], 24 \<mapsto> [], 48 \<mapsto> [1]))"
    using push_back_rep [OF b(2) n(1), of "[]" "\<lambda>_. True" 1] by auto
  obtain d where d: "push_back (\<lambda>_. True) c 24 2 = Some d" "tq_rep d (?e(48 \<mapsto> [], 24 \<mapsto> [], 48 \<mapsto> [1], 24 \<mapsto> [2]))"
    using push_back_rep [OF c(2) n(2), of "[]" "\<lambda>_. True" 2] by auto
  obtain e where e: "push_back (\<lambda>_. True) d 48 3 = Some e"
      "tq_rep e (?e(48 \<mapsto> [], 24 \<mapsto> [], 48 \<mapsto> [1], 24 \<mapsto> [2], 48 \<mapsto> [1, 3]))"
    using push_back_rep [OF d(2) n(1), of "[1]" "\<lambda>_. True" 3] by auto
  have "tq_example = e" unfolding tq_example_def a(1) b(1) bind.bind_lunit c(1) d(1) e(1) by simp
  moreover have "?e(48 \<mapsto> [], 24 \<mapsto> [], 48 \<mapsto> [1], 24 \<mapsto> [2], 48 \<mapsto> [1, 3]) = ?e(48 \<mapsto> [1, 3], 24 \<mapsto> [2])"
    by (simp add: fun_eq_iff)
  ultimately show ?thesis using e(2) by simp
qed


text \<open>pop_first takes ids in the order of their priority and first in, first out within a priority:
  popping until nothing is left returns exactly all queued ids in that order.\<close>
theorem thread_queue_pops_in_priority_order:
  assumes "tq_rep tq f" "length (flat f) < n"
  shows "\<exists>tq'. drain pop_first n tq = Some (flat f, tq') \<and> pop_first tq' = Some (None, tq')"
  using tql.drain_all [OF assms] tql.pop_none by blast

lemma thread_queue_pops_in_priority_order_witness:
  "\<exists>tq'. drain pop_first 4 tq_example = Some ([2, 1, 3], tq') \<and> pop_first tq' = Some (None, tq')"
proof -
  let ?f = "(\<lambda>_. None)(48 \<mapsto> [1, 3], 24 \<mapsto> [2]) :: nat prio_lists"
  have "flat ?f = [2, 1, 3]" by (simp add: flat_def NUM_QUEUES_def ids_def upt_rec)
  then show ?thesis using thread_queue_pops_in_priority_order [OF tq_example_rep, of 4] by simp
qed

text \<open>pop_first_better(priority) pops only an id of a strictly better priority: it acts as pop_first when
  one is queued and otherwise returns nothing and leaves the queues as they are.\<close>
theorem thread_queue_pop_better:
  assumes t: "tq_rep tq f" and p: "priority \<le> NUM_QUEUES"
  shows "pop_first_better tq priority =
    (if \<exists>q < priority. ids f q \<noteq> [] then pop_first tq else Some (None, tq))"
proof -
  have "tq_first tq = next_used f 0" using t by (simp add: tq_rep_def)
  then show ?thesis using pop_better_eq [OF t le0 p]
    by (simp only: pop_first_better_def pop_first_def le0 simp_thms)
qed

lemma thread_queue_pop_better_witness:
  "pop_first_better tq_example 24 = Some (None, tq_example)"
proof -
  let ?f = "(\<lambda>_. None)(48 \<mapsto> [1, 3], 24 \<mapsto> [2]) :: nat prio_lists"
  have c: "\<not> (\<exists>q < 24. ids ?f q \<noteq> [])" by (auto simp: ids_def)
  have n: "24 \<le> NUM_QUEUES" by (simp add: NUM_QUEUES_def)
  show ?thesis using thread_queue_pop_better [OF tq_example_rep n] unfolding if_not_P [OF c] .
qed

end
