(* ===== verification/Kernel_Objects.thy ===== *)
theory Kernel_Objects
  imports Resource_Limit
begin

text \<open>
  The state the waiting side of the kernel works on: wait objects and threads
  (\<^verbatim>\<open>wait_object.h\<close>, \<^verbatim>\<open>event.h\<close>, \<^verbatim>\<open>semaphore.h\<close>, \<^verbatim>\<open>mutex.h\<close>, \<^verbatim>\<open>timer.h\<close>, \<^verbatim>\<open>thread.h\<close>,
  \<^verbatim>\<open>address_arbiter.h\<close> in \<^verbatim>\<open>src/core/hle/kernel\<close>).

  A shared pointer is an object identifier; the store gives every identifier its object, and
  a thread identifier names both its thread record and its part as a wait object.  A
  \<^verbatim>\<open>std::set\<close> of pointers is the list of its identifiers in ascending order.  The ready queue
  with the interface these files use, the timing system, \<open>PrepareReschedule\<close> and the notifiers
  set from outside are not part of the sources: the calls made to them are recorded, in
  order, in the field \<open>calls\<close>, and what they answer is a function of the calls so far.
\<close>

type_synonym oid = nat

subsection \<open>Threads\<close>

definition ThreadPrioHighest :: u32 where "ThreadPrioHighest = 0"
definition ThreadPrioUserlandMax :: u32 where "ThreadPrioUserlandMax = 24"
definition ThreadPrioDefault :: u32 where "ThreadPrioDefault = 48"
definition ThreadPrioLowest :: u32 where "ThreadPrioLowest = 63"
definition ThreadProcessorIdMax :: int where "ThreadProcessorIdMax = 4"

datatype ThreadStatus = Running | Ready | WaitArb | WaitSleep | WaitIPC | WaitSynchAny | WaitSynchAll
  | WaitHleEvent | Dormant | Dead

datatype ThreadWakeupReason = WR_Signal | WR_Timeout

text \<open>The callbacks modelled: \<open>SVC_SyncCallback\<close> with its flag, and the timeout callback of an arbiter.\<close>

datatype WakeupCallback = SVC_SyncCallback bool | ArbiterCallback oid

record ThreadContext =
  cpu_registers :: "u32 list"
  cpsr :: u32
  fpscr :: u32

record Thread =
  th_context :: ThreadContext
  thread_id :: u32
  can_schedule :: bool
  status :: ThreadStatus
  entry_point :: VAddr
  stack_top :: VAddr
  nominal_priority :: u32
  current_priority :: u32
  last_running_ticks :: u64
  processor_id :: int
  tls_address :: VAddr
  held_mutexes :: "oid list"
  pending_mutexes :: "oid list"
  owner_process :: "oid option"
  resource_limit_category :: ResourceLimitCategory
  wait_objects :: "oid list"
  wait_address :: VAddr
  wakeup_callback :: "WakeupCallback option"
  core_id :: nat

subsection \<open>Wait objects\<close>

datatype ResetType = OneShot | Sticky | Pulse

record Event =
  ev_reset_type :: ResetType
  ev_signaled :: bool

record Semaphore =
  max_count :: int
  available_count :: int

record Mutex =
  lock_count :: int
  mtx_priority :: u32
  holding_thread :: "oid option"

record Timer =
  tm_reset_type :: ResetType
  initial_delay :: int
  interval_delay :: int
  tm_signaled :: bool
  callback_id :: u64

datatype ObjectKind = K_Event Event | K_Semaphore Semaphore | K_Mutex Mutex | K_Timer Timer | K_Thread

record WaitObject =
  waiting_threads :: "oid list"
  hle_notifier :: bool
  kind :: ObjectKind

subsection \<open>Thread managers and the kernel\<close>

datatype SchedState = SS_APP | SS_SYS

record CpuLimiterMulti =
  lim_ready :: bool
  lim_active :: bool
  app_cpu_time :: int
  curr_state :: SchedState
  sleeping_thread_ids :: "u32 list"

record ThreadManager =
  current_thread :: "oid option"
  wakeup_callback_table :: "u64 \<Rightarrow> oid option"
  thread_list :: "oid list"
  current_schedule_mode :: Core1ScheduleMode
  single_time_limiter :: CpuLimiterMulti
  multi_time_limiter :: CpuLimiterMulti

datatype EventType = ET_ThreadWakeup nat | ET_Timer | ET_LimiterTick

datatype Call =
    PrepareReschedule
  | HleNotify oid
  | RQ_prepare nat u32
  | RQ_push_back nat u32 oid
  | RQ_push_front nat u32 oid
  | RQ_remove nat u32 oid
  | RQ_move nat oid u32 u32
  | RQ_pop_first nat
  | RQ_pop_first_better nat u32
  | ScheduleNs EventType int int u64
  | ScheduleCycles EventType int u64
  | UnscheduleEvent EventType u64
  | AddTicks int
  | Write32 VAddr u32
  | SetCurrentProcess oid nat
  | SaveContext oid
  | LoadContext oid VAddr

record Kernel =
  objs :: "oid \<Rightarrow> WaitObject"
  threads :: "oid \<Rightarrow> Thread"
  arbiters :: "oid \<Rightarrow> oid list"
  managers :: "nat \<Rightarrow> ThreadManager"
  next_timer_callback_id :: u64
  timer_callback_table :: "u64 \<Rightarrow> oid option"
  next_thread_id :: u32
  next_oid :: oid
  tls_slots :: "oid \<Rightarrow> bool list list"
  process_limit :: "oid \<Rightarrow> ResourceLimitCategory"
  resource_limits :: "ResourceLimitCategory \<Rightarrow> ResourceLimit"
  calls :: "Call list"

subsection \<open>Updates of the store\<close>

definition upd_obj :: "oid \<Rightarrow> (WaitObject \<Rightarrow> WaitObject) \<Rightarrow> Kernel \<Rightarrow> Kernel" where
  "upd_obj ob f k = k\<lparr>objs := (objs k)(ob := f (objs k ob))\<rparr>"

definition upd_thread :: "oid \<Rightarrow> (Thread \<Rightarrow> Thread) \<Rightarrow> Kernel \<Rightarrow> Kernel" where
  "upd_thread t f k = k\<lparr>threads := (threads k)(t := f (threads k t))\<rparr>"

definition upd_arbiter :: "oid \<Rightarrow> (oid list \<Rightarrow> oid list) \<Rightarrow> Kernel \<Rightarrow> Kernel" where
  "upd_arbiter a f k = k\<lparr>arbiters := (arbiters k)(a := f (arbiters k a))\<rparr>"

definition upd_manager :: "nat \<Rightarrow> (ThreadManager \<Rightarrow> ThreadManager) \<Rightarrow> Kernel \<Rightarrow> Kernel" where
  "upd_manager c f k = k\<lparr>managers := (managers k)(c := f (managers k c))\<rparr>"

definition do_call :: "Call \<Rightarrow> Kernel \<Rightarrow> Kernel" where
  "do_call c k = k\<lparr>calls := calls k @ [c]\<rparr>"

definition set_kind :: "oid \<Rightarrow> ObjectKind \<Rightarrow> Kernel \<Rightarrow> Kernel" where
  "set_kind ob kd = upd_obj ob (\<lambda>w. w\<lparr>kind := kd\<rparr>)"

text \<open>The parts that waking and waiting never touch, and the fields of a thread that are fixed when it is made
  (or when it enters an arbiter).\<close>

definition rest :: "Kernel \<Rightarrow> (oid \<Rightarrow> oid list) \<times> (nat \<Rightarrow> ThreadManager) \<times> oid \<times> (oid \<Rightarrow> bool list list) \<times>
    (oid \<Rightarrow> ResourceLimitCategory) \<times> (ResourceLimitCategory \<Rightarrow> ResourceLimit) \<times> u64 \<times> (u64 \<Rightarrow> oid option) \<times> u32" where
  "rest k = (arbiters k, managers k, next_oid k, tls_slots k, process_limit k, resource_limits k,
     next_timer_callback_id k, timer_callback_table k, next_thread_id k)"

definition th_static :: "Thread \<Rightarrow> u32 \<times> bool \<times> VAddr \<times> VAddr \<times> int \<times> VAddr \<times> oid option \<times> ResourceLimitCategory \<times> VAddr \<times> nat" where
  "th_static th = (thread_id th, can_schedule th, entry_point th, stack_top th, processor_id th, tls_address th,
     owner_process th, resource_limit_category th, wait_address th, core_id th)"

named_theorems store_simps \<open>what a store update leaves and changes\<close>

lemma upd_obj_sel [simp, store_simps]:
  "objs (upd_obj ob f k) w = (if w = ob then f (objs k ob) else objs k w)"
  "threads (upd_obj ob f k) = threads k" "arbiters (upd_obj ob f k) = arbiters k"
  "managers (upd_obj ob f k) = managers k" "calls (upd_obj ob f k) = calls k"
  "timer_callback_table (upd_obj ob f k) = timer_callback_table k"
  by (simp_all add: upd_obj_def)

lemma upd_thread_sel [simp, store_simps]:
  "threads (upd_thread t g k) u = (if u = t then g (threads k t) else threads k u)"
  "objs (upd_thread t g k) = objs k" "arbiters (upd_thread t g k) = arbiters k"
  "managers (upd_thread t g k) = managers k" "calls (upd_thread t g k) = calls k"
  "timer_callback_table (upd_thread t g k) = timer_callback_table k"
  by (simp_all add: upd_thread_def)

lemma upd_arbiter_sel [simp, store_simps]:
  "arbiters (upd_arbiter a h k) b = (if b = a then h (arbiters k a) else arbiters k b)"
  "objs (upd_arbiter a h k) = objs k" "threads (upd_arbiter a h k) = threads k"
  "managers (upd_arbiter a h k) = managers k" "calls (upd_arbiter a h k) = calls k"
  "timer_callback_table (upd_arbiter a h k) = timer_callback_table k"
  by (simp_all add: upd_arbiter_def)

lemma upd_manager_sel [simp, store_simps]:
  "managers (upd_manager c h k) b = (if b = c then h (managers k c) else managers k b)"
  "objs (upd_manager c h k) = objs k" "threads (upd_manager c h k) = threads k"
  "arbiters (upd_manager c h k) = arbiters k" "calls (upd_manager c h k) = calls k"
  "timer_callback_table (upd_manager c h k) = timer_callback_table k"
  by (simp_all add: upd_manager_def)

lemma do_call_sel [simp, store_simps]:
  "objs (do_call c k) = objs k" "threads (do_call c k) = threads k" "arbiters (do_call c k) = arbiters k"
  "managers (do_call c k) = managers k" "calls (do_call c k) = calls k @ [c]"
  "timer_callback_table (do_call c k) = timer_callback_table k"
  by (simp_all add: do_call_def)

lemma set_kind_sel [simp, store_simps]:
  "threads (set_kind ob kd k) = threads k" "arbiters (set_kind ob kd k) = arbiters k"
  "managers (set_kind ob kd k) = managers k" "calls (set_kind ob kd k) = calls k"
  "kind (objs (set_kind ob kd k) w) = (if w = ob then kd else kind (objs k w))"
  "waiting_threads (objs (set_kind ob kd k) w) = waiting_threads (objs k w)"
  "hle_notifier (objs (set_kind ob kd k) w) = hle_notifier (objs k w)"
  by (simp_all add: set_kind_def)

lemma rest_sel [simp, store_simps]:
  "rest (upd_obj ob f k) = rest k" "rest (upd_thread t g k) = rest k" "rest (do_call c k) = rest k"
  "rest (set_kind ob kd k) = rest k"
  by (simp_all add: rest_def set_kind_def upd_obj_def upd_thread_def do_call_def)

lemma restD:
  assumes "rest k' = rest k"
  shows "arbiters k' = arbiters k" "managers k' = managers k" "next_oid k' = next_oid k" "tls_slots k' = tls_slots k"
    "process_limit k' = process_limit k" "resource_limits k' = resource_limits k"
    "timer_callback_table k' = timer_callback_table k"
  using assms by (simp_all add: rest_def)

lemma th_static_upd [simp]:
  "th_static (th\<lparr>status := a\<rparr>) = th_static th" "th_static (th\<lparr>nominal_priority := b\<rparr>) = th_static th"
  "th_static (th\<lparr>current_priority := c\<rparr>) = th_static th" "th_static (th\<lparr>held_mutexes := d\<rparr>) = th_static th"
  "th_static (th\<lparr>pending_mutexes := e\<rparr>) = th_static th" "th_static (th\<lparr>wait_objects := f\<rparr>) = th_static th"
  "th_static (th\<lparr>wakeup_callback := g\<rparr>) = th_static th" "th_static (th\<lparr>th_context := h\<rparr>) = th_static th"
  "th_static (th\<lparr>last_running_ticks := i\<rparr>) = th_static th"
  by (simp_all add: th_static_def)

lemma th_staticD:
  assumes "th_static th' = th_static th"
  shows "thread_id th' = thread_id th" "tls_address th' = tls_address th" "owner_process th' = owner_process th"
    "wait_address th' = wait_address th" "core_id th' = core_id th"
  using assms by (simp_all add: th_static_def)

text \<open>A range-for loop that may abort.\<close>

fun for_each :: "('a \<Rightarrow> 's \<Rightarrow> 's option) \<Rightarrow> 'a list \<Rightarrow> 's \<Rightarrow> 's option" where
  "for_each body [] s = Some s"
| "for_each body (x # xs) s = do { s' \<leftarrow> body x s; for_each body xs s' }"

lemma for_each_append: "for_each body (xs @ ys) s = do { s' \<leftarrow> for_each body xs s; for_each body ys s' }"
  by (induction xs arbitrary: s) (auto split: Option.bind_split)

end
