(* ===== verification/Sync_Objects.thy ===== *)
theory Sync_Objects
  imports Kernel_Objects
begin

text \<open>
  Wait objects: \<^verbatim>\<open>wait_object.cpp\<close>, \<^verbatim>\<open>event.cpp\<close>, \<^verbatim>\<open>semaphore.cpp\<close>, \<^verbatim>\<open>mutex.cpp\<close>, \<^verbatim>\<open>timer.cpp\<close> and
  the parts of \<^verbatim>\<open>thread.cpp\<close> they call.  Virtual methods dispatch on the kind of the object.
  \<open>lock_count\<close> is an unbounded integer; the counts of a semaphore are \<^verbatim>\<open>s32\<close>, whose overflow
  is the undefined run \<open>None\<close>.
\<close>

subsection \<open>Threads as the wait objects use them\<close>

definition SetWaitSynchronizationResult :: "oid \<Rightarrow> Result \<Rightarrow> Kernel \<Rightarrow> Kernel" where
  "SetWaitSynchronizationResult t result = upd_thread t (\<lambda>th. th\<lparr>th_context :=
     (th_context th)\<lparr>cpu_registers := (cpu_registers (th_context th))[0 := raw result]\<rparr>\<rparr>)"

definition SetWaitSynchronizationOutput :: "oid \<Rightarrow> int \<Rightarrow> Kernel \<Rightarrow> Kernel" where
  "SetWaitSynchronizationOutput t output = upd_thread t (\<lambda>th. th\<lparr>th_context :=
     (th_context th)\<lparr>cpu_registers := (cpu_registers (th_context th))[1 := word_of_int output]\<rparr>\<rparr>)"

fun last_index :: "'a \<Rightarrow> 'a list \<Rightarrow> int" where
  "last_index x [] = -1"
| "last_index x (y # ys) = (if last_index x ys \<ge> 0 then last_index x ys + 1 else if y = x then 0 else -1)"

definition GetWaitObjectIndex :: "oid \<Rightarrow> oid \<Rightarrow> Kernel \<Rightarrow> int option" where
  "GetWaitObjectIndex t ob k = do {
     _ \<leftarrow> ASSERT (wait_objects (threads k t) \<noteq> []);
     Some (last_index ob (wait_objects (threads k t)))
   }"

definition BoostPriority :: "oid \<Rightarrow> u32 \<Rightarrow> Kernel \<Rightarrow> Kernel" where
  "BoostPriority t priority k =
     (let th = threads k t;
          k1 = (if status th = Ready then do_call (RQ_move (core_id th) t (current_priority th) priority) k
                else do_call (RQ_prepare (core_id th) priority) k)
      in upd_thread t (\<lambda>th. th\<lparr>current_priority := priority\<rparr>) k1)"

definition mutex_priority :: "Kernel \<Rightarrow> oid \<Rightarrow> u32" where
  "mutex_priority k m = (case kind (objs k m) of K_Mutex mx \<Rightarrow> mtx_priority mx | _ \<Rightarrow> ThreadPrioLowest)"

definition best_of :: "u32 \<Rightarrow> u32 list \<Rightarrow> u32" where
  "best_of p ps = foldl (\<lambda>best q. if q < best then q else best) p ps"

definition UpdatePriority :: "oid \<Rightarrow> Kernel \<Rightarrow> Kernel" where
  "UpdatePriority t k =
     BoostPriority t (best_of (nominal_priority (threads k t))
       (map (mutex_priority k) (held_mutexes (threads k t)))) k"

definition SetPriority :: "oid \<Rightarrow> u32 \<Rightarrow> Kernel \<Rightarrow> Kernel option" where
  "SetPriority t priority k = do {
     _ \<leftarrow> ASSERT (priority \<le> ThreadPrioLowest \<and> priority \<ge> ThreadPrioHighest);
     let th = threads k t;
     let k1 = (if status th = Ready then do_call (RQ_move (core_id th) t (current_priority th) priority) k
               else do_call (RQ_prepare (core_id th) priority) k);
     Some (upd_thread t (\<lambda>th. th\<lparr>nominal_priority := priority, current_priority := priority\<rparr>) k1)
   }"

definition ResumeFromWait :: "oid \<Rightarrow> Kernel \<Rightarrow> Kernel option" where
  "ResumeFromWait t k = (let th = threads k t in do {
     _ \<leftarrow> ASSERT (wait_objects th = []);
     (case status th of
        Ready \<Rightarrow> do { _ \<leftarrow> ASSERT (wakeup_callback th = None); Some k }
      | Running \<Rightarrow> None
      | Dead \<Rightarrow> None
      | _ \<Rightarrow> Some (do_call PrepareReschedule
              (upd_thread t (\<lambda>th. th\<lparr>wakeup_callback := None, status := Ready\<rparr>)
                (do_call (RQ_push_back (core_id th) (current_priority th) t) k))))
   })"

definition WakeAfterDelay :: "oid \<Rightarrow> int \<Rightarrow> Kernel \<Rightarrow> Kernel" where
  "WakeAfterDelay t nanoseconds k =
     (if nanoseconds = -1 then k
      else do_call (ScheduleNs (ET_ThreadWakeup (core_id (threads k t))) nanoseconds 0 (ucast (thread_id (threads k t)))) k)"

subsection \<open>ShouldWait and Acquire\<close>

fun Mutex_ShouldWait :: "Mutex \<Rightarrow> oid \<Rightarrow> bool" where
  "Mutex_ShouldWait mx t = (lock_count mx > 0 \<and> holding_thread mx \<noteq> Some t)"

definition ShouldWait :: "oid \<Rightarrow> oid \<Rightarrow> Kernel \<Rightarrow> bool" where
  "ShouldWait ob t k = (case kind (objs k ob) of
       K_Event e \<Rightarrow> \<not> ev_signaled e
     | K_Semaphore s \<Rightarrow> available_count s \<le> 0
     | K_Mutex mx \<Rightarrow> Mutex_ShouldWait mx t
     | K_Timer tm \<Rightarrow> \<not> tm_signaled tm
     | K_Thread \<Rightarrow> status (threads k ob) \<noteq> Dead)"

definition Event_Acquire :: "oid \<Rightarrow> Event \<Rightarrow> oid \<Rightarrow> Kernel \<Rightarrow> Kernel option" where
  "Event_Acquire ob e t k = do {
     _ \<leftarrow> ASSERT (\<not> ShouldWait ob t k);
     Some (if ev_reset_type e = OneShot then set_kind ob (K_Event (e\<lparr>ev_signaled := False\<rparr>)) k else k)
   }"

definition Semaphore_Acquire :: "oid \<Rightarrow> Semaphore \<Rightarrow> Kernel \<Rightarrow> Kernel" where
  "Semaphore_Acquire ob s k =
     (if available_count s \<le> 0 then k
      else set_kind ob (K_Semaphore (s\<lparr>available_count := available_count s - 1\<rparr>)) k)"

definition Mutex_Acquire :: "oid \<Rightarrow> Mutex \<Rightarrow> oid \<Rightarrow> Kernel \<Rightarrow> Kernel option" where
  "Mutex_Acquire ob mx t k = do {
     _ \<leftarrow> ASSERT (\<not> ShouldWait ob t k);
     let k1 = (if lock_count mx = 0
               then do_call PrepareReschedule (UpdatePriority t
                      (set_kind ob (K_Mutex (mx\<lparr>mtx_priority := current_priority (threads k t), holding_thread := Some t\<rparr>))
                        (upd_thread t (\<lambda>th. th\<lparr>held_mutexes := insort_insert ob (held_mutexes th)\<rparr>) k)))
               else k);
     let mx1 = (if lock_count mx = 0
                then mx\<lparr>mtx_priority := current_priority (threads k t), holding_thread := Some t\<rparr> else mx);
     Some (set_kind ob (K_Mutex (mx1\<lparr>lock_count := lock_count mx + 1\<rparr>)) k1)
   }"

definition Timer_Acquire :: "oid \<Rightarrow> Timer \<Rightarrow> oid \<Rightarrow> Kernel \<Rightarrow> Kernel option" where
  "Timer_Acquire ob tm t k = do {
     _ \<leftarrow> ASSERT (\<not> ShouldWait ob t k);
     Some (if tm_reset_type tm = OneShot then set_kind ob (K_Timer (tm\<lparr>tm_signaled := False\<rparr>)) k else k)
   }"

definition Thread_Acquire :: "oid \<Rightarrow> oid \<Rightarrow> Kernel \<Rightarrow> Kernel option" where
  "Thread_Acquire ob t k = do { _ \<leftarrow> ASSERT (\<not> ShouldWait ob t k); Some k }"

definition Acquire :: "oid \<Rightarrow> oid \<Rightarrow> Kernel \<Rightarrow> Kernel option" where
  "Acquire ob t k = (case kind (objs k ob) of
       K_Event e \<Rightarrow> Event_Acquire ob e t k
     | K_Semaphore s \<Rightarrow> Some (Semaphore_Acquire ob s k)
     | K_Mutex mx \<Rightarrow> Mutex_Acquire ob mx t k
     | K_Timer tm \<Rightarrow> Timer_Acquire ob tm t k
     | K_Thread \<Rightarrow> Thread_Acquire ob t k)"

subsection \<open>Waiting lists\<close>

definition Mutex_UpdatePriority :: "oid \<Rightarrow> Kernel \<Rightarrow> Kernel" where
  "Mutex_UpdatePriority m k = (case kind (objs k m) of
       K_Mutex mx \<Rightarrow>
         (case holding_thread mx of
            None \<Rightarrow> k
          | Some h \<Rightarrow>
              let best_priority = best_of ThreadPrioLowest
                    (map (\<lambda>w. current_priority (threads k w)) (waiting_threads (objs k m)))
              in if best_priority \<noteq> mtx_priority mx
                 then UpdatePriority h (set_kind m (K_Mutex (mx\<lparr>mtx_priority := best_priority\<rparr>)) k)
                 else k)
     | _ \<Rightarrow> k)"

definition WaitObject_AddWaitingThread :: "oid \<Rightarrow> oid \<Rightarrow> Kernel \<Rightarrow> Kernel" where
  "WaitObject_AddWaitingThread ob t k =
     (if t \<in> set (waiting_threads (objs k ob)) then k
      else upd_obj ob (\<lambda>w. w\<lparr>waiting_threads := waiting_threads w @ [t]\<rparr>) k)"

definition WaitObject_RemoveWaitingThread :: "oid \<Rightarrow> oid \<Rightarrow> Kernel \<Rightarrow> Kernel" where
  "WaitObject_RemoveWaitingThread ob t = upd_obj ob (\<lambda>w. w\<lparr>waiting_threads := remove1 t (waiting_threads w)\<rparr>)"

definition is_mutex :: "oid \<Rightarrow> Kernel \<Rightarrow> bool" where
  "is_mutex ob k = (case kind (objs k ob) of K_Mutex _ \<Rightarrow> True | _ \<Rightarrow> False)"

definition AddWaitingThread :: "oid \<Rightarrow> oid \<Rightarrow> Kernel \<Rightarrow> Kernel" where
  "AddWaitingThread ob t k =
     (if is_mutex ob k
      then Mutex_UpdatePriority ob
             (upd_thread t (\<lambda>th. th\<lparr>pending_mutexes := insort_insert ob (pending_mutexes th)\<rparr>)
               (WaitObject_AddWaitingThread ob t k))
      else WaitObject_AddWaitingThread ob t k)"

definition RemoveWaitingThread :: "oid \<Rightarrow> oid \<Rightarrow> Kernel \<Rightarrow> Kernel" where
  "RemoveWaitingThread ob t k =
     (if is_mutex ob k
      then Mutex_UpdatePriority ob
             (upd_thread t (\<lambda>th. th\<lparr>pending_mutexes := remove1 ob (pending_mutexes th)\<rparr>)
               (WaitObject_RemoveWaitingThread ob t k))
      else WaitObject_RemoveWaitingThread ob t k)"

subsection \<open>Waking up\<close>

definition waiting_status :: "ThreadStatus \<Rightarrow> bool" where
  "waiting_status s \<longleftrightarrow> s = WaitSynchAny \<or> s = WaitSynchAll \<or> s = WaitHleEvent"

definition ready_to_run :: "oid \<Rightarrow> oid \<Rightarrow> Kernel \<Rightarrow> bool" where
  "ready_to_run ob t k \<longleftrightarrow> \<not> ShouldWait ob t k \<and>
     (status (threads k t) = WaitSynchAll \<longrightarrow> list_all (\<lambda>w. \<not> ShouldWait w t k) (wait_objects (threads k t)))"

fun highest_loop :: "oid \<Rightarrow> Kernel \<Rightarrow> oid option \<Rightarrow> u32 \<Rightarrow> oid list \<Rightarrow> oid option option" where
  "highest_loop ob k candidate candidate_priority [] = Some candidate"
| "highest_loop ob k candidate candidate_priority (t # ts) = do {
     _ \<leftarrow> ASSERT (waiting_status (status (threads k t)));
     if current_priority (threads k t) \<ge> candidate_priority \<or> \<not> ready_to_run ob t k
     then highest_loop ob k candidate candidate_priority ts
     else highest_loop ob k (Some t) (current_priority (threads k t)) ts
   }"

definition GetHighestPriorityReadyThread :: "oid \<Rightarrow> Kernel \<Rightarrow> oid option option" where
  "GetHighestPriorityReadyThread ob k = highest_loop ob k None (ThreadPrioLowest + 1) (waiting_threads (objs k ob))"

definition SyncCallback_WakeUp :: "bool \<Rightarrow> ThreadWakeupReason \<Rightarrow> oid \<Rightarrow> oid option \<Rightarrow> Kernel \<Rightarrow> Kernel option" where
  "SyncCallback_WakeUp do_output reason t ob k =
     (case reason of
        WR_Timeout \<Rightarrow> Some (SetWaitSynchronizationResult t ResultTimeout k)
      | WR_Signal \<Rightarrow>
          let k1 = SetWaitSynchronizationResult t ResultSuccess k
          in if do_output
             then do { ob' \<leftarrow> ob; i \<leftarrow> GetWaitObjectIndex t ob' k1; Some (SetWaitSynchronizationOutput t i k1) }
             else Some k1)"

definition Arbiter_WakeUp :: "oid \<Rightarrow> ThreadWakeupReason \<Rightarrow> oid \<Rightarrow> Kernel \<Rightarrow> Kernel option" where
  "Arbiter_WakeUp a reason t k = do {
     _ \<leftarrow> ASSERT (reason = WR_Timeout);
     Some (upd_arbiter a (filter (\<lambda>u. u \<noteq> t)) k)
   }"

fun WakeUp :: "WakeupCallback \<Rightarrow> ThreadWakeupReason \<Rightarrow> oid \<Rightarrow> oid option \<Rightarrow> Kernel \<Rightarrow> Kernel option" where
  "WakeUp (SVC_SyncCallback do_output) reason t ob k = SyncCallback_WakeUp do_output reason t ob k"
| "WakeUp (ArbiterCallback a) reason t ob k = Arbiter_WakeUp a reason t k"

definition leave_wait :: "oid \<Rightarrow> Kernel \<Rightarrow> Kernel" where
  "leave_wait t k = upd_thread t (\<lambda>th. th\<lparr>wait_objects := []\<rparr>)
     (fold (\<lambda>ob. RemoveWaitingThread ob t) (wait_objects (threads k t)) k)"

definition wake_thread :: "oid \<Rightarrow> oid \<Rightarrow> Kernel \<Rightarrow> Kernel option" where
  "wake_thread ob t k = do {
     k1 \<leftarrow> (if status (threads k t) \<noteq> WaitSynchAll then Acquire ob t k
            else for_each (\<lambda>w. Acquire w t) (wait_objects (threads k t)) k);
     k2 \<leftarrow> (case wakeup_callback (threads k1 t) of
              Some cb \<Rightarrow> WakeUp cb WR_Signal t (Some ob) k1
            | None \<Rightarrow> Some k1);
     ResumeFromWait t (leave_wait t k2)
   }"

partial_function (option) wake_loop :: "oid \<Rightarrow> Kernel \<Rightarrow> Kernel option" where
  "wake_loop ob k = Option.bind (GetHighestPriorityReadyThread ob k) (\<lambda>next.
     case next of
       None \<Rightarrow> Some k
     | Some t \<Rightarrow> Option.bind (wake_thread ob t k) (\<lambda>k'. wake_loop ob k'))"

definition WaitObject_WakeupAllWaitingThreads :: "oid \<Rightarrow> Kernel \<Rightarrow> Kernel option" where
  "WaitObject_WakeupAllWaitingThreads ob k = do {
     k1 \<leftarrow> wake_loop ob k;
     Some (if hle_notifier (objs k1 ob) then do_call (HleNotify ob) k1 else k1)
   }"

definition WakeupAllWaitingThreads :: "oid \<Rightarrow> Kernel \<Rightarrow> Kernel option" where
  "WakeupAllWaitingThreads ob k = do {
     k1 \<leftarrow> WaitObject_WakeupAllWaitingThreads ob k;
     Some (case kind (objs k1 ob) of
         K_Event e \<Rightarrow> if ev_reset_type e = Pulse then set_kind ob (K_Event (e\<lparr>ev_signaled := False\<rparr>)) k1 else k1
       | K_Timer tm \<Rightarrow> if tm_reset_type tm = Pulse then set_kind ob (K_Timer (tm\<lparr>tm_signaled := False\<rparr>)) k1 else k1
       | _ \<Rightarrow> k1)
   }"

subsection \<open>Events\<close>

definition new_object :: "ObjectKind \<Rightarrow> Kernel \<Rightarrow> oid \<times> Kernel" where
  "new_object kd k = (next_oid k,
     (upd_obj (next_oid k) (\<lambda>_. \<lparr>waiting_threads = [], hle_notifier = False, kind = kd\<rparr>) k)\<lparr>next_oid := next_oid k + 1\<rparr>)"

definition CreateEvent :: "ResetType \<Rightarrow> Kernel \<Rightarrow> oid \<times> Kernel" where
  "CreateEvent reset_type = new_object (K_Event \<lparr>ev_reset_type = reset_type, ev_signaled = False\<rparr>)"

definition Event_Signal :: "oid \<Rightarrow> Event \<Rightarrow> Kernel \<Rightarrow> Kernel option" where
  "Event_Signal ob e k = WakeupAllWaitingThreads ob (set_kind ob (K_Event (e\<lparr>ev_signaled := True\<rparr>)) k)"

definition Event_Clear :: "oid \<Rightarrow> Event \<Rightarrow> Kernel \<Rightarrow> Kernel" where
  "Event_Clear ob e = set_kind ob (K_Event (e\<lparr>ev_signaled := False\<rparr>))"

subsection \<open>Semaphores\<close>

definition CreateSemaphore :: "int \<Rightarrow> int \<Rightarrow> Kernel \<Rightarrow> (Result + oid) \<times> Kernel" where
  "CreateSemaphore initial_count maximum k =
     (if \<not> initial_count \<le> maximum then (Inl ResultInvalidCombinationKernel, k)
      else let (ob, k') = new_object (K_Semaphore \<lparr>max_count = maximum, available_count = initial_count\<rparr>) k
           in (Inr ob, k'))"

text \<open>The result and, on success, the count before the release.\<close>

definition Semaphore_Release :: "oid \<Rightarrow> Semaphore \<Rightarrow> int \<Rightarrow> Kernel \<Rightarrow> ((Result \<times> int option) \<times> Kernel) option" where
  "Semaphore_Release ob s release_count k = do {
     total \<leftarrow> s32_arith (release_count + available_count s);
     if \<not> max_count s \<ge> total then Some ((ResultOutOfRangeKernel, None), k)
     else do {
       k1 \<leftarrow> WakeupAllWaitingThreads ob (set_kind ob (K_Semaphore (s\<lparr>available_count := total\<rparr>)) k);
       Some ((ResultSuccess, Some (available_count s)), k1)
     }
   }"

subsection \<open>Mutexes\<close>

definition CreateMutex :: "bool \<Rightarrow> oid \<Rightarrow> Kernel \<Rightarrow> (oid \<times> Kernel) option" where
  "CreateMutex initial_locked current k = do {
     let (m, k1) = new_object (K_Mutex \<lparr>lock_count = 0, mtx_priority = 0, holding_thread = None\<rparr>) k;
     k2 \<leftarrow> (if initial_locked then Acquire m current k1 else Some k1);
     Some (m, k2)
   }"

definition WrongLockingThreadResult :: Result where
  "WrongLockingThreadResult = mk_Result Err_WrongLockingThread EM_Kernel ES_InvalidArgument EL_Permanent"

definition ZeroLockCountResult :: Result where
  "ZeroLockCountResult = mk_ResultD ED_InvalidResultValue EM_Kernel ES_InvalidState EL_Permanent"

definition Mutex_Release :: "oid \<Rightarrow> Mutex \<Rightarrow> oid \<Rightarrow> Kernel \<Rightarrow> (Result \<times> Kernel) option" where
  "Mutex_Release m mx t k =
     (if holding_thread mx \<noteq> Some t then Some (WrongLockingThreadResult, k)
      else if lock_count mx \<le> 0 then Some (ZeroLockCountResult, k)
      else if lock_count mx - 1 = 0 then do {
        let k1 = set_kind m (K_Mutex (mx\<lparr>lock_count := 0\<rparr>)) k;
        let k2 = UpdatePriority t (upd_thread t (\<lambda>th. th\<lparr>held_mutexes := remove1 m (held_mutexes th)\<rparr>) k1);
        k3 \<leftarrow> WakeupAllWaitingThreads m (set_kind m (K_Mutex (mx\<lparr>lock_count := 0, holding_thread := None\<rparr>)) k2);
        Some (ResultSuccess, do_call PrepareReschedule k3)
      }
      else Some (ResultSuccess, set_kind m (K_Mutex (mx\<lparr>lock_count := lock_count mx - 1\<rparr>)) k))"

definition release_held :: "oid \<Rightarrow> Kernel \<Rightarrow> Kernel option" where
  "release_held m k = (case kind (objs k m) of
       K_Mutex mx \<Rightarrow> WakeupAllWaitingThreads m (set_kind m (K_Mutex (mx\<lparr>lock_count := 0, holding_thread := None\<rparr>)) k)
     | _ \<Rightarrow> None)"

definition ReleaseThreadMutexes :: "oid \<Rightarrow> Kernel \<Rightarrow> Kernel option" where
  "ReleaseThreadMutexes t k = do {
     k1 \<leftarrow> for_each release_held (held_mutexes (threads k t)) k;
     Some (upd_thread t (\<lambda>th. th\<lparr>held_mutexes := []\<rparr>) k1)
   }"

subsection \<open>Timers\<close>

definition CreateTimer :: "ResetType \<Rightarrow> Kernel \<Rightarrow> oid \<times> Kernel" where
  "CreateTimer reset_type k =
     (let cb = next_timer_callback_id k + 1;
          (ob, k1) = new_object (K_Timer \<lparr>tm_reset_type = reset_type, initial_delay = 0, interval_delay = 0,
                       tm_signaled = False, callback_id = cb\<rparr>) k
      in (ob, k1\<lparr>next_timer_callback_id := cb, timer_callback_table := (timer_callback_table k1)(cb := Some ob)\<rparr>))"

definition Timer_Cancel :: "Timer \<Rightarrow> Kernel \<Rightarrow> Kernel" where
  "Timer_Cancel tm = do_call (UnscheduleEvent ET_Timer (callback_id tm))"

definition Timer_Clear :: "oid \<Rightarrow> Timer \<Rightarrow> Kernel \<Rightarrow> Kernel" where
  "Timer_Clear ob tm = set_kind ob (K_Timer (tm\<lparr>tm_signaled := False\<rparr>))"

definition Timer_Signal :: "oid \<Rightarrow> Timer \<Rightarrow> int \<Rightarrow> Kernel \<Rightarrow> Kernel option" where
  "Timer_Signal ob tm cycles_late k = do {
     k1 \<leftarrow> WakeupAllWaitingThreads ob (set_kind ob (K_Timer (tm\<lparr>tm_signaled := True\<rparr>)) k);
     Some (if interval_delay tm \<noteq> 0
           then do_call (ScheduleNs ET_Timer (interval_delay tm) cycles_late (callback_id tm)) k1 else k1)
   }"

definition Timer_Set :: "oid \<Rightarrow> Timer \<Rightarrow> int \<Rightarrow> int \<Rightarrow> Kernel \<Rightarrow> Kernel option" where
  "Timer_Set ob tm initial interval k =
     (let k1 = Timer_Cancel tm k;
          tm1 = tm\<lparr>initial_delay := initial, interval_delay := interval\<rparr>;
          k2 = set_kind ob (K_Timer tm1) k1
      in if initial = 0 then Timer_Signal ob tm1 0 k2
         else Some (do_call (ScheduleNs ET_Timer initial 0 (callback_id tm)) k2))"

definition TimerCallback :: "u64 \<Rightarrow> int \<Rightarrow> Kernel \<Rightarrow> Kernel option" where
  "TimerCallback cb cycles_late k = do {
     ob \<leftarrow> timer_callback_table k cb;
     (case kind (objs k ob) of K_Timer tm \<Rightarrow> Timer_Signal ob tm cycles_late k | _ \<Rightarrow> None)
   }"

subsection \<open>What the priority updates leave alone\<close>

lemma best_of_Cons: "best_of p (q # ps) = best_of (if q < p then q else p) ps"
  by (simp add: best_of_def)

lemma best_of_le: "best_of p ps \<le> p" "q \<in> set ps \<Longrightarrow> best_of p ps \<le> q"
proof (induction ps arbitrary: p)
  case (Cons r ps)
  { case 1 show ?case using Cons(1) [of "if r < p then r else p"] by (auto simp: best_of_Cons split: if_splits) }
  { case 2 then show ?case using Cons [of "if r < p then r else p"] by (auto simp: best_of_Cons split: if_splits) }
qed (simp_all add: best_of_def)

lemma best_of_in: "best_of p ps = p \<or> best_of p ps \<in> set ps"
  by (induction ps arbitrary: p) (auto simp: best_of_Cons best_of_def split: if_splits)

text \<open>The view of the kernel that waiting depends on.\<close>

lemma BoostPriority_frame [simp]:
  "objs (BoostPriority t p k) = objs k" "rest (BoostPriority t p k) = rest k"
  "status (threads (BoostPriority t p k) u) = status (threads k u)"
  "wait_objects (threads (BoostPriority t p k) u) = wait_objects (threads k u)"
  "wakeup_callback (threads (BoostPriority t p k) u) = wakeup_callback (threads k u)"
  "held_mutexes (threads (BoostPriority t p k) u) = held_mutexes (threads k u)"
  "nominal_priority (threads (BoostPriority t p k) u) = nominal_priority (threads k u)"
  "th_static (threads (BoostPriority t p k) u) = th_static (threads k u)"
  "current_priority (threads (BoostPriority t p k) u) = (if u = t then p else current_priority (threads k u))"
  by (simp_all add: BoostPriority_def Let_def)

lemma UpdatePriority_frame [simp]:
  "objs (UpdatePriority t k) = objs k" "rest (UpdatePriority t k) = rest k"
  "status (threads (UpdatePriority t k) u) = status (threads k u)"
  "wait_objects (threads (UpdatePriority t k) u) = wait_objects (threads k u)"
  "wakeup_callback (threads (UpdatePriority t k) u) = wakeup_callback (threads k u)"
  "held_mutexes (threads (UpdatePriority t k) u) = held_mutexes (threads k u)"
  "nominal_priority (threads (UpdatePriority t k) u) = nominal_priority (threads k u)"
  "th_static (threads (UpdatePriority t k) u) = th_static (threads k u)"
  by (simp_all add: UpdatePriority_def)

lemma UpdatePriority_current:
  "current_priority (threads (UpdatePriority t k) u) =
    (if u = t then best_of (nominal_priority (threads k t)) (map (mutex_priority k) (held_mutexes (threads k t)))
     else current_priority (threads k u))"
  by (simp add: UpdatePriority_def)

lemma Mutex_UpdatePriority_frame [simp]:
  "waiting_threads (objs (Mutex_UpdatePriority m k) w) = waiting_threads (objs k w)"
  "hle_notifier (objs (Mutex_UpdatePriority m k) w) = hle_notifier (objs k w)"
  "rest (Mutex_UpdatePriority m k) = rest k"
  "status (threads (Mutex_UpdatePriority m k) u) = status (threads k u)"
  "wait_objects (threads (Mutex_UpdatePriority m k) u) = wait_objects (threads k u)"
  "wakeup_callback (threads (Mutex_UpdatePriority m k) u) = wakeup_callback (threads k u)"
  "held_mutexes (threads (Mutex_UpdatePriority m k) u) = held_mutexes (threads k u)"
  "nominal_priority (threads (Mutex_UpdatePriority m k) u) = nominal_priority (threads k u)"
  "th_static (threads (Mutex_UpdatePriority m k) u) = th_static (threads k u)"
  by (simp_all add: Mutex_UpdatePriority_def Let_def split: ObjectKind.split option.split)

text \<open>Kinds up to the inherited priority of a mutex.\<close>

fun core_kind :: "ObjectKind \<Rightarrow> ObjectKind" where
  "core_kind (K_Mutex mx) = K_Mutex (mx\<lparr>mtx_priority := 0\<rparr>)"
| "core_kind kd = kd"

lemma Mutex_UpdatePriority_core [simp]: "core_kind (kind (objs (Mutex_UpdatePriority m k) w)) = core_kind (kind (objs k w))"
  by (simp add: Mutex_UpdatePriority_def Let_def split: ObjectKind.split option.split)

lemma mutex_core_eq:
  fixes mx mx' :: Mutex
  shows "mx\<lparr>mtx_priority := 0\<rparr> = mx'\<lparr>mtx_priority := 0\<rparr> \<longleftrightarrow>
    lock_count mx = lock_count mx' \<and> holding_thread mx = holding_thread mx'"
  by (cases mx; cases mx') auto

lemma ShouldWait_cong:
  assumes "core_kind (kind (objs k' w)) = core_kind (kind (objs k w))" "status (threads k' w) = status (threads k w)"
  shows "ShouldWait w u k' = ShouldWait w u k"
  using assms by (auto simp: ShouldWait_def mutex_core_eq split: ObjectKind.splits)

lemma RemoveWaitingThread_frame [simp]:
  "waiting_threads (objs (RemoveWaitingThread ob t k) w) =
    (if w = ob then remove1 t (waiting_threads (objs k w)) else waiting_threads (objs k w))"
  "hle_notifier (objs (RemoveWaitingThread ob t k) w) = hle_notifier (objs k w)"
  "rest (RemoveWaitingThread ob t k) = rest k"
  "core_kind (kind (objs (RemoveWaitingThread ob t k) w)) = core_kind (kind (objs k w))"
  "status (threads (RemoveWaitingThread ob t k) u) = status (threads k u)"
  "wait_objects (threads (RemoveWaitingThread ob t k) u) = wait_objects (threads k u)"
  "wakeup_callback (threads (RemoveWaitingThread ob t k) u) = wakeup_callback (threads k u)"
  "held_mutexes (threads (RemoveWaitingThread ob t k) u) = held_mutexes (threads k u)"
  "nominal_priority (threads (RemoveWaitingThread ob t k) u) = nominal_priority (threads k u)"
  "th_static (threads (RemoveWaitingThread ob t k) u) = th_static (threads k u)"
  by (simp_all add: RemoveWaitingThread_def WaitObject_RemoveWaitingThread_def)

lemma AddWaitingThread_frame [simp]:
  "waiting_threads (objs (AddWaitingThread ob t k) w) =
    (if w = ob \<and> t \<notin> set (waiting_threads (objs k w)) then waiting_threads (objs k w) @ [t]
     else waiting_threads (objs k w))"
  "hle_notifier (objs (AddWaitingThread ob t k) w) = hle_notifier (objs k w)"
  "rest (AddWaitingThread ob t k) = rest k"
  "core_kind (kind (objs (AddWaitingThread ob t k) w)) = core_kind (kind (objs k w))"
  "status (threads (AddWaitingThread ob t k) u) = status (threads k u)"
  "wait_objects (threads (AddWaitingThread ob t k) u) = wait_objects (threads k u)"
  "wakeup_callback (threads (AddWaitingThread ob t k) u) = wakeup_callback (threads k u)"
  "held_mutexes (threads (AddWaitingThread ob t k) u) = held_mutexes (threads k u)"
  "nominal_priority (threads (AddWaitingThread ob t k) u) = nominal_priority (threads k u)"
  "th_static (threads (AddWaitingThread ob t k) u) = th_static (threads k u)"
  by (simp_all add: AddWaitingThread_def WaitObject_AddWaitingThread_def)

subsection \<open>Acquire\<close>

lemmas acquire_defs = Acquire_def Event_Acquire_def Semaphore_Acquire_def Mutex_Acquire_def Timer_Acquire_def Thread_Acquire_def

lemma Acquire_total: "\<not> ShouldWait ob t k \<Longrightarrow> \<exists>k'. Acquire ob t k = Some k'"
  by (cases "kind (objs k ob)") (simp_all add: acquire_defs)

text \<open>\<open>wait_frame k k'\<close>: nobody entered or left a waiting state and no nominal priority changed.\<close>

definition wait_frame :: "Kernel \<Rightarrow> Kernel \<Rightarrow> bool" where
  "wait_frame k k' \<longleftrightarrow>
     (\<forall>w. waiting_threads (objs k' w) = waiting_threads (objs k w) \<and> hle_notifier (objs k' w) = hle_notifier (objs k w)) \<and>
     (\<forall>u. status (threads k' u) = status (threads k u) \<and> wait_objects (threads k' u) = wait_objects (threads k u) \<and>
       wakeup_callback (threads k' u) = wakeup_callback (threads k u) \<and>
       nominal_priority (threads k' u) = nominal_priority (threads k u) \<and> th_static (threads k' u) = th_static (threads k u)) \<and>
     rest k' = rest k"

lemma wait_frame_refl [simp]: "wait_frame k k"
  by (simp add: wait_frame_def)

lemma wait_frame_trans: "wait_frame k k1 \<Longrightarrow> wait_frame k1 k2 \<Longrightarrow> wait_frame k k2"
  by (simp add: wait_frame_def)

lemma wait_frameD:
  assumes "wait_frame k k'"
  shows "waiting_threads (objs k' w) = waiting_threads (objs k w)" "hle_notifier (objs k' w) = hle_notifier (objs k w)"
    "status (threads k' u) = status (threads k u)" "wait_objects (threads k' u) = wait_objects (threads k u)"
    "wakeup_callback (threads k' u) = wakeup_callback (threads k u)"
    "nominal_priority (threads k' u) = nominal_priority (threads k u)" "rest k' = rest k"
    "th_static (threads k' u) = th_static (threads k u)"
  using assms by (simp_all add: wait_frame_def)

lemma Acquire_frame: "Acquire ob t k = Some k' \<Longrightarrow> wait_frame k k'"
  unfolding wait_frame_def by (auto simp: acquire_defs Let_def split: ObjectKind.splits if_splits)

lemma Acquire_kind: "Acquire ob t k = Some k' \<Longrightarrow> w \<noteq> ob \<Longrightarrow> kind (objs k' w) = kind (objs k w)"
  by (auto simp: acquire_defs Let_def split: ObjectKind.splits if_splits)

lemma ShouldWait_Acquire_other:
  "Acquire ob t k = Some k' \<Longrightarrow> w \<noteq> ob \<Longrightarrow> ShouldWait w u k' = ShouldWait w u k"
  by (rule ShouldWait_cong) (simp_all add: Acquire_kind wait_frameD [OF Acquire_frame])

lemma acquire_all_total:
  assumes "distinct ws" "list_all (\<lambda>w. \<not> ShouldWait w t k) ws"
  shows "\<exists>k'. for_each (\<lambda>w. Acquire w t) ws k = Some k'"
  using assms
proof (induction ws arbitrary: k)
  case (Cons w ws)
  obtain k1 where k1: "Acquire w t k = Some k1" using Acquire_total [of w t k] Cons.prems by auto
  have "ShouldWait v t k1 = ShouldWait v t k" if "v \<in> set ws" for v
    using that Cons.prems by (intro ShouldWait_Acquire_other [OF k1]) auto
  then have "list_all (\<lambda>w. \<not> ShouldWait w t k1) ws" using Cons.prems by (simp add: list_all_iff)
  with Cons k1 show ?case by auto
qed simp

lemma acquire_all_frame: "for_each (\<lambda>w. Acquire w t) ws k = Some k' \<Longrightarrow> wait_frame k k'"
  by (induction ws arbitrary: k) (auto simp: bind_eq_Some_iff dest: Acquire_frame intro: wait_frame_trans)

lemma acquire_all_kind:
  "for_each (\<lambda>w. Acquire w t) ws k = Some k' \<Longrightarrow> w \<notin> set ws \<Longrightarrow> kind (objs k' w) = kind (objs k w)"
  by (induction ws arbitrary: k) (auto simp: bind_eq_Some_iff Acquire_kind)

lemma SetWait_frame:
  "wait_frame k (SetWaitSynchronizationResult t r k)" "wait_frame k (SetWaitSynchronizationOutput t i k)"
  by (simp_all add: wait_frame_def SetWaitSynchronizationResult_def SetWaitSynchronizationOutput_def)

lemma SyncCallback_signal:
  assumes "wait_objects (threads k t) \<noteq> []"
  obtains k' where "SyncCallback_WakeUp b WR_Signal t (Some ob) k = Some k'" "wait_frame k k'" "objs k' = objs k"
    "\<forall>u. current_priority (threads k' u) = current_priority (threads k u) \<and>
      held_mutexes (threads k' u) = held_mutexes (threads k u)"
proof -
  let ?k1 = "SetWaitSynchronizationResult t ResultSuccess k"
  have f: "wait_frame k ?k1" "objs ?k1 = objs k" "wait_objects (threads ?k1 t) = wait_objects (threads k t)"
    by (simp_all add: SetWait_frame) (simp_all add: SetWaitSynchronizationResult_def)
  have "\<exists>k'. SyncCallback_WakeUp b WR_Signal t (Some ob) k = Some k' \<and> wait_frame k k' \<and> objs k' = objs k \<and>
      (\<forall>u. current_priority (threads k' u) = current_priority (threads k u) \<and>
        held_mutexes (threads k' u) = held_mutexes (threads k u))"
  proof (cases b)
    case True
    let ?k2 = "SetWaitSynchronizationOutput t (last_index ob (wait_objects (threads k t))) ?k1"
    have "SyncCallback_WakeUp b WR_Signal t (Some ob) k = Some ?k2"
      using True assms f(3) by (simp add: SyncCallback_WakeUp_def GetWaitObjectIndex_def Let_def)
    moreover have "wait_frame k ?k2" using wait_frame_trans [OF f(1) SetWait_frame(2)] .
    ultimately show ?thesis
      by (auto simp: SetWaitSynchronizationOutput_def SetWaitSynchronizationResult_def)
  next
    case False
    then show ?thesis using f by (auto simp: SyncCallback_WakeUp_def SetWaitSynchronizationResult_def)
  qed
  with that show thesis by blast
qed

end
