(* ===== verification/Address_Arbiter.thy ===== *)
theory Address_Arbiter
  imports Wakeup
begin

text \<open>
  The address arbiter, \<^verbatim>\<open>src/core/hle/kernel/address_arbiter.cpp\<close>.  The guest memory it reads is
  not part of the sources: \<open>read32\<close> gives the word at an address after the calls made so far,
  and writes are among these calls.

  Shown: a signal wakes the best waiters of the address in order of priority and arrival, as
  many as asked for (all for a negative count), and the waiting list keeps exactly the others.
\<close>

subsection \<open>Model\<close>

definition ArbitrationType_Signal :: u32 where "ArbitrationType_Signal = 0"
definition ArbitrationType_WaitIfLessThan :: u32 where "ArbitrationType_WaitIfLessThan = 1"
definition ArbitrationType_DecrementAndWaitIfLessThan :: u32 where "ArbitrationType_DecrementAndWaitIfLessThan = 2"
definition ArbitrationType_WaitIfLessThanWithTimeout :: u32 where "ArbitrationType_WaitIfLessThanWithTimeout = 3"
definition ArbitrationType_DecrementAndWaitIfLessThanWithTimeout :: u32 where
  "ArbitrationType_DecrementAndWaitIfLessThanWithTimeout = 4"

lemmas arbitration_types = ArbitrationType_Signal_def ArbitrationType_WaitIfLessThan_def
  ArbitrationType_DecrementAndWaitIfLessThan_def ArbitrationType_WaitIfLessThanWithTimeout_def
  ArbitrationType_DecrementAndWaitIfLessThanWithTimeout_def

definition WaitThread :: "oid \<Rightarrow> oid \<Rightarrow> VAddr \<Rightarrow> Kernel \<Rightarrow> Kernel" where
  "WaitThread a t addr k = upd_arbiter a (\<lambda>ts. ts @ [t])
     (upd_thread t (\<lambda>th. th\<lparr>wait_address := addr, status := WaitArb\<rparr>) k)"

text \<open>The stable partition: first the threads that wait elsewhere, then those that match.\<close>

definition arb_partition :: "oid \<Rightarrow> VAddr \<Rightarrow> Kernel \<Rightarrow> (oid list \<times> oid list) option" where
  "arb_partition a addr k = do {
     _ \<leftarrow> ASSERT (list_all (\<lambda>t. status (threads k t) = WaitArb) (arbiters k a));
     Some (filter (\<lambda>t. wait_address (threads k t) \<noteq> addr) (arbiters k a),
           filter (\<lambda>t. wait_address (threads k t) = addr) (arbiters k a))
   }"

definition ResumeAllThreads :: "oid \<Rightarrow> VAddr \<Rightarrow> Kernel \<Rightarrow> (nat \<times> Kernel) option" where
  "ResumeAllThreads a addr k = do {
     (others, matching) \<leftarrow> arb_partition a addr k;
     k1 \<leftarrow> for_each ResumeFromWait matching k;
     Some (length matching, upd_arbiter a (\<lambda>_. others) k1)
   }"

fun min_element :: "(oid \<Rightarrow> u32) \<Rightarrow> oid \<Rightarrow> oid list \<Rightarrow> oid" where
  "min_element pr best [] = best"
| "min_element pr best (t # ts) = min_element pr (if pr t < pr best then t else best) ts"

definition ResumeHighestPriorityThread :: "oid \<Rightarrow> VAddr \<Rightarrow> Kernel \<Rightarrow> (bool \<times> Kernel) option" where
  "ResumeHighestPriorityThread a addr k = do {
     (others, matching) \<leftarrow> arb_partition a addr k;
     let k0 = upd_arbiter a (\<lambda>_. others @ matching) k;
     (case matching of
        [] \<Rightarrow> Some (False, k0)
      | m # ms \<Rightarrow> do {
          let t = min_element (\<lambda>u. current_priority (threads k u)) m ms;
          k1 \<leftarrow> ResumeFromWait t k0;
          Some (True, upd_arbiter a (\<lambda>_. others @ remove1 t matching) k1)
        })
   }"

fun resume_n :: "nat \<Rightarrow> oid \<Rightarrow> VAddr \<Rightarrow> Kernel \<Rightarrow> (nat \<times> Kernel) option" where
  "resume_n 0 a addr k = Some (0, k)"
| "resume_n (Suc n) a addr k = do {
     (r, k1) \<leftarrow> ResumeHighestPriorityThread a addr k;
     (c, k2) \<leftarrow> resume_n n a addr k1;
     Some ((if r then 1 else 0) + c, k2)
   }"

definition arbitrate_signal :: "oid \<Rightarrow> oid \<Rightarrow> VAddr \<Rightarrow> int \<Rightarrow> Kernel \<Rightarrow> Kernel option" where
  "arbitrate_signal a t addr val k = do {
     (num_threads, k1) \<leftarrow> (if val < 0 then ResumeAllThreads a addr k else resume_n (nat val) a addr k);
     Some (if num_threads = 0 \<and> current_priority (threads k1 t) \<ge> 49 then do_call (AddTicks 1614) k1 else k1)
   }"

definition arbitrate_wait :: "oid \<Rightarrow> oid \<Rightarrow> VAddr \<Rightarrow> int \<Rightarrow> bool \<Rightarrow> int option \<Rightarrow> Kernel \<Rightarrow> Kernel option" where
  "arbitrate_wait a t addr mem decrement timeout k = do {
     k1 \<leftarrow> (if decrement then do { v \<leftarrow> s32_arith (mem - 1); Some (do_call (Write32 addr (word_of_int v)) k) } else Some k);
     let k2 = (case timeout of
                 None \<Rightarrow> k1
               | Some ns \<Rightarrow> WakeAfterDelay t ns
                   (upd_thread t (\<lambda>th. th\<lparr>wakeup_callback := Some (ArbiterCallback a)\<rparr>) k1));
     Some (WaitThread a t addr k2)
   }"

definition ArbitrateAddress ::
  "(Call list \<Rightarrow> VAddr \<Rightarrow> u32) \<Rightarrow> oid \<Rightarrow> oid \<Rightarrow> u32 \<Rightarrow> VAddr \<Rightarrow> int \<Rightarrow> u64 \<Rightarrow> Kernel \<Rightarrow> (Result \<times> Kernel) option" where
  "ArbitrateAddress read32 a t type addr val nanoseconds k =
     (let mem = sint (read32 (calls k) addr);
          wait_if_less = (\<lambda>decrement timeout. if mem < val then arbitrate_wait a t addr mem decrement timeout k else Some k);
          ns = sint nanoseconds
      in if type = ArbitrationType_Signal then do { k1 \<leftarrow> arbitrate_signal a t addr val k; Some (ResultSuccess, k1) }
         else if type = ArbitrationType_WaitIfLessThan then do { k1 \<leftarrow> wait_if_less False None; Some (ResultSuccess, k1) }
         else if type = ArbitrationType_WaitIfLessThanWithTimeout then
           do { k1 \<leftarrow> wait_if_less False (Some ns); Some (ResultTimeout, k1) }
         else if type = ArbitrationType_DecrementAndWaitIfLessThan then
           do { k1 \<leftarrow> wait_if_less True None; Some (ResultSuccess, k1) }
         else if type = ArbitrationType_DecrementAndWaitIfLessThanWithTimeout then
           do { k1 \<leftarrow> wait_if_less True (Some ns); Some (ResultTimeout, k1) }
         else Some (ResultInvalidEnumValueFnd, k))"

subsection \<open>Signalling\<close>

text \<open>A thread in an arbiter's list waits for that arbiter and nothing else, and is in it once.\<close>

definition arb_inv :: "Kernel \<Rightarrow> bool" where
  "arb_inv k \<longleftrightarrow> (\<forall>a. distinct (arbiters k a)) \<and>
     (\<forall>a t. t \<in> set (arbiters k a) \<longrightarrow> status (threads k t) = WaitArb \<and> wait_objects (threads k t) = []) \<and>
     (\<forall>a b t. t \<in> set (arbiters k a) \<and> t \<in> set (arbiters k b) \<longrightarrow> a = b)"

definition matching :: "oid \<Rightarrow> VAddr \<Rightarrow> Kernel \<Rightarrow> oid list" where
  "matching a addr k = filter (\<lambda>t. wait_address (threads k t) = addr) (arbiters k a)"

definition others :: "oid \<Rightarrow> VAddr \<Rightarrow> Kernel \<Rightarrow> oid list" where
  "others a addr k = filter (\<lambda>t. wait_address (threads k t) \<noteq> addr) (arbiters k a)"

text \<open>\<open>arb_woken a ts k k'\<close>: the threads \<open>ts\<close> of the arbiter are ready, the rest is as it was.\<close>

definition arb_woken :: "oid \<Rightarrow> oid list \<Rightarrow> Kernel \<Rightarrow> Kernel \<Rightarrow> bool" where
  "arb_woken a ts k k' \<longleftrightarrow> arb_inv k' \<and> objs k' = objs k \<and> set ts \<subseteq> set (arbiters k a) \<and> distinct ts \<and>
     threads k' = (\<lambda>u. if u \<in> set ts then (threads k u)\<lparr>wakeup_callback := None, status := Ready\<rparr> else threads k u) \<and>
     (\<forall>b. b \<noteq> a \<longrightarrow> arbiters k' b = arbiters k b) \<and>
     set (arbiters k' a) = set (arbiters k a) - set ts \<and>
     (\<forall>addr. matching a addr k' = filter (\<lambda>u. u \<notin> set ts) (matching a addr k))"

lemma arb_invD:
  assumes "arb_inv k"
  shows "distinct (arbiters k a)" "t \<in> set (arbiters k a) \<Longrightarrow> status (threads k t) = WaitArb"
    "t \<in> set (arbiters k a) \<Longrightarrow> wait_objects (threads k t) = []"
    "t \<in> set (arbiters k a) \<Longrightarrow> t \<in> set (arbiters k b) \<Longrightarrow> a = b"
  using assms unfolding arb_inv_def by blast+

lemma min_element_in: "min_element pr m ms \<in> set (m # ms)"
  by (induction ms arbitrary: m) auto

lemma min_element_first_best:
  "Some (min_element pr m ms) = first_best pr (m # ms)"
  by (induction ms arbitrary: m) (auto split: option.splits)

lemma insort_key_least: "\<forall>y \<in> set ys. pr t \<le> pr y \<Longrightarrow> insort_key pr t ys = t # ys"
  by (cases ys) auto

lemma sort_key_first:
  "\<forall>y \<in> set ys. pr t < pr y \<Longrightarrow> \<forall>z \<in> set zs. pr t \<le> pr z \<Longrightarrow> sort_key pr (ys @ t # zs) = t # sort_key pr (ys @ zs)"
  by (induction ys) (auto simp: insort_key_least)

lemma min_element_sort:
  fixes m :: oid
  assumes "distinct (m # ms)"
  shows "sort_key pr (m # ms) = min_element pr m ms # sort_key pr (remove1 (min_element pr m ms) (m # ms))"
proof -
  let ?t = "min_element pr m ms"
  obtain ys zs where s: "m # ms = ys @ ?t # zs" "\<forall>y \<in> set ys. pr ?t < pr y" "\<forall>z \<in> set zs. pr ?t \<le> pr z"
    using first_best_Some [OF min_element_first_best [symmetric]] by metis
  have "?t \<notin> set ys" using s(2) by auto
  then have "remove1 ?t (m # ms) = ys @ zs" unfolding s(1) by (simp add: remove1_append)
  then show ?thesis unfolding s(1) [symmetric] using sort_key_first [OF s(2,3)] s(1) by simp
qed

lemma arb_partition_ok: "arb_inv k \<Longrightarrow> arb_partition a addr k = Some (others a addr k, matching a addr k)"
  by (simp add: arb_partition_def others_def matching_def list_all_iff arb_invD)

lemma arb_woken_refl: "arb_inv k \<Longrightarrow> arb_woken a [] k k"
  by (simp add: arb_woken_def)

text \<open>Waking one thread of the list and taking it out, whatever the order of the rest.\<close>

lemma arb_wake_one:
  assumes inv: "arb_inv k" and t: "t \<in> set (arbiters k a)"
    and k': "objs k' = objs k" "threads k' = (threads k)(t := (threads k t)\<lparr>wakeup_callback := None, status := Ready\<rparr>)"
      "\<And>b. arbiters k' b = (if b = a then xs else arbiters k b)"
    and xs: "distinct xs" "set xs = set (arbiters k a) - {t}"
      "\<And>addr. filter (\<lambda>u. wait_address (threads k u) = addr) xs =
         filter (\<lambda>u. u \<noteq> t) (filter (\<lambda>u. wait_address (threads k u) = addr) (arbiters k a))"
  shows "arb_woken a [t] k k'"
proof -
  have sub: "set (arbiters k' b) = set (arbiters k b) - {t}" for b
    using arb_invD(4) [OF inv t, of b] xs(2) by (auto simp: k'(3))
  have "distinct (arbiters k' b)" for b using xs(1) arb_invD(1) [OF inv] by (simp add: k'(3))
  then have "arb_inv k'"
    unfolding arb_inv_def sub using arb_invD(2-4) [OF inv] by (auto simp: k'(2))
  moreover have "matching a addr k' = filter (\<lambda>u. u \<notin> set [t]) (matching a addr k)" for addr
  proof -
    have "matching a addr k' = filter (\<lambda>u. wait_address (threads k u) = addr) xs"
      unfolding matching_def k' by (rule filter_cong) auto
    then show ?thesis by (simp add: xs(3) matching_def)
  qed
  ultimately show ?thesis
    unfolding arb_woken_def using t xs(2) by (auto simp: k')
qed

lemma arb_woken_trans:
  assumes "arb_woken a ts k k1" "arb_woken a us k1 k2"
  shows "arb_woken a (ts @ us) k k2"
proof -
  have "threads k2 = (\<lambda>u. if u \<in> set (ts @ us) then (threads k u)\<lparr>wakeup_callback := None, status := Ready\<rparr> else threads k u)"
  proof
    fix u
    show "threads k2 u = (if u \<in> set (ts @ us) then (threads k u)\<lparr>wakeup_callback := None, status := Ready\<rparr> else threads k u)"
      using assms by (cases "u \<in> set ts"; cases "u \<in> set us") (auto simp: arb_woken_def)
  qed
  moreover have "matching a addr k2 = filter (\<lambda>u. u \<notin> set (ts @ us)) (matching a addr k)" for addr
    using assms by (auto simp: arb_woken_def intro: filter_cong)
  ultimately show ?thesis using assms unfolding arb_woken_def by auto
qed

lemma ResumeHighest_ok:
  assumes "arb_inv k"
  shows "case matching a addr k of
      [] \<Rightarrow> \<exists>k'. ResumeHighestPriorityThread a addr k = Some (False, k') \<and> arb_woken a [] k k'
    | m # ms \<Rightarrow> \<exists>k'. ResumeHighestPriorityThread a addr k = Some (True, k') \<and>
        arb_woken a [min_element (\<lambda>u. current_priority (threads k u)) m ms] k k'"
proof (cases "matching a addr k")
  case Nil
  then have n: "wait_address (threads k u) \<noteq> addr" if "u \<in> set (arbiters k a)" for u
    using that by (auto simp: matching_def filter_empty_conv)
  then have "others a addr k = arbiters k a" by (simp add: others_def)
  then have "ResumeHighestPriorityThread a addr k = Some (False, upd_arbiter a (\<lambda>_. arbiters k a) k)"
    using Nil by (simp add: ResumeHighestPriorityThread_def arb_partition_ok [OF assms])
  moreover have "upd_arbiter a (\<lambda>_. arbiters k a) k = k" by (simp add: upd_arbiter_def)
  ultimately show ?thesis using Nil arb_woken_refl [OF assms] by simp
next
  case (Cons m ms)
  let ?t = "min_element (\<lambda>u. current_priority (threads k u)) m ms"
  let ?k0 = "upd_arbiter a (\<lambda>_. others a addr k @ matching a addr k) k"
  let ?xs = "others a addr k @ remove1 ?t (matching a addr k)"
  have tm: "?t \<in> set (matching a addr k)"
    unfolding Cons by (rule min_element_in)
  then have t: "?t \<in> set (arbiters k a)" "wait_address (threads k ?t) = addr" by (auto simp: matching_def)
  obtain k1 where k1: "ResumeFromWait ?t ?k0 = Some k1" "objs k1 = objs ?k0" "rest k1 = rest ?k0"
    "threads k1 = (threads ?k0)(?t := (threads ?k0 ?t)\<lparr>wakeup_callback := None, status := Ready\<rparr>)"
    by (rule ResumeFromWait_ok [of ?k0 ?t]) (use arb_invD(2,3) [OF assms t(1)] in auto)
  let ?k' = "upd_arbiter a (\<lambda>_. ?xs) k1"
  have r: "ResumeHighestPriorityThread a addr k = Some (True, ?k')"
    using k1(1) Cons by (simp add: ResumeHighestPriorityThread_def arb_partition_ok [OF assms] Let_def)
  have dm: "distinct (matching a addr k)" using arb_invD(1) [OF assms] by (simp add: matching_def)
  then have rm: "remove1 ?t (matching a addr k) = filter (\<lambda>u. u \<noteq> ?t) (matching a addr k)"
    by (simp add: distinct_remove1_removeAll removeAll_filter_not_eq) metis
  have "arb_woken a [?t] k ?k'"
  proof (rule arb_wake_one [OF assms t(1), of _ ?xs])
    show "distinct ?xs" using arb_invD(1) [OF assms, of a] dm unfolding rm by (auto simp: others_def matching_def)
    show "set ?xs = set (arbiters k a) - {?t}" unfolding rm using t(2) by (auto simp: others_def matching_def)
    show "filter (\<lambda>u. wait_address (threads k u) = adr) ?xs =
         filter (\<lambda>u. u \<noteq> ?t) (filter (\<lambda>u. wait_address (threads k u) = adr) (arbiters k a))" for adr
    proof (cases "adr = addr")
      case True
      then show ?thesis unfolding rm by (auto simp: others_def matching_def intro: filter_cong)
    next
      case False
      then show ?thesis unfolding rm using t(2) by (auto simp: others_def matching_def intro: filter_cong)
    qed
  qed (simp_all add: k1 restD(1) [OF k1(3)])
  then show ?thesis using r Cons by auto
qed

text \<open>The threads a signal for \<open>n\<close> threads wakes.\<close>

definition arb_order :: "oid \<Rightarrow> VAddr \<Rightarrow> Kernel \<Rightarrow> oid list" where
  "arb_order a addr k = sort_key (\<lambda>u. current_priority (threads k u)) (matching a addr k)"

lemma resume_n_ok:
  assumes "arb_inv k"
  shows "\<exists>k'. resume_n n a addr k = Some (min n (length (matching a addr k)), k') \<and>
    arb_woken a (take n (arb_order a addr k)) k k'"
  using assms
proof (induction n arbitrary: k)
  case 0
  then show ?case by (simp add: arb_woken_refl)
next
  case (Suc n)
  have dm: "distinct (matching a addr k)" using arb_invD(1) [OF Suc.prems] by (simp add: matching_def)
  show ?case
  proof (cases "matching a addr k")
    case Nil
    then obtain k1 where k1: "ResumeHighestPriorityThread a addr k = Some (False, k1)" "arb_woken a [] k k1"
      using ResumeHighest_ok [OF Suc.prems, of a addr] by auto
    have "arb_inv k1" "matching a addr k1 = []" using k1(2) Nil by (auto simp: arb_woken_def)
    then obtain k2 where "resume_n n a addr k1 = Some (0, k2)" "arb_woken a [] k1 k2"
      using Suc.IH [of k1] by (auto simp: arb_order_def)
    then show ?thesis using k1 Nil arb_woken_trans [OF k1(2)] by (auto simp: arb_order_def)
  next
    case (Cons m ms)
    let ?pr = "\<lambda>u. current_priority (threads k u)"
    let ?t = "min_element ?pr m ms"
    obtain k1 where k1: "ResumeHighestPriorityThread a addr k = Some (True, k1)" "arb_woken a [?t] k k1"
      using ResumeHighest_ok [OF Suc.prems, of a addr] Cons by auto
    have m1: "matching a addr k1 = remove1 ?t (matching a addr k)"
      using k1(2) dm by (simp add: arb_woken_def distinct_remove1_removeAll removeAll_filter_not_eq) metis
    have "arb_inv k1" using k1(2) by (simp add: arb_woken_def)
    from Suc.IH [OF this] obtain k2 where k2: "resume_n n a addr k1 = Some (min n (length (matching a addr k1)), k2)"
      "arb_woken a (take n (arb_order a addr k1)) k1 k2" by blast
    have pr: "(\<lambda>u. current_priority (threads k1 u)) = ?pr" using k1(2) by (auto simp: arb_woken_def)
    have "arb_order a addr k = ?t # arb_order a addr k1"
      unfolding arb_order_def pr m1 Cons by (rule min_element_sort) (use dm Cons in simp)
    then have "arb_woken a (take (Suc n) (arb_order a addr k)) k k2"
      using arb_woken_trans [OF k1(2) k2(2)] by simp
    moreover have "?t \<in> set (matching a addr k)"
      unfolding Cons by (rule min_element_in)
    then have "Suc (length (matching a addr k1)) = length (matching a addr k)"
      unfolding m1 by (simp add: length_remove1) (metis Suc_pred length_pos_if_in_set)
    ultimately show ?thesis using k1(1) k2(1) by auto
  qed
qed

lemma resume_all_threads:
  assumes "distinct ts" "\<forall>t \<in> set ts. status (threads k t) = WaitArb \<and> wait_objects (threads k t) = []"
  shows "\<exists>k'. for_each ResumeFromWait ts k = Some k' \<and> objs k' = objs k \<and> arbiters k' = arbiters k \<and>
    threads k' = (\<lambda>u. if u \<in> set ts then (threads k u)\<lparr>wakeup_callback := None, status := Ready\<rparr> else threads k u)"
  using assms
proof (induction ts arbitrary: k)
  case (Cons t ts)
  obtain k1 where k1: "ResumeFromWait t k = Some k1" "objs k1 = objs k" "rest k1 = rest k"
    "threads k1 = (threads k)(t := (threads k t)\<lparr>wakeup_callback := None, status := Ready\<rparr>)"
    by (rule ResumeFromWait_ok [of k t]) (use Cons.prems in auto)
  have "\<forall>u \<in> set ts. status (threads k1 u) = WaitArb \<and> wait_objects (threads k1 u) = []"
    using Cons.prems by (auto simp: k1(4))
  with Cons.IH [of k1] Cons.prems obtain k' where k': "for_each ResumeFromWait ts k1 = Some k'" "objs k' = objs k1"
    "arbiters k' = arbiters k1"
    "threads k' = (\<lambda>u. if u \<in> set ts then (threads k1 u)\<lparr>wakeup_callback := None, status := Ready\<rparr> else threads k1 u)"
    by auto
  have "threads k' = (\<lambda>u. if u \<in> set (t # ts) then (threads k u)\<lparr>wakeup_callback := None, status := Ready\<rparr> else threads k u)"
    unfolding k'(4) k1(4) using Cons.prems(1) by (auto simp: fun_eq_iff)
  then show ?case using k1 k' restD(1) [OF k1(3)] by simp
qed simp

lemma ResumeAllThreads_ok:
  assumes "arb_inv k"
  shows "\<exists>k'. ResumeAllThreads a addr k = Some (length (matching a addr k), k') \<and> arb_woken a (matching a addr k) k k'"
proof -
  let ?ts = "matching a addr k"
  have d: "distinct ?ts" and sub: "set ?ts \<subseteq> set (arbiters k a)" using arb_invD(1) [OF assms] by (auto simp: matching_def)
  obtain k1 where k1: "for_each ResumeFromWait ?ts k = Some k1" "objs k1 = objs k" "arbiters k1 = arbiters k"
    "threads k1 = (\<lambda>u. if u \<in> set ?ts then (threads k u)\<lparr>wakeup_callback := None, status := Ready\<rparr> else threads k u)"
    using resume_all_threads [OF d, of k] sub arb_invD(2,3) [OF assms] by blast
  let ?k' = "upd_arbiter a (\<lambda>_. others a addr k) k1"
  have arb: "set (arbiters ?k' b) = set (arbiters k b) - set ?ts" for b
    using arb_invD(4) [OF assms, of _ a b] by (auto simp: k1(3) others_def matching_def)
  have "distinct (arbiters ?k' b)" for b
    using arb_invD(1) [OF assms] by (simp add: k1(3) others_def)
  then have "arb_inv ?k'" unfolding arb_inv_def arb using arb_invD(2-4) [OF assms] by (auto simp: k1(4))
  moreover have "matching a adr ?k' = filter (\<lambda>u. u \<notin> set ?ts) (matching a adr k)" for adr
    unfolding matching_def by (auto simp: k1(4) others_def matching_def intro: filter_cong)
  ultimately have "arb_woken a ?ts k ?k'"
    unfolding arb_woken_def using d sub arb [of a] by (auto simp: k1)
  then show ?thesis using k1(1) by (simp add: ResumeAllThreads_def arb_partition_ok [OF assms])
qed

lemma arb_woken_call: "arb_woken a ts k (do_call c k') = arb_woken a ts k k'"
  by (simp add: arb_woken_def arb_inv_def matching_def)

subsection \<open>Properties\<close>

text \<open>Signalling an address arbiter always succeeds.  A negative count wakes every thread that waits on the
  address, a count n the first n of them in order of priority and, among equal priorities, of arrival;
  these become Ready and leave the list, and all other waiters keep their order.\<close>
theorem arbiter_signal_effect:
  assumes "arb_inv k"
  shows "\<exists>k'. ArbitrateAddress read32 a t ArbitrationType_Signal addr val ns k = Some (ResultSuccess, k') \<and>
    arb_woken a (if val < 0 then matching a addr k else take (nat val) (arb_order a addr k)) k k'"
proof -
  obtain n k1 where k1: "(if val < 0 then ResumeAllThreads a addr k else resume_n (nat val) a addr k) = Some (n, k1)"
    "arb_woken a (if val < 0 then matching a addr k else take (nat val) (arb_order a addr k)) k k1"
    using ResumeAllThreads_ok [OF assms, of a addr] resume_n_ok [OF assms, of "nat val" a addr] by (cases "val < 0") auto
  then show ?thesis
    by (auto simp: ArbitrateAddress_def arbitrate_signal_def arb_woken_call)
qed

definition arb_kernel :: Kernel where
  "arb_kernel = (ex_kernel [] K_Thread)\<lparr>
     arbiters := (\<lambda>a. if a = 7 then [4, 5] else []),
     threads := (\<lambda>u. if u = 4 then ex_thread 30 WaitArb [] [] else if u = 5 then ex_thread 25 WaitArb [] []
       else ex_thread 48 Running [] [])\<rparr>"

lemma arbiter_signal_effect_witness:
  "\<exists>k'. ArbitrateAddress (\<lambda>_ _. 0) 7 3 ArbitrationType_Signal 0 1 0 arb_kernel = Some (ResultSuccess, k') \<and>
    status (threads k' 5) = Ready \<and> status (threads k' 4) = WaitArb"
proof -
  have inv: "arb_inv arb_kernel" by (auto simp: arb_inv_def arb_kernel_def ex_thread_def)
  have "matching 7 0 arb_kernel = [4, 5]" by (simp add: matching_def arb_kernel_def ex_thread_def)
  then have "arb_order 7 0 arb_kernel = [5, 4]" by (simp add: arb_order_def arb_kernel_def ex_thread_def)
  then show ?thesis
    using arbiter_signal_effect [OF inv, of "\<lambda>_ _. 0" 7 3 0 1 0]
    by (auto simp: arb_woken_def arb_kernel_def ex_thread_def)
qed

end
