(* ===== verification/Threads.thy ===== *)
theory Threads
  imports Wakeup
begin

text \<open>
  Threads and their managers, \<^verbatim>\<open>src/core/hle/kernel/thread.cpp\<close>: stopping a thread, the wakeup
  callback of the timing system, the choice of the next thread and the context switch, and
  the time limiter of core 1.

  The environment gives what the code outside the sources answers: the pops of the ready
  queue and the tick counter as functions of the calls made so far, the layout of the
  thread-local storage, and the limiter's share of a tick (a product in floating point).
\<close>

record Env =
  rq_pop_first :: "nat \<Rightarrow> Call list \<Rightarrow> u32 \<times> oid option"
  rq_pop_first_better :: "nat \<Rightarrow> u32 \<Rightarrow> Call list \<Rightarrow> u32 \<times> oid option"
  get_ticks :: "Call list \<Rightarrow> u64"
  TLS_AREA_VADDR :: u32
  CITRA_PAGE_SIZE :: u32
  TLS_ENTRY_SIZE :: u32
  base_tick_interval :: int
  app_tick_share :: "int \<Rightarrow> int"

subsection \<open>Stopping threads\<close>

definition wakeup_key :: "oid \<Rightarrow> Kernel \<Rightarrow> u64" where
  "wakeup_key t k = ucast (thread_id (threads k t))"

definition free_tls :: "Env \<Rightarrow> oid \<Rightarrow> Kernel \<Rightarrow> Kernel option" where
  "free_tls env t k =
     (let offset = tls_address (threads k t) - TLS_AREA_VADDR env;
          tls_page = unat (offset div CITRA_PAGE_SIZE env);
          tls_slot = unat ((offset mod CITRA_PAGE_SIZE env) div TLS_ENTRY_SIZE env)
      in case owner_process (threads k t) of
           None \<Rightarrow> Some k
         | Some p \<Rightarrow> do {
             _ \<leftarrow> ASSERT (tls_page < length (tls_slots k p) \<and> tls_slot < length (tls_slots k p ! tls_page));
             let k1 = k\<lparr>tls_slots := (tls_slots k)(p := (tls_slots k p)[tls_page := (tls_slots k p ! tls_page)[tls_slot := False]])\<rparr>;
             (_, rl) \<leftarrow> Release (resource_limits k1 (process_limit k1 p)) RLT_Thread 1;
             Some (k1\<lparr>resource_limits := (resource_limits k1)(process_limit k1 p := rl)\<rparr>)
           })"

definition Thread_Stop :: "Env \<Rightarrow> oid \<Rightarrow> Kernel \<Rightarrow> Kernel option" where
  "Thread_Stop env t k = do {
     let th = threads k t;
     let k1 = do_call (UnscheduleEvent (ET_ThreadWakeup (core_id th)) (wakeup_key t k)) k;
     let k2 = upd_manager (core_id th) (\<lambda>tm. tm\<lparr>wakeup_callback_table := (wakeup_callback_table tm)(wakeup_key t k := None)\<rparr>) k1;
     let k3 = (if status th = Ready then do_call (RQ_remove (core_id th) (current_priority th) t) k2 else k2);
     k4 \<leftarrow> WaitObject_WakeupAllWaitingThreads t (upd_thread t (\<lambda>th. th\<lparr>status := Dead\<rparr>) k3);
     k5 \<leftarrow> ReleaseThreadMutexes t (leave_wait t k4);
     free_tls env t k5
   }"

definition WaitCurrentThread_Sleep :: "nat \<Rightarrow> Kernel \<Rightarrow> Kernel option" where
  "WaitCurrentThread_Sleep core k = do {
     t \<leftarrow> current_thread (managers k core);
     Some (upd_thread t (\<lambda>th. th\<lparr>status := WaitSleep\<rparr>) k)
   }"

definition ExitCurrentThread :: "Env \<Rightarrow> nat \<Rightarrow> Kernel \<Rightarrow> Kernel option" where
  "ExitCurrentThread env core k = do {
     t \<leftarrow> current_thread (managers k core);
     k1 \<leftarrow> Thread_Stop env t k;
     Some (do_call PrepareReschedule
       (upd_manager core (\<lambda>tm. tm\<lparr>thread_list := filter (\<lambda>u. u \<noteq> t) (thread_list tm)\<rparr>) k1))
   }"

fun terminate_loop :: "Env \<Rightarrow> nat \<Rightarrow> oid \<Rightarrow> oid list \<Rightarrow> oid list \<Rightarrow> Kernel \<Rightarrow> (oid list \<times> Kernel) option" where
  "terminate_loop env core process kept [] k = Some (kept, k)"
| "terminate_loop env core process kept (t # ts) k =
     (if current_thread (managers k core) = Some t \<or> owner_process (threads k t) \<noteq> Some process
      then terminate_loop env core process (kept @ [t]) ts k
      else do { k1 \<leftarrow> Thread_Stop env t k; terminate_loop env core process kept ts k1 })"

definition TerminateProcessThreads :: "Env \<Rightarrow> nat \<Rightarrow> oid \<Rightarrow> Kernel \<Rightarrow> Kernel option" where
  "TerminateProcessThreads env core process k = do {
     (kept, k1) \<leftarrow> terminate_loop env core process [] (thread_list (managers k core)) k;
     let k2 = upd_manager core (\<lambda>tm. tm\<lparr>thread_list := kept\<rparr>) k1;
     (case current_thread (managers k2 core) of
        Some t \<Rightarrow> if owner_process (threads k2 t) = Some process then ExitCurrentThread env core k2 else Some k2
      | None \<Rightarrow> Some k2)
   }"

definition ThreadWakeupCallback :: "nat \<Rightarrow> u64 \<Rightarrow> Kernel \<Rightarrow> Kernel option" where
  "ThreadWakeupCallback core tid k = do {
     t \<leftarrow> wakeup_callback_table (managers k core) tid;
     k1 \<leftarrow> (if status (threads k t) \<in> {WaitSynchAny, WaitSynchAll, WaitArb, WaitHleEvent}
            then do {
              k0 \<leftarrow> (case wakeup_callback (threads k t) of
                       Some cb \<Rightarrow> WakeUp cb WR_Timeout t None k
                     | None \<Rightarrow> Some k);
              Some (leave_wait t k0)
            }
            else Some k);
     ResumeFromWait t k1
   }"

subsection \<open>The time limiter of core 1\<close>

fun wake_sleeping :: "u32 list \<Rightarrow> Kernel \<Rightarrow> Kernel option" where
  "wake_sleeping [] k = Some k"
| "wake_sleeping (tid # ids) k = do {
     k1 \<leftarrow> (case List.find (\<lambda>t. thread_id (threads k t) = tid) (thread_list (managers k 1)) of
              Some t \<Rightarrow> if status (threads k t) = WaitSleep then ResumeFromWait t k else Some k
            | None \<Rightarrow> Some k);
     wake_sleeping ids k1
   }"

definition GetCpuLimiter :: "ThreadManager \<Rightarrow> CpuLimiterMulti" where
  "GetCpuLimiter tm = (if current_schedule_mode tm = SM_Single then single_time_limiter tm else multi_time_limiter tm)"

definition upd_limiter :: "(CpuLimiterMulti \<Rightarrow> CpuLimiterMulti) \<Rightarrow> ThreadManager \<Rightarrow> ThreadManager" where
  "upd_limiter f tm = (if current_schedule_mode tm = SM_Single then tm\<lparr>single_time_limiter := f (single_time_limiter tm)\<rparr>
     else tm\<lparr>multi_time_limiter := f (multi_time_limiter tm)\<rparr>)"

definition WakeupSleepingThreads :: "Kernel \<Rightarrow> Kernel option" where
  "WakeupSleepingThreads k = do {
     k1 \<leftarrow> wake_sleeping (sleeping_thread_ids (GetCpuLimiter (managers k 1))) k;
     Some (upd_manager 1 (upd_limiter (\<lambda>l. l\<lparr>sleeping_thread_ids := []\<rparr>)) k1)
   }"

definition ChangeState :: "Env \<Rightarrow> int \<Rightarrow> Kernel \<Rightarrow> Kernel" where
  "ChangeState env cycles_late k =
     (let l = GetCpuLimiter (managers k 1);
          st = (if curr_state l = SS_SYS then SS_APP else SS_SYS);
          app = app_tick_share env (app_cpu_time l);
          next0 = (if st = SS_SYS then base_tick_interval env - app else app);
          next_timer = (if next0 > cycles_late then next0 - cycles_late else next0)
      in do_call (ScheduleCycles ET_LimiterTick next_timer 0)
           (upd_manager 1 (upd_limiter (\<lambda>l. l\<lparr>curr_state := st\<rparr>)) k))"

definition Limiter_OnTick :: "Env \<Rightarrow> int \<Rightarrow> Kernel \<Rightarrow> Kernel option" where
  "Limiter_OnTick env cycles_late k = do { k1 \<leftarrow> WakeupSleepingThreads k; Some (ChangeState env cycles_late k1) }"

definition Limiter_Start :: "Kernel \<Rightarrow> Kernel" where
  "Limiter_Start k = (if lim_ready (GetCpuLimiter (managers k 1)) then k
     else upd_manager 1 (upd_limiter (\<lambda>l. l\<lparr>lim_ready := True, lim_active := False, curr_state := SS_APP,
            app_cpu_time := PREEMPTION_DISABLED\<rparr>)) k)"

definition Limiter_End :: "Kernel \<Rightarrow> Kernel option" where
  "Limiter_End k = (if \<not> lim_ready (GetCpuLimiter (managers k 1)) then Some k
     else WakeupSleepingThreads (do_call (UnscheduleEvent ET_LimiterTick 0)
            (upd_manager 1 (upd_limiter (\<lambda>l. l\<lparr>lim_ready := False, lim_active := False\<rparr>)) k)))"

definition UpdateAppCpuLimit :: "Env \<Rightarrow> Kernel \<Rightarrow> Kernel option" where
  "UpdateAppCpuLimit env k =
     (if \<not> lim_ready (GetCpuLimiter (managers k 1)) then Some k
      else do {
        time \<leftarrow> GetCurrentValue (resource_limits k RLC_Application) RLT_CpuTime;
        let k1 = upd_manager 1 (upd_limiter (\<lambda>l. l\<lparr>app_cpu_time := time\<rparr>)) k;
        if time = PREEMPTION_DISABLED
        then WakeupSleepingThreads (do_call (UnscheduleEvent ET_LimiterTick 0)
               (upd_manager 1 (upd_limiter (\<lambda>l. l\<lparr>lim_active := False\<rparr>)) k1))
        else do {
          let k2 = (if lim_active (GetCpuLimiter (managers k1 1)) then do_call (UnscheduleEvent ET_LimiterTick 0) k1 else k1);
          Some (ChangeState env 0 (upd_manager 1 (upd_limiter (\<lambda>l. l\<lparr>lim_active := True\<rparr>)) k2))
        }
      })"

definition DoTimeLimit :: "oid \<Rightarrow> Kernel \<Rightarrow> (bool \<times> Kernel) option" where
  "DoTimeLimit t k =
     (let l = GetCpuLimiter (managers k 1); cat = resource_limit_category (threads k t) in
      if \<not> lim_ready l \<or> \<not> lim_active l then Some (False, k)
      else do {
        lim \<leftarrow> GetLimitValue (resource_limits k cat) RLT_CpuTime;
        if lim = PREEMPTION_EXCEMPTED then Some (False, k)
        else if (cat = RLC_Application \<and> curr_state l = SS_SYS) \<or> (cat = RLC_Other \<and> curr_state l = SS_APP)
        then Some (True, upd_manager 1 (upd_limiter (\<lambda>l. l\<lparr>sleeping_thread_ids := sleeping_thread_ids l @ [thread_id (threads k t)]\<rparr>))
               (upd_thread t (\<lambda>th. th\<lparr>status := WaitSleep\<rparr>) k))
        else Some (False, k)
      })"

definition SetScheduleMode :: "Core1ScheduleMode \<Rightarrow> Kernel \<Rightarrow> Kernel option" where
  "SetScheduleMode mode k = do {
     k1 \<leftarrow> Limiter_End k;
     Some (Limiter_Start (upd_manager 1 (\<lambda>tm. tm\<lparr>current_schedule_mode := mode\<rparr>) k1))
   }"

subsection \<open>Choosing and switching to the next thread\<close>

partial_function (option) pop_better_loop ::
  "Env \<Rightarrow> nat \<Rightarrow> oid \<Rightarrow> (u32 \<times> oid) list \<Rightarrow> Kernel \<Rightarrow> (oid option \<times> (u32 \<times> oid) list \<times> Kernel) option" where
  "pop_better_loop env core thread skipped k =
     (let prio = current_priority (threads k thread);
          r = rq_pop_first_better env core prio (calls k);
          k1 = do_call (RQ_pop_first_better core prio) k
      in case snd r of
           None \<Rightarrow> Some (Some thread, skipped, k1)
         | Some n \<Rightarrow> if \<not> can_schedule (threads k n)
                     then pop_better_loop env core thread (skipped @ [(fst r, n)]) k1
                     else Some (Some n, skipped, k1))"

partial_function (option) pop_first_loop ::
  "Env \<Rightarrow> nat \<Rightarrow> (u32 \<times> oid) list \<Rightarrow> Kernel \<Rightarrow> (oid option \<times> (u32 \<times> oid) list \<times> Kernel) option" where
  "pop_first_loop env core skipped k =
     (let r = rq_pop_first env core (calls k);
          k1 = do_call (RQ_pop_first core) k
      in case snd r of
           None \<Rightarrow> Some (None, skipped, k1)
         | Some n \<Rightarrow> if \<not> can_schedule (threads k n)
                     then pop_first_loop env core (skipped @ [(fst r, n)]) k1
                     else Some (Some n, skipped, k1))"

definition pop_candidate :: "Env \<Rightarrow> nat \<Rightarrow> Kernel \<Rightarrow> (oid option \<times> Kernel) option" where
  "pop_candidate env core k = do {
     (next, skipped, k1) \<leftarrow> (case current_thread (managers k core) of
         Some t \<Rightarrow> if status (threads k t) = Running then pop_better_loop env core t [] k else pop_first_loop env core [] k
       | None \<Rightarrow> pop_first_loop env core [] k);
     Some (next, fold (\<lambda>pn. do_call (RQ_push_front core (fst pn) (snd pn))) (rev skipped) k1)
   }"

partial_function (option) PopNextReadyThread :: "Env \<Rightarrow> nat \<Rightarrow> Kernel \<Rightarrow> (oid option \<times> Kernel) option" where
  "PopNextReadyThread env core k = Option.bind (pop_candidate env core k) (\<lambda>(next, k1).
     case next of
       None \<Rightarrow> Some (None, k1)
     | Some n \<Rightarrow> if core \<noteq> 1 then Some (Some n, k1)
                 else Option.bind (DoTimeLimit n k1) (\<lambda>(limited, k2).
                        if limited then PopNextReadyThread env core k2 else Some (Some n, k2)))"

definition save_previous :: "Env \<Rightarrow> nat \<Rightarrow> oid \<Rightarrow> Kernel \<Rightarrow> Kernel" where
  "save_previous env core p k =
     (let k1 = do_call (SaveContext p) (upd_thread p (\<lambda>th. th\<lparr>last_running_ticks := get_ticks env (calls k)\<rparr>) k)
      in if status (threads k1 p) = Running
         then upd_thread p (\<lambda>th. th\<lparr>status := Ready\<rparr>) (do_call (RQ_push_front core (current_priority (threads k1 p)) p) k1)
         else k1)"

definition load_next :: "nat \<Rightarrow> oid option \<Rightarrow> oid \<Rightarrow> Kernel \<Rightarrow> Kernel option" where
  "load_next core previous_process n k = do {
     _ \<leftarrow> ASSERT (status (threads k n) = Ready);
     let k1 = do_call (UnscheduleEvent (ET_ThreadWakeup core) (wakeup_key n k)) k;
     let k2 = upd_manager core (\<lambda>tm. tm\<lparr>current_thread := Some n\<rparr>) k1;
     let k3 = upd_thread n (\<lambda>th. th\<lparr>status := Running\<rparr>) (do_call (RQ_remove core (current_priority (threads k n)) n) k2);
     process \<leftarrow> owner_process (threads k3 n);
     let k4 = (if previous_process \<noteq> Some process then do_call (SetCurrentProcess process core) k3 else k3);
     Some (do_call (LoadContext n (tls_address (threads k n))) k4)
   }"

definition SwitchContext :: "Env \<Rightarrow> nat \<Rightarrow> oid option \<Rightarrow> Kernel \<Rightarrow> Kernel option" where
  "SwitchContext env core new_thread k =
     (let previous = current_thread (managers k core);
          previous_process = (case previous of None \<Rightarrow> None | Some p \<Rightarrow> owner_process (threads k p));
          k1 = (case previous of None \<Rightarrow> k | Some p \<Rightarrow> save_previous env core p k)
      in case new_thread of
           None \<Rightarrow> Some (upd_manager core (\<lambda>tm. tm\<lparr>current_thread := None\<rparr>) k1)
         | Some n \<Rightarrow> load_next core previous_process n k1)"

definition Reschedule :: "Env \<Rightarrow> nat \<Rightarrow> Kernel \<Rightarrow> Kernel option" where
  "Reschedule env core k = do {
     (next, k1) \<leftarrow> PopNextReadyThread env core k;
     if current_thread (managers k core) = None \<and> next = None then Some k1
     else SwitchContext env core next k1
   }"

subsection \<open>A stopped thread keeps nothing\<close>

lemma Acquire_owner_iff:
  assumes "mutex_inv_ex X k" "Acquire ob u k = Some k'" "t \<noteq> u"
  shows "owner (kind (objs k' w)) = Some t \<longleftrightarrow> owner (kind (objs k w)) = Some t"
proof (cases "is_mutex ob k")
  case True
  then obtain mx where m: "kind (objs k ob) = K_Mutex mx" by (auto simp: is_mutex_def split: ObjectKind.splits)
  have "count_ok (K_Mutex mx)" using assms(1) m unfolding mutex_inv_ex_def by metis
  then show ?thesis using m assms(3) unfolding Acquire_mutex(1) [OF assms(2) m] by auto
next
  case False
  then show ?thesis by (simp add: Acquire_nonmutex [OF assms(2)])
qed

lemma acquire_all_owner_iff:
  assumes "for_each (\<lambda>w. Acquire w u) ws k = Some k'" "mutex_inv_ex X k" "t \<noteq> u"
  shows "owner (kind (objs k' w)) = Some t \<longleftrightarrow> owner (kind (objs k w)) = Some t"
  using assms
proof (induction ws arbitrary: k)
  case (Cons v ws)
  obtain k1 where k1: "Acquire v u k = Some k1" "for_each (\<lambda>w. Acquire w u) ws k1 = Some k'"
    using Cons.prems(1) by (auto simp: bind_eq_Some_iff)
  show ?case
    using Cons.IH [OF k1(2) mutex_inv_Acquire [OF Cons.prems(2) k1(1)] Cons.prems(3)]
      Acquire_owner_iff [OF Cons.prems(2) k1(1) Cons.prems(3), of w] by simp
qed simp

lemma woken_owner_iff:
  assumes "woken ob k ts k'" "wait_inv k" "prio_inv k" "mutex_inv_ex X k" "t \<notin> set ts"
  shows "owner (kind (objs k' w)) = Some t \<longleftrightarrow> owner (kind (objs k w)) = Some t"
  using assms
proof (induction rule: woken.induct)
  case (woken_step k ob u k1 ts k2)
  note r = first_best_ready [OF woken_step.hyps(1)]
  obtain ka where a: "(if status (threads k u) \<noteq> WaitSynchAll then Acquire ob u k
       else for_each (\<lambda>w. Acquire w u) (wait_objects (threads k u)) k) = Some ka"
    and c: "\<And>w. core_kind (kind (objs k1 w)) = core_kind (kind (objs ka w))"
    using wake_threadD(9) [OF woken_step.prems(1,2) r woken_step.hyps(2)] by blast
  note i = wake_threadD(1,2) [OF woken_step.prems(1,2) r woken_step.hyps(2)]
  have "t \<noteq> u" using woken_step.prems(4) by auto
  then have "owner (kind (objs ka w)) = Some t \<longleftrightarrow> owner (kind (objs k w)) = Some t"
    using a acquire_all_owner_iff [OF _ woken_step.prems(3)] Acquire_owner_iff [OF woken_step.prems(3)]
    by (cases "status (threads k u) = WaitSynchAll") auto
  moreover have "mutex_inv_ex X k1" by (rule mutex_inv_wake_thread [OF woken_step.prems(1-3) r woken_step.hyps(2)])
  ultimately show ?case using woken_step.IH [OF i] woken_step.prems(4) owner_core(1) [OF c, of w] by simp
qed simp

text \<open>What holds of the kernel while the mutexes of a dead thread are being released.\<close>

definition dying :: "oid \<Rightarrow> Kernel \<Rightarrow> bool" where
  "dying t k \<longleftrightarrow> wait_inv k \<and> prio_inv k \<and> mutex_inv_ex {t} k \<and> wait_objects (threads k t) = [] \<and> status (threads k t) = Dead"

lemma not_waiting: "wait_inv k \<Longrightarrow> wait_objects (threads k t) = [] \<Longrightarrow> t \<notin> set (waiting_threads (objs k w))"
  by (simp add: wait_invD(3))

definition own_frame :: "oid \<Rightarrow> Kernel \<Rightarrow> Kernel \<Rightarrow> bool" where
  "own_frame t k k' \<longleftrightarrow> rest k' = rest k \<and> th_static (threads k' t) = th_static (threads k t)"

lemma release_held_ok:
  assumes d: "dying t k" and o: "owner (kind (objs k m)) = Some t"
  shows "\<exists>k'. release_held m k = Some k' \<and> dying t k' \<and>
    (\<forall>w. owner (kind (objs k' w)) = Some t \<longleftrightarrow> w \<noteq> m \<and> owner (kind (objs k w)) = Some t) \<and>
    (\<forall>w. set (waiting_threads (objs k' w)) \<subseteq> set (waiting_threads (objs k w))) \<and> own_frame t k k'"
proof -
  obtain mx where m: "kind (objs k m) = K_Mutex mx" "holding_thread mx = Some t" using o by (cases "kind (objs k m)") auto
  let ?k0 = "set_kind m (K_Mutex (mx\<lparr>lock_count := 0, holding_thread := None\<rparr>)) k"
  have i0: "wait_inv ?k0" "prio_inv ?k0" using d by (simp_all add: dying_def wait_inv_def)
  have m0: "mutex_inv_ex {t} ?k0"
    using d o unfolding dying_def mutex_inv_ex_def by auto
  have nw: "t \<notin> set (waiting_threads (objs ?k0 m))" using d by (simp add: dying_def not_waiting)
  obtain ts k1 k' where w: "WakeupAllWaitingThreads m ?k0 = Some k'" "woken m ?k0 ts k1" "wakes m ?k0 ts k'"
    "\<And>w. kind (objs k' w) = (if w = m then pulse_reset (kind (objs k1 m)) else kind (objs k1 w))"
    by (rule wakeup_ok [OF i0]) blast
  have nt: "t \<notin> set ts" using w(3) nw by (auto simp: wakes_def)
  have "dying t k'"
    using w(3) nt d mutex_inv_wakeup [OF i0 m0 w(1)] by (simp add: dying_def wakes_def)
  moreover have "owner (kind (objs k' w)) = owner (kind (objs k1 w))" for w
    unfolding w(4) by (cases "kind (objs k1 m)") (simp_all add: pulse_reset_def)
  moreover have "set (waiting_threads (objs k' w)) \<subseteq> set (waiting_threads (objs k w))" for w
    using w(3) by (auto simp: wakes_def)
  moreover have "own_frame t k k'" using w(3) by (simp add: wakes_def own_frame_def)
  ultimately show ?thesis
    using w(1) m woken_owner_iff [OF w(2) i0 m0 nt] by (auto simp: release_held_def)
qed

lemma release_all_ok:
  assumes "dying t k" "distinct ms" "\<forall>m \<in> set ms. owner (kind (objs k m)) = Some t"
  shows "\<exists>k'. for_each release_held ms k = Some k' \<and> dying t k' \<and>
    (\<forall>w. owner (kind (objs k' w)) = Some t \<longleftrightarrow> w \<notin> set ms \<and> owner (kind (objs k w)) = Some t) \<and>
    (\<forall>w. set (waiting_threads (objs k' w)) \<subseteq> set (waiting_threads (objs k w))) \<and> own_frame t k k'"
  using assms
proof (induction ms arbitrary: k)
  case (Cons m ms)
  obtain k1 where k1: "release_held m k = Some k1" "dying t k1"
    "\<And>w. owner (kind (objs k1 w)) = Some t \<longleftrightarrow> w \<noteq> m \<and> owner (kind (objs k w)) = Some t"
    "\<And>w. set (waiting_threads (objs k1 w)) \<subseteq> set (waiting_threads (objs k w))" "own_frame t k k1"
    using release_held_ok [OF Cons.prems(1), of m] Cons.prems(3) by (meson list.set_intros(1))
  have "\<forall>m \<in> set ms. owner (kind (objs k1 m)) = Some t" using Cons.prems(2,3) k1(3) by auto
  from Cons.IH [OF k1(2) _ this] Cons.prems(2) obtain k' where k': "for_each release_held ms k1 = Some k'" "dying t k'"
    "\<forall>w. owner (kind (objs k' w)) = Some t \<longleftrightarrow> w \<notin> set ms \<and> owner (kind (objs k1 w)) = Some t"
    "\<forall>w. set (waiting_threads (objs k' w)) \<subseteq> set (waiting_threads (objs k1 w))" "own_frame t k1 k'" by (meson distinct.simps(2))
  have "\<forall>w. set (waiting_threads (objs k' w)) \<subseteq> set (waiting_threads (objs k w))" using k'(4) k1(4) by (meson order_trans)
  moreover have "\<forall>w. owner (kind (objs k' w)) = Some t \<longleftrightarrow> w \<notin> set (m # ms) \<and> owner (kind (objs k w)) = Some t"
    using k'(3) k1(3) by (simp add: conj_ac)
  moreover have "own_frame t k k'" using k1(5) k'(5) by (simp add: own_frame_def)
  ultimately show ?case using k1(1) k'(1,2) by simp
qed (simp add: own_frame_def)

lemma mutex_inv_ex_mono: "mutex_inv k \<Longrightarrow> mutex_inv_ex X k"
  by (simp add: mutex_inv_def mutex_inv_ex_def)

lemma ReleaseThreadMutexes_ok:
  assumes d: "dying t k" and m: "mutex_inv k"
  shows "\<exists>k'. ReleaseThreadMutexes t k = Some k' \<and> dying t k' \<and> mutex_inv k' \<and> held_mutexes (threads k' t) = [] \<and>
    (\<forall>w. owner (kind (objs k' w)) \<noteq> Some t) \<and> (\<forall>w. set (waiting_threads (objs k' w)) \<subseteq> set (waiting_threads (objs k w))) \<and>
    own_frame t k k'"
proof -
  have h: "distinct (held_mutexes (threads k t))" "\<And>w. w \<in> set (held_mutexes (threads k t)) \<longleftrightarrow> owner (kind (objs k w)) = Some t"
    using m by (auto simp: mutex_inv_def mutex_inv_ex_def)
  obtain k1 where k1: "for_each release_held (held_mutexes (threads k t)) k = Some k1" "dying t k1"
    "\<forall>w. owner (kind (objs k1 w)) \<noteq> Some t" "\<forall>w. set (waiting_threads (objs k1 w)) \<subseteq> set (waiting_threads (objs k w))" "own_frame t k k1"
    using release_all_ok [OF d h(1)] h(2) by auto
  let ?k' = "upd_thread t (\<lambda>th. th\<lparr>held_mutexes := []\<rparr>) k1"
  have mi: "mutex_inv ?k'" using k1(2,3) unfolding mutex_inv_def mutex_inv_ex_def dying_def by auto
  have "wait_inv ?k'" "prio_inv ?k'" using k1(2) by (auto simp: dying_def wait_inv_def prio_inv_def)
  then have "dying t ?k'" using k1(2) mutex_inv_ex_mono [OF mi] by (simp add: dying_def)
  moreover have "own_frame t k ?k'" using k1(5) by (simp add: own_frame_def)
  ultimately show ?thesis using k1(1,3,4) mi by (simp add: ReleaseThreadMutexes_def)
qed

lemma woken_thread_kind:
  assumes "woken ob k ts k'" "wait_inv k" "prio_inv k" "kind (objs k ob) = K_Thread"
  shows "kind (objs k' ob) = K_Thread"
  using assms
proof (induction ts arbitrary: k)
  case Nil
  then show ?case by (auto elim: woken_NilE)
next
  case (Cons t ts)
  obtain k1 ka kb where k1: "woken ob k1 ts k'" "wait_inv k1" "prio_inv k1" and a: "Acquire ob t ka = Some kb"
      "kind (objs ka ob) = kind (objs k ob)" "core_kind (kind (objs k1 ob)) = core_kind (kind (objs kb ob))"
    by (rule woken_stepE [OF Cons.prems(1-3)])
  have "kind (objs k1 ob) = K_Thread" using Acquire_at(5) [OF a(1)] a(2,3) Cons.prems(4) by simp
  then show ?case by (rule Cons.IH [OF k1])
qed

lemma joiners_woken:
  assumes w: "woken t k ts k'" and i: "wait_inv k" "prio_inv k" and t: "kind (objs k t) = K_Thread" "status (threads k t) = Dead"
    "t \<notin> set (waiting_threads (objs k t))" and u: "u \<in> set (waiting_threads (objs k t))" "status (threads k u) \<noteq> WaitSynchAll"
  shows "u \<in> set ts"
proof (rule ccontr)
  assume n: "u \<notin> set ts"
  note ok = woken_ok [OF w i]
  have "t \<notin> set ts" using ok t(3) by auto
  then have "\<not> ShouldWait t u k'" using ok t(2) woken_thread_kind [OF w i t(1)] by (simp add: ShouldWait_def)
  then have "ready_to_run t u k'" using ok n u(2) by (simp add: ready_to_run_def)
  moreover have "u \<in> set (waiting_threads (objs k' t))" using ok n u(1) by simp
  moreover have "ready_waiters t k' = []" using ok by simp
  ultimately show False by (auto simp: ready_waiters_def filter_empty_conv)
qed

text \<open>The thread is marked dead; nobody else is affected.\<close>

definition marked_dead :: "oid \<Rightarrow> Kernel \<Rightarrow> Kernel" where
  "marked_dead t k = upd_thread t (\<lambda>th. th\<lparr>status := Dead\<rparr>)
     (let th = threads k t;
          k1 = do_call (UnscheduleEvent (ET_ThreadWakeup (core_id th)) (wakeup_key t k)) k;
          k2 = upd_manager (core_id th) (\<lambda>tm. tm\<lparr>wakeup_callback_table := (wakeup_callback_table tm)(wakeup_key t k := None)\<rparr>) k1
      in if status th = Ready then do_call (RQ_remove (core_id th) (current_priority th) t) k2 else k2)"

lemma marked_dead_sel:
  "objs (marked_dead t k) = objs k"
  "threads (marked_dead t k) = (threads k)(t := (threads k t)\<lparr>status := Dead\<rparr>)"
  by (auto simp: marked_dead_def Let_def fun_eq_iff)

lemma Thread_Stop_eq: "Thread_Stop env t k = do {
    k4 \<leftarrow> WaitObject_WakeupAllWaitingThreads t (marked_dead t k);
    k5 \<leftarrow> ReleaseThreadMutexes t (leave_wait t k4);
    free_tls env t k5 }"
  by (simp add: Thread_Stop_def marked_dead_def Let_def)

lemma marked_dead_rest:
  "tls_slots (marked_dead t k) = tls_slots k" "resource_limits (marked_dead t k) = resource_limits k"
  "process_limit (marked_dead t k) = process_limit k" "arbiters (marked_dead t k) = arbiters k"
  by (simp_all add: marked_dead_def Let_def upd_thread_def upd_manager_def do_call_def)

text \<open>Freeing the slot depends only on what stopping leaves alone, and touches nothing else.\<close>

lemma free_tls_cong:
  assumes f: "free_tls env t k = Some kf"
    and "tls_slots k' = tls_slots k" "resource_limits k' = resource_limits k" "process_limit k' = process_limit k"
      "th_static (threads k' t) = th_static (threads k t)"
  shows "\<exists>kf'. free_tls env t k' = Some kf' \<and> objs kf' = objs k' \<and> threads kf' = threads k' \<and>
    tls_slots kf' = tls_slots kf \<and> resource_limits kf' = resource_limits kf"
proof -
  note s = th_staticD [OF assms(5)]
  show ?thesis using f unfolding free_tls_def s assms(2-4)
    by (auto simp: Let_def bind_eq_Some_iff assms(2-4) split: option.splits if_splits)
qed

lemma thread_invs_cong:
  assumes "objs k' = objs k" "threads k' = threads k"
  shows "wait_inv k' = wait_inv k" "prio_inv k' = prio_inv k" "mutex_inv k' = mutex_inv k"
  by (simp_all add: wait_inv_def prio_inv_def mutex_inv_def mutex_inv_ex_def assms)


definition switch_env :: Env where
  "switch_env = \<lparr>rq_pop_first = (\<lambda>_ _. (30, Some 4)), rq_pop_first_better = (\<lambda>_ _ _. (30, Some 4)), get_ticks = (\<lambda>_. 0),
     TLS_AREA_VADDR = 0x1FF82000, CITRA_PAGE_SIZE = 0x1000, TLS_ENTRY_SIZE = 0x200, base_tick_interval = 536247,
     app_tick_share = (\<lambda>p. 536247 * p div 100)\<rparr>"

definition exit_kernel :: Kernel where
  "exit_kernel = (ex_kernel [10] (K_Mutex ex_mutex))\<lparr>tls_slots := (\<lambda>_. [[True]])\<rparr>"

lemma exit_kernel_inv: "wait_inv exit_kernel" "prio_inv exit_kernel" "mutex_inv exit_kernel"
  using ex_kernel_inv [of "[10]" "K_Mutex ex_mutex"] ex_kernel_mutex
  by (simp_all add: exit_kernel_def wait_inv_def prio_inv_def mutex_inv_def mutex_inv_ex_def)


subsection \<open>Timeouts\<close>

lemma UpdatePriority_context: "th_context (threads (UpdatePriority t k) u) = th_context (threads k u)"
  by (simp add: UpdatePriority_def BoostPriority_def Let_def)

lemma RemoveWaitingThread_context: "th_context (threads (RemoveWaitingThread ob t k) u) = th_context (threads k u)"
  by (simp add: RemoveWaitingThread_def WaitObject_RemoveWaitingThread_def Mutex_UpdatePriority_def Let_def
      UpdatePriority_context split: ObjectKind.split option.split)

lemma leave_wait_context: "th_context (threads (leave_wait t k) u) = th_context (threads k u)"
proof -
  have "th_context (threads (fold (\<lambda>ob. RemoveWaitingThread ob t) ws k) u) = th_context (threads k u)" for ws u
    by (induction ws arbitrary: k) (simp_all add: RemoveWaitingThread_context)
  then show ?thesis by (simp add: leave_wait_def)
qed

text \<open>When the timeout of a thread blocked in a wait call fires, the call returns the Timeout result (register 0),
  the thread is Ready and in no waiting list, all other threads and lists stay as they are, and no object is
  acquired.\<close>
theorem wait_timeout_effect:
  assumes inv: "wait_inv k" "prio_inv k" and t: "wakeup_callback_table (managers k c) tid = Some t"
    "status (threads k t) \<in> {WaitSynchAny, WaitSynchAll}" "wakeup_callback (threads k t) = Some (SVC_SyncCallback b)"
    "cpu_registers (th_context (threads k t)) \<noteq> []"
  shows "\<exists>k'. ThreadWakeupCallback c tid k = Some k' \<and> wait_inv k' \<and> prio_inv k' \<and>
    cpu_registers (th_context (threads k' t)) ! 0 = raw ResultTimeout \<and>
    (\<forall>u. status (threads k' u) = (if u = t then Ready else status (threads k u))) \<and>
    (\<forall>w. waiting_threads (objs k' w) = filter (\<lambda>u. u \<noteq> t) (waiting_threads (objs k w))) \<and>
    (\<forall>w. core_kind (kind (objs k' w)) = core_kind (kind (objs k w)))"
proof -
  let ?k0 = "SetWaitSynchronizationResult t ResultTimeout k"
  have f: "wait_frame k ?k0" "objs ?k0 = objs k" by (simp add: SetWait_frame) (simp add: SetWaitSynchronizationResult_def)
  have i0: "wait_inv ?k0" by (rule wait_inv_frame [OF f(1) inv(1)])
  have p0: "prio_inv ?k0" using inv(2) by (simp add: prio_inv_def SetWaitSynchronizationResult_def)
  let ?k1 = "leave_wait t ?k0"
  obtain k' where k': "ResumeFromWait t ?k1 = Some k'" "objs k' = objs ?k1"
    "threads k' = (threads ?k1)(t := (threads ?k1 t)\<lparr>wakeup_callback := None, status := Ready\<rparr>)"
    by (rule ResumeFromWait_ok [of ?k1 t]) (use t(2) in \<open>auto simp: leave_wait_frame [OF i0] wait_frameD [OF f(1)]\<close>)
  have "ThreadWakeupCallback c tid k = Some k'"
    using t k'(1) by (auto simp: ThreadWakeupCallback_def SyncCallback_WakeUp_def)
  moreover have "wait_objects (threads ?k1 t) = []" by (simp add: leave_wait_frame [OF i0])
  then have "wait_inv k'" using wait_inv_leave [OF i0, of t] unfolding wait_inv_def k'(2,3) by auto
  moreover have "prio_inv k'" using leave_wait_frame(9) [OF i0 p0, of t] by (simp add: prio_inv_def k'(3))
  moreover have "th_context (threads ?k1 t) = th_context (threads ?k0 t)" by (rule leave_wait_context)
  then have "cpu_registers (th_context (threads k' t)) ! 0 = raw ResultTimeout"
    using t(4) by (simp add: k'(3) SetWaitSynchronizationResult_def)
  ultimately show ?thesis
    by (auto simp: k'(2,3) leave_wait_frame [OF i0] wait_frameD [OF f(1)] f(2))
qed

definition timeout_kernel :: Kernel where
  "timeout_kernel = (ex_kernel [] (K_Event \<lparr>ev_reset_type = Sticky, ev_signaled = False\<rparr>))\<lparr>managers :=
     (\<lambda>_. \<lparr>current_thread = Some 3, wakeup_callback_table = (\<lambda>i. if i = 40 then Some 1 else None), thread_list = [1, 2, 3],
       current_schedule_mode = SM_Multi, single_time_limiter = ex_limiter, multi_time_limiter = ex_limiter\<rparr>)\<rparr>"

lemma wait_timeout_effect_witness:
  "\<exists>k'. ThreadWakeupCallback 0 40 timeout_kernel = Some k' \<and> status (threads k' 1) = Ready \<and>
    waiting_threads (objs k' 10) = [2] \<and> cpu_registers (th_context (threads k' 1)) ! 0 = raw ResultTimeout"
proof -
  let ?k = timeout_kernel
  have inv: "wait_inv ?k" "prio_inv ?k"
    using ex_kernel_inv by (simp_all add: timeout_kernel_def wait_inv_def prio_inv_def)
  have th: "threads ?k 1 = ex_thread 40 WaitSynchAny [] [10]" "waiting_threads (objs ?k 10) = [1, 2]"
    by (simp_all add: timeout_kernel_def ex_kernel_def)
  have "\<exists>k'. ThreadWakeupCallback 0 40 ?k = Some k' \<and> wait_inv k' \<and> prio_inv k' \<and>
    cpu_registers (th_context (threads k' 1)) ! 0 = raw ResultTimeout \<and>
    (\<forall>u. status (threads k' u) = (if u = 1 then Ready else status (threads ?k u))) \<and>
    (\<forall>w. waiting_threads (objs k' w) = filter (\<lambda>u. u \<noteq> 1) (waiting_threads (objs ?k w))) \<and>
    (\<forall>w. core_kind (kind (objs k' w)) = core_kind (kind (objs ?k w)))"
  proof (rule wait_timeout_effect [OF inv])
    show "wakeup_callback_table (managers ?k 0) 40 = Some 1" by (simp add: timeout_kernel_def)
    show "status (threads ?k 1) \<in> {WaitSynchAny, WaitSynchAll}" "wakeup_callback (threads ?k 1) = Some (SVC_SyncCallback True)"
      "cpu_registers (th_context (threads ?k 1)) \<noteq> []" unfolding th(1) by (simp_all add: ex_thread_def)
  qed
  then show ?thesis by (auto simp: th(2))
qed

subsection \<open>Rescheduling\<close>

text \<open>
  What the ready queue of a core promises the scheduler: it only hands out threads that are
  ready, may be scheduled and belong to a process.
\<close>

definition serves :: "Env \<Rightarrow> nat \<Rightarrow> Kernel \<Rightarrow> bool" where
  "serves env c k \<longleftrightarrow> (\<forall>cs p n. (snd (rq_pop_first env c cs) = Some n \<or> snd (rq_pop_first_better env c p cs) = Some n) \<longrightarrow>
     status (threads k n) = Ready \<and> can_schedule (threads k n) \<and> owner_process (threads k n) \<noteq> None)"

lemma pop_candidate_ok:
  assumes "serves env c k"
  shows "\<exists>nx k1. pop_candidate env c k = Some (nx, k1) \<and> threads k1 = threads k \<and> managers k1 = managers k \<and>
    objs k1 = objs k \<and> rest k1 = rest k \<and>
    (case nx of
       None \<Rightarrow> \<forall>t. current_thread (managers k c) = Some t \<longrightarrow> status (threads k t) \<noteq> Running
     | Some n \<Rightarrow> status (threads k n) = Ready \<and> owner_process (threads k n) \<noteq> None \<or>
         current_thread (managers k c) = Some n \<and> status (threads k n) = Running)"
proof -
  have b: "\<exists>nx. pop_better_loop env c t [] k = Some (Some nx, [], do_call (RQ_pop_first_better c (current_priority (threads k t))) k) \<and>
      (nx = t \<or> status (threads k nx) = Ready \<and> owner_process (threads k nx) \<noteq> None)" for t
    using assms by (subst pop_better_loop.simps) (auto simp: serves_def Let_def split: option.split)
  have f: "\<exists>nx. pop_first_loop env c [] k = Some (nx, [], do_call (RQ_pop_first c) k) \<and>
      (\<forall>n. nx = Some n \<longrightarrow> status (threads k n) = Ready \<and> owner_process (threads k n) \<noteq> None)"
    using assms by (subst pop_first_loop.simps) (auto simp: serves_def Let_def split: option.split)
  show ?thesis
  proof (cases "\<exists>t. current_thread (managers k c) = Some t \<and> status (threads k t) = Running")
    case True
    then obtain t where t: "current_thread (managers k c) = Some t" "status (threads k t) = Running" by blast
    then show ?thesis using b [of t] by (auto simp: pop_candidate_def)
  next
    case False
    have "\<exists>nx k1. pop_candidate env c k = Some (nx, k1) \<and> threads k1 = threads k \<and> managers k1 = managers k \<and>
      objs k1 = objs k \<and> rest k1 = rest k \<and>
      (\<forall>n. nx = Some n \<longrightarrow> status (threads k n) = Ready \<and> owner_process (threads k n) \<noteq> None)"
      using f False by (auto simp: pop_candidate_def split: option.split)
    then show ?thesis using False by (auto split: option.split)
  qed
qed

text \<open>Rescheduling a core (other than core 1, whose time limiter may intervene) always succeeds when the ready queue
  keeps its promise.  Afterwards the core's current thread, if any, is Running and every thread that was Running
  as the core's current one and was replaced is Ready; no other thread changes its status.  When the current
  thread was Running the core does not go idle.\<close>
theorem reschedule_runs_current:
  assumes s: "serves env c k" and c: "c \<noteq> 1"
    and cur: "\<forall>t. current_thread (managers k c) = Some t \<longrightarrow> owner_process (threads k t) \<noteq> None"
  shows "\<exists>k'. Reschedule env c k = Some k' \<and>
    (\<forall>n. current_thread (managers k' c) = Some n \<longrightarrow> status (threads k' n) = Running) \<and>
    (\<forall>t. current_thread (managers k c) = Some t \<and> status (threads k t) = Running \<longrightarrow>
       current_thread (managers k' c) \<noteq> None \<and> (current_thread (managers k' c) \<noteq> Some t \<longrightarrow> status (threads k' t) = Ready)) \<and>
    (\<forall>u. current_thread (managers k c) \<noteq> Some u \<and> current_thread (managers k' c) \<noteq> Some u \<longrightarrow>
       status (threads k' u) = status (threads k u))"
proof -
  obtain nx k1 where p: "pop_candidate env c k = Some (nx, k1)" "threads k1 = threads k" "managers k1 = managers k"
    and n: "case nx of
       None \<Rightarrow> \<forall>t. current_thread (managers k c) = Some t \<longrightarrow> status (threads k t) \<noteq> Running
     | Some n \<Rightarrow> status (threads k n) = Ready \<and> owner_process (threads k n) \<noteq> None \<or>
         current_thread (managers k c) = Some n \<and> status (threads k n) = Running"
    using pop_candidate_ok [OF s] by blast
  have pop: "PopNextReadyThread env c k = Some (nx, k1)"
    using c by (subst PopNextReadyThread.simps) (simp add: p(1) split: option.split)
  show ?thesis
  proof (cases nx)
    case None
    then show ?thesis using n p(2,3)
      by (cases "current_thread (managers k c)")
        (auto simp: Reschedule_def pop SwitchContext_def save_previous_def Let_def)
  next
    case (Some m)
    then show ?thesis using n cur p(2,3)
      by (cases "current_thread (managers k c)")
        (auto simp: Reschedule_def pop SwitchContext_def save_previous_def load_next_def Let_def)
  qed
qed

definition switch_kernel :: Kernel where
  "switch_kernel = (ex_kernel [] K_Thread)\<lparr>threads := (threads (ex_kernel [] K_Thread))(4 := ex_thread 30 Ready [] [])\<rparr>"

lemma reschedule_runs_current_witness:
  "\<exists>k'. Reschedule switch_env 0 switch_kernel = Some k' \<and>
    (\<forall>n. current_thread (managers k' 0) = Some n \<longrightarrow> status (threads k' n) = Running) \<and>
    current_thread (managers k' 0) \<noteq> None"
proof -
  have s: "serves switch_env 0 switch_kernel" by (simp add: serves_def switch_env_def switch_kernel_def ex_thread_def)
  have o: "owner_process (threads switch_kernel t) = Some 0" for t
    by (simp add: switch_kernel_def ex_kernel_def ex_thread_def)
  have c: "current_thread (managers switch_kernel 0) = Some 3" "status (threads switch_kernel 3) = Running"
    by (simp_all add: switch_kernel_def ex_kernel_def ex_thread_def)
  from reschedule_runs_current [OF s, simplified] o c show ?thesis by (metis option.distinct(1))
qed

subsection \<open>The limiter lets everyone run again\<close>

lemma wake_sleeping_ok:
  assumes "inj_on (\<lambda>t. thread_id (threads k t)) (set (thread_list (managers k 1)))"
    "\<forall>t \<in> set (thread_list (managers k 1)). status (threads k t) = WaitSleep \<longrightarrow> wait_objects (threads k t) = []"
  shows "\<exists>k'. wake_sleeping ids k = Some k' \<and> managers k' = managers k \<and>
    (\<forall>u. thread_id (threads k' u) = thread_id (threads k u) \<and> wait_objects (threads k' u) = wait_objects (threads k u)) \<and>
    (\<forall>u. status (threads k' u) = (if u \<in> set (thread_list (managers k 1)) \<and> status (threads k u) = WaitSleep \<and>
       thread_id (threads k u) \<in> set ids then Ready else status (threads k u)))"
  using assms
proof (induction ids arbitrary: k)
  case (Cons tid ids)
  let ?L = "thread_list (managers k 1)"
  let ?first = "List.find (\<lambda>t. thread_id (threads k t) = tid) ?L"
  let ?hit = "\<lambda>u. u \<in> set ?L \<and> status (threads k u) = WaitSleep \<and> thread_id (threads k u) = tid"
  have "\<exists>k1. (case ?first of
              Some t \<Rightarrow> if status (threads k t) = WaitSleep then ResumeFromWait t k else Some k
            | None \<Rightarrow> Some k) = Some k1 \<and> managers k1 = managers k \<and>
      (\<forall>u. thread_id (threads k1 u) = thread_id (threads k u) \<and> wait_objects (threads k1 u) = wait_objects (threads k u)) \<and>
      (\<forall>u. status (threads k1 u) = (if ?hit u then Ready else status (threads k u)))"
  proof (cases ?first)
    case None
    then have "\<not> ?hit u" for u by (auto simp: find_None_iff)
    then show ?thesis using None by auto
  next
    case (Some t)
    then have t: "t \<in> set ?L" "thread_id (threads k t) = tid" by (auto simp: find_Some_iff)
    have uniq: "?hit u \<longleftrightarrow> u = t \<and> status (threads k t) = WaitSleep" for u
      using t Cons.prems(1) by (auto dest: inj_onD)
    show ?thesis
    proof (cases "status (threads k t) = WaitSleep")
      case True
      then have "ResumeFromWait t k = Some (do_call PrepareReschedule
              (upd_thread t (\<lambda>th. th\<lparr>wakeup_callback := None, status := Ready\<rparr>)
                (do_call (RQ_push_back (core_id (threads k t)) (current_priority (threads k t)) t) k)))"
        using Cons.prems(2) t(1) by (simp add: ResumeFromWait_def Let_def)
      then show ?thesis using Some True uniq by auto
    next
      case False
      then show ?thesis using Some uniq by auto
    qed
  qed
  then obtain k1 where k1: "(case ?first of
              Some t \<Rightarrow> if status (threads k t) = WaitSleep then ResumeFromWait t k else Some k
            | None \<Rightarrow> Some k) = Some k1" "managers k1 = managers k"
      "\<And>u. thread_id (threads k1 u) = thread_id (threads k u)" "\<And>u. wait_objects (threads k1 u) = wait_objects (threads k u)"
      "\<And>u. status (threads k1 u) = (if ?hit u then Ready else status (threads k u))" by blast
  have "\<exists>k'. wake_sleeping ids k1 = Some k' \<and> managers k' = managers k1 \<and>
    (\<forall>u. thread_id (threads k' u) = thread_id (threads k1 u) \<and> wait_objects (threads k' u) = wait_objects (threads k1 u)) \<and>
    (\<forall>u. status (threads k' u) = (if u \<in> set (thread_list (managers k1 1)) \<and> status (threads k1 u) = WaitSleep \<and>
       thread_id (threads k1 u) \<in> set ids then Ready else status (threads k1 u)))"
    by (rule Cons.IH) (use Cons.prems in \<open>auto simp: k1(2-5)\<close>)
  then show ?case using k1 by (auto split: if_splits)
qed simp

lemma GetCpuLimiter_upd [simp]: "GetCpuLimiter (upd_limiter f tm) = f (GetCpuLimiter tm)"
  "thread_list (upd_limiter f tm) = thread_list tm"
  by (simp_all add: GetCpuLimiter_def upd_limiter_def)

text \<open>At each tick of the core-1 limiter every thread it had put to sleep is made Ready again and its list of
  sleepers is empty, no other thread changes its status, and the limiter changes between the application and
  the system phase.\<close>
theorem limiter_tick_wakes_limited:
  assumes i: "inj_on (\<lambda>t. thread_id (threads k t)) (set (thread_list (managers k 1)))"
    and w: "\<forall>t \<in> set (thread_list (managers k 1)). status (threads k t) = WaitSleep \<longrightarrow> wait_objects (threads k t) = []"
  shows "\<exists>k'. Limiter_OnTick env late k = Some k' \<and> sleeping_thread_ids (GetCpuLimiter (managers k' 1)) = [] \<and>
    (curr_state (GetCpuLimiter (managers k' 1)) = SS_SYS \<longleftrightarrow> curr_state (GetCpuLimiter (managers k 1)) = SS_APP) \<and>
    (\<forall>u. status (threads k' u) = (if u \<in> set (thread_list (managers k 1)) \<and> status (threads k u) = WaitSleep \<and>
       thread_id (threads k u) \<in> set (sleeping_thread_ids (GetCpuLimiter (managers k 1))) then Ready else status (threads k u)))"
proof -
  obtain k1 where k1: "wake_sleeping (sleeping_thread_ids (GetCpuLimiter (managers k 1))) k = Some k1" "managers k1 = managers k"
    "\<forall>u. status (threads k1 u) = (if u \<in> set (thread_list (managers k 1)) \<and> status (threads k u) = WaitSleep \<and>
       thread_id (threads k u) \<in> set (sleeping_thread_ids (GetCpuLimiter (managers k 1))) then Ready else status (threads k u))"
    using wake_sleeping_ok [OF i w] by blast
  then show ?thesis
    by (cases "curr_state (GetCpuLimiter (managers k 1))")
      (auto simp: Limiter_OnTick_def WakeupSleepingThreads_def ChangeState_def Let_def)
qed

definition limited_kernel :: Kernel where
  "limited_kernel = (ex_kernel [] K_Thread)\<lparr>
     threads := (\<lambda>t. ex_thread (if t = 1 then 40 else 48) (if t = 1 then WaitSleep else Dormant) [] []),
     managers := (\<lambda>_. \<lparr>current_thread = None, wakeup_callback_table = (\<lambda>_. None), thread_list = [1],
       current_schedule_mode = SM_Multi, single_time_limiter = ex_limiter,
       multi_time_limiter = ex_limiter\<lparr>sleeping_thread_ids := [40], curr_state := SS_SYS\<rparr>\<rparr>)\<rparr>"

lemma limiter_tick_wakes_limited_witness:
  "\<exists>k'. Limiter_OnTick switch_env 0 limited_kernel = Some k' \<and> status (threads k' 1) = Ready \<and>
    sleeping_thread_ids (GetCpuLimiter (managers k' 1)) = []"
proof -
  have i: "inj_on (\<lambda>t. thread_id (threads limited_kernel t)) (set (thread_list (managers limited_kernel 1)))"
    "\<forall>t \<in> set (thread_list (managers limited_kernel 1)). status (threads limited_kernel t) = WaitSleep \<longrightarrow>
       wait_objects (threads limited_kernel t) = []"
    by (simp_all add: limited_kernel_def ex_thread_def)
  from limiter_tick_wakes_limited [OF i, of switch_env 0] show ?thesis
    by (auto simp: limited_kernel_def ex_thread_def GetCpuLimiter_def)
qed

subsection \<open>A thread that waits for itself\<close>

text \<open>
  \<^verbatim>\<open>GetHighestPriorityReadyThread\<close> asserts that every listed thread has a waiting status, but
  \<^verbatim>\<open>Thread::Stop\<close> marks the thread dead and wakes its waiters before it takes the thread out of the lists
  it waits in.
\<close>

text \<open>Stopping a thread that is waiting for its own end (a wait on its own handle) fails the assertion on the
  statuses of the waiting threads, so terminating its process aborts the emulator.\<close>
theorem self_wait_stop_aborts:
  assumes "kind (objs k t) = K_Thread" "waiting_threads (objs k t) = [t]"
  shows "Thread_Stop env t k = None"
proof -
  have "GetHighestPriorityReadyThread t (marked_dead t k) = None"
    using assms by (simp add: GetHighestPriorityReadyThread_def marked_dead_sel waiting_status_def)
  then have "wake_loop t (marked_dead t k) = None" by (subst wake_loop.simps) simp
  then show ?thesis by (simp add: Thread_Stop_eq WaitObject_WakeupAllWaitingThreads_def)
qed

lemma self_wait_stop_aborts_witness:
  "Thread_Stop switch_env 3 (AddWaitingThread 3 3 (upd_thread 3 (\<lambda>th. th\<lparr>wait_objects := [3], status := WaitSynchAny\<rparr>)
     (ex_kernel [] K_Thread))) = None"
  by (rule self_wait_stop_aborts)
    (simp_all add: AddWaitingThread_def WaitObject_AddWaitingThread_def is_mutex_def ex_kernel_def)

end
