(* ===== verification/Svc_Sync.thy ===== *)
theory Svc_Sync
  imports Handle_Table Address_Arbiter Threads
begin

text \<open>
  The supervisor calls on threads and wait objects, \<^verbatim>\<open>src/core/hle/kernel/svc.cpp\<close>.

  A call runs on behalf of the current thread of core \<open>sv_core\<close> and its process; it returns the
  result code and, where the code sets one, an output.  The guest memory it reads is given by
  \<open>GuestMem\<close> as a function of the calls made so far.  The handle table holds the identifiers of
  kernel objects with their class.  When a new object finds no free handle, its only
  reference is dropped and its destructor gives the resource back; other ends of object
  lifetime are not modelled.  A reset type is taken as a value of the enumeration.
\<close>

subsection \<open>State\<close>

datatype KObject = KO_Wait oid | KO_Arbiter oid | KO_Process oid

record GuestMem =
  Read32 :: "Call list \<Rightarrow> VAddr \<Rightarrow> u32"
  IsValidVirtualAddress :: "Call list \<Rightarrow> VAddr \<Rightarrow> bool"

record Svc =
  sv_kernel :: Kernel
  sv_table :: "KObject HandleTable"
  sv_core :: nat
  sv_process :: oid
  process_ids :: "oid \<Rightarrow> u32"

definition sv_thread :: "Svc \<Rightarrow> oid option" where
  "sv_thread sv = current_thread (managers (sv_kernel sv) (sv_core sv))"

definition set_kernel :: "Svc \<Rightarrow> Kernel \<Rightarrow> Svc" where
  "set_kernel sv k = sv\<lparr>sv_kernel := k\<rparr>"

definition Get :: "Svc \<Rightarrow> Handle \<Rightarrow> KObject option" where
  "Get sv handle = GetGeneric (map_option KO_Wait (sv_thread sv)) (Some (KO_Process (sv_process sv))) (sv_table sv) handle"

definition Get_WaitObject :: "Svc \<Rightarrow> Handle \<Rightarrow> oid option" where
  "Get_WaitObject sv handle = (case Get sv handle of Some (KO_Wait ob) \<Rightarrow> Some ob | _ \<Rightarrow> None)"

definition Get_Event :: "Svc \<Rightarrow> Handle \<Rightarrow> (oid \<times> Event) option" where
  "Get_Event sv handle = do { ob \<leftarrow> Get_WaitObject sv handle;
     (case kind (objs (sv_kernel sv) ob) of K_Event e \<Rightarrow> Some (ob, e) | _ \<Rightarrow> None) }"

definition Get_Semaphore :: "Svc \<Rightarrow> Handle \<Rightarrow> (oid \<times> Semaphore) option" where
  "Get_Semaphore sv handle = do { ob \<leftarrow> Get_WaitObject sv handle;
     (case kind (objs (sv_kernel sv) ob) of K_Semaphore s \<Rightarrow> Some (ob, s) | _ \<Rightarrow> None) }"

definition Get_Mutex :: "Svc \<Rightarrow> Handle \<Rightarrow> (oid \<times> Mutex) option" where
  "Get_Mutex sv handle = do { ob \<leftarrow> Get_WaitObject sv handle;
     (case kind (objs (sv_kernel sv) ob) of K_Mutex m \<Rightarrow> Some (ob, m) | _ \<Rightarrow> None) }"

definition Get_Timer :: "Svc \<Rightarrow> Handle \<Rightarrow> (oid \<times> Timer) option" where
  "Get_Timer sv handle = do { ob \<leftarrow> Get_WaitObject sv handle;
     (case kind (objs (sv_kernel sv) ob) of K_Timer tm \<Rightarrow> Some (ob, tm) | _ \<Rightarrow> None) }"

definition Get_Thread :: "Svc \<Rightarrow> Handle \<Rightarrow> oid option" where
  "Get_Thread sv handle = do { ob \<leftarrow> Get_WaitObject sv handle;
     (case kind (objs (sv_kernel sv) ob) of K_Thread \<Rightarrow> Some ob | _ \<Rightarrow> None) }"

definition Get_AddressArbiter :: "Svc \<Rightarrow> Handle \<Rightarrow> oid option" where
  "Get_AddressArbiter sv handle = (case Get sv handle of Some (KO_Arbiter a) \<Rightarrow> Some a | _ \<Rightarrow> None)"

definition Get_Process :: "Svc \<Rightarrow> Handle \<Rightarrow> oid option" where
  "Get_Process sv handle = (case Get sv handle of Some (KO_Process p) \<Rightarrow> Some p | _ \<Rightarrow> None)"

definition svc_PrepareReschedule :: "Kernel \<Rightarrow> Kernel" where
  "svc_PrepareReschedule = do_call PrepareReschedule"

subsection \<open>Waiting\<close>

definition block_thread :: "oid \<Rightarrow> ThreadStatus \<Rightarrow> oid list \<Rightarrow> int \<Rightarrow> bool \<Rightarrow> Kernel \<Rightarrow> Kernel" where
  "block_thread t st obs nano_seconds do_output k =
     (let k1 = fold (\<lambda>ob. AddWaitingThread ob t) obs (upd_thread t (\<lambda>th. th\<lparr>status := st\<rparr>) k);
          k2 = WakeAfterDelay t nano_seconds (upd_thread t (\<lambda>th. th\<lparr>wait_objects := obs\<rparr>) k1)
      in svc_PrepareReschedule (upd_thread t (\<lambda>th. th\<lparr>wakeup_callback := Some (SVC_SyncCallback do_output)\<rparr>) k2))"

definition WaitSynchronization1 :: "Svc \<Rightarrow> Handle \<Rightarrow> int \<Rightarrow> (Result \<times> Svc) option" where
  "WaitSynchronization1 sv handle nano_seconds =
     (case Get_WaitObject sv handle of
        None \<Rightarrow> Some (ResultInvalidHandle, sv)
      | Some ob \<Rightarrow> do {
          t \<leftarrow> sv_thread sv;
          let k = sv_kernel sv;
          if ShouldWait ob t k
          then if nano_seconds = 0 then Some (ResultTimeout, sv)
               else do {
                 let k1 = AddWaitingThread ob t (upd_thread t (\<lambda>th. th\<lparr>wait_objects := [ob]\<rparr>) k);
                 let k2 = WakeAfterDelay t nano_seconds (upd_thread t (\<lambda>th. th\<lparr>status := WaitSynchAny\<rparr>) k1);
                 Some (ResultTimeout, set_kernel sv (svc_PrepareReschedule
                   (upd_thread t (\<lambda>th. th\<lparr>wakeup_callback := Some (SVC_SyncCallback False)\<rparr>) k2)))
               }
          else do { k1 \<leftarrow> Acquire ob t k; Some (ResultSuccess, set_kernel sv k1) }
        })"

fun read_objects :: "GuestMem \<Rightarrow> Svc \<Rightarrow> VAddr \<Rightarrow> nat list \<Rightarrow> oid list option" where
  "read_objects mem sv addr [] = Some []"
| "read_objects mem sv addr (i # is) = do {
     ob \<leftarrow> Get_WaitObject sv (Read32 mem (calls (sv_kernel sv)) (addr + of_nat i * 4));
     obs \<leftarrow> read_objects mem sv addr is;
     Some (ob # obs)
   }"

definition wait_all_objects :: "oid \<Rightarrow> oid list \<Rightarrow> int \<Rightarrow> Kernel \<Rightarrow> ((Result \<times> int option) \<times> Kernel) option" where
  "wait_all_objects t obs nano_seconds k =
     (if list_all (\<lambda>ob. \<not> ShouldWait ob t k) obs
      then do { k1 \<leftarrow> for_each (\<lambda>ob. Acquire ob t) obs k; Some ((ResultSuccess, None), k1) }
      else if nano_seconds = 0 then Some ((ResultTimeout, None), k)
      else Some ((ResultTimeout, Some (-1)), block_thread t WaitSynchAll obs nano_seconds False k))"

fun first_index :: "('a \<Rightarrow> bool) \<Rightarrow> 'a list \<Rightarrow> nat option" where
  "first_index P [] = None"
| "first_index P (x # xs) = (if P x then Some 0 else map_option Suc (first_index P xs))"

definition wait_any_object :: "oid \<Rightarrow> oid list \<Rightarrow> int \<Rightarrow> Kernel \<Rightarrow> ((Result \<times> int option) \<times> Kernel) option" where
  "wait_any_object t obs nano_seconds k =
     (case first_index (\<lambda>ob. \<not> ShouldWait ob t k) obs of
        Some i \<Rightarrow> do { k1 \<leftarrow> Acquire (obs ! i) t k; Some ((ResultSuccess, Some (int i)), k1) }
      | None \<Rightarrow> if nano_seconds = 0 then Some ((ResultTimeout, None), k)
                else Some ((ResultTimeout, Some (-1)), block_thread t WaitSynchAny obs nano_seconds True k))"

definition WaitSynchronizationN ::
  "GuestMem \<Rightarrow> Svc \<Rightarrow> VAddr \<Rightarrow> int \<Rightarrow> bool \<Rightarrow> int \<Rightarrow> ((Result \<times> int option) \<times> Svc) option" where
  "WaitSynchronizationN mem sv handles_address handle_count wait_all nano_seconds =
     (if \<not> IsValidVirtualAddress mem (calls (sv_kernel sv)) handles_address then Some ((ResultInvalidPointer, None), sv)
      else if handle_count < 0 then Some ((ResultOutOfRange, None), sv)
      else case read_objects mem sv handles_address [0 ..< nat handle_count] of
             None \<Rightarrow> Some ((ResultInvalidHandle, None), sv)
           | Some obs \<Rightarrow> do {
               t \<leftarrow> sv_thread sv;
               (r, k1) \<leftarrow> (if wait_all then wait_all_objects t obs nano_seconds (sv_kernel sv)
                           else wait_any_object t obs nano_seconds (sv_kernel sv));
               Some (r, set_kernel sv k1)
             })"

definition SleepThread :: "Env \<Rightarrow> (nat \<Rightarrow> Call list \<Rightarrow> bool) \<Rightarrow> Svc \<Rightarrow> int \<Rightarrow> Svc option" where
  "SleepThread env HaveReadyThreads sv nanoseconds =
     (if nanoseconds = 0 \<and> \<not> HaveReadyThreads (sv_core sv) (calls (sv_kernel sv)) then Some sv
      else do {
        k1 \<leftarrow> WaitCurrentThread_Sleep (sv_core sv) (sv_kernel sv);
        t \<leftarrow> sv_thread sv;
        Some (set_kernel sv (svc_PrepareReschedule (WakeAfterDelay t nanoseconds k1)))
      })"

definition svc_ExitThread :: "Env \<Rightarrow> Svc \<Rightarrow> Svc option" where
  "svc_ExitThread env sv = do {
     k1 \<leftarrow> ExitCurrentThread env (sv_core sv) (sv_kernel sv);
     Some (set_kernel sv (svc_PrepareReschedule k1))
   }"

subsection \<open>Creating objects\<close>

definition reserve :: "Svc \<Rightarrow> ResourceLimitType \<Rightarrow> (bool \<times> Svc) option" where
  "reserve sv ty = (let k = sv_kernel sv; cat = process_limit k (sv_process sv) in do {
     (ok, rl) \<leftarrow> Reserve (resource_limits k cat) ty 1;
     Some (ok, set_kernel sv (k\<lparr>resource_limits := (resource_limits k)(cat := rl)\<rparr>))
   })"

definition unreserve :: "Svc \<Rightarrow> ResourceLimitType \<Rightarrow> Svc option" where
  "unreserve sv ty = (let k = sv_kernel sv; cat = process_limit k (sv_process sv) in do {
     (ok, rl) \<leftarrow> Release (resource_limits k cat) ty 1;
     Some (set_kernel sv (k\<lparr>resource_limits := (resource_limits k)(cat := rl)\<rparr>))
   })"

text \<open>\<open>handle_table.Create\<close> for a new object; without a free handle the object is destroyed.\<close>

definition create_handle ::
  "Svc \<Rightarrow> KObject \<Rightarrow> (Svc \<Rightarrow> Svc option) \<Rightarrow> ((Result \<times> Handle option) \<times> Svc) option" where
  "create_handle sv ob destroy = do {
     (r, ht) \<leftarrow> Create (sv_table sv) (Some ob);
     (case r of
        Inr h \<Rightarrow> Some ((ResultSuccess, Some h), sv\<lparr>sv_table := ht\<rparr>)
      | Inl e \<Rightarrow> do { sv1 \<leftarrow> destroy sv; Some ((e, None), sv1) })
   }"

definition out_of :: "u32 \<Rightarrow> Result" where
  "out_of err = mk_Result err EM_OS ES_OutOfResource EL_Status"

definition svc_CreateEvent :: "Svc \<Rightarrow> ResetType \<Rightarrow> ((Result \<times> Handle option) \<times> Svc) option" where
  "svc_CreateEvent sv reset_type = do {
     (ok, sv1) \<leftarrow> reserve sv RLT_Event;
     if \<not> ok then Some ((out_of Err_OutOfEvents, None), sv1)
     else do {
       let (ob, k1) = CreateEvent reset_type (sv_kernel sv1);
       create_handle (set_kernel sv1 k1) (KO_Wait ob) (\<lambda>s. unreserve s RLT_Event)
     }
   }"

definition svc_CreateMutex :: "Svc \<Rightarrow> u32 \<Rightarrow> ((Result \<times> Handle option) \<times> Svc) option" where
  "svc_CreateMutex sv initial_locked = do {
     (ok, sv1) \<leftarrow> reserve sv RLT_Mutex;
     if \<not> ok then Some ((out_of Err_OutOfMutexes, None), sv1)
     else do {
       t \<leftarrow> sv_thread sv1;
       (m, k1) \<leftarrow> CreateMutex (initial_locked \<noteq> 0) t (sv_kernel sv1);
       create_handle (set_kernel sv1 k1) (KO_Wait m) (\<lambda>s. if initial_locked \<noteq> 0 then Some s else unreserve s RLT_Mutex)
     }
   }"

definition svc_CreateSemaphore :: "Svc \<Rightarrow> int \<Rightarrow> int \<Rightarrow> ((Result \<times> Handle option) \<times> Svc) option" where
  "svc_CreateSemaphore sv initial_count max_cnt = do {
     (ok, sv1) \<leftarrow> reserve sv RLT_Semaphore;
     if \<not> ok then Some ((out_of Err_OutOfSemaphores, None), sv1)
     else (case CreateSemaphore initial_count max_cnt (sv_kernel sv1) of
        (Inl e, k1) \<Rightarrow> Some ((e, None), set_kernel sv1 k1)
      | (Inr ob, k1) \<Rightarrow> create_handle (set_kernel sv1 k1) (KO_Wait ob) (\<lambda>s. unreserve s RLT_Semaphore))
   }"

definition svc_CreateTimer :: "Svc \<Rightarrow> ResetType \<Rightarrow> ((Result \<times> Handle option) \<times> Svc) option" where
  "svc_CreateTimer sv reset_type = do {
     (ok, sv1) \<leftarrow> reserve sv RLT_Timer;
     if \<not> ok then Some ((out_of Err_OutOfTimers, None), sv1)
     else do {
       let (ob, k1) = CreateTimer reset_type (sv_kernel sv1);
       let cb = next_timer_callback_id k1;
       create_handle (set_kernel sv1 k1) (KO_Wait ob) (\<lambda>s.
         unreserve (set_kernel s (let k2 = do_call (UnscheduleEvent ET_Timer cb) (sv_kernel s)
                                  in k2\<lparr>timer_callback_table := (timer_callback_table k2)(cb := None)\<rparr>)) RLT_Timer)
     }
   }"

definition svc_CreateAddressArbiter :: "Svc \<Rightarrow> ((Result \<times> Handle option) \<times> Svc) option" where
  "svc_CreateAddressArbiter sv = do {
     (ok, sv1) \<leftarrow> reserve sv RLT_AddressArbiter;
     if \<not> ok then Some ((out_of Err_OutOfAddressArbiters, None), sv1)
     else do {
       let a = next_oid (sv_kernel sv1);
       let k1 = (upd_arbiter a (\<lambda>_. []) (sv_kernel sv1))\<lparr>next_oid := a + 1\<rparr>;
       create_handle (set_kernel sv1 k1) (KO_Arbiter a) (\<lambda>s. unreserve s RLT_AddressArbiter)
     }
   }"

subsection \<open>Operations on objects\<close>

definition SignalEvent :: "Svc \<Rightarrow> Handle \<Rightarrow> (Result \<times> Svc) option" where
  "SignalEvent sv handle = (case Get_Event sv handle of
       None \<Rightarrow> Some (ResultInvalidHandle, sv)
     | Some (ob, e) \<Rightarrow> do { k1 \<leftarrow> Event_Signal ob e (sv_kernel sv); Some (ResultSuccess, set_kernel sv k1) })"

definition ClearEvent :: "Svc \<Rightarrow> Handle \<Rightarrow> Result \<times> Svc" where
  "ClearEvent sv handle = (case Get_Event sv handle of
       None \<Rightarrow> (ResultInvalidHandle, sv)
     | Some (ob, e) \<Rightarrow> (ResultSuccess, set_kernel sv (Event_Clear ob e (sv_kernel sv))))"

definition ReleaseMutex :: "Svc \<Rightarrow> Handle \<Rightarrow> (Result \<times> Svc) option" where
  "ReleaseMutex sv handle = (case Get_Mutex sv handle of
       None \<Rightarrow> Some (ResultInvalidHandle, sv)
     | Some (m, mx) \<Rightarrow> do {
         t \<leftarrow> sv_thread sv;
         (r, k1) \<leftarrow> Mutex_Release m mx t (sv_kernel sv);
         Some (r, set_kernel sv k1)
       })"

definition ReleaseSemaphore :: "Svc \<Rightarrow> Handle \<Rightarrow> int \<Rightarrow> ((Result \<times> int option) \<times> Svc) option" where
  "ReleaseSemaphore sv handle release_count = (case Get_Semaphore sv handle of
       None \<Rightarrow> Some ((ResultInvalidHandle, None), sv)
     | Some (ob, s) \<Rightarrow> do {
         (r, k1) \<leftarrow> Semaphore_Release ob s release_count (sv_kernel sv);
         Some (r, set_kernel sv k1)
       })"

definition ClearTimer :: "Svc \<Rightarrow> Handle \<Rightarrow> Result \<times> Svc" where
  "ClearTimer sv handle = (case Get_Timer sv handle of
       None \<Rightarrow> (ResultInvalidHandle, sv)
     | Some (ob, tm) \<Rightarrow> (ResultSuccess, set_kernel sv (Timer_Clear ob tm (sv_kernel sv))))"

definition SetTimer :: "Svc \<Rightarrow> Handle \<Rightarrow> int \<Rightarrow> int \<Rightarrow> (Result \<times> Svc) option" where
  "SetTimer sv handle initial interval =
     (if \<not> (initial \<ge> 0 \<and> interval \<ge> 0) then Some (ResultOutOfRangeKernel, sv)
      else case Get_Timer sv handle of
             None \<Rightarrow> Some (ResultInvalidHandle, sv)
           | Some (ob, tm) \<Rightarrow> do { k1 \<leftarrow> Timer_Set ob tm initial interval (sv_kernel sv); Some (ResultSuccess, set_kernel sv k1) })"

definition CancelTimer :: "Svc \<Rightarrow> Handle \<Rightarrow> Result \<times> Svc" where
  "CancelTimer sv handle = (case Get_Timer sv handle of
       None \<Rightarrow> (ResultInvalidHandle, sv)
     | Some (ob, tm) \<Rightarrow> (ResultSuccess, set_kernel sv (Timer_Cancel tm (sv_kernel sv))))"

definition svc_ArbitrateAddress :: "GuestMem \<Rightarrow> Svc \<Rightarrow> Handle \<Rightarrow> u32 \<Rightarrow> u32 \<Rightarrow> u32 \<Rightarrow> u64 \<Rightarrow> (Result \<times> Svc) option" where
  "svc_ArbitrateAddress mem sv handle addr type val nanoseconds = (case Get_AddressArbiter sv handle of
       None \<Rightarrow> Some (ResultInvalidHandle, sv)
     | Some a \<Rightarrow> do {
         t \<leftarrow> sv_thread sv;
         (r, k1) \<leftarrow> ArbitrateAddress (Read32 mem) a t type addr (sint val) nanoseconds (sv_kernel sv);
         Some (r, set_kernel sv (svc_PrepareReschedule k1))
       })"

definition GetThreadPriority :: "Svc \<Rightarrow> Handle \<Rightarrow> Result \<times> u32 option" where
  "GetThreadPriority sv handle = (case Get_Thread sv handle of
       None \<Rightarrow> (ResultInvalidHandle, None)
     | Some t \<Rightarrow> (ResultSuccess, Some (current_priority (threads (sv_kernel sv) t))))"

definition SetThreadPriority :: "Svc \<Rightarrow> Handle \<Rightarrow> u32 \<Rightarrow> (Result \<times> Svc) option" where
  "SetThreadPriority sv handle priority =
     (if \<not> priority \<le> ThreadPrioLowest then Some (ResultOutOfRange, sv)
      else case Get_Thread sv handle of
             None \<Rightarrow> Some (ResultInvalidHandle, sv)
           | Some t \<Rightarrow> do {
               let k = sv_kernel sv;
               max_priority \<leftarrow> GetLimitValue (resource_limits k (process_limit k (sv_process sv))) RLT_Priority;
               if \<not> (word_of_int max_priority :: u32) \<le> priority then Some (ResultNotAuthorized, sv)
               else do {
                 k1 \<leftarrow> SetPriority t priority k;
                 let k2 = UpdatePriority t k1;
                 let k3 = fold Mutex_UpdatePriority (pending_mutexes (threads k2 t)) k2;
                 Some (ResultSuccess, set_kernel sv (svc_PrepareReschedule k3))
               }
             })"

definition GetThreadId :: "Svc \<Rightarrow> Handle \<Rightarrow> Result \<times> u32 option" where
  "GetThreadId sv handle = (case Get_Thread sv handle of
       None \<Rightarrow> (ResultInvalidHandle, None)
     | Some t \<Rightarrow> (ResultSuccess, Some (thread_id (threads (sv_kernel sv) t))))"

definition GetProcessId :: "Svc \<Rightarrow> Handle \<Rightarrow> Result \<times> u32 option" where
  "GetProcessId sv handle = (case Get_Process sv handle of
       None \<Rightarrow> (ResultInvalidHandle, None)
     | Some p \<Rightarrow> (ResultSuccess, Some (process_ids sv p)))"

definition GetProcessIdOfThread :: "Svc \<Rightarrow> Handle \<Rightarrow> (Result \<times> u32 option) option" where
  "GetProcessIdOfThread sv handle = (case Get_Thread sv handle of
       None \<Rightarrow> Some (ResultInvalidHandle, None)
     | Some t \<Rightarrow> do {
         p \<leftarrow> owner_process (threads (sv_kernel sv) t);
         Some (ResultSuccess, Some (process_ids sv p))
       })"

definition CloseHandle :: "Svc \<Rightarrow> Handle \<Rightarrow> Result \<times> Svc" where
  "CloseHandle sv handle = (let (r, ht) = Close (sv_table sv) handle in (r, sv\<lparr>sv_table := ht\<rparr>))"

definition DuplicateHandle :: "Svc \<Rightarrow> Handle \<Rightarrow> ((Result \<times> Handle option) \<times> Svc) option" where
  "DuplicateHandle sv handle = do {
     (r, ht) \<leftarrow> Duplicate (map_option KO_Wait (sv_thread sv)) (Some (KO_Process (sv_process sv))) (sv_table sv) handle;
     (case r of
        Inr h \<Rightarrow> Some ((ResultSuccess, Some h), sv\<lparr>sv_table := ht\<rparr>)
      | Inl e \<Rightarrow> Some ((e, None), sv))
   }"

end
