(* ===== verification/Svc_Invariant.thy ===== *)
theory Svc_Invariant
  imports Svc_Sync
begin

text \<open>
  The supervisor calls keep the kernel consistent: waiting lists and wait sets mirror each other,
  priorities are in range, every mutex is in the set of exactly its holder, and the arbiter
  lists hold exactly threads that wait there.  A thread that calls is running, so it is in no list.
\<close>

definition kernel_inv :: "Kernel \<Rightarrow> bool" where
  "kernel_inv k \<longleftrightarrow> wait_inv k \<and> prio_inv k \<and> mutex_inv k \<and> arb_inv k"

lemma kernel_invD:
  assumes "kernel_inv k"
  shows "wait_inv k" "prio_inv k" "mutex_inv k" "arb_inv k"
  using assms by (simp_all add: kernel_inv_def)

text \<open>Threads in these states are in no list.\<close>

lemma running_idle:
  assumes "kernel_inv k" "status (threads k t) \<in> {Running, Ready, WaitSleep}"
  shows "wait_objects (threads k t) = []" "t \<notin> set (waiting_threads (objs k w))" "t \<notin> set (arbiters k a)"
proof -
  note i = kernel_invD [OF assms(1)]
  show "wait_objects (threads k t) = []" using wait_invD(4) [OF i(1), of t] assms(2) unfolding waiting_status_def by fastforce
  then show "t \<notin> set (waiting_threads (objs k w))" using wait_invD(3) [OF i(1)] by simp
  show "t \<notin> set (arbiters k a)" using arb_invD(2) [OF i(4), of t a] assms(2) by auto
qed

text \<open>A change of nothing the invariant speaks about, up to the status of threads that stay in no list.\<close>

lemma kernel_inv_frame:
  assumes "kernel_inv k" "\<And>w. waiting_threads (objs k' w) = waiting_threads (objs k w)"
    "\<And>w. owner (kind (objs k' w)) = owner (kind (objs k w)) \<and> count_ok (kind (objs k' w)) = count_ok (kind (objs k w))"
    "\<And>u. wait_objects (threads k' u) = wait_objects (threads k u) \<and> held_mutexes (threads k' u) = held_mutexes (threads k u)"
    "\<And>u. status (threads k' u) = status (threads k u) \<and> wakeup_callback (threads k' u) = wakeup_callback (threads k u) \<or>
       status (threads k u) \<in> {Running, Ready, WaitSleep}"
    "prio_inv k'" "arbiters k' = arbiters k"
  shows "kernel_inv k'"
proof -
  note i = kernel_invD [OF assms(1)] and r = running_idle [OF assms(1)]
  have "wait_inv k'" using i(1) assms(5) r(1) unfolding wait_inv_def assms(2) assms(4) [THEN conjunct1] by metis
  moreover have "mutex_inv k'" using i(3) mutex_inv_owners [of k' k "{}"] assms(3,4) by (simp add: mutex_inv_def)
  moreover have "arb_inv k'" using i(4) assms(5) r(3) unfolding arb_inv_def assms(7) assms(4) [THEN conjunct1] by metis
  ultimately show ?thesis using assms(6) by (simp add: kernel_inv_def)
qed

lemma kernel_inv_call [simp]: "kernel_inv (do_call c k) = kernel_inv k"
  by (simp add: kernel_inv_def wait_inv_def mutex_inv_def mutex_inv_ex_def arb_inv_def)

lemma kernel_inv_kind:
  assumes "kernel_inv k" "owner kd = owner (kind (objs k ob))" "count_ok kd"
  shows "kernel_inv (set_kind ob kd k)"
proof -
  have c: "count_ok (kind (objs k w))" for w using assms(1) by (simp add: kernel_inv_def mutex_inv_def mutex_inv_ex_def)
  show ?thesis by (rule kernel_inv_frame [OF assms(1)]) (use assms kernel_invD(2) [OF assms(1)] c in auto)
qed

subsection \<open>Waking\<close>

lemma wakes_arb:
  assumes "wakes ob k ts k'" "wait_inv k" "arb_inv k"
  shows "arb_inv k'"
proof -
  have "u \<notin> set (arbiters k a)" if "u \<in> set ts" for u a
    using that assms(1) wait_invD(3) [OF assms(2), of u ob] arb_invD(3) [OF assms(3), of u a] by (auto simp: wakes_def)
  moreover have "arbiters k' = arbiters k" using assms(1) restD(1) unfolding wakes_def by blast
  moreover have "status (threads k' u) = status (threads k u) \<and> wait_objects (threads k' u) = wait_objects (threads k u)"
    if "u \<notin> set ts" for u using assms(1) that by (simp add: wakes_def)
  ultimately show ?thesis using assms(3) unfolding arb_inv_def by metis
qed

lemma wakeup_kernel_inv:
  assumes "kernel_inv k"
  shows "\<exists>k'. WakeupAllWaitingThreads ob k = Some k' \<and> kernel_inv k'"
proof -
  note i = kernel_invD [OF assms]
  obtain ts k1 k' where w: "WakeupAllWaitingThreads ob k = Some k'" "wakes ob k ts k'"
    by (rule wakeup_ok [OF i(1,2)]) blast
  have "mutex_inv k'" using mutex_inv_wakeup [OF i(1,2) _ w(1)] i(3) by (simp add: mutex_inv_def)
  then show ?thesis using w wakes_arb [OF w(2) i(1,4)] by (auto simp: kernel_inv_def wakes_def)
qed

lemma Event_Signal_inv:
  assumes "kernel_inv k" "kind (objs k ob) = K_Event e"
  shows "\<exists>k'. Event_Signal ob e k = Some k' \<and> kernel_inv k'"
  unfolding Event_Signal_def by (rule wakeup_kernel_inv, rule kernel_inv_kind) (use assms in auto)

lemma Timer_Signal_inv:
  assumes "kernel_inv k" "kind (objs k ob) = K_Timer tm"
  shows "\<exists>k'. Timer_Signal ob tm late k = Some k' \<and> kernel_inv k'"
  using wakeup_kernel_inv [OF kernel_inv_kind [of k "K_Timer (tm\<lparr>tm_signaled := True\<rparr>)" ob], of ob] assms
  by (auto simp: Timer_Signal_def)

lemma Timer_Set_inv:
  assumes "kernel_inv k" "kind (objs k ob) = K_Timer tm"
  shows "\<exists>k'. Timer_Set ob tm i p k = Some k' \<and> kernel_inv k'"
proof -
  let ?tm = "tm\<lparr>initial_delay := i, interval_delay := p\<rparr>"
  have "kernel_inv (set_kind ob (K_Timer ?tm) (Timer_Cancel tm k))"
    by (rule kernel_inv_kind) (use assms in \<open>auto simp: Timer_Cancel_def\<close>)
  then show ?thesis using Timer_Signal_inv [of _ ob ?tm 0] by (auto simp: Timer_Set_def Let_def)
qed

lemma Semaphore_Release_inv:
  assumes "kernel_inv k" "kind (objs k ob) = K_Semaphore s" "Semaphore_Release ob s n k = Some (r, k')"
  shows "kernel_inv k'"
proof -
  have "kernel_inv (set_kind ob (K_Semaphore (s\<lparr>available_count := v\<rparr>)) k)" for v
    by (rule kernel_inv_kind) (use assms(1,2) in auto)
  then show ?thesis using assms(1,3) wakeup_kernel_inv
    by (auto simp: Semaphore_Release_def bind_eq_Some_iff split: if_splits) (metis option.inject)
qed

lemma Mutex_Release_inv:
  assumes inv: "kernel_inv k" and m: "kind (objs k m) = K_Mutex mx"
  shows "\<exists>r k'. Mutex_Release m mx t k = Some (r, k') \<and> kernel_inv k'"
proof (cases "holding_thread mx = Some t")
  case True
  note i = kernel_invD [OF inv]
  have ok: "count_ok (K_Mutex mx)" using i(3) m unfolding mutex_inv_def mutex_inv_ex_def by metis
  show ?thesis
  proof (cases "lock_count mx > 1")
    case True
    then have "kernel_inv (set_kind m (K_Mutex (mx\<lparr>lock_count := lock_count mx - 1\<rparr>)) k)"
      by (intro kernel_inv_kind [OF inv]) (use m ok in auto)
    then show ?thesis using True \<open>holding_thread mx = Some t\<close> by (auto simp: Mutex_Release_def)
  next
    case False
    then have one: "lock_count mx = 1" using ok \<open>holding_thread mx = Some t\<close> by auto
    have "kernel_inv (freed m mx t k)"
      using freed_inv [OF i(1,2) i(3) [unfolded mutex_inv_def] m \<open>holding_thread mx = Some t\<close>] i(4)
      by (simp add: kernel_inv_def mutex_inv_def arb_inv_def freed_def restD(1) [OF UpdatePriority_frame(2)])
    from wakeup_kernel_inv [OF this, of m] show ?thesis
      using one \<open>holding_thread mx = Some t\<close> by (auto simp: Mutex_Release_def Let_def freed_def)
  qed
next
  case False
  then show ?thesis using inv by (auto simp: Mutex_Release_def)
qed

subsection \<open>Waiting\<close>

lemma Acquire_inv: "kernel_inv k \<Longrightarrow> Acquire ob t k = Some k' \<Longrightarrow> kernel_inv k'"
proof -
  assume i: "kernel_inv k" and a: "Acquire ob t k = Some k'"
  note i = kernel_invD [OF i] and f = Acquire_frame [OF a]
  have "arb_inv k'" using i(4) by (simp add: arb_inv_def wait_frameD [OF f] restD(1) [OF wait_frameD(7) [OF f]])
  then show "kernel_inv k'"
    using i(1-3) wait_inv_frame [OF f] prio_inv_Acquire [OF a] mutex_inv_Acquire [OF _ a] by (simp add: kernel_inv_def mutex_inv_def)
qed

lemma acquire_all_inv: "kernel_inv k \<Longrightarrow> for_each (\<lambda>ob. Acquire ob t) obs k = Some k' \<Longrightarrow> kernel_inv k'"
  by (induction obs arbitrary: k) (auto simp: bind_eq_Some_iff dest: Acquire_inv)

definition add_all :: "oid \<Rightarrow> oid list \<Rightarrow> Kernel \<Rightarrow> Kernel" where
  "add_all t obs k = fold (\<lambda>ob. AddWaitingThread ob t) obs k"

lemma add_all_frame:
  "rest (add_all t obs k) = rest k" "core_kind (kind (objs (add_all t obs k) w)) = core_kind (kind (objs k w))"
  "status (threads (add_all t obs k) u) = status (threads k u)"
  "wait_objects (threads (add_all t obs k) u) = wait_objects (threads k u)"
  "wakeup_callback (threads (add_all t obs k) u) = wakeup_callback (threads k u)"
  "held_mutexes (threads (add_all t obs k) u) = held_mutexes (threads k u)"
  "prio_inv k \<Longrightarrow> prio_inv (add_all t obs k)"
  unfolding add_all_def by (induction obs arbitrary: k; simp add: prio_inv_AddWaitingThread)+

lemma add_all_waiting:
  assumes "t \<notin> set (waiting_threads (objs k w))" "distinct obs"
  shows "waiting_threads (objs (add_all t obs k) w) = waiting_threads (objs k w) @ (if w \<in> set obs then [t] else [])"
proof -
  have nin: "w \<notin> set obs \<Longrightarrow> waiting_threads (objs (add_all t obs k) w) = waiting_threads (objs k w)" for obs k
    unfolding add_all_def by (induction obs arbitrary: k) auto
  show ?thesis using assms
  proof (induction obs arbitrary: k)
    case (Cons v obs)
    show ?case
    proof (cases "w = v")
      case True
      then show ?thesis using Cons.prems nin [of obs "AddWaitingThread v t k"] by (simp add: add_all_def)
    next
      case False
      then show ?thesis using Cons.prems Cons.IH [of "AddWaitingThread v t k"] by (simp add: add_all_def)
    qed
  qed (simp add: add_all_def)
qed

text \<open>A running thread enters the lists of distinct objects.\<close>

lemma kernel_inv_enter:
  assumes inv: "kernel_inv k" and t: "status (threads k t) = Running" "distinct obs"
    and st: "obs \<noteq> [] \<Longrightarrow> waiting_status (status (threads k' t))" "status (threads k' t) \<noteq> WaitArb"
      "sync_callback (wakeup_callback (threads k' t))"
    and w: "\<And>w. waiting_threads (objs k' w) = waiting_threads (objs k w) @ (if w \<in> set obs then [t] else [])"
      "\<And>w. core_kind (kind (objs k' w)) = core_kind (kind (objs k w))"
    and th: "\<And>u. u \<noteq> t \<Longrightarrow> status (threads k' u) = status (threads k u) \<and> wakeup_callback (threads k' u) = wakeup_callback (threads k u)"
      "\<And>u. wait_objects (threads k' u) = (if u = t then obs else wait_objects (threads k u))"
      "\<And>u. held_mutexes (threads k' u) = held_mutexes (threads k u)"
    and p: "prio_inv k'" "arbiters k' = arbiters k"
  shows "kernel_inv k'"
proof -
  note i = kernel_invD [OF inv] and r = running_idle [OF inv, of t, simplified t(1), simplified]
  have "distinct (waiting_threads (objs k' v))" for v using wait_invD(1) [OF i(1), of v] r(2) by (simp add: w(1))
  moreover have "distinct (wait_objects (threads k' u))" for u using wait_invD(2) [OF i(1), of u] t(2) by (simp add: th(2))
  moreover have "u \<in> set (waiting_threads (objs k' v)) \<longleftrightarrow> v \<in> set (wait_objects (threads k' u))" for u v
    using wait_invD(3) [OF i(1), of u v] r(1,2) by (auto simp: w(1) th(2))
  moreover have "waiting_status (status (threads k' u)) \<and> sync_callback (wakeup_callback (threads k' u))"
    if "wait_objects (threads k' u) \<noteq> []" for u
    using that st(1,3) th(1,2) [of u] wait_invD(4,5) [OF i(1), of u] by (cases "u = t") simp_all
  ultimately have "wait_inv k'" unfolding wait_inv_def by blast
  moreover have "mutex_inv k'" using i(3) mutex_inv_cong [of k' k "{}", OF w(2) th(3)] by (simp add: mutex_inv_def)
  moreover have "arb_inv k'" using i(4) r(3) th(1,2) unfolding arb_inv_def p(2) by metis
  ultimately show ?thesis using p(1) by (simp add: kernel_inv_def)
qed

lemma WakeAfterDelay_frame [simp]:
  "objs (WakeAfterDelay t ns k) = objs k" "threads (WakeAfterDelay t ns k) = threads k"
  "rest (WakeAfterDelay t ns k) = rest k" "arbiters (WakeAfterDelay t ns k) = arbiters k" "prio_inv (WakeAfterDelay t ns k) = prio_inv k"
  by (simp_all add: WakeAfterDelay_def)

lemma add_all_arbiters [simp]: "arbiters (add_all t obs k) = arbiters k"
  by (rule restD(1)) (rule add_all_frame)

lemma prio_inv_thread [simp]:
  "prio_inv (upd_thread t (\<lambda>th. th\<lparr>status := s\<rparr>) k) = prio_inv k"
  "prio_inv (upd_thread t (\<lambda>th. th\<lparr>wakeup_callback := c\<rparr>) k) = prio_inv k"
  "prio_inv (upd_thread t (\<lambda>th. th\<lparr>wait_address := a, status := s\<rparr>) k) = prio_inv k"
  by (rule prio_inv_cong; simp)+

lemma block_thread_inv:
  assumes inv: "kernel_inv k" and t: "status (threads k t) = Running" "distinct obs" "st \<in> {WaitSynchAny, WaitSynchAll}"
  shows "kernel_inv (block_thread t st obs ns b k)"
  unfolding block_thread_def svc_PrepareReschedule_def add_all_def [symmetric] Let_def kernel_inv_call
proof (rule kernel_inv_enter [OF inv t(1,2)])
qed (use t(3) kernel_invD(2) [OF inv] running_idle [OF inv, of t] t(1,2)
  in \<open>auto simp: add_all_frame add_all_waiting waiting_status_def sync_callback_def\<close>)

lemma wait1_inv:
  assumes inv: "kernel_inv k" and t: "status (threads k t) = Running"
  shows "kernel_inv (svc_PrepareReschedule (upd_thread t (\<lambda>th. th\<lparr>wakeup_callback := Some (SVC_SyncCallback b)\<rparr>)
    (WakeAfterDelay t ns (upd_thread t (\<lambda>th. th\<lparr>status := WaitSynchAny\<rparr>)
      (AddWaitingThread ob t (upd_thread t (\<lambda>th. th\<lparr>wait_objects := [ob]\<rparr>) k))))))"
  unfolding svc_PrepareReschedule_def kernel_inv_call
proof (rule kernel_inv_enter [OF inv t, of "[ob]"])
qed (use kernel_invD(2) [OF inv] running_idle [OF inv, of t] t restD(1) [OF AddWaitingThread_frame(3)]
  in \<open>auto simp: waiting_status_def sync_callback_def prio_inv_AddWaitingThread\<close>)

subsection \<open>Arbiters, priorities, sleeping\<close>

lemma arb_woken_inv:
  assumes "kernel_inv k" "arb_woken a ts k k'"
  shows "kernel_inv k'"
proof -
  note i = kernel_invD [OF assms(1)]
  have o: "objs k' = objs k" using assms(2) by (simp add: arb_woken_def)
  have th: "wait_objects (threads k' u) = wait_objects (threads k u)" "held_mutexes (threads k' u) = held_mutexes (threads k u)"
    "nominal_priority (threads k' u) = nominal_priority (threads k u)" "current_priority (threads k' u) = current_priority (threads k u)"
    for u using assms(2) by (simp_all add: arb_woken_def)
  have w: "wait_objects (threads k u) \<noteq> [] \<Longrightarrow> threads k' u = threads k u" for u
    using assms(2) arb_invD(3) [OF i(4), of u a] by (auto simp: arb_woken_def)
  have "wait_inv k'" using i(1) unfolding wait_inv_def o th by (metis w)
  moreover have "prio_inv k'" using i(2) by (simp add: prio_inv_def th)
  moreover have "mutex_inv k'" using i(3) by (simp add: mutex_inv_def mutex_inv_ex_def o th)
  ultimately show ?thesis using assms(2) by (simp add: kernel_inv_def arb_woken_def)
qed

lemma arbitrate_signal_inv:
  assumes "kernel_inv k"
  shows "\<exists>k'. arbitrate_signal a t addr val k = Some k' \<and> kernel_inv k'"
proof -
  have i: "arb_inv k" by (rule kernel_invD [OF assms])
  obtain n ts k1 where "(if val < 0 then ResumeAllThreads a addr k else resume_n (nat val) a addr k) = Some (n, k1)" "arb_woken a ts k k1"
    using ResumeAllThreads_ok [OF i, of a addr] resume_n_ok [OF i, of "nat val" a addr] by (cases "val < 0") auto
  then show ?thesis using arb_woken_inv [OF assms] by (auto simp: arbitrate_signal_def)
qed

lemma arbitrate_wait_inv:
  assumes inv: "kernel_inv k" and t: "status (threads k t) = Running" and w: "arbitrate_wait a t addr v d tm k = Some k'"
  shows "kernel_inv k'"
proof -
  note i = kernel_invD [OF inv] and r = running_idle [OF inv, of t, simplified t, simplified]
  have o: "objs k' = objs k" and arb: "arbiters k' b = (if b = a then arbiters k a @ [t] else arbiters k b)" for b
    using w by (auto simp: arbitrate_wait_def WaitThread_def bind_eq_Some_iff split: option.splits if_splits)
  have th: "u \<noteq> t \<Longrightarrow> threads k' u = threads k u" "status (threads k' t) = WaitArb"
    "wait_objects (threads k' u) = wait_objects (threads k u)" "held_mutexes (threads k' u) = held_mutexes (threads k u)"
    "nominal_priority (threads k' u) = nominal_priority (threads k u)" "current_priority (threads k' u) = current_priority (threads k u)"
    for u using w by (auto simp: arbitrate_wait_def WaitThread_def bind_eq_Some_iff split: option.splits if_splits)
  have "wait_inv k'" using i(1) r(1) unfolding wait_inv_def o th(3) by (metis th(1))
  moreover have "prio_inv k'" using i(2) by (simp add: prio_inv_def th)
  moreover have "mutex_inv k'" using i(3) by (simp add: mutex_inv_def mutex_inv_ex_def o th)
  moreover have "arb_inv k'"
    using arb_invD [OF i(4)] r(1,3) th(1,2) unfolding arb_inv_def arb th(3)
    by (auto split: if_splits) (metis th(1,2))+
  ultimately show ?thesis by (simp add: kernel_inv_def)
qed

lemma ArbitrateAddress_inv:
  assumes inv: "kernel_inv k" and t: "status (threads k t) = Running"
    and a: "ArbitrateAddress read32 a t ty addr val ns k = Some (r, k')"
  shows "kernel_inv k'"
  using a inv arbitrate_signal_inv [OF inv, of a t addr val] arbitrate_wait_inv [OF inv t]
  by (auto simp: ArbitrateAddress_def Let_def bind_eq_Some_iff split: if_splits)

lemma kernel_inv_status:
  assumes "kernel_inv k" "status (threads k t) \<in> {Running, Ready, WaitSleep}" 
  shows "kernel_inv (upd_thread t (\<lambda>th. th\<lparr>status := s\<rparr>) k)"
  by (rule kernel_inv_frame [OF assms(1)]) (use assms kernel_invD(2) [OF assms(1)] in auto)

lemma update_priorities_inv: "kernel_inv k \<Longrightarrow> kernel_inv (fold Mutex_UpdatePriority ms k)"
proof (induction ms arbitrary: k)
  case (Cons m ms)
  have "kernel_inv (Mutex_UpdatePriority m k)"
    by (rule kernel_inv_frame [OF Cons.prems])
      (use prio_inv_Mutex_UpdatePriority [OF kernel_invD(2) [OF Cons.prems]] owner_core [OF Mutex_UpdatePriority_core]
        restD(1) [OF Mutex_UpdatePriority_frame(3)] in auto)
  then show ?case using Cons.IH by simp
qed simp

lemma SetPriority_inv:
  assumes "kernel_inv k" "SetPriority t p k = Some k'"
  shows "kernel_inv k'" "kernel_inv (UpdatePriority t k')"
proof -
  have p: "prio_inv k'" using assms(2) kernel_invD(2) [OF assms(1)] by (auto simp: SetPriority_def prio_inv_def Let_def split: if_splits)
  show k': "kernel_inv k'"
    by (rule kernel_inv_frame [OF assms(1) _ _ _ _ p]) (use assms(2) in \<open>auto simp: SetPriority_def Let_def split: if_splits\<close>)
  show "kernel_inv (UpdatePriority t k')"
    by (rule kernel_inv_frame [OF k' _ _ _ _ prio_inv_UpdatePriority [OF p]])
      (use restD(1) [OF UpdatePriority_frame(2)] in auto)
qed

lemma sync_timeout_inv:
  assumes inv: "kernel_inv k" and t: "wakeup_callback_table (managers k c) tid = Some t"
    "wait_objects (threads k t) \<noteq> []"
  shows "\<exists>k'. ThreadWakeupCallback c tid k = Some k' \<and> kernel_inv k'"
proof -
  note i = kernel_invD [OF inv]
  have st: "status (threads k t) \<in> {WaitSynchAny, WaitSynchAll, WaitHleEvent}"
    using wait_invD(4) [OF i(1) t(2)] by (simp add: waiting_status_def)
  obtain k0 where k0: "(case wakeup_callback (threads k t) of Some cb \<Rightarrow> WakeUp cb WR_Timeout t None k | None \<Rightarrow> Some k) = Some k0"
    and f: "wait_frame k k0" "objs k0 = objs k"
    and h: "\<And>u. held_mutexes (threads k0 u) = held_mutexes (threads k u)" "prio_inv k0"
  proof (cases "wakeup_callback (threads k t)")
    case None
    then show thesis using that [of k] i(2) by simp
  next
    case (Some cb)
    then obtain b where b: "cb = SVC_SyncCallback b"
      using wait_invD(5) [OF i(1) t(2)] unfolding sync_callback_def by (auto split: WakeupCallback.splits)
    let ?k0 = "SetWaitSynchronizationResult t ResultTimeout k"
    have "objs ?k0 = objs k" "held_mutexes (threads ?k0 u) = held_mutexes (threads k u)" "prio_inv ?k0" for u
      using i(2) by (simp_all add: SetWaitSynchronizationResult_def prio_inv_def)
    then show thesis using that [of ?k0] Some b by (simp add: SyncCallback_WakeUp_def SetWait_frame)
  qed
  have i0: "wait_inv k0" by (rule wait_inv_frame [OF f(1) i(1)])
  let ?k1 = "leave_wait t k0"
  have nt: "wait_objects (threads ?k1 t) = []" by (simp add: leave_wait_frame [OF i0])
  obtain k' where k': "ResumeFromWait t ?k1 = Some k'" "objs k' = objs ?k1" "rest k' = rest ?k1"
    "threads k' = (threads ?k1)(t := (threads ?k1 t)\<lparr>wakeup_callback := None, status := Ready\<rparr>)"
    by (rule ResumeFromWait_ok [of ?k1 t]) (use st in \<open>auto simp: leave_wait_frame [OF i0] wait_frameD [OF f(1)]\<close>)
  have "ThreadWakeupCallback c tid k = Some k'"
    using st t(1) k0 k'(1) by (auto simp: ThreadWakeupCallback_def)
  moreover have "wait_inv k'" using wait_inv_leave [OF i0, of t] nt unfolding wait_inv_def k'(2,4) by auto
  moreover have "prio_inv k'" using leave_wait_frame(9) [OF i0 h(2), of t] by (simp add: prio_inv_def k'(4))
  moreover have "mutex_inv k'"
    using i(3) mutex_inv_cong [of k' k "{}"] by (simp add: mutex_inv_def k' leave_wait_frame [OF i0] f(2) h(1))
  moreover have "arbiters k' = arbiters k"
    using restD(1) [OF k'(3)] restD(1) [OF wait_frameD(7) [OF f(1)]] leave_wait_frame [OF i0, of t] restD(1) by metis
  then have "arb_inv k'"
    using i(4) st nt unfolding arb_inv_def by (auto simp: k'(4) leave_wait_frame [OF i0] wait_frameD [OF f(1)])
  ultimately show ?thesis by (simp add: kernel_inv_def)
qed

subsection \<open>Switching threads\<close>

lemma kernel_inv_manager [simp]: "kernel_inv (upd_manager c f k) = kernel_inv k"
  by (simp add: kernel_inv_def wait_inv_def prio_inv_def mutex_inv_def mutex_inv_ex_def arb_inv_def)

lemma kernel_inv_ticks [simp]: "kernel_inv k \<Longrightarrow> kernel_inv (upd_thread t (\<lambda>th. th\<lparr>last_running_ticks := n\<rparr>) k)"
  by (rule kernel_inv_frame) (auto simp: prio_inv_def dest: kernel_invD(2))

lemma save_previous_inv: "kernel_inv k \<Longrightarrow> kernel_inv (save_previous env c p k)"
  by (auto simp: save_previous_def Let_def intro!: kernel_inv_status)

lemma load_next_inv: "load_next c pp n k = Some k' \<Longrightarrow> kernel_inv k \<Longrightarrow> kernel_inv k'"
  by (auto simp: load_next_def Let_def bind_eq_Some_iff split: if_splits intro!: kernel_inv_status)

lemma SwitchContext_inv: "SwitchContext env c new k = Some k' \<Longrightarrow> kernel_inv k \<Longrightarrow> kernel_inv k'"
  by (auto simp: SwitchContext_def Let_def save_previous_inv split: option.splits dest: load_next_inv)

lemma Reschedule_inv:
  assumes inv: "kernel_inv k" and s: "serves env c k" "c \<noteq> 1" and r: "Reschedule env c k = Some k'"
  shows "kernel_inv k'"
proof -
  obtain nx k1 where p: "pop_candidate env c k = Some (nx, k1)" "threads k1 = threads k" "objs k1 = objs k" "rest k1 = rest k"
    using pop_candidate_ok [OF s(1)] by blast
  have "PopNextReadyThread env c k = Some (nx, k1)"
    using s(2) by (subst PopNextReadyThread.simps) (simp add: p(1) split: option.split)
  moreover have "kernel_inv k1"
    by (rule kernel_inv_frame [OF inv]) (use kernel_invD(2) [OF inv] p(2,3) restD(1) [OF p(4)] in \<open>auto simp: prio_inv_def\<close>)
  ultimately show ?thesis using r SwitchContext_inv by (auto simp: Reschedule_def split: if_splits)
qed

subsection \<open>Steps\<close>

text \<open>
  A step of the kernel: a call by a running thread, the end of a timeout, a timer, or a
  switch on a core.  The handle list of a wait names distinct objects.
\<close>

definition runs :: "Svc \<Rightarrow> bool" where
  "runs sv \<longleftrightarrow> (\<exists>t. sv_thread sv = Some t \<and> status (threads (sv_kernel sv) t) = Running)"

inductive sync_step :: "Svc \<Rightarrow> Svc \<Rightarrow> bool" where
  step_wait1: "runs sv \<Longrightarrow> WaitSynchronization1 sv h ns = Some (r, sv') \<Longrightarrow> sync_step sv sv'"
| step_waitN: "runs sv \<Longrightarrow> WaitSynchronizationN mem sv addr n all ns = Some (r, sv') \<Longrightarrow>
    (\<forall>obs. read_objects mem sv addr [0 ..< nat n] = Some obs \<longrightarrow> distinct obs) \<Longrightarrow> sync_step sv sv'"
| step_signal: "SignalEvent sv h = Some (r, sv') \<Longrightarrow> sync_step sv sv'"
| step_clear: "ClearEvent sv h = (r, sv') \<Longrightarrow> sync_step sv sv'"
| step_release_mutex: "ReleaseMutex sv h = Some (r, sv') \<Longrightarrow> sync_step sv sv'"
| step_release_semaphore: "ReleaseSemaphore sv h n = Some (r, sv') \<Longrightarrow> sync_step sv sv'"
| step_set_timer: "SetTimer sv h i p = Some (r, sv') \<Longrightarrow> sync_step sv sv'"
| step_clear_timer: "ClearTimer sv h = (r, sv') \<Longrightarrow> sync_step sv sv'"
| step_cancel_timer: "CancelTimer sv h = (r, sv') \<Longrightarrow> sync_step sv sv'"
| step_timer: "TimerCallback cb late (sv_kernel sv) = Some k' \<Longrightarrow> sync_step sv (set_kernel sv k')"
| step_arbitrate: "runs sv \<Longrightarrow> svc_ArbitrateAddress mem sv h addr ty v ns = Some (r, sv') \<Longrightarrow> sync_step sv sv'"
| step_priority: "SetThreadPriority sv h p = Some (r, sv') \<Longrightarrow> sync_step sv sv'"
| step_sleep: "runs sv \<Longrightarrow> SleepThread env ready sv ns = Some sv' \<Longrightarrow> sync_step sv sv'"
| step_timeout: "wakeup_callback_table (managers (sv_kernel sv) c) tid = Some t \<Longrightarrow> wait_objects (threads (sv_kernel sv) t) \<noteq> [] \<Longrightarrow>
    ThreadWakeupCallback c tid (sv_kernel sv) = Some k' \<Longrightarrow> sync_step sv (set_kernel sv k')"
| step_reschedule: "serves env c (sv_kernel sv) \<Longrightarrow> c \<noteq> 1 \<Longrightarrow> Reschedule env c (sv_kernel sv) = Some k' \<Longrightarrow>
    sync_step sv (set_kernel sv k')"
| step_core: "sync_step sv (sv\<lparr>sv_core := c, sv_process := p, sv_table := ht\<rparr>)"

lemma set_kernel_sel [simp]: "sv_kernel (set_kernel sv k) = k"
  by (simp add: set_kernel_def)

lemmas get_defs = Get_Event_def Get_Semaphore_def Get_Mutex_def Get_Timer_def Get_Thread_def

lemma kind_casesD:
  "(case kd of K_Event e \<Rightarrow> Some (w, e) | _ \<Rightarrow> None) = Some (v, e') \<Longrightarrow> v = w \<and> kd = K_Event e'"
  "(case kd of K_Semaphore s \<Rightarrow> Some (w, s) | _ \<Rightarrow> None) = Some (v, s') \<Longrightarrow> v = w \<and> kd = K_Semaphore s'"
  "(case kd of K_Mutex m \<Rightarrow> Some (w, m) | _ \<Rightarrow> None) = Some (v, m') \<Longrightarrow> v = w \<and> kd = K_Mutex m'"
  "(case kd of K_Timer tm \<Rightarrow> Some (w, tm) | _ \<Rightarrow> None) = Some (v, tm') \<Longrightarrow> v = w \<and> kd = K_Timer tm'"
  by (cases kd; simp)+

lemma get_kinds:
  "Get_Event sv h = Some (ob, e) \<Longrightarrow> kind (objs (sv_kernel sv) ob) = K_Event e"
  "Get_Semaphore sv h = Some (ob, s) \<Longrightarrow> kind (objs (sv_kernel sv) ob) = K_Semaphore s"
  "Get_Mutex sv h = Some (ob, m) \<Longrightarrow> kind (objs (sv_kernel sv) ob) = K_Mutex m"
  "Get_Timer sv h = Some (ob, tm) \<Longrightarrow> kind (objs (sv_kernel sv) ob) = K_Timer tm"
  by (auto simp: get_defs bind_eq_Some_iff dest!: kind_casesD)

lemma wait_inv_call1:
  assumes "kernel_inv (sv_kernel sv)" "runs sv" "WaitSynchronization1 sv h ns = Some (r, sv')"
  shows "kernel_inv (sv_kernel sv')"
  using assms wait1_inv [OF assms(1)] Acquire_inv [OF assms(1)]
  by (auto simp: WaitSynchronization1_def runs_def Let_def bind_eq_Some_iff split: option.splits if_splits)

lemma wait_inv_callN:
  assumes inv: "kernel_inv (sv_kernel sv)" and r: "runs sv"
    and c: "WaitSynchronizationN mem sv addr n all ns = Some (r, sv')"
    and d: "\<forall>obs. read_objects mem sv addr [0 ..< nat n] = Some obs \<longrightarrow> distinct obs"
  shows "kernel_inv (sv_kernel sv')"
proof -
  obtain t where t: "sv_thread sv = Some t" "status (threads (sv_kernel sv) t) = Running" using r by (auto simp: runs_def)
  have a: "wait_all_objects t obs ns (sv_kernel sv) = Some (r, k') \<Longrightarrow> distinct obs \<Longrightarrow> kernel_inv k'" for obs r k'
    using inv acquire_all_inv [OF inv] block_thread_inv [OF inv t(2)]
    by (auto simp: wait_all_objects_def bind_eq_Some_iff split: if_splits)
  have b: "wait_any_object t obs ns (sv_kernel sv) = Some (r, k') \<Longrightarrow> distinct obs \<Longrightarrow> kernel_inv k'" for obs r k'
    using inv Acquire_inv [OF inv] block_thread_inv [OF inv t(2)]
    by (auto simp: wait_any_object_def bind_eq_Some_iff split: if_splits option.splits)
  show ?thesis using c d a b inv t(1)
    by (auto simp: WaitSynchronizationN_def bind_eq_Some_iff split: if_splits option.splits)
qed

lemma sync_step_inv: "sync_step sv sv' \<Longrightarrow> kernel_inv (sv_kernel sv) \<Longrightarrow> kernel_inv (sv_kernel sv')"
proof (induction rule: sync_step.induct)
  case step_wait1
  then show ?case using wait_inv_call1 by blast
next
  case step_waitN
  then show ?case using wait_inv_callN by blast
next
  case (step_signal sv h r sv')
  then show ?case using Event_Signal_inv [OF step_signal.prems] get_kinds(1) [of sv h]
    by (auto simp: SignalEvent_def bind_eq_Some_iff split: option.splits) fastforce
next
  case (step_clear sv h r sv')
  then show ?case using get_kinds(1) [of sv h]
    by (auto simp: ClearEvent_def Event_Clear_def split: option.splits intro!: kernel_inv_kind)
next
  case (step_release_mutex sv h r sv')
  have "kernel_inv k'" if "Get_Mutex sv h = Some (m, mx)" "Mutex_Release m mx t (sv_kernel sv) = Some (r, k')" for m mx t k'
    using Mutex_Release_inv [OF step_release_mutex.prems get_kinds(3) [OF that(1)], of t] that(2) by simp
  then show ?case using step_release_mutex by (auto simp: ReleaseMutex_def bind_eq_Some_iff split: option.splits)
next
  case (step_release_semaphore sv h n r sv')
  then show ?case using Semaphore_Release_inv [OF step_release_semaphore.prems] get_kinds(2) [of sv h]
    by (auto simp: ReleaseSemaphore_def bind_eq_Some_iff split: option.splits)
next
  case (step_set_timer sv h i p r sv')
  then show ?case using Timer_Set_inv [OF step_set_timer.prems, of _ _ i p] get_kinds(4) [of sv h]
    by (auto simp: SetTimer_def bind_eq_Some_iff split: option.splits if_splits) fastforce
next
  case (step_clear_timer sv h r sv')
  then show ?case using get_kinds(4) [of sv h]
    by (auto simp: ClearTimer_def Timer_Clear_def split: option.splits intro!: kernel_inv_kind)
next
  case (step_cancel_timer sv h r sv')
  then show ?case by (auto simp: CancelTimer_def Timer_Cancel_def split: option.splits)
next
  case (step_timer cb late sv k')
  then obtain ob where ob: "timer_callback_table (sv_kernel sv) cb = Some ob" by (auto simp: TimerCallback_def bind_eq_Some_iff)
  show ?case using step_timer ob Timer_Signal_inv [OF step_timer.prems, of ob _ late]
    by (cases "kind (objs (sv_kernel sv) ob)") (auto simp: TimerCallback_def)
next
  case (step_arbitrate sv mem h addr ty v ns r sv')
  then show ?case using ArbitrateAddress_inv [OF step_arbitrate.prems]
    by (auto simp: svc_ArbitrateAddress_def runs_def bind_eq_Some_iff svc_PrepareReschedule_def split: option.splits)
next
  case (step_priority sv h p r sv')
  then show ?case using SetPriority_inv [OF step_priority.prems] update_priorities_inv
    by (auto simp: SetThreadPriority_def bind_eq_Some_iff svc_PrepareReschedule_def Let_def split: option.splits if_splits)
next
  case (step_sleep sv env ready ns sv')
  then show ?case using kernel_inv_status [OF step_sleep.prems]
    by (auto simp: SleepThread_def WaitCurrentThread_Sleep_def runs_def bind_eq_Some_iff svc_PrepareReschedule_def
        WakeAfterDelay_def sv_thread_def split: if_splits)
next
  case (step_timeout sv c tid t k')
  from sync_timeout_inv [OF step_timeout.prems step_timeout.hyps(1,2)] show ?case
    using step_timeout.hyps(3) by simp
next
  case step_reschedule
  then show ?case using Reschedule_inv by simp
qed simp


subsection \<open>A wait ends with the signal\<close>

definition wait1_kernel :: "oid \<Rightarrow> oid \<Rightarrow> int \<Rightarrow> Kernel \<Rightarrow> Kernel" where
  "wait1_kernel t ob ns k = svc_PrepareReschedule (upd_thread t (\<lambda>th. th\<lparr>wakeup_callback := Some (SVC_SyncCallback False)\<rparr>)
    (WakeAfterDelay t ns (upd_thread t (\<lambda>th. th\<lparr>status := WaitSynchAny\<rparr>)
      (AddWaitingThread ob t (upd_thread t (\<lambda>th. th\<lparr>wait_objects := [ob]\<rparr>) k)))))"

lemma wait1_kernel_sel:
  "status (threads (wait1_kernel t ob ns k) t) = WaitSynchAny"
  "t \<notin> set (waiting_threads (objs k ob)) \<Longrightarrow> waiting_threads (objs (wait1_kernel t ob ns k) ob) = waiting_threads (objs k ob) @ [t]"
  "core_kind (kind (objs (wait1_kernel t ob ns k) w)) = core_kind (kind (objs k w))"
  by (simp_all add: wait1_kernel_def svc_PrepareReschedule_def)

lemma core_kind_event [simp]: "core_kind kd = K_Event e \<longleftrightarrow> kd = K_Event e"
  by (cases kd) auto

lemma signal_wakes:
  assumes inv: "kernel_inv k" and e: "kind (objs k ob) = K_Event e"
    and t: "t \<in> set (waiting_threads (objs k ob))" "status (threads k t) = WaitSynchAny"
    and q: "ev_reset_type e \<noteq> OneShot \<or> waiting_threads (objs k ob) = [t]"
  shows "\<exists>k'. Event_Signal ob e k = Some k' \<and> status (threads k' t) = Ready \<and> (\<forall>w. t \<notin> set (waiting_threads (objs k' w)))"
proof -
  let ?e = "e\<lparr>ev_signaled := True\<rparr>"
  let ?k0 = "set_kind ob (K_Event ?e) k"
  have "kernel_inv ?k0" by (rule kernel_inv_kind [OF inv]) (use e in auto)
  note i0 = kernel_invD(1,2) [OF this]
  obtain ts k1 k' where w: "WakeupAllWaitingThreads ob ?k0 = Some k'" "woken ob ?k0 ts k1" "wakes ob ?k0 ts k'"
    "threads k' = threads k1" "\<And>w. waiting_threads (objs k' w) = waiting_threads (objs k1 w)"
    by (rule wakeup_ok [OF i0]) blast
  have ev: "if ev_reset_type e = OneShot
    then (ts = [] \<and> kind (objs k1 ob) = K_Event ?e) \<or> (length ts = 1 \<and> kind (objs k1 ob) = K_Event (e\<lparr>ev_signaled := False\<rparr>))
    else kind (objs k1 ob) = K_Event ?e"
    using woken_event [OF w(2) i0, of ?e] by (simp split: if_splits)
  have rw: "ready_waiters ob k1 = []" using woken_wakes [OF w(2) i0] by simp
  have "t \<in> set ts"
  proof (rule ccontr)
    assume nt: "t \<notin> set ts"
    have "t \<in> set (waiting_threads (objs k1 ob))" "status (threads k1 t) = WaitSynchAny"
      using w(3-5) nt t by (auto simp: wakes_def)
    then have "ShouldWait ob t k1" using rw by (auto simp: ready_waiters_def filter_empty_conv ready_to_run_def)
    then have "ev_reset_type e = OneShot \<and> length ts = 1" using ev by (auto simp: ShouldWait_def split: if_splits)
    moreover from this q w(3) have "set ts \<subseteq> {t}" by (auto simp: wakes_def)
    ultimately show False using nt by (cases ts) auto
  qed
  then show ?thesis using w(1,3) by (auto simp: Event_Signal_def wakes_def)
qed

text \<open>C24: A wait on an unsignalled event with a non-zero timeout blocks the calling thread; when any process then
  signals the event through a handle of its own, the call succeeds and the thread is Ready and in no waiting list,
  provided the event is not one-shot or nobody else was waiting.\<close>
theorem blocked_wait_ends_with_signal:
  assumes inv: "kernel_inv (sv_kernel sv)" and t: "sv_thread sv = Some t" "status (threads (sv_kernel sv) t) = Running"
    and e: "Get_Event sv h = Some (ob, e)" "\<not> ev_signaled e" "ns \<noteq> 0"
    and q: "ev_reset_type e \<noteq> OneShot \<or> waiting_threads (objs (sv_kernel sv) ob) = []"
  shows "\<exists>sv1. WaitSynchronization1 sv h ns = Some (ResultTimeout, sv1) \<and> status (threads (sv_kernel sv1) t) = WaitSynchAny \<and>
    (\<forall>other h'. sv_kernel other = sv_kernel sv1 \<and> Get_WaitObject other h' = Some ob \<longrightarrow>
      (\<exists>sv2. SignalEvent other h' = Some (ResultSuccess, sv2) \<and> status (threads (sv_kernel sv2) t) = Ready \<and>
        (\<forall>w. t \<notin> set (waiting_threads (objs (sv_kernel sv2) w)))))"
proof -
  let ?k = "sv_kernel sv" and ?k1 = "wait1_kernel t ob ns (sv_kernel sv)"
  have ob: "Get_WaitObject sv h = Some ob" "kind (objs ?k ob) = K_Event e"
    using e(1) get_kinds(1) [OF e(1)] by (auto simp: Get_Event_def bind_eq_Some_iff dest!: kind_casesD)
  have w: "WaitSynchronization1 sv h ns = Some (ResultTimeout, set_kernel sv ?k1)"
    using t(1) e(2,3) ob by (simp add: WaitSynchronization1_def ShouldWait_def wait1_kernel_def Let_def)
  have k1: "kind (objs ?k1 ob) = K_Event e" using wait1_kernel_sel(3) [of t ob ns ?k ob] ob(2) by simp
  have i1: "kernel_inv ?k1" unfolding wait1_kernel_def by (rule wait1_inv [OF inv t(2)])
  have wt: "waiting_threads (objs ?k1 ob) = waiting_threads (objs ?k ob) @ [t]"
    using running_idle(2) [OF inv, of t] t(2) by (simp add: wait1_kernel_sel)
  obtain k2 where "Event_Signal ob e ?k1 = Some k2" "status (threads k2 t) = Ready" "\<forall>w. t \<notin> set (waiting_threads (objs k2 w))"
    using signal_wakes [OF i1 k1, of t] q wt wait1_kernel_sel(1) by auto
  then show ?thesis using w k1 by (auto simp: wait1_kernel_sel SignalEvent_def Get_Event_def)
qed

subsection \<open>Where the calls go wrong\<close>

text \<open>Waiting for all of a list that names the same signalled one-shot event twice passes the check that
  nobody has to wait, then fails the assertion of the second Acquire: the emulator aborts.\<close>
theorem wait_all_duplicate_aborts:
  assumes "IsValidVirtualAddress mem (calls (sv_kernel sv)) addr" "read_objects mem sv addr [0, 1] = Some [ob, ob]"
    "kind (objs (sv_kernel sv) ob) = K_Event e" "ev_reset_type e = OneShot" "ev_signaled e"
  shows "WaitSynchronizationN mem sv addr 2 True ns = None"
proof -
  have "[0 ..< nat 2] = [0, 1 :: nat]" by (simp add: upt_rec)
  then show ?thesis
    using assms by (simp add: WaitSynchronizationN_def wait_all_objects_def ShouldWait_def acquire_defs split: Option.bind_split)
qed

text \<open>A semaphore whose initial count exceeds its maximum is refused, but the unit of the resource limit
  reserved for it before the check is not given back: each such call uses up one semaphore for good.\<close>
theorem refused_semaphore_leaks_reservation:
  assumes "GetCurrentValue (resource_limits (sv_kernel sv) c) RLT_Semaphore = Some n"
    "GetLimitValue (resource_limits (sv_kernel sv) c) RLT_Semaphore = Some l"
    "c = process_limit (sv_kernel sv) (sv_process sv)" "s32_range (n + 1)" "max_cnt < initial_count"
  shows "\<exists>sv'. svc_CreateSemaphore sv initial_count max_cnt = Some ((ResultInvalidCombinationKernel, None), sv') \<and>
    GetCurrentValue (resource_limits (sv_kernel sv') c) RLT_Semaphore = Some (n + 1)"
  using assms
  by (auto simp: svc_CreateSemaphore_def CreateSemaphore_def set_kernel_def reserve_def Reserve_def Let_def GetCurrentValue_def
      GetLimitValue_def s32_arith_def SetCurrentValue_def at_index_def set_index_def split: if_splits)

subsection \<open>Examples\<close>

definition ex_table :: "KObject HandleTable" where
  "ex_table = \<lparr>objects = (\<lambda>i. if i = 0 then Some (KO_Wait 10) else None), generations = (\<lambda>_. 1),
     next_generation = 2, next_free_slot = 1\<rparr>"

definition ex_svc :: "ObjectKind \<Rightarrow> Svc" where
  "ex_svc kd = \<lparr>sv_kernel = ex_kernel [] kd, sv_table = ex_table, sv_core = 0, sv_process = 0, process_ids = (\<lambda>_. 1)\<rparr>"

definition ex_event :: "ResetType \<Rightarrow> bool \<Rightarrow> Event" where
  "ex_event rt s = \<lparr>ev_reset_type = rt, ev_signaled = s\<rparr>"

lemma ex_svc_sel:
  "sv_kernel (ex_svc kd) = ex_kernel [] kd" "sv_thread (ex_svc kd) = Some 3" "Get_WaitObject (ex_svc kd) 1 = Some 10"
  by (simp_all add: ex_svc_def sv_thread_def ex_kernel_def Get_WaitObject_def Get_def GetGeneric_def CurrentThread_def
      CurrentProcess_def IsValid_def ex_table_def GetSlot_def GetGeneration_def MAX_COUNT_def)

lemma ex_event_inv: "kernel_inv (ex_kernel [] (K_Event e))"
proof -
  have "mutex_inv (ex_kernel [] (K_Event e))" by (auto simp: mutex_inv_def mutex_inv_ex_def ex_kernel_sel)
  moreover have "arbiters (ex_kernel [] (K_Event e)) = (\<lambda>_. [])" by (simp add: ex_kernel_def)
  ultimately show ?thesis by (simp add: kernel_inv_def ex_kernel_inv arb_inv_def)
qed


lemma blocked_wait_ends_with_signal_witness:
  "\<exists>sv1. WaitSynchronization1 (ex_svc (K_Event (ex_event Sticky False))) 1 5 = Some (ResultTimeout, sv1) \<and>
    status (threads (sv_kernel sv1) 3) = WaitSynchAny"
  using blocked_wait_ends_with_signal [of "ex_svc (K_Event (ex_event Sticky False))" 3 1 10 "ex_event Sticky False" 5]
  by (auto simp: ex_svc_sel ex_event_inv ex_kernel_sel Get_Event_def ex_event_def)

lemma wait_all_duplicate_aborts_witness:
  "WaitSynchronizationN \<lparr>Read32 = (\<lambda>_ _. 1), IsValidVirtualAddress = (\<lambda>_ _. True)\<rparr>
     (ex_svc (K_Event (ex_event OneShot True))) 0x1000 2 True 0 = None"
  by (rule wait_all_duplicate_aborts [where ob = 10 and e = "ex_event OneShot True"])
    (simp_all add: ex_svc_sel ex_kernel_sel ex_event_def)

lemma refused_semaphore_leaks_reservation_witness:
  "\<exists>sv'. svc_CreateSemaphore (ex_svc K_Thread) 2 1 = Some ((ResultInvalidCombinationKernel, None), sv') \<and>
    GetCurrentValue (resource_limits (sv_kernel sv') RLC_Application) RLT_Semaphore = Some 1"
  using refused_semaphore_leaks_reservation [of "ex_svc K_Thread" RLC_Application 0 0 1 2]
  by (simp add: ex_svc_sel ex_kernel_def GetCurrentValue_def GetLimitValue_def RL_Create_def at_index_def RLT_Max_def
      RLT_Semaphore_def s32_range_def)

end
