(* ===== verification/Core_Timing.thy ===== *)
theory Core_Timing
  imports Prelude
begin

text \<open>
  The event scheduler, \<^verbatim>\<open>src/core/core_timing.cpp\<close>: two linked lists of pending events (the main one kept in
  order of time, and the one other threads append to) and two pools of free events, all sharing
  one heap of cells.

  A pointer is a cell number; reading a cell that is not allocated, an event type that is not
  registered, or a sum that overflows \<^verbatim>\<open>s64\<close> is \<open>None\<close>.  A callback is any state transformer that may
  fail; what it does outside the scheduler happens in the field \<open>world\<close>.  The mutex that guards
  the shared list is not modelled: each operation is one atomic step, which is what the mutex
  gives.  The contents of a newly allocated cell are never read before they are written.

  Shown: the operations on the heap implement insertion after equal times, removal and
  concatenation on lists, with all four lists disjoint and acyclic at all times; processing
  fires exactly the due events in order and ends when callbacks schedule only future events.
\<close>

subsection \<open>State\<close>

type_synonym ptr = nat

record TEvent =
  ev_time :: int
  ev_userdata :: u64
  ev_type :: int
  ev_next :: "ptr option"

datatype TimedCallback = AntiCrashCallback | Callback nat

record TEventType =
  et_callback :: TimedCallback
  et_name :: "string option"

record 'w Timing =
  g_clock_rate_arm11 :: int
  event_types :: "TEventType list"
  cells :: "ptr \<Rightarrow> TEvent option"
  next_cell :: ptr
  first :: "ptr option"
  tsFirst :: "ptr option"
  tsLast :: "ptr option"
  eventPool :: "ptr option"
  eventTsPool :: "ptr option"
  allocatedTsEvents :: int
  hasTsEvents :: bool
  globalTimer :: int
  idledCycles :: int
  halted :: bool
  world :: 'w

definition s64_range :: "int \<Rightarrow> bool" where
  "s64_range v \<longleftrightarrow> - (2 ^ 63) \<le> v \<and> v < 2 ^ 63"

definition s64_arith :: "int \<Rightarrow> int option" where
  "s64_arith v = (if s64_range v then Some v else None)"

definition deref :: "ptr \<Rightarrow> 'w Timing \<Rightarrow> TEvent option" where
  "deref p s = cells s p"

definition set_cell :: "ptr \<Rightarrow> (TEvent \<Rightarrow> TEvent) \<Rightarrow> 'w Timing \<Rightarrow> 'w Timing option" where
  "set_cell p f s = do { e \<leftarrow> deref p s; Some (s\<lparr>cells := (cells s)(p \<mapsto> f e)\<rparr>) }"

definition new_cell :: "'w Timing \<Rightarrow> ptr \<times> 'w Timing" where
  "new_cell s = (next_cell s, s\<lparr>cells := (cells s)(next_cell s \<mapsto> \<lparr>ev_time = 0, ev_userdata = 0, ev_type = 0, ev_next = None\<rparr>),
     next_cell := next_cell s + 1\<rparr>)"

subsection \<open>Pools\<close>

definition SetClockFrequencyMHz :: "int \<Rightarrow> 'w Timing \<Rightarrow> 'w Timing option" where
  "SetClockFrequencyMHz cpuMhz s =
     (if - (2 ^ 31) \<le> cpuMhz * 1000000 \<and> cpuMhz * 1000000 < 2 ^ 31 then Some (s\<lparr>g_clock_rate_arm11 := cpuMhz * 1000000\<rparr>) else None)"

definition GetClockFrequencyMHz :: "'w Timing \<Rightarrow> int" where
  "GetClockFrequencyMHz s =
     (if g_clock_rate_arm11 s \<ge> 0 then g_clock_rate_arm11 s div 1000000 else - ((- g_clock_rate_arm11 s) div 1000000))"

definition GetNewEvent :: "'w Timing \<Rightarrow> (ptr \<times> 'w Timing) option" where
  "GetNewEvent s = (case eventPool s of
       None \<Rightarrow> Some (new_cell s)
     | Some ev \<Rightarrow> do { e \<leftarrow> deref ev s; Some (ev, s\<lparr>eventPool := ev_next e\<rparr>) })"

definition GetNewTsEvent :: "'w Timing \<Rightarrow> (ptr \<times> 'w Timing) option" where
  "GetNewTsEvent s0 = (let s = s0\<lparr>allocatedTsEvents := allocatedTsEvents s0 + 1\<rparr> in case eventTsPool s of
       None \<Rightarrow> Some (new_cell s)
     | Some ev \<Rightarrow> do { e \<leftarrow> deref ev s; Some (ev, s\<lparr>eventTsPool := ev_next e\<rparr>) })"

definition FreeEvent :: "ptr \<Rightarrow> 'w Timing \<Rightarrow> 'w Timing option" where
  "FreeEvent ev s = do { s1 \<leftarrow> set_cell ev (\<lambda>e. e\<lparr>ev_next := eventPool s\<rparr>) s; Some (s1\<lparr>eventPool := Some ev\<rparr>) }"

definition FreeTsEvent :: "ptr \<Rightarrow> 'w Timing \<Rightarrow> 'w Timing option" where
  "FreeTsEvent ev s = do { s1 \<leftarrow> set_cell ev (\<lambda>e. e\<lparr>ev_next := eventTsPool s\<rparr>) s;
     Some (s1\<lparr>eventTsPool := Some ev, allocatedTsEvents := allocatedTsEvents s1 - 1\<rparr>) }"

subsection \<open>Event types\<close>

definition RegisterEvent :: "string option \<Rightarrow> TimedCallback \<Rightarrow> 'w Timing \<Rightarrow> int \<times> 'w Timing" where
  "RegisterEvent name callback s =
     (let ts = event_types s @ [\<lparr>et_callback = callback, et_name = name\<rparr>] in (int (length ts) - 1, s\<lparr>event_types := ts\<rparr>))"

definition RestoreRegisterEvent :: "int \<Rightarrow> string option \<Rightarrow> TimedCallback \<Rightarrow> 'w Timing \<Rightarrow> 'w Timing option" where
  "RestoreRegisterEvent event_type name callback s =
     (let n = length (event_types s);
          ts = (if event_type \<ge> int n
                then event_types s @ replicate (nat (event_type + 1) - n) \<lparr>et_callback = AntiCrashCallback, et_name = Some ''INVALID EVENT''\<rparr>
                else event_types s)
      in if event_type < 0 then None
         else Some (s\<lparr>event_types := ts[nat event_type := \<lparr>et_callback = callback, et_name = name\<rparr>]\<rparr>))"

definition UnregisterAllEvents :: "'w Timing \<Rightarrow> 'w Timing" where
  "UnregisterAllEvents s = s\<lparr>event_types := []\<rparr>"

definition Init :: "'w Timing \<Rightarrow> 'w Timing" where
  "Init s = s\<lparr>globalTimer := 0, idledCycles := 0, hasTsEvents := False\<rparr>"

definition GetTicks :: "'w Timing \<Rightarrow> u64" where
  "GetTicks s = word_of_int (globalTimer s)"

definition GetIdleTicks :: "'w Timing \<Rightarrow> u64" where
  "GetIdleTicks s = word_of_int (idledCycles s)"

subsection \<open>Scheduling\<close>

text \<open>The time of an event is the unsigned sum of the ticks and the delay, stored as \<open>s64\<close>.\<close>

definition event_time :: "'w Timing \<Rightarrow> int \<Rightarrow> int" where
  "event_time s cyclesIntoFuture = sint (GetTicks s + word_of_int cyclesIntoFuture)"

definition ScheduleEvent_Threadsafe :: "int \<Rightarrow> int \<Rightarrow> u64 \<Rightarrow> 'w Timing \<Rightarrow> 'w Timing option" where
  "ScheduleEvent_Threadsafe cyclesIntoFuture event_type userdata s = do {
     (ne, s1) \<leftarrow> GetNewTsEvent s;
     s2 \<leftarrow> set_cell ne (\<lambda>e. e\<lparr>ev_time := event_time s1 cyclesIntoFuture, ev_type := event_type, ev_next := None, ev_userdata := userdata\<rparr>) s1;
     let s3 = (if tsFirst s2 = None then s2\<lparr>tsFirst := Some ne\<rparr> else s2);
     s4 \<leftarrow> (case tsLast s3 of None \<Rightarrow> Some s3 | Some l \<Rightarrow> set_cell l (\<lambda>e. e\<lparr>ev_next := Some ne\<rparr>) s3);
     Some (s4\<lparr>tsLast := Some ne, hasTsEvents := True\<rparr>)
   }"

definition ScheduleEvent_Threadsafe_Immediate :: "int \<Rightarrow> u64 \<Rightarrow> 'w Timing \<Rightarrow> 'w Timing option" where
  "ScheduleEvent_Threadsafe_Immediate event_type userdata s = ScheduleEvent_Threadsafe 0 event_type userdata s"

partial_function (option) clear_loop :: "'w Timing \<Rightarrow> 'w Timing option" where
  "clear_loop s = (case first s of
       None \<Rightarrow> Some s
     | Some p \<Rightarrow> Option.bind (deref p s) (\<lambda>e. Option.bind (FreeEvent p s) (\<lambda>s1. clear_loop (s1\<lparr>first := ev_next e\<rparr>))))"

definition ClearPendingEvents :: "'w Timing \<Rightarrow> 'w Timing option" where
  "ClearPendingEvents s = clear_loop s"

text \<open>The place a link is stored: the head variable or the \<open>next\<close> field of a cell.\<close>

datatype Link = L_first | L_next ptr

definition read_link :: "Link \<Rightarrow> 'w Timing \<Rightarrow> ptr option option" where
  "read_link l s = (case l of L_first \<Rightarrow> Some (first s) | L_next p \<Rightarrow> map_option ev_next (deref p s))"

definition write_link :: "Link \<Rightarrow> ptr option \<Rightarrow> 'w Timing \<Rightarrow> 'w Timing option" where
  "write_link l q s = (case l of L_first \<Rightarrow> Some (s\<lparr>first := q\<rparr>) | L_next p \<Rightarrow> set_cell p (\<lambda>e. e\<lparr>ev_next := q\<rparr>) s)"

definition link_here :: "Link \<Rightarrow> ptr \<Rightarrow> ptr option \<Rightarrow> 'w Timing \<Rightarrow> 'w Timing option" where
  "link_here l ne q s = do { s1 \<leftarrow> set_cell ne (\<lambda>e. e\<lparr>ev_next := q\<rparr>) s; write_link l (Some ne) s1 }"

partial_function (option) add_loop :: "ptr \<Rightarrow> Link \<Rightarrow> 'w Timing \<Rightarrow> 'w Timing option" where
  "add_loop ne l s = Option.bind (read_link l s) (\<lambda>q. case q of
       None \<Rightarrow> link_here l ne None s
     | Some p \<Rightarrow> Option.bind (deref ne s) (\<lambda>n. Option.bind (deref p s) (\<lambda>e.
         if ev_time n < ev_time e then link_here l ne (Some p) s else add_loop ne (L_next p) s)))"

definition AddEventToQueue :: "ptr \<Rightarrow> 'w Timing \<Rightarrow> 'w Timing option" where
  "AddEventToQueue ne s = add_loop ne L_first s"

definition ScheduleEvent :: "int \<Rightarrow> int \<Rightarrow> u64 \<Rightarrow> 'w Timing \<Rightarrow> 'w Timing option" where
  "ScheduleEvent cyclesIntoFuture event_type userdata s = do {
     (ne, s1) \<leftarrow> GetNewEvent s;
     s2 \<leftarrow> set_cell ne (\<lambda>e. e\<lparr>ev_userdata := userdata, ev_type := event_type, ev_time := event_time s1 cyclesIntoFuture\<rparr>) s1;
     AddEventToQueue ne s2
   }"

subsection \<open>Removing\<close>

text \<open>
  The four removal functions share their two loops: the first drops matching events at the head
  of the list, the second those after it.  \<open>ts\<close> says which list; \<open>res\<close> is what the code computes
  from a removed event.
\<close>

definition head_of :: "bool \<Rightarrow> 'w Timing \<Rightarrow> ptr option" where
  "head_of ts s = (if ts then tsFirst s else first s)"

definition set_head :: "bool \<Rightarrow> ptr option \<Rightarrow> 'w Timing \<Rightarrow> 'w Timing" where
  "set_head ts p s = (if ts then s\<lparr>tsFirst := p\<rparr> else s\<lparr>first := p\<rparr>)"

definition free_of :: "bool \<Rightarrow> ptr \<Rightarrow> 'w Timing \<Rightarrow> 'w Timing option" where
  "free_of ts p s = (if ts then FreeTsEvent p s else FreeEvent p s)"

partial_function (option) remove_head_loop ::
  "bool \<Rightarrow> (TEvent \<Rightarrow> bool) \<Rightarrow> (TEvent \<Rightarrow> int \<Rightarrow> int option) \<Rightarrow> int \<Rightarrow> 'w Timing \<Rightarrow> (int \<times> 'w Timing) option" where
  "remove_head_loop ts match res result s = (case head_of ts s of
       None \<Rightarrow> Some (result, s)
     | Some p \<Rightarrow> Option.bind (deref p s) (\<lambda>e.
         if match e
         then Option.bind (res e result) (\<lambda>r. Option.bind (free_of ts p s) (\<lambda>s1.
                remove_head_loop ts match res r (set_head ts (ev_next e) s1)))
         else Some (result, s)))"

partial_function (option) remove_rest_loop ::
  "bool \<Rightarrow> (TEvent \<Rightarrow> bool) \<Rightarrow> (TEvent \<Rightarrow> int \<Rightarrow> int option) \<Rightarrow> ptr \<Rightarrow> ptr option \<Rightarrow> int \<Rightarrow> 'w Timing \<Rightarrow> (int \<times> 'w Timing) option" where
  "remove_rest_loop ts match res prev q result s = (case q of
       None \<Rightarrow> Some (result, s)
     | Some p \<Rightarrow> Option.bind (deref p s) (\<lambda>e.
         if match e
         then Option.bind (res e result) (\<lambda>r. Option.bind (set_cell prev (\<lambda>pe. pe\<lparr>ev_next := ev_next e\<rparr>) s) (\<lambda>s1.
              let s2 = (if ts \<and> tsLast s1 = Some p then s1\<lparr>tsLast := Some prev\<rparr> else s1) in
              Option.bind (free_of ts p s2) (\<lambda>s3.
              Option.bind (deref prev s3) (\<lambda>pe. remove_rest_loop ts match res prev (ev_next pe) r s3))))
         else remove_rest_loop ts match res p (ev_next e) result s))"

definition remove_events ::
  "bool \<Rightarrow> (TEvent \<Rightarrow> bool) \<Rightarrow> (TEvent \<Rightarrow> int \<Rightarrow> int option) \<Rightarrow> 'w Timing \<Rightarrow> (int \<times> 'w Timing) option" where
  "remove_events ts match res s =
     (if head_of ts s = None then Some (0, s)
      else do {
        (r, s1) \<leftarrow> remove_head_loop ts match res 0 s;
        (case head_of ts s1 of
           None \<Rightarrow> Some (r, if ts then s1\<lparr>tsLast := None\<rparr> else s1)
         | Some prev \<Rightarrow> do { e \<leftarrow> deref prev s1; remove_rest_loop ts match res prev (ev_next e) r s1 })
      })"

definition time_left :: "'w Timing \<Rightarrow> TEvent \<Rightarrow> int \<Rightarrow> int option" where
  "time_left s e result = s64_arith (ev_time e - globalTimer s)"

definition UnscheduleEvent :: "int \<Rightarrow> u64 \<Rightarrow> 'w Timing \<Rightarrow> (int \<times> 'w Timing) option" where
  "UnscheduleEvent event_type userdata s =
     remove_events False (\<lambda>e. ev_type e = event_type \<and> ev_userdata e = userdata) (time_left s) s"

definition UnscheduleThreadsafeEvent :: "int \<Rightarrow> u64 \<Rightarrow> 'w Timing \<Rightarrow> (int \<times> 'w Timing) option" where
  "UnscheduleThreadsafeEvent event_type userdata s =
     remove_events True (\<lambda>e. ev_type e = event_type \<and> ev_userdata e = userdata) (time_left s) s"

definition RemoveEvent :: "int \<Rightarrow> 'w Timing \<Rightarrow> 'w Timing option" where
  "RemoveEvent event_type s = do { (_, s1) \<leftarrow> remove_events False (\<lambda>e. ev_type e = event_type) (\<lambda>_ r. Some r) s; Some s1 }"

definition RemoveThreadsafeEvent :: "int \<Rightarrow> 'w Timing \<Rightarrow> 'w Timing option" where
  "RemoveThreadsafeEvent event_type s = do { (_, s1) \<leftarrow> remove_events True (\<lambda>e. ev_type e = event_type) (\<lambda>_ r. Some r) s; Some s1 }"

definition RemoveAllEvents :: "int \<Rightarrow> 'w Timing \<Rightarrow> 'w Timing option" where
  "RemoveAllEvents event_type s = do { s1 \<leftarrow> RemoveThreadsafeEvent event_type s; RemoveEvent event_type s1 }"

partial_function (option) scheduled_loop :: "int \<Rightarrow> ptr option \<Rightarrow> 'w Timing \<Rightarrow> bool option" where
  "scheduled_loop event_type q s = (case q of
       None \<Rightarrow> Some False
     | Some p \<Rightarrow> Option.bind (deref p s) (\<lambda>e. if ev_type e = event_type then Some True else scheduled_loop event_type (ev_next e) s))"

definition IsScheduled :: "int \<Rightarrow> 'w Timing \<Rightarrow> bool option" where
  "IsScheduled event_type s = scheduled_loop event_type (first s) s"

subsection \<open>Advancing\<close>

type_synonym 'w callbacks = "nat \<Rightarrow> u64 \<Rightarrow> int \<Rightarrow> 'w Timing \<Rightarrow> 'w Timing option"

definition to_int :: "int \<Rightarrow> int" where
  "to_int v = sint (word_of_int v :: 32 word)"

definition fire :: "'w callbacks \<Rightarrow> TEvent \<Rightarrow> 'w Timing \<Rightarrow> 'w Timing option" where
  "fire run e s = do {
     late \<leftarrow> s64_arith (globalTimer s - ev_time e);
     _ \<leftarrow> ASSERT (0 \<le> ev_type e \<and> ev_type e < int (length (event_types s)));
     (case et_callback (event_types s ! nat (ev_type e)) of
        AntiCrashCallback \<Rightarrow> Some (s\<lparr>halted := True\<rparr>)
      | Callback cb \<Rightarrow> run cb (ev_userdata e) (to_int late) s)
   }"

partial_function (option) ProcessFifoWaitEvents :: "'w callbacks \<Rightarrow> 'w Timing \<Rightarrow> 'w Timing option" where
  "ProcessFifoWaitEvents run s = (case first s of
       None \<Rightarrow> Some s
     | Some p \<Rightarrow> Option.bind (deref p s) (\<lambda>e.
         if ev_time e \<le> globalTimer s
         then Option.bind (fire run e (s\<lparr>first := ev_next e\<rparr>)) (\<lambda>s1.
              Option.bind (FreeEvent p s1) (\<lambda>s2. ProcessFifoWaitEvents run s2))
         else Some s))"

partial_function (option) move_loop :: "'w Timing \<Rightarrow> 'w Timing option" where
  "move_loop s = (case tsFirst s of
       None \<Rightarrow> Some s
     | Some p \<Rightarrow> Option.bind (deref p s) (\<lambda>e. Option.bind (AddEventToQueue p s) (\<lambda>s1.
         move_loop (s1\<lparr>tsFirst := ev_next e\<rparr>))))"

partial_function (option) refill_loop :: "'w Timing \<Rightarrow> 'w Timing option" where
  "refill_loop s = (if allocatedTsEvents s > 0 then (case eventPool s of
       None \<Rightarrow> Some s
     | Some ev \<Rightarrow> Option.bind (deref ev s) (\<lambda>e.
         Option.bind (set_cell ev (\<lambda>e. e\<lparr>ev_next := eventTsPool s\<rparr>) (s\<lparr>eventPool := ev_next e\<rparr>)) (\<lambda>s1.
         refill_loop (s1\<lparr>eventTsPool := Some ev, allocatedTsEvents := allocatedTsEvents s1 - 1\<rparr>)))) else Some s)"

definition MoveEvents :: "'w Timing \<Rightarrow> 'w Timing option" where
  "MoveEvents s = do {
     s1 \<leftarrow> move_loop (s\<lparr>hasTsEvents := False\<rparr>);
     refill_loop (s1\<lparr>tsLast := None\<rparr>)
   }"

definition Advance :: "'w callbacks \<Rightarrow> (int \<Rightarrow> 'w Timing \<Rightarrow> 'w Timing option) option \<Rightarrow> 'w Timing \<Rightarrow> 'w Timing option" where
  "Advance run advanceCallback s = do {
     now \<leftarrow> s64_arith (globalTimer s + 1);
     let s0 = s\<lparr>globalTimer := now\<rparr>;
     s1 \<leftarrow> (if hasTsEvents s0 then MoveEvents s0 else Some s0);
     s2 \<leftarrow> ProcessFifoWaitEvents run s1;
     (case advanceCallback of None \<Rightarrow> Some s2 | Some cb \<Rightarrow> cb 1 s2)
   }"

definition idle_cycles :: "int \<Rightarrow> 'w Timing \<Rightarrow> int option" where
  "idle_cycles maxIdle s = (let cyclesDown = (if maxIdle > 0 then maxIdle else 1) in
     case first s of
       None \<Rightarrow> Some cyclesDown
     | Some p \<Rightarrow> do {
         e \<leftarrow> deref p s;
         cyclesNextEvent \<leftarrow> s64_arith (ev_time e - globalTimer s);
         Some (if cyclesNextEvent \<le> 0 then 0 else if cyclesNextEvent < cyclesDown then cyclesNextEvent else cyclesDown)
       })"

definition Idle :: "'w callbacks \<Rightarrow> int \<Rightarrow> 'w Timing \<Rightarrow> 'w Timing option" where
  "Idle run maxIdle s = do {
     cyclesDown \<leftarrow> idle_cycles maxIdle s;
     s0 \<leftarrow> (if cyclesDown > 0 then do {
              idled \<leftarrow> s64_arith (idledCycles s + cyclesDown);
              now \<leftarrow> s64_arith (globalTimer s + cyclesDown);
              Some (s\<lparr>idledCycles := idled, globalTimer := now\<rparr>)
            } else Some s);
     s1 \<leftarrow> (if hasTsEvents s0 then MoveEvents s0 else Some s0);
     ProcessFifoWaitEvents run s1
   }"

partial_function (option) delete_loop :: "bool \<Rightarrow> 'w Timing \<Rightarrow> 'w Timing option" where
  "delete_loop ts s = (case (if ts then eventTsPool s else eventPool s) of
       None \<Rightarrow> Some s
     | Some ev \<Rightarrow> Option.bind (deref ev s) (\<lambda>e.
         let s1 = s\<lparr>cells := (cells s)(ev := None)\<rparr> in
         delete_loop ts (if ts then s1\<lparr>eventTsPool := ev_next e\<rparr> else s1\<lparr>eventPool := ev_next e\<rparr>)))"

definition Shutdown :: "'w Timing \<Rightarrow> 'w Timing option" where
  "Shutdown s = do {
     s1 \<leftarrow> MoveEvents s;
     s2 \<leftarrow> ClearPendingEvents s1;
     s3 \<leftarrow> delete_loop False (UnregisterAllEvents s2);
     delete_loop True s3
   }"

subsection \<open>Lists in the heap\<close>

fun chain :: "(ptr \<Rightarrow> TEvent option) \<Rightarrow> ptr option \<Rightarrow> ptr list \<Rightarrow> bool" where
  "chain h q [] \<longleftrightarrow> q = None"
| "chain h q (p # ps) \<longleftrightarrow> q = Some p \<and> (\<exists>e. h p = Some e \<and> chain h (ev_next e) ps)"

lemma chain_None [simp]: "chain h None ps \<longleftrightarrow> ps = []"
  by (cases ps) auto

lemma chain_Some: "chain h (Some p) ps \<longleftrightarrow> (\<exists>e qs. ps = p # qs \<and> h p = Some e \<and> chain h (ev_next e) qs)"
  by (cases ps) auto

lemma chain_upd [simp]: "p \<notin> set ps \<Longrightarrow> chain (h(p := v)) q ps = chain h q ps"
  by (induction ps arbitrary: q) auto

lemma chain_alloc: "chain h q ps \<Longrightarrow> p \<in> set ps \<Longrightarrow> \<exists>e. h p = Some e"
  by (induction ps arbitrary: q) auto

lemma chain_cong: "(\<And>p. p \<in> set ps \<Longrightarrow> h' p = h p) \<Longrightarrow> chain h' q ps = chain h q ps"
  by (induction ps arbitrary: q) auto

lemma chain_mid: "chain h q (us @ p # xs) \<Longrightarrow> \<exists>e. h p = Some e \<and> chain h (ev_next e) xs"
  by (induction us arbitrary: q) auto

type_synonym info = "int \<times> u64 \<times> int"

definition info :: "TEvent \<Rightarrow> info" where
  "info e = (ev_time e, ev_userdata e, ev_type e)"

definition info_at :: "(ptr \<Rightarrow> TEvent option) \<Rightarrow> ptr \<Rightarrow> info" where
  "info_at h p = info (the (h p))"

lemma info_at_Some: "h p = Some e \<Longrightarrow> info_at h p = info e"
  by (simp add: info_at_def)

text \<open>\<open>hp ts s q o f g\<close>: the cells of the list \<open>ts\<close> selects, of the other list, of the pool that belongs
  to the selected list and of the other pool.\<close>

definition pool_of :: "bool \<Rightarrow> 'w Timing \<Rightarrow> ptr option" where
  "pool_of ts s = (if ts then eventTsPool s else eventPool s)"

definition hp :: "bool \<Rightarrow> 'w Timing \<Rightarrow> ptr list \<Rightarrow> ptr list \<Rightarrow> ptr list \<Rightarrow> ptr list \<Rightarrow> bool" where
  "hp ts s q oq f g \<longleftrightarrow> chain (cells s) (head_of ts s) q \<and> chain (cells s) (head_of (\<not> ts) s) oq \<and>
     chain (cells s) (pool_of ts s) f \<and> chain (cells s) (pool_of (\<not> ts) s) g \<and> distinct (q @ oq @ f @ g) \<and>
     (\<forall>p e. cells s p = Some e \<longrightarrow> p < next_cell s)"

lemma hp_swap: "hp (\<not> ts) s q oq f g \<longleftrightarrow> hp ts s oq q g f"
  by (auto simp: hp_def)

lemma hp_tsLast [simp]: "hp ts (s\<lparr>tsLast := l\<rparr>) = hp ts s"
  by (simp add: fun_eq_iff hp_def head_of_def pool_of_def)

lemma hpD:
  assumes "hp ts s q oq f g"
  shows "chain (cells s) (head_of ts s) q" "chain (cells s) (head_of (\<not> ts) s) oq"
    "chain (cells s) (pool_of ts s) f" "chain (cells s) (pool_of (\<not> ts) s) g" "distinct (q @ oq @ f @ g)"
    "cells s p = Some e \<Longrightarrow> p < next_cell s"
  using assms by (auto simp: hp_def)

text \<open>What the list operations leave alone.\<close>

definition clock :: "'w Timing \<Rightarrow> int \<times> TEventType list \<times> bool \<times> int \<times> int \<times> bool \<times> 'w" where
  "clock s = (g_clock_rate_arm11 s, event_types s, hasTsEvents s, globalTimer s, idledCycles s, halted s, world s)"

lemma clock_upd [simp]:
  "clock (s\<lparr>cells := a\<rparr>) = clock s" "clock (s\<lparr>first := b\<rparr>) = clock s" "clock (s\<lparr>tsFirst := b\<rparr>) = clock s"
  "clock (s\<lparr>tsLast := b\<rparr>) = clock s" "clock (s\<lparr>eventPool := b\<rparr>) = clock s" "clock (s\<lparr>eventTsPool := b\<rparr>) = clock s"
  "clock (s\<lparr>allocatedTsEvents := c\<rparr>) = clock s" "clock (s\<lparr>next_cell := d\<rparr>) = clock s" "clock (set_head ts b s) = clock s"
  by (simp_all add: clock_def set_head_def)

lemma set_head_sel [simp]:
  "cells (set_head ts q s) = cells s" "tsLast (set_head ts q s) = tsLast s" "next_cell (set_head ts q s) = next_cell s"
  "head_of ts (set_head ts q s) = q"
  by (simp_all add: set_head_def head_of_def)

lemma clockD:
  assumes "clock s' = clock s"
  shows "globalTimer s' = globalTimer s" "event_types s' = event_types s" "hasTsEvents s' = hasTsEvents s"
    "world s' = world s" "halted s' = halted s" "idledCycles s' = idledCycles s"
  using assms by (simp_all add: clock_def)

definition keeps_info :: "'w Timing \<Rightarrow> 'w Timing \<Rightarrow> bool" where
  "keeps_info s s' \<longleftrightarrow> (\<forall>p. map_option info (cells s' p) = map_option info (cells s p)) \<and> clock s' = clock s \<and>
     next_cell s' = next_cell s"

lemma keeps_info_refl [simp]: "keeps_info s s" by (simp add: keeps_info_def)

lemma keeps_info_trans: "keeps_info s s1 \<Longrightarrow> keeps_info s1 s2 \<Longrightarrow> keeps_info s s2"
  by (simp add: keeps_info_def)

lemma keeps_infoD:
  assumes "keeps_info s s'" "cells s p = Some e"
  shows "\<exists>e'. cells s' p = Some e' \<and> info e' = info e"
proof -
  have "map_option info (cells s' p) = Some (info e)" using assms by (simp add: keeps_info_def)
  then show ?thesis by (auto simp: map_option_eq_Some)
qed

lemma keeps_info_at:
  assumes "keeps_info s s'" "chain (cells s) q ps"
  shows "map (info_at (cells s')) ps = map (info_at (cells s)) ps"
proof -
  have "info_at (cells s') p = info_at (cells s) p" if "p \<in> set ps" for p
    using chain_alloc [OF assms(2) that] keeps_infoD [OF assms(1), of p] by (auto simp: info_at_def)
  then show ?thesis by simp
qed

lemma info_next [simp]: "info (e\<lparr>ev_next := q\<rparr>) = info e"
  by (simp add: info_def)

subsection \<open>Freeing\<close>

lemma free_of_head: "free_of ts p (set_head ts q s) = map_option (set_head ts q) (free_of ts p s)"
  by (auto simp: free_of_def FreeEvent_def FreeTsEvent_def set_cell_def deref_def set_head_def split: Option.bind_split)

lemma free_ok:
  assumes "hp ts s q oq f g" "cells s p = Some e" "p \<notin> set (q @ oq @ f @ g)"
  shows "\<exists>s'. free_of ts p s = Some s' \<and> hp ts s' q oq (p # f) g \<and> keeps_info s s' \<and> tsLast s' = tsLast s \<and>
    (\<forall>a. a \<noteq> p \<longrightarrow> cells s' a = cells s a)"
  using assms
  by (auto simp: hp_def free_of_def FreeEvent_def FreeTsEvent_def set_cell_def deref_def head_of_def pool_of_def
      keeps_info_def clock_def)

subsection \<open>Removing\<close>

fun res_of :: "('i \<Rightarrow> bool) \<Rightarrow> ('i \<Rightarrow> int \<Rightarrow> int option) \<Rightarrow> 'i list \<Rightarrow> int \<Rightarrow> int option" where
  "res_of m rs [] r = Some r"
| "res_of m rs (x # xs) r = (if m x then Option.bind (rs x r) (res_of m rs xs) else res_of m rs xs r)"

lemma res_of_append: "res_of m rs (xs @ ys) r = Option.bind (res_of m rs xs r) (res_of m rs ys)"
  by (induction xs arbitrary: r) (auto split: Option.bind_split)

lemma hp_head_tail:
  assumes "hp ts s (p # q) oq f g" "cells s p = Some e"
  shows "hp ts (set_head ts (ev_next e) s) q oq f g" "p \<notin> set (q @ oq @ f @ g)" "head_of ts s = Some p"
  using assms by (auto simp: hp_def set_head_def head_of_def pool_of_def)

lemma remove_head_ok:
  assumes "hp ts s q oq f g" "res_of m rs (takeWhile m (map (info_at (cells s)) q)) r = Some r'"
  shows "\<exists>s'. remove_head_loop ts (\<lambda>e. m (info e)) (\<lambda>e. rs (info e)) r s = Some (r', s') \<and>
    (\<exists>f'. hp ts s' (dropWhile (\<lambda>p. m (info_at (cells s) p)) q) oq f' g) \<and> keeps_info s s' \<and> tsLast s' = tsLast s"
  using assms
proof (induction q arbitrary: s f r)
  case Nil
  then show ?case by (subst remove_head_loop.simps) (auto simp: hp_def)
next
  case (Cons p q)
  obtain e where e: "cells s p = Some e" using hpD(1) [OF Cons.prems(1)] by auto
  note ht = hp_head_tail [OF Cons.prems(1) e]
  show ?case
  proof (cases "m (info e)")
    case True
    then obtain r1 where r1: "rs (info e) r = Some r1" "res_of m rs (takeWhile m (map (info_at (cells s)) q)) r1 = Some r'"
      using Cons.prems(2) e by (auto simp: info_at_Some bind_eq_Some_iff)
    obtain s1 where s1: "free_of ts p (set_head ts (ev_next e) s) = Some s1" "hp ts s1 q oq (p # f) g"
      "keeps_info (set_head ts (ev_next e) s) s1" "tsLast s1 = tsLast s"
      using free_ok [OF ht(1) _ ht(2), of e] e by auto
    have k1: "keeps_info s s1" using s1(3) by (simp add: keeps_info_def)
    have i1: "map (info_at (cells s1)) q = map (info_at (cells s)) q"
      using keeps_info_at [OF s1(3) hpD(1) [OF ht(1)]] by simp
    have dw: "dropWhile (\<lambda>p. m (info_at (cells s1) p)) q = dropWhile (\<lambda>p. m (info_at (cells s) p)) q"
      using i1 by (intro dropWhile_cong) auto
    obtain s2 f' where s2: "remove_head_loop ts (\<lambda>e. m (info e)) (\<lambda>e. rs (info e)) r1 s1 = Some (r', s2)"
      "hp ts s2 (dropWhile (\<lambda>p. m (info_at (cells s) p)) q) oq f' g" "keeps_info s1 s2" "tsLast s2 = tsLast s1"
      using Cons.IH [OF s1(2), of r1] r1(2) unfolding i1 dw by blast
    obtain s0 where s0: "free_of ts p s = Some s0" "set_head ts (ev_next e) s0 = s1" using s1(1) by (auto simp: free_of_head)
    have "remove_head_loop ts (\<lambda>e. m (info e)) (\<lambda>e. rs (info e)) r s = Some (r', s2)"
      using True e r1(1) s0 s2(1) ht(3) by (subst remove_head_loop.simps) (simp add: deref_def)
    then show ?thesis using s2 s1(4) keeps_info_trans [OF k1 s2(3)] True e by (auto simp: info_at_Some)
  next
    case False
    then have "remove_head_loop ts (\<lambda>e. m (info e)) (\<lambda>e. rs (info e)) r s = Some (r, s)"
      using e ht(3) by (subst remove_head_loop.simps) (simp add: deref_def)
    then show ?thesis using False e Cons.prems by (auto simp: info_at_Some)
  qed
qed

lemma chain_unlink:
  assumes "chain h q (us @ prev # p # xs)" "distinct (us @ prev # p # xs)" "h p = Some e" "h prev = Some pe"
  shows "chain (h(prev \<mapsto> pe\<lparr>ev_next := ev_next e\<rparr>)) q (us @ prev # xs)"
  using assms by (induction us arbitrary: q) auto

lemma unlink_ok:
  assumes "hp ts s (us @ prev # p # xs) oq f g" "cells s p = Some e"
  shows "\<exists>pe s1. cells s prev = Some pe \<and> ev_next pe = Some p \<and>
    set_cell prev (\<lambda>pe. pe\<lparr>ev_next := ev_next e\<rparr>) s = Some s1 \<and> hp ts s1 (us @ prev # xs) oq f g \<and>
    cells s1 prev = Some (pe\<lparr>ev_next := ev_next e\<rparr>) \<and> cells s1 p = Some e \<and>
    p \<notin> set ((us @ prev # xs) @ oq @ f @ g) \<and> keeps_info s s1 \<and> tsLast s1 = tsLast s"
proof -
  note h = hpD [OF assms(1)]
  have "\<exists>pe. cells s prev = Some pe \<and> ev_next pe = Some p"
    using chain_mid [OF h(1)] by auto
  then obtain pe where pe: "cells s prev = Some pe" "ev_next pe = Some p" by blast
  have "chain ((cells s)(prev \<mapsto> pe\<lparr>ev_next := ev_next e\<rparr>)) (head_of ts s) (us @ prev # xs)"
    by (rule chain_unlink [OF h(1) _ assms(2) pe(1)]) (use h(5) in auto)
  then show ?thesis using h pe assms(2)
    by (auto simp: set_cell_def deref_def hp_def head_of_def pool_of_def keeps_info_def clock_def)
qed

lemma remove_rest_ok:
  assumes "hp ts s (us @ prev # xs) oq f g" "cells s prev = Some pe" "res_of m rs (map (info_at (cells s)) xs) r = Some r'"
  shows "\<exists>s'. remove_rest_loop ts (\<lambda>e. m (info e)) (\<lambda>e. rs (info e)) prev (ev_next pe) r s = Some (r', s') \<and>
    (\<exists>f'. hp ts s' (us @ prev # filter (\<lambda>p. \<not> m (info_at (cells s) p)) xs) oq f' g) \<and> keeps_info s s' \<and>
    (ts \<longrightarrow> tsLast s = Some (last (prev # xs)) \<longrightarrow> tsLast s' = Some (last (prev # filter (\<lambda>p. \<not> m (info_at (cells s) p)) xs))) \<and>
    (\<not> ts \<longrightarrow> tsLast s' = tsLast s)"
  using assms
proof (induction xs arbitrary: s us prev pe f r)
  case Nil
  have "chain (cells s) (head_of ts s) (us @ [prev])" using hpD(1) [OF Nil.prems(1)] .
  then have "ev_next pe = None" using Nil.prems(2) chain_mid by fastforce
  then show ?case using Nil.prems by (subst remove_rest_loop.simps) auto
next
  case (Cons p xs)
  obtain e where e: "cells s p = Some e" using chain_alloc [OF hpD(1) [OF Cons.prems(1)], of p] by auto
  obtain s1 where u: "ev_next pe = Some p" "set_cell prev (\<lambda>pe. pe\<lparr>ev_next := ev_next e\<rparr>) s = Some s1"
    "hp ts s1 (us @ prev # xs) oq f g" "cells s1 prev = Some (pe\<lparr>ev_next := ev_next e\<rparr>)" "cells s1 p = Some e"
    "p \<notin> set ((us @ prev # xs) @ oq @ f @ g)" "keeps_info s s1" "tsLast s1 = tsLast s"
    using unlink_ok [OF Cons.prems(1) e] Cons.prems(2) by auto
  show ?case
  proof (cases "m (info e)")
    case True
    let ?s2 = "if ts \<and> tsLast s1 = Some p then s1\<lparr>tsLast := Some prev\<rparr> else s1"
    have h2: "hp ts ?s2 (us @ prev # xs) oq f g" "cells ?s2 = cells s1" using u(3) by auto
    obtain s3 where s3: "free_of ts p ?s2 = Some s3" "hp ts s3 (us @ prev # xs) oq (p # f) g" "keeps_info ?s2 s3"
      "tsLast s3 = tsLast ?s2" "\<forall>a. a \<noteq> p \<longrightarrow> cells s3 a = cells ?s2 a"
      using free_ok [OF h2(1) _ u(6), of e] u(5) h2(2) by metis
    have k3: "keeps_info s s3" using u(7) s3(3) by (auto simp: keeps_info_def clock_def)
    have "prev \<noteq> p" using u(6) by auto
    then have c3: "cells s3 prev = Some (pe\<lparr>ev_next := ev_next e\<rparr>)" using s3(5) u(4) h2(2) by metis
    have i3: "map (info_at (cells s3)) xs = map (info_at (cells s)) xs"
    proof -
      have "map (info_at (cells s3)) (us @ prev # p # xs) = map (info_at (cells s)) (us @ prev # p # xs)"
        by (rule keeps_info_at [OF k3 hpD(1) [OF Cons.prems(1)]])
      then show ?thesis by simp
    qed
    have fl: "filter (\<lambda>p. \<not> m (info_at (cells s3) p)) xs = filter (\<lambda>p. \<not> m (info_at (cells s) p)) xs"
      using i3 by (intro filter_cong) auto
    obtain r1 where r1: "rs (info e) r = Some r1" "res_of m rs (map (info_at (cells s)) xs) r1 = Some r'"
      using Cons.prems(3) True e by (auto simp: info_at_Some bind_eq_Some_iff)
    obtain s4 f' where s4: "remove_rest_loop ts (\<lambda>e. m (info e)) (\<lambda>e. rs (info e)) prev (ev_next e) r1 s3 = Some (r', s4)"
      "hp ts s4 (us @ prev # filter (\<lambda>p. \<not> m (info_at (cells s) p)) xs) oq f' g" "keeps_info s3 s4"
      "ts \<longrightarrow> tsLast s3 = Some (last (prev # xs)) \<longrightarrow> tsLast s4 = Some (last (prev # filter (\<lambda>p. \<not> m (info_at (cells s) p)) xs))"
      "\<not> ts \<longrightarrow> tsLast s4 = tsLast s3"
      using Cons.IH [OF s3(2) c3, of r1] r1(2) unfolding i3 fl by auto
    have "remove_rest_loop ts (\<lambda>e. m (info e)) (\<lambda>e. rs (info e)) prev (ev_next pe) r s = Some (r', s4)"
      using True e u(1,2) r1(1) s3(1) c3 s4(1) by (subst remove_rest_loop.simps) (simp add: deref_def Let_def)
    moreover have "tsLast s3 = Some (last (prev # xs))" if "ts" "tsLast s = Some (last (prev # p # xs))"
      using that s3(4) u(6,8) last_in_set [of xs] by (cases "xs = []") auto
    moreover have "\<not> ts \<longrightarrow> tsLast s3 = tsLast s" using s3(4) u(8) by simp
    ultimately show ?thesis using s4 True e keeps_info_trans [OF k3 s4(3)] by (auto simp: info_at_Some)
  next
    case False
    have "hp ts s ((us @ [prev]) @ p # xs) oq f g" using Cons.prems(1) by simp
    from Cons.IH [OF this e, of r] Cons.prems(3) False e obtain s' f' where
      s': "remove_rest_loop ts (\<lambda>e. m (info e)) (\<lambda>e. rs (info e)) p (ev_next e) r s = Some (r', s')"
      "hp ts s' ((us @ [prev]) @ p # filter (\<lambda>p. \<not> m (info_at (cells s) p)) xs) oq f' g" "keeps_info s s'"
      "ts \<longrightarrow> tsLast s = Some (last (p # xs)) \<longrightarrow> tsLast s' = Some (last (p # filter (\<lambda>p. \<not> m (info_at (cells s) p)) xs))"
      "\<not> ts \<longrightarrow> tsLast s' = tsLast s" by (auto simp: info_at_Some)
    have "remove_rest_loop ts (\<lambda>e. m (info e)) (\<lambda>e. rs (info e)) prev (ev_next pe) r s = Some (r', s')"
      using False e u(1) s'(1) by (subst remove_rest_loop.simps) (simp add: deref_def)
    then show ?thesis using s' False e by (auto simp: info_at_Some)
  qed
qed

text \<open>The link of the shared list's last cell.\<close>

definition ts_ok :: "'w Timing \<Rightarrow> ptr list \<Rightarrow> bool" where
  "ts_ok s bs \<longleftrightarrow> tsLast s = (if bs = [] then None else Some (last bs))"

lemma res_of_skip: "res_of m rs xs r = res_of m rs (takeWhile m xs @ dropWhile m xs) r"
  by simp

lemma last_dropWhile: "dropWhile P xs \<noteq> [] \<Longrightarrow> last (dropWhile P xs) = last xs"
  by (metis last_appendR takeWhile_dropWhile_id)

lemma filter_dropWhile_not: "filter (\<lambda>x. \<not> P x) (dropWhile P xs) = filter (\<lambda>x. \<not> P x) xs"
  by (induction xs) auto

lemma remove_events_ok:
  assumes h: "hp ts s q oq f g" and r: "res_of m rs (map (info_at (cells s)) q) 0 = Some r'"
    and t: "if ts then ts_ok s q else ts_ok s oq"
  shows "\<exists>s' f'. remove_events ts (\<lambda>e. m (info e)) (\<lambda>e. rs (info e)) s = Some (r', s') \<and>
    hp ts s' (filter (\<lambda>p. \<not> m (info_at (cells s) p)) q) oq f' g \<and> keeps_info s s' \<and>
    (if ts then ts_ok s' (filter (\<lambda>p. \<not> m (info_at (cells s) p)) q) else ts_ok s' oq)"
proof (cases q)
  case Nil
  then show ?thesis using assms by (auto simp: remove_events_def hp_def)
next
  case (Cons p0 q0)
  let ?P = "\<lambda>p. m (info_at (cells s) p)"
  have ne: "head_of ts s \<noteq> None" using h Cons by (auto simp: hp_def)
  have tw: "takeWhile m (map (info_at (cells s)) q) = map (info_at (cells s)) (takeWhile ?P q)"
    "dropWhile m (map (info_at (cells s)) q) = map (info_at (cells s)) (dropWhile ?P q)"
    by (simp_all add: takeWhile_map dropWhile_map comp_def)
  obtain r1 where r1: "res_of m rs (takeWhile m (map (info_at (cells s)) q)) 0 = Some r1"
    "res_of m rs (map (info_at (cells s)) (dropWhile ?P q)) r1 = Some r'"
    using r unfolding res_of_skip [of m rs "map _ _"] res_of_append tw by (auto simp: bind_eq_Some_iff)
  obtain s1 f1 where s1: "remove_head_loop ts (\<lambda>e. m (info e)) (\<lambda>e. rs (info e)) 0 s = Some (r1, s1)"
    "hp ts s1 (dropWhile ?P q) oq f1 g" "keeps_info s s1" "tsLast s1 = tsLast s"
    using remove_head_ok [OF h r1(1)] by blast
  show ?thesis
  proof (cases "dropWhile ?P q")
    case Nil
    then have fn: "filter (\<lambda>p. \<not> ?P p) q = []" by (metis filter.simps(1) filter_dropWhile_not)
    have "head_of ts s1 = None" using s1(2) Nil by (simp add: hp_def)
    then have e: "remove_events ts (\<lambda>e. m (info e)) (\<lambda>e. rs (info e)) s = Some (r1, if ts then s1\<lparr>tsLast := None\<rparr> else s1)"
      using ne s1(1) by (auto simp: remove_events_def)
    have "hp ts (if ts then s1\<lparr>tsLast := None\<rparr> else s1) [] oq f1 g" using s1(2) Nil by auto
    moreover have "keeps_info s (if ts then s1\<lparr>tsLast := None\<rparr> else s1)" using s1(3) by (simp add: keeps_info_def)
    ultimately show ?thesis using e r1(2) Nil fn s1(4) t by (auto simp: ts_ok_def)
  next
    case (Cons prev xs)
    obtain pe where pe: "cells s1 prev = Some pe" "head_of ts s1 = Some prev" using s1(2) Cons by (auto simp: hp_def)
    have i1: "info_at (cells s1) p = info_at (cells s) p" if "p \<in> set q" for p
      using keeps_info_at [OF s1(3) hpD(1) [OF h]] that by simp
    have sub: "p \<in> set q" if "p \<in> set (prev # xs)" for p using that Cons set_dropWhileD by metis
    have fl: "filter (\<lambda>p. \<not> m (info_at (cells s1) p)) xs = filter (\<lambda>p. \<not> ?P p) xs"
      using i1 sub by (intro filter_cong) auto
    have pn: "\<not> ?P prev" using hd_dropWhile [of ?P q] Cons by simp
    then have fq: "filter (\<lambda>p. \<not> ?P p) q = prev # filter (\<lambda>p. \<not> ?P p) xs"
      using filter_dropWhile_not [of ?P q] Cons by simp
    have mi: "map (info_at (cells s1)) xs = map (info_at (cells s)) xs" using i1 sub by simp
    have r2: "res_of m rs (map (info_at (cells s1)) xs) r1 = Some r'" unfolding mi using r1(2) Cons pn by simp
    have h1: "hp ts s1 ([] @ prev # xs) oq f1 g" using s1(2) Cons by simp
    obtain s2 f2 where s2: "remove_rest_loop ts (\<lambda>e. m (info e)) (\<lambda>e. rs (info e)) prev (ev_next pe) r1 s1 = Some (r', s2)"
      "hp ts s2 (prev # filter (\<lambda>p. \<not> ?P p) xs) oq f2 g" "keeps_info s1 s2"
      "ts \<longrightarrow> tsLast s1 = Some (last (prev # xs)) \<longrightarrow> tsLast s2 = Some (last (prev # filter (\<lambda>p. \<not> ?P p) xs))"
      "\<not> ts \<longrightarrow> tsLast s2 = tsLast s1"
      using remove_rest_ok [OF h1 pe(1) r2] unfolding fl by auto
    have "remove_events ts (\<lambda>e. m (info e)) (\<lambda>e. rs (info e)) s = Some (r', s2)"
      using ne s1(1) pe s2(1) by (auto simp: remove_events_def deref_def)
    moreover have "last (prev # xs) = last q" using last_dropWhile [of ?P q] Cons by simp
    then have "ts \<longrightarrow> tsLast s1 = Some (last (prev # xs))" using t s1(4) \<open>q = p0 # q0\<close> by (auto simp: ts_ok_def)
    ultimately show ?thesis using s2 fq t s1(4) keeps_info_trans [OF s1(3) s2(3)] by (auto simp: ts_ok_def)
  qed
qed

subsection \<open>Inserting\<close>

definition link_of :: "Link \<Rightarrow> ptr set" where
  "link_of l = (case l of L_first \<Rightarrow> {} | L_next p \<Rightarrow> {p})"

definition before_time :: "(ptr \<Rightarrow> TEvent option) \<Rightarrow> int \<Rightarrow> ptr \<Rightarrow> bool" where
  "before_time h t p \<longleftrightarrow> fst (info_at h p) \<le> t"

lemma add_loop_ok:
  assumes "read_link l s = Some q" "chain (cells s) q xs" "cells s ne = Some n" "ne \<notin> set xs \<union> link_of l"
    "link_of l \<inter> set xs = {}" "distinct xs"
  shows "\<exists>c f. add_loop ne l s = Some (s\<lparr>cells := c, first := f\<rparr>) \<and> (l \<noteq> L_first \<longrightarrow> f = first s) \<and>
    (\<exists>q'. read_link l (s\<lparr>cells := c, first := f\<rparr>) = Some q' \<and>
      chain c q' (takeWhile (before_time (cells s) (ev_time n)) xs @ ne # dropWhile (before_time (cells s) (ev_time n)) xs)) \<and>
    (\<forall>p. p \<notin> set xs \<union> {ne} \<union> link_of l \<longrightarrow> c p = cells s p) \<and> (\<forall>p. map_option info (c p) = map_option info (cells s p))"
  using assms
proof (induction xs arbitrary: l q)
  case Nil
  then show ?case
    by (subst add_loop.simps)
      (auto simp: link_here_def set_cell_def deref_def write_link_def read_link_def link_of_def split: Link.splits)
next
  case (Cons p xs)
  obtain e where e: "q = Some p" "cells s p = Some e" "chain (cells s) (ev_next e) xs" using Cons.prems(2) by auto
  show ?case
  proof (cases "ev_time n < ev_time e")
    case True
    then have "\<not> before_time (cells s) (ev_time n) p" using e(2) by (simp add: before_time_def info_at_Some info_def)
    then show ?thesis using True e Cons.prems
      by (subst add_loop.simps)
        (auto simp: link_here_def set_cell_def deref_def write_link_def read_link_def link_of_def split: Link.splits)
  next
    case False
    then have b: "before_time (cells s) (ev_time n) p" using e(2) by (simp add: before_time_def info_at_Some info_def)
    let ?t = "takeWhile (before_time (cells s) (ev_time n)) xs" and ?d = "dropWhile (before_time (cells s) (ev_time n)) xs"
    have "read_link (L_next p) s = Some (ev_next e)" using e(2) by (simp add: read_link_def deref_def)
    then obtain c f q' where c: "add_loop ne (L_next p) s = Some (s\<lparr>cells := c, first := f\<rparr>)" "f = first s"
      "read_link (L_next p) (s\<lparr>cells := c, first := f\<rparr>) = Some q'" "chain c q' (?t @ ne # ?d)"
      "\<forall>a. a \<notin> set xs \<union> {ne} \<union> {p} \<longrightarrow> c a = cells s a" "\<forall>a. map_option info (c a) = map_option info (cells s a)"
      using Cons.IH [of "L_next p" "ev_next e"] Cons.prems e by (auto simp: link_of_def)
    have "add_loop ne l s = add_loop ne (L_next p) s"
      using False e Cons.prems(1,3) by (subst add_loop.simps) (simp add: deref_def)
    then have 1: "add_loop ne l s = Some (s\<lparr>cells := c, first := f\<rparr>)" using c(1) by simp
    have 2: "read_link l (s\<lparr>cells := c, first := f\<rparr>) = Some (Some p)"
      using Cons.prems(1,4,5) e(1) c(2,5) by (auto simp: read_link_def deref_def link_of_def split: Link.splits)
    have 3: "chain c (Some p) (p # ?t @ ne # ?d)" using c(3,4) by (auto simp: read_link_def deref_def)
    show ?thesis
    proof (rule exI [of _ c], rule exI [of _ f], intro conjI)
      show "\<exists>q'. read_link l (s\<lparr>cells := c, first := f\<rparr>) = Some q' \<and> chain c q'
        (takeWhile (before_time (cells s) (ev_time n)) (p # xs) @ ne # dropWhile (before_time (cells s) (ev_time n)) (p # xs))"
        using 2 3 b by auto
    qed (use 1 c in auto)
  qed
qed

lemma add_ok:
  assumes "chain (cells s) (first s) as" "cells s ne = Some n" "ne \<notin> set as" "distinct as"
  shows "\<exists>c f. AddEventToQueue ne s = Some (s\<lparr>cells := c, first := f\<rparr>) \<and>
    chain c f (takeWhile (before_time (cells s) (ev_time n)) as @ ne # dropWhile (before_time (cells s) (ev_time n)) as) \<and>
    (\<forall>p. p \<notin> set as \<union> {ne} \<longrightarrow> c p = cells s p) \<and> (\<forall>p. map_option info (c p) = map_option info (cells s p))"
  using add_loop_ok [of L_first s "first s" as ne n] assms
  by (auto simp: AddEventToQueue_def read_link_def link_of_def)

subsection \<open>The abstract view\<close>

text \<open>The pending events in order, and the events other threads have scheduled, in order of arrival.\<close>

definition timing_ok :: "'w Timing \<Rightarrow> info list \<Rightarrow> info list \<Rightarrow> bool" where
  "timing_ok s main shared \<longleftrightarrow> (\<exists>as bs cs ds. hp False s as bs cs ds \<and> ts_ok s bs \<and>
     map (info_at (cells s)) as = main \<and> map (info_at (cells s)) bs = shared) \<and> sorted (map fst main)"

lemma timing_okI:
  "hp False s as bs cs ds \<Longrightarrow> ts_ok s bs \<Longrightarrow> map (info_at (cells s)) as = main \<Longrightarrow>
   map (info_at (cells s)) bs = shared \<Longrightarrow> sorted (map fst main) \<Longrightarrow> timing_ok s main shared"
  unfolding timing_ok_def by blast

fun insert_event :: "info \<Rightarrow> info list \<Rightarrow> info list" where
  "insert_event x [] = [x]"
| "insert_event x (y # ys) = (if fst x < fst y then x # y # ys else y # insert_event x ys)"

lemma insert_event_split:
  "insert_event x ys = takeWhile (\<lambda>y. fst y \<le> fst x) ys @ x # dropWhile (\<lambda>y. fst y \<le> fst x) ys"
  by (induction ys) auto

lemma insert_event_set: "set (insert_event x ys) = insert x (set ys)"
  by (induction ys) auto

lemma insert_event_sorted: "sorted (map fst ys) \<Longrightarrow> sorted (map fst (insert_event x ys))"
  by (induction ys) (auto simp: insert_event_set)

lemma insert_at:
  assumes "\<And>p. p \<in> set as \<union> {ne} \<Longrightarrow> info_at c p = info_at h p" "h ne = Some n"
  shows "map (info_at c) (takeWhile (before_time h (ev_time n)) as @ ne # dropWhile (before_time h (ev_time n)) as) =
    insert_event (info n) (map (info_at h) as)"
proof -
  have "info_at h ne = info n" "fst (info n) = ev_time n" using assms(2) by (auto simp: info_at_Some info_def)
  moreover have "map (info_at c) xs = map (info_at h) xs" if "set xs \<subseteq> set as" for xs using assms(1) that by auto
  ultimately show ?thesis
    using assms(1) set_takeWhileD [of _ "before_time h (ev_time n)" as] set_dropWhileD [of _ "before_time h (ev_time n)" as]
    by (auto simp: insert_event_split takeWhile_map dropWhile_map comp_def before_time_def [abs_def] subset_iff)
qed

lemma info_at_keeps:
  "\<forall>p. map_option info (c p) = map_option info (h p) \<Longrightarrow> h p = Some e \<Longrightarrow> info_at c p = info_at h p"
  by (metis (no_types, lifting) info_at_Some map_option_eq_Some option.simps(9))

lemma insert_middle:
  "set (takeWhile P xs @ a # dropWhile P xs) = insert a (set xs)"
  "distinct xs \<Longrightarrow> a \<notin> set xs \<Longrightarrow> distinct (takeWhile P xs @ a # dropWhile P xs)"
  by (induction xs) auto

lemma hp_add:
  assumes h: "hp False (s\<lparr>tsFirst := x\<rparr>) as bs cs ds" and n: "cells s ne = Some n" "ne \<notin> set (as @ bs @ cs @ ds)"
  shows "\<exists>s' as'. AddEventToQueue ne s = Some s' \<and> hp False (s'\<lparr>tsFirst := x\<rparr>) as' bs cs ds \<and> tsFirst s' = tsFirst s \<and>
    map (info_at (cells s')) as' = insert_event (info n) (map (info_at (cells s)) as) \<and>
    map (info_at (cells s')) bs = map (info_at (cells s)) bs \<and> clock s' = clock s \<and> tsLast s' = tsLast s"
proof -
  note hd = hpD [OF h, simplified]
  obtain as' where as': "as' = takeWhile (before_time (cells s) (ev_time n)) as @ ne # dropWhile (before_time (cells s) (ev_time n)) as"
    by blast
  have d: "distinct as'" "set as' = insert ne (set as)"
    unfolding as' using insert_middle [where P = "before_time (cells s) (ev_time n)" and xs = as and a = ne] hd(5) n(2) by auto
  obtain c f where c: "AddEventToQueue ne s = Some (s\<lparr>cells := c, first := f\<rparr>)" "chain c f as'"
    "\<forall>p. p \<notin> set as \<union> {ne} \<longrightarrow> c p = cells s p" "\<forall>p. map_option info (c p) = map_option info (cells s p)"
    unfolding as' using add_ok [of s as ne n] hd(1,5) n by (auto simp: head_of_def)
  have ch: "chain c q xs = chain (cells s) q xs" if "set xs \<subseteq> set (bs @ cs @ ds)" for q xs
  proof (rule chain_cong)
    fix p assume "p \<in> set xs"
    then have "p \<in> set (bs @ cs @ ds)" using that by blast
    then have "p \<notin> set as \<union> {ne}" using hd(5) n(2) by auto
    then show "c p = cells s p" using c(3) by blast
  qed
  have al: "p < next_cell s" if "c p = Some e" for p e
    using c(4) that hd(6) [of p] by (metis map_option_eq_Some option.simps(9))
  have ds: "distinct (as' @ bs @ cs @ ds)" using d hd(5) n(2) by auto
  have "hp False (s\<lparr>cells := c, first := f, tsFirst := x\<rparr>) as' bs cs ds"
    using hd(1-4) c(2) ch al ds by (auto simp: hp_def head_of_def pool_of_def)
  moreover have ia: "info_at c p = info_at (cells s) p" if "cells s p \<noteq> None" for p
    using info_at_keeps [OF c(4)] that by blast
  have "map (info_at c) as' = insert_event (info n) (map (info_at (cells s)) as)"
    unfolding as' by (rule insert_at [where h = "cells s", OF _ n(1)]) (use ia n(1) chain_alloc [OF hd(1)] in fastforce)
  moreover have "map (info_at c) bs = map (info_at (cells s)) bs"
    using ia chain_alloc [OF hd(2)] by fastforce
  ultimately show ?thesis using c(1) by (auto simp: clock_def)
qed

lemma hp_add0:
  assumes "hp False s as bs cs ds" "cells s ne = Some n" "ne \<notin> set (as @ bs @ cs @ ds)"
  shows "\<exists>s' as'. AddEventToQueue ne s = Some s' \<and> hp False s' as' bs cs ds \<and>
    map (info_at (cells s')) as' = insert_event (info n) (map (info_at (cells s)) as) \<and>
    map (info_at (cells s')) bs = map (info_at (cells s)) bs \<and> clock s' = clock s \<and> tsLast s' = tsLast s"
proof -
  have "hp False (s\<lparr>tsFirst := tsFirst s\<rparr>) as bs cs ds" using assms(1) by simp
  from hp_add [OF this assms(2,3)] obtain s' as' where s': "AddEventToQueue ne s = Some s'"
    "hp False (s'\<lparr>tsFirst := tsFirst s\<rparr>) as' bs cs ds" "tsFirst s' = tsFirst s"
    "map (info_at (cells s')) as' = insert_event (info n) (map (info_at (cells s)) as)"
    "map (info_at (cells s')) bs = map (info_at (cells s)) bs" "clock s' = clock s" "tsLast s' = tsLast s" by blast
  moreover have "s'\<lparr>tsFirst := tsFirst s\<rparr> = s'" using s'(3) by (metis Timing.surjective Timing.update_convs(6))
  ultimately show ?thesis by metis
qed

subsection \<open>Allocating\<close>

lemma GetNewEvent_ok:
  assumes "hp False s as bs cs ds"
  shows "\<exists>ne s1 cs' e. GetNewEvent s = Some (ne, s1) \<and> hp False s1 as bs cs' ds \<and> cells s1 ne = Some e \<and>
    ne \<notin> set (as @ bs @ cs' @ ds) \<and> clock s1 = clock s \<and> tsLast s1 = tsLast s \<and> tsFirst s1 = tsFirst s \<and>
    (\<forall>p. p \<noteq> ne \<longrightarrow> cells s1 p = cells s p)"
proof (cases "eventPool s")
  case None
  have fr: "next_cell s \<notin> set (as @ bs @ cs @ ds)"
  proof
    assume "next_cell s \<in> set (as @ bs @ cs @ ds)"
    then have "\<exists>e. cells s (next_cell s) = Some e"
      using chain_alloc [OF hpD(1) [OF assms]] chain_alloc [OF hpD(2) [OF assms]] chain_alloc [OF hpD(3) [OF assms]]
        chain_alloc [OF hpD(4) [OF assms]] by auto
    then show False using hpD(6) [OF assms] by blast
  qed
  have "hp False (snd (new_cell s)) as bs cs ds" using assms fr
    by (auto simp: hp_def new_cell_def head_of_def pool_of_def less_SucI)
  then show ?thesis using None fr by (auto simp: GetNewEvent_def new_cell_def)
next
  case (Some ev)
  then obtain e cs' where cs: "cs = ev # cs'" "cells s ev = Some e" "chain (cells s) (ev_next e) cs'"
    using hpD(3) [OF assms] by (auto simp: pool_of_def chain_Some)
  have "hp False (s\<lparr>eventPool := ev_next e\<rparr>) as bs cs' ds" using assms cs by (auto simp: hp_def head_of_def pool_of_def)
  moreover have "ev \<notin> set (as @ bs @ cs' @ ds)" using hpD(5) [OF assms] cs(1) by auto
  ultimately show ?thesis using Some cs by (auto simp: GetNewEvent_def deref_def)
qed

lemma GetNewTsEvent_ok:
  assumes "hp False s as bs cs ds"
  shows "\<exists>ne s1 ds' e. GetNewTsEvent s = Some (ne, s1) \<and> hp False s1 as bs cs ds' \<and> cells s1 ne = Some e \<and>
    ne \<notin> set (as @ bs @ cs @ ds') \<and> clock s1 = clock s \<and> tsLast s1 = tsLast s \<and> tsFirst s1 = tsFirst s \<and>
    (\<forall>p. p \<noteq> ne \<longrightarrow> cells s1 p = cells s p)"
proof (cases "eventTsPool s")
  case None
  have fr: "next_cell s \<notin> set (as @ bs @ cs @ ds)"
  proof
    assume "next_cell s \<in> set (as @ bs @ cs @ ds)"
    then have "\<exists>e. cells s (next_cell s) = Some e"
      using chain_alloc [OF hpD(1) [OF assms]] chain_alloc [OF hpD(2) [OF assms]] chain_alloc [OF hpD(3) [OF assms]]
        chain_alloc [OF hpD(4) [OF assms]] by auto
    then show False using hpD(6) [OF assms] by blast
  qed
  have "hp False (snd (new_cell (s\<lparr>allocatedTsEvents := allocatedTsEvents s + 1\<rparr>))) as bs cs ds" using assms fr
    by (auto simp: hp_def new_cell_def head_of_def pool_of_def less_SucI)
  then show ?thesis using None fr by (auto simp: GetNewTsEvent_def new_cell_def)
next
  case (Some ev)
  then obtain e ds' where ds: "ds = ev # ds'" "cells s ev = Some e" "chain (cells s) (ev_next e) ds'"
    using hpD(4) [OF assms] by (auto simp: pool_of_def chain_Some)
  have "hp False (s\<lparr>allocatedTsEvents := allocatedTsEvents s + 1, eventTsPool := ev_next e\<rparr>) as bs cs ds'"
    using assms ds by (auto simp: hp_def head_of_def pool_of_def)
  moreover have "ev \<notin> set (as @ bs @ cs @ ds')" using hpD(5) [OF assms] ds(1) by auto
  ultimately show ?thesis using Some ds by (auto simp: GetNewTsEvent_def deref_def)
qed

lemma set_cell_ok:
  assumes "hp False s as bs cs ds" "cells s ne = Some e" "ne \<notin> set (as @ bs @ cs @ ds)"
  shows "\<exists>s1. set_cell ne u s = Some s1 \<and> hp False s1 as bs cs ds \<and> cells s1 ne = Some (u e) \<and> clock s1 = clock s \<and>
    tsLast s1 = tsLast s \<and> tsFirst s1 = tsFirst s \<and> (\<forall>p. p \<noteq> ne \<longrightarrow> cells s1 p = cells s p)"
  using assms by (auto simp: set_cell_def deref_def hp_def head_of_def pool_of_def)

lemma map_info_cong: "(\<forall>p. p \<noteq> ne \<longrightarrow> c p = h p) \<Longrightarrow> ne \<notin> set ps \<Longrightarrow> map (info_at c) ps = map (info_at h) ps"
  by (auto simp: info_at_def)

lemma event_time_clock: "clock s' = clock s \<Longrightarrow> event_time s' d = event_time s d"
  using clockD(1) [of s' s] by (simp add: event_time_def GetTicks_def)

lemma ScheduleEvent_ok:
  assumes "timing_ok s main shared"
  shows "\<exists>s'. ScheduleEvent d ty ud s = Some s' \<and> timing_ok s' (insert_event (event_time s d, ud, ty) main) shared \<and> clock s' = clock s"
proof -
  obtain as bs cs ds where h: "hp False s as bs cs ds" "ts_ok s bs" "map (info_at (cells s)) as = main"
    "map (info_at (cells s)) bs = shared" "sorted (map fst main)" using assms by (auto simp: timing_ok_def)
  obtain ne s1 cs' e where n: "GetNewEvent s = Some (ne, s1)" "hp False s1 as bs cs' ds" "cells s1 ne = Some e"
    "ne \<notin> set (as @ bs @ cs' @ ds)" "clock s1 = clock s" "tsLast s1 = tsLast s" "\<forall>p. p \<noteq> ne \<longrightarrow> cells s1 p = cells s p"
    using GetNewEvent_ok [OF h(1)] by blast
  let ?u = "\<lambda>e. e\<lparr>ev_userdata := ud, ev_type := ty, ev_time := event_time s1 d\<rparr>"
  obtain s2 where s2: "set_cell ne ?u s1 = Some s2" "hp False s2 as bs cs' ds" "cells s2 ne = Some (?u e)" "clock s2 = clock s1"
    "tsLast s2 = tsLast s1" "\<forall>p. p \<noteq> ne \<longrightarrow> cells s2 p = cells s1 p"
    using set_cell_ok [OF n(2-4), of ?u] by blast
  have m: "map (info_at (cells s2)) as = main" "map (info_at (cells s2)) bs = shared"
    using map_info_cong [of ne "cells s2" "cells s" as] map_info_cong [of ne "cells s2" "cells s" bs] s2(6) n(4) n(7)
    unfolding h(3,4) by simp_all
  have i: "info (?u e) = (event_time s d, ud, ty)" using event_time_clock [OF n(5)] by (simp add: info_def)
  obtain s' as' where s': "AddEventToQueue ne s2 = Some s'" "hp False s' as' bs cs' ds"
    "map (info_at (cells s')) as' = insert_event (event_time s d, ud, ty) main"
    "map (info_at (cells s')) bs = shared" "clock s' = clock s2" "tsLast s' = tsLast s2"
    using hp_add0 [OF s2(2,3) n(4)] unfolding m i by blast
  have "ScheduleEvent d ty ud s = Some s'" using n(1) s2(1) s'(1) by (simp add: ScheduleEvent_def)
  moreover have "ts_ok s' bs" using h(2) s'(6) s2(5) n(6) by (simp add: ts_ok_def)
  ultimately show ?thesis
    using s' s2(4) n(5) insert_event_sorted [OF h(5)] unfolding timing_ok_def by auto
qed

lemma chain_snoc:
  assumes "chain h q (bs @ [l])" "h l = Some le" "h' l = Some (le\<lparr>ev_next := Some ne\<rparr>)" "h' ne = Some e" "ev_next e = None"
    "\<And>p. p \<in> set bs \<Longrightarrow> h' p = h p" "l \<notin> set bs"
  shows "chain h' q (bs @ [l, ne])"
  using assms by (induction bs arbitrary: q) auto

lemma ScheduleEvent_Threadsafe_ok:
  assumes "timing_ok s main shared"
  shows "\<exists>s'. ScheduleEvent_Threadsafe d ty ud s = Some s' \<and> timing_ok s' main (shared @ [(event_time s d, ud, ty)]) \<and>
    hasTsEvents s' \<and> globalTimer s' = globalTimer s \<and> world s' = world s"
proof -
  obtain as bs cs ds where h: "hp False s as bs cs ds" "ts_ok s bs" "map (info_at (cells s)) as = main"
    "map (info_at (cells s)) bs = shared" "sorted (map fst main)" using assms by (auto simp: timing_ok_def)
  obtain ne s1 ds' e where n: "GetNewTsEvent s = Some (ne, s1)" "hp False s1 as bs cs ds'" "cells s1 ne = Some e"
    "ne \<notin> set (as @ bs @ cs @ ds')" "clock s1 = clock s" "tsLast s1 = tsLast s" "tsFirst s1 = tsFirst s"
    "\<forall>p. p \<noteq> ne \<longrightarrow> cells s1 p = cells s p"
    using GetNewTsEvent_ok [OF h(1)] by blast
  let ?u = "\<lambda>e. e\<lparr>ev_time := event_time s1 d, ev_type := ty, ev_next := None, ev_userdata := ud\<rparr>"
  obtain s2 where s2: "set_cell ne ?u s1 = Some s2" "hp False s2 as bs cs ds'" "cells s2 ne = Some (?u e)" "clock s2 = clock s1"
    "tsLast s2 = tsLast s1" "tsFirst s2 = tsFirst s1" "\<forall>p. p \<noteq> ne \<longrightarrow> cells s2 p = cells s1 p"
    using set_cell_ok [OF n(2-4), of ?u] by blast
  have m: "map (info_at (cells s2)) as = main" "map (info_at (cells s2)) bs = shared"
    using map_info_cong [of ne "cells s2" "cells s" as] map_info_cong [of ne "cells s2" "cells s" bs] s2(7) n(4) n(8)
    unfolding h(3,4) by simp_all
  have i: "info (?u e) = (event_time s d, ud, ty)" using event_time_clock [OF n(5)] by (simp add: info_def)
  note h2 = hpD [OF s2(2)]
  have tl: "tsLast s2 = (if bs = [] then None else Some (last bs))" using h(2) n(6) s2(5) by (simp add: ts_ok_def)
  show ?thesis
  proof (cases bs rule: rev_cases)
    case Nil
    let ?s' = "s2\<lparr>tsFirst := Some ne, tsLast := Some ne, hasTsEvents := True\<rparr>"
    have "tsFirst s2 = None" using h2(2) Nil by (simp add: head_of_def)
    then have "ScheduleEvent_Threadsafe d ty ud s = Some ?s'"
      using n(1) s2(1) tl Nil by (simp add: ScheduleEvent_Threadsafe_def Let_def)
    moreover have hp: "hp False ?s' as [ne] cs ds'" using h2 n(4) s2(3) Nil by (auto simp: hp_def head_of_def pool_of_def)
    have "timing_ok ?s' main (shared @ [(event_time s d, ud, ty)])"
      by (rule timing_okI [OF hp]) (use m Nil h(5) s2(3) i in \<open>auto simp: ts_ok_def info_at_Some\<close>)
    ultimately show ?thesis using clockD [OF s2(4)] clockD [OF n(5)] by simp
  next
    case (snoc bs' l)
    obtain le where le: "cells s2 l = Some le" using chain_alloc [OF h2(2), of l] snoc by auto
    let ?c = "(cells s2)(l \<mapsto> le\<lparr>ev_next := Some ne\<rparr>)"
    let ?s' = "s2\<lparr>cells := ?c, tsLast := Some ne, hasTsEvents := True\<rparr>"
    have "tsFirst s2 \<noteq> None" using h2(2) snoc by (cases "tsFirst s2") (auto simp: head_of_def)
    moreover have "set_cell l (\<lambda>e. e\<lparr>ev_next := Some ne\<rparr>) s2 = Some (s2\<lparr>cells := ?c\<rparr>)" using le by (simp add: set_cell_def deref_def)
    ultimately have "ScheduleEvent_Threadsafe d ty ud s = Some ?s'"
      using n(1) s2(1) tl snoc by (auto simp: ScheduleEvent_Threadsafe_def Let_def)
    moreover have "l \<noteq> ne" "l \<notin> set as" "l \<notin> set cs" "l \<notin> set ds'" "l \<notin> set bs'" using h2(5) n(4) snoc by auto
    moreover have "chain ?c (tsFirst s2) (bs' @ [l, ne])"
      by (rule chain_snoc [of "cells s2" _ _ _ le]) (use h2(2) snoc le s2(3) \<open>l \<noteq> ne\<close> \<open>l \<notin> set bs'\<close> in \<open>auto simp: head_of_def\<close>)
    ultimately have r: "ScheduleEvent_Threadsafe d ty ud s = Some ?s'" and hp: "hp False ?s' as (bs @ [ne]) cs ds'"
      using h2 n(4) le snoc by (auto simp: hp_def head_of_def pool_of_def)
    have ia: "info_at ?c = info_at (cells s2)" using le by (auto simp: info_at_def fun_eq_iff)
    have "timing_ok ?s' main (shared @ [(event_time s d, ud, ty)])"
    proof (rule timing_okI [OF hp])
      have "cells ?s' = ?c" by simp
      then show "map (info_at (cells ?s')) as = main" "map (info_at (cells ?s')) (bs @ [ne]) = shared @ [(event_time s d, ud, ty)]"
        using m s2(3) i by (simp_all only: ia list.map map_append info_at_Some)
    qed (use h(5) in \<open>auto simp: ts_ok_def\<close>)
    then show ?thesis using r clockD [OF s2(4)] clockD [OF n(5)] by simp
  qed
qed

subsection \<open>Moving\<close>

lemma move_loop_ok:
  assumes "hp False s as bs cs ds"
  shows "\<exists>s' as'. move_loop s = Some s' \<and> hp False s' as' [] cs ds \<and>
    map (info_at (cells s')) as' = fold insert_event (map (info_at (cells s)) bs) (map (info_at (cells s)) as) \<and> clock s' = clock s"
  using assms
proof (induction bs arbitrary: s as)
  case Nil
  then have "tsFirst s = None" by (simp add: hp_def head_of_def)
  then show ?case using Nil by (subst move_loop.simps) auto
next
  case (Cons p bs)
  note h = hpD [OF Cons.prems]
  obtain e where e: "tsFirst s = Some p" "cells s p = Some e" "chain (cells s) (ev_next e) bs" using h(2) by (auto simp: head_of_def)
  have h1: "hp False (s\<lparr>tsFirst := ev_next e\<rparr>) as bs cs ds" "p \<notin> set (as @ bs @ cs @ ds)"
    using Cons.prems e by (auto simp: hp_def head_of_def pool_of_def)
  obtain s1 as1 where s1: "AddEventToQueue p s = Some s1" "hp False (s1\<lparr>tsFirst := ev_next e\<rparr>) as1 bs cs ds"
    "map (info_at (cells s1)) as1 = insert_event (info e) (map (info_at (cells s)) as)"
    "map (info_at (cells s1)) bs = map (info_at (cells s)) bs" "clock s1 = clock s"
    using hp_add [OF h1(1) e(2) h1(2)] by blast
  obtain s' as' where s': "move_loop (s1\<lparr>tsFirst := ev_next e\<rparr>) = Some s'" "hp False s' as' [] cs ds"
    "map (info_at (cells s')) as' = fold insert_event (map (info_at (cells s1)) bs) (map (info_at (cells s1)) as1)" "clock s' = clock s1"
    using Cons.IH [OF s1(2)] by auto
  have "move_loop s = Some s'" using e s1(1) s'(1) by (subst move_loop.simps) (simp add: deref_def)
  then show ?case using s' s1(3-5) e(2) by (auto simp: info_at_Some)
qed

lemma refill_loop_ok:
  assumes "hp False s as bs cs ds"
  shows "\<exists>s' cs' ds'. refill_loop s = Some s' \<and> hp False s' as bs cs' ds' \<and> keeps_info s s' \<and> tsLast s' = tsLast s"
  using assms
proof (induction cs arbitrary: s ds)
  case Nil
  then have "eventPool s = None" by (simp add: hp_def pool_of_def)
  then have "refill_loop s = Some s" by (subst refill_loop.simps) simp
  then show ?case using Nil by auto
next
  case (Cons p cs)
  note h = hpD [OF Cons.prems]
  obtain e where e: "eventPool s = Some p" "cells s p = Some e" "chain (cells s) (ev_next e) cs" using h(3) by (auto simp: pool_of_def)
  let ?s1 = "s\<lparr>eventPool := ev_next e, cells := (cells s)(p \<mapsto> e\<lparr>ev_next := eventTsPool s\<rparr>), eventTsPool := Some p,
    allocatedTsEvents := allocatedTsEvents s - 1\<rparr>"
  show ?case
  proof (cases "allocatedTsEvents s > 0")
    case True
    have r: "refill_loop s = refill_loop ?s1"
      using True e by (subst refill_loop.simps) (simp add: deref_def set_cell_def)
    have "hp False ?s1 as bs cs (p # ds)" using Cons.prems e by (auto simp: hp_def head_of_def pool_of_def)
    from Cons.IH [OF this] obtain s' cs' ds' where s': "refill_loop ?s1 = Some s'" "hp False s' as bs cs' ds'" "keeps_info ?s1 s'"
      "tsLast s' = tsLast ?s1" by blast
    moreover have "keeps_info s ?s1" "tsLast ?s1 = tsLast s" using e by (auto simp: keeps_info_def)
    ultimately show ?thesis using keeps_info_trans [of s ?s1 s'] unfolding r by auto
  next
    case False
    then have "refill_loop s = Some s" by (subst refill_loop.simps) simp
    then show ?thesis using Cons.prems by auto
  qed
qed

lemma fold_insert_sorted: "sorted (map fst ys) \<Longrightarrow> sorted (map fst (fold insert_event xs ys))"
  by (induction xs arbitrary: ys) (auto simp: insert_event_sorted)

lemma hp_hasTs [simp]: "hp ts (s\<lparr>hasTsEvents := b\<rparr>) = hp ts s"
  by (simp add: fun_eq_iff hp_def head_of_def pool_of_def)

lemma MoveEvents_ok:
  assumes "timing_ok s main shared"
  shows "\<exists>s'. MoveEvents s = Some s' \<and> timing_ok s' (fold insert_event shared main) [] \<and> clock s' = clock (s\<lparr>hasTsEvents := False\<rparr>)"
proof -
  obtain as bs cs ds where h: "hp False s as bs cs ds" "map (info_at (cells s)) as = main"
    "map (info_at (cells s)) bs = shared" "sorted (map fst main)" using assms by (auto simp: timing_ok_def)
  have "hp False (s\<lparr>hasTsEvents := False\<rparr>) as bs cs ds" using h(1) by simp
  from move_loop_ok [OF this] obtain s1 as1 where s1: "move_loop (s\<lparr>hasTsEvents := False\<rparr>) = Some s1" "hp False s1 as1 [] cs ds"
    "map (info_at (cells s1)) as1 = fold insert_event shared main" "clock s1 = clock (s\<lparr>hasTsEvents := False\<rparr>)"
    using h(2,3) by auto
  have "hp False (s1\<lparr>tsLast := None\<rparr>) as1 [] cs ds" using s1(2) by simp
  from refill_loop_ok [OF this] obtain s2 cs2 ds2 where s2: "refill_loop (s1\<lparr>tsLast := None\<rparr>) = Some s2" "hp False s2 as1 [] cs2 ds2"
    "keeps_info (s1\<lparr>tsLast := None\<rparr>) s2" "tsLast s2 = None" by auto
  have i: "map (info_at (cells s2)) as1 = fold insert_event shared main"
    using keeps_info_at [OF s2(3), of "head_of False s1" as1] hpD(1) [OF s1(2)] s1(3) by simp
  have "clock s2 = clock s1" using s2(3) by (simp add: keeps_info_def)
  moreover have "timing_ok s2 (fold insert_event shared main) []"
    by (rule timing_okI [OF s2(2) _ i]) (use s2(4) fold_insert_sorted [OF h(4)] in \<open>auto simp: ts_ok_def\<close>)
  ultimately show ?thesis using s1(1,4) s2(1) by (simp add: MoveEvents_def)
qed

subsection \<open>Firing\<close>

text \<open>Callbacks that act outside the scheduler only.\<close>

definition outside :: "(nat \<Rightarrow> u64 \<Rightarrow> int \<Rightarrow> 'w \<Rightarrow> 'w) \<Rightarrow> 'w callbacks" where
  "outside act cb ud late s = Some (s\<lparr>world := act cb ud late (world s)\<rparr>)"

definition act_on :: "(nat \<Rightarrow> u64 \<Rightarrow> int \<Rightarrow> 'w \<Rightarrow> 'w) \<Rightarrow> TEventType list \<Rightarrow> int \<Rightarrow> info \<Rightarrow> 'w \<Rightarrow> 'w" where
  "act_on act types now x w = (case x of (t, ud, ty) \<Rightarrow>
     (case et_callback (types ! nat ty) of Callback cb \<Rightarrow> act cb ud (to_int (now - t)) w | AntiCrashCallback \<Rightarrow> w))"

definition fireable :: "TEventType list \<Rightarrow> int \<Rightarrow> info \<Rightarrow> bool" where
  "fireable types now x \<longleftrightarrow> (case x of (t, ud, ty) \<Rightarrow> s64_range (now - t) \<and> 0 \<le> ty \<and> ty < int (length types) \<and>
     et_callback (types ! nat ty) \<noteq> AntiCrashCallback)"

lemma fire_outside:
  assumes "fireable (event_types s) (globalTimer s) (info e)"
  shows "fire (outside act) e s = Some (s\<lparr>world := act_on act (event_types s) (globalTimer s) (info e) (world s)\<rparr>)"
  using assms by (auto simp: fire_def fireable_def act_on_def info_def s64_arith_def outside_def split: TimedCallback.splits)

lemma process_ok:
  assumes "hp False s as bs cs ds"
    and "\<forall>x \<in> set (takeWhile (\<lambda>x. fst x \<le> globalTimer s) (map (info_at (cells s)) as)). fireable (event_types s) (globalTimer s) x"
  shows "\<exists>s' as' cs'. ProcessFifoWaitEvents (outside act) s = Some s' \<and> hp False s' as' bs cs' ds \<and>
    map (info_at (cells s')) as' = dropWhile (\<lambda>x. fst x \<le> globalTimer s) (map (info_at (cells s)) as) \<and>
    map (info_at (cells s')) bs = map (info_at (cells s)) bs \<and> tsLast s' = tsLast s \<and>
    clock s' = clock (s\<lparr>world := fold (act_on act (event_types s) (globalTimer s))
      (takeWhile (\<lambda>x. fst x \<le> globalTimer s) (map (info_at (cells s)) as)) (world s)\<rparr>)"
  using assms
proof (induction as arbitrary: s cs)
  case Nil
  then have "first s = None" by (simp add: hp_def head_of_def)
  then show ?case using Nil by (subst ProcessFifoWaitEvents.simps) auto
next
  case (Cons p as)
  note h = hpD [OF Cons.prems(1)]
  obtain e where e: "first s = Some p" "cells s p = Some e" "chain (cells s) (ev_next e) as" using h(1) by (auto simp: head_of_def)
  have te: "fst (info_at (cells s) p) = ev_time e" using e(2) by (simp add: info_at_Some info_def)
  show ?case
  proof (cases "ev_time e \<le> globalTimer s")
    case True
    let ?w = "act_on act (event_types s) (globalTimer s) (info e) (world s)"
    let ?s1 = "s\<lparr>first := ev_next e, world := ?w\<rparr>"
    have "info_at (cells s) p \<in> set (takeWhile (\<lambda>x. fst x \<le> globalTimer s) (map (info_at (cells s)) (p # as)))"
      using True te by simp
    then have "fireable (event_types s) (globalTimer s) (info_at (cells s) p)" using Cons.prems(2) by blast
    then have "fireable (event_types s) (globalTimer s) (info e)" using e(2) by (simp add: info_at_Some)
    then have f: "fire (outside act) e (s\<lparr>first := ev_next e\<rparr>) = Some ?s1" using fire_outside [of "s\<lparr>first := ev_next e\<rparr>" e act] by simp
    have h1: "hp False ?s1 as bs cs ds" "cells ?s1 p = Some e" "p \<notin> set (as @ bs @ cs @ ds)"
      using Cons.prems(1) e by (auto simp: hp_def head_of_def pool_of_def)
    obtain s2 where s2: "FreeEvent p ?s1 = Some s2" "hp False s2 as bs (p # cs) ds" "keeps_info ?s1 s2" "tsLast s2 = tsLast s"
      using free_ok [OF h1] by (auto simp: free_of_def)
    have c2: "clock s2 = clock ?s1" using s2(3) by (simp add: keeps_info_def)
    have m: "map (info_at (cells s2)) as = map (info_at (cells s)) as" "map (info_at (cells s2)) bs = map (info_at (cells s)) bs"
      using keeps_info_at [OF s2(3) hpD(1) [OF h1(1)]] keeps_info_at [OF s2(3) hpD(2) [OF h1(1)]] by simp_all
    have ck: "globalTimer s2 = globalTimer s" "event_types s2 = event_types s" "world s2 = ?w"
      using clockD [OF c2] by simp_all
    have fi: "\<forall>x \<in> set (takeWhile (\<lambda>x. fst x \<le> globalTimer s2) (map (info_at (cells s2)) as)).
        fireable (event_types s2) (globalTimer s2) x"
      unfolding m ck using Cons.prems(2) True te by auto
    obtain s' as' cs' where s': "ProcessFifoWaitEvents (outside act) s2 = Some s'" "hp False s' as' bs cs' ds"
      "map (info_at (cells s')) as' = dropWhile (\<lambda>x. fst x \<le> globalTimer s) (map (info_at (cells s)) as)"
      "map (info_at (cells s')) bs = map (info_at (cells s)) bs" "tsLast s' = tsLast s2"
      "clock s' = clock (s2\<lparr>world := fold (act_on act (event_types s) (globalTimer s))
        (takeWhile (\<lambda>x. fst x \<le> globalTimer s) (map (info_at (cells s)) as)) ?w\<rparr>)"
      using Cons.IH [OF s2(2) fi] unfolding m ck by blast
    have "ProcessFifoWaitEvents (outside act) s = Some s'"
      using True e f s2(1) s'(1) by (subst ProcessFifoWaitEvents.simps) (simp add: deref_def)
    moreover have "clock (s2\<lparr>world := w\<rparr>) = clock (s\<lparr>world := w\<rparr>)" for w using c2 by (simp add: clock_def)
    ultimately show ?thesis using s' s2(4) True te e(2) by (auto simp: info_at_Some)
  next
    case False
    then have "ProcessFifoWaitEvents (outside act) s = Some s" using e by (subst ProcessFifoWaitEvents.simps) (simp add: deref_def)
    then show ?thesis using False te Cons.prems(1) by auto
  qed
qed

subsection \<open>Properties\<close>

lemma hp_frame: "keeps_info s s' \<Longrightarrow> hp False s as bs cs ds \<Longrightarrow> map (info_at (cells s')) (as @ bs) = map (info_at (cells s)) (as @ bs)"
  using keeps_info_at [of s s' "head_of False s" as] keeps_info_at [of s s' "head_of True s" bs] by (simp add: hp_def)

lemma filter_info: "map (info_at h) (filter (\<lambda>p. \<not> m (info_at h p)) ps) = filter (\<lambda>x. \<not> m x) (map (info_at h) ps)"
  by (induction ps) auto

lemma remove_main:
  assumes "timing_ok s main shared" "res_of m rs main 0 = Some r"
  shows "\<exists>s'. remove_events False (\<lambda>e. m (info e)) (\<lambda>e. rs (info e)) s = Some (r, s') \<and>
    timing_ok s' (filter (\<lambda>x. \<not> m x) main) shared \<and> clock s' = clock s"
proof -
  obtain as bs cs ds where h: "hp False s as bs cs ds" "ts_ok s bs" "map (info_at (cells s)) as = main"
    "map (info_at (cells s)) bs = shared" "sorted (map fst main)" using assms(1) by (auto simp: timing_ok_def)
  let ?as = "filter (\<lambda>p. \<not> m (info_at (cells s) p)) as"
  obtain s' f' where s': "remove_events False (\<lambda>e. m (info e)) (\<lambda>e. rs (info e)) s = Some (r, s')" "hp False s' ?as bs f' ds"
    "keeps_info s s'" "ts_ok s' bs"
    using remove_events_ok [OF h(1), of m rs r] assms(2) h(2,3) by auto
  note i = hp_frame [OF s'(3) h(1)]
  have "map (info_at (cells s')) ?as = map (info_at (cells s)) ?as" using i by (auto intro: map_cong)
  then have "map (info_at (cells s')) ?as = filter (\<lambda>x. \<not> m x) main" using filter_info [of "cells s" m as] h(3) by simp
  moreover have "map (info_at (cells s')) bs = shared" using i h(4) by simp
  moreover have "sorted (map fst (filter (\<lambda>x. \<not> m x) main))" using h(5) by (simp add: sorted_filter)
  ultimately have "timing_ok s' (filter (\<lambda>x. \<not> m x) main) shared" using timing_okI [OF s'(2,4)] by simp
  then show ?thesis using s'(1,3) by (auto simp: keeps_info_def)
qed

lemma remove_shared:
  assumes "timing_ok s main shared" "res_of m rs shared 0 = Some r"
  shows "\<exists>s'. remove_events True (\<lambda>e. m (info e)) (\<lambda>e. rs (info e)) s = Some (r, s') \<and>
    timing_ok s' main (filter (\<lambda>x. \<not> m x) shared) \<and> clock s' = clock s"
proof -
  obtain as bs cs ds where h: "hp False s as bs cs ds" "ts_ok s bs" "map (info_at (cells s)) as = main"
    "map (info_at (cells s)) bs = shared" "sorted (map fst main)" using assms(1) by (auto simp: timing_ok_def)
  let ?bs = "filter (\<lambda>p. \<not> m (info_at (cells s) p)) bs"
  have "hp True s bs as ds cs" using h(1) hp_swap [of True s as bs cs ds] by simp
  from remove_events_ok [OF this, of m rs r] assms(2) h(2,4) obtain s' f' where
    s': "remove_events True (\<lambda>e. m (info e)) (\<lambda>e. rs (info e)) s = Some (r, s')" "hp True s' ?bs as f' cs"
    "keeps_info s s'" "ts_ok s' ?bs" by auto
  note i = hp_frame [OF s'(3) h(1)]
  have "map (info_at (cells s')) ?bs = map (info_at (cells s)) ?bs" using i by (auto intro: map_cong)
  then have "map (info_at (cells s')) ?bs = filter (\<lambda>x. \<not> m x) shared" using filter_info [of "cells s" m bs] h(4) by simp
  moreover have "map (info_at (cells s')) as = main" using i h(3) by simp
  moreover have "hp False s' as ?bs cs f'" using s'(2) hp_swap [of True s' as ?bs cs f'] by simp
  ultimately have "timing_ok s' main (filter (\<lambda>x. \<not> m x) shared)" using timing_okI [OF _ s'(4)] h(5) by blast
  then show ?thesis using s'(1,3) by (auto simp: keeps_info_def)
qed

lemma res_of_keep: "res_of m (\<lambda>_ r. Some r) xs r = Some r"
  by (induction xs) auto

lemma removals:
  "RemoveEvent ty s = Option.bind (remove_events False (\<lambda>e. snd (snd (info e)) = ty) (\<lambda>e. (\<lambda>_ r. Some r) (info e)) s) (\<lambda>(_, s'). Some s')"
  "RemoveThreadsafeEvent ty s = Option.bind (remove_events True (\<lambda>e. snd (snd (info e)) = ty) (\<lambda>e. (\<lambda>_ r. Some r) (info e)) s) (\<lambda>(_, s'). Some s')"
  by (simp_all add: RemoveEvent_def RemoveThreadsafeEvent_def info_def)

lemma RemoveAllEvents_ok:
  assumes "timing_ok s main shared"
  shows "\<exists>s'. RemoveAllEvents ty s = Some s' \<and> clock s' = clock s \<and>
    timing_ok s' (filter (\<lambda>x. snd (snd x) \<noteq> ty) main) (filter (\<lambda>x. snd (snd x) \<noteq> ty) shared)"
proof -
  obtain s1 where s1: "RemoveThreadsafeEvent ty s = Some s1" "timing_ok s1 main (filter (\<lambda>x. snd (snd x) \<noteq> ty) shared)" "clock s1 = clock s"
    using remove_shared [OF assms, of "\<lambda>x. snd (snd x) = ty" "\<lambda>_ r. Some r" 0] unfolding removals by (auto simp: res_of_keep)
  obtain s2 where s2: "RemoveEvent ty s1 = Some s2" "clock s2 = clock s1"
    "timing_ok s2 (filter (\<lambda>x. snd (snd x) \<noteq> ty) main) (filter (\<lambda>x. snd (snd x) \<noteq> ty) shared)"
    using remove_main [OF s1(2), of "\<lambda>x. snd (snd x) = ty" "\<lambda>_ r. Some r" 0] unfolding removals by (auto simp: res_of_keep)
  show ?thesis using s1 s2 by (simp add: RemoveAllEvents_def)
qed

text \<open>C5: The scheduler's pointer operations implement operations on two lists: scheduling inserts an event after all
  events that are not later (so equal times keep their order), scheduling from another thread appends to the shared
  list, moving merges the shared list into the main one in order of arrival, and removing drops exactly the
  events of a type.  None of them fails, the main list stays in order of time, and no list is ever cyclic or
  shares a cell with another list or pool.\<close>
theorem scheduler_refines_lists:
  assumes "timing_ok s main shared"
  shows "(\<exists>s'. ScheduleEvent d ty ud s = Some s' \<and> timing_ok s' (insert_event (event_time s d, ud, ty) main) shared) \<and>
    (\<exists>s'. ScheduleEvent_Threadsafe d ty ud s = Some s' \<and> timing_ok s' main (shared @ [(event_time s d, ud, ty)])) \<and>
    (\<exists>s'. MoveEvents s = Some s' \<and> timing_ok s' (fold insert_event shared main) []) \<and>
    (\<exists>s'. RemoveAllEvents ty s = Some s' \<and>
      timing_ok s' (filter (\<lambda>x. snd (snd x) \<noteq> ty) main) (filter (\<lambda>x. snd (snd x) \<noteq> ty) shared))"
  using ScheduleEvent_ok [OF assms] ScheduleEvent_Threadsafe_ok [OF assms] MoveEvents_ok [OF assms] RemoveAllEvents_ok [OF assms]
  by blast

definition matches :: "int \<Rightarrow> u64 \<Rightarrow> info \<Rightarrow> bool" where
  "matches ty ud x \<longleftrightarrow> snd (snd x) = ty \<and> fst (snd x) = ud"

definition left_at :: "int \<Rightarrow> info \<Rightarrow> int \<Rightarrow> int option" where
  "left_at now x r = s64_arith (fst x - now)"

lemma Unschedule_eq:
  "UnscheduleEvent ty ud s = remove_events False (\<lambda>e. matches ty ud (info e)) (\<lambda>e. left_at (globalTimer s) (info e)) s"
proof -
  have "(\<lambda>e. matches ty ud (info e)) = (\<lambda>e. ev_type e = ty \<and> ev_userdata e = ud)" by (auto simp: matches_def info_def)
  moreover have "(\<lambda>e. left_at (globalTimer s) (info e)) = time_left s" by (simp add: fun_eq_iff left_at_def time_left_def info_def)
  ultimately show ?thesis by (simp add: UnscheduleEvent_def)
qed

lemma res_of_left:
  assumes "\<forall>x \<in> set xs. matches ty ud x \<longrightarrow> s64_range (fst x - now)"
  shows "res_of (matches ty ud) (left_at now) xs r =
    Some (if filter (matches ty ud) xs = [] then r else fst (last (filter (matches ty ud) xs)) - now)"
  using assms by (induction xs arbitrary: r) (auto simp: left_at_def s64_arith_def)

text \<open>Unscheduling removes exactly the pending events with the given type and user data and returns the time left
  of the last of them, zero when there is none.\<close>
theorem unschedule_event_effect:
  assumes "timing_ok s main shared" "\<forall>x \<in> set main. matches ty ud x \<longrightarrow> s64_range (fst x - globalTimer s)"
  shows "\<exists>s'. UnscheduleEvent ty ud s =
      Some (if filter (matches ty ud) main = [] then 0 else fst (last (filter (matches ty ud) main)) - globalTimer s, s') \<and>
    timing_ok s' (filter (\<lambda>x. \<not> matches ty ud x) main) shared \<and> clock s' = clock s"
  unfolding Unschedule_eq by (rule remove_main [OF assms(1) res_of_left [OF assms(2)]])

lemma due_split:
  assumes "sorted (map fst xs)"
  shows "takeWhile (\<lambda>x. fst x \<le> now) xs = filter (\<lambda>x. fst x \<le> now) xs"
    "dropWhile (\<lambda>x. fst x \<le> now) xs = filter (\<lambda>x. \<not> fst x \<le> now) xs"
proof -
  have "takeWhile (\<lambda>x. fst x \<le> now) xs = filter (\<lambda>x. fst x \<le> now) xs \<and>
    dropWhile (\<lambda>x. fst x \<le> now) xs = filter (\<lambda>x. \<not> fst x \<le> now) xs"
    using assms
  proof (induction xs)
    case (Cons x xs)
    have "\<not> fst y \<le> now" if "\<not> fst x \<le> now" "y \<in> set xs" for y using that Cons.prems by fastforce
    then have "filter (\<lambda>y. fst y \<le> now) xs = [] \<and> filter (\<lambda>y. \<not> fst y \<le> now) xs = xs" if "\<not> fst x \<le> now"
      using that by (auto simp: filter_empty_conv filter_id_conv)
    then show ?case using Cons by auto
  qed simp
  then show "takeWhile (\<lambda>x. fst x \<le> now) xs = filter (\<lambda>x. fst x \<le> now) xs"
    "dropWhile (\<lambda>x. fst x \<le> now) xs = filter (\<lambda>x. \<not> fst x \<le> now) xs" by simp_all
qed


subsection \<open>An example\<close>

text \<open>Two pending events, one event scheduled by another thread, empty pools, one registered callback that counts.\<close>

definition ex_timing :: "nat Timing" where
  "ex_timing = \<lparr>g_clock_rate_arm11 = 268123480, event_types = [\<lparr>et_callback = Callback 0, et_name = None\<rparr>],
     cells = [0 \<mapsto> \<lparr>ev_time = 4, ev_userdata = 7, ev_type = 0, ev_next = Some 1\<rparr>,
              1 \<mapsto> \<lparr>ev_time = 9, ev_userdata = 8, ev_type = 0, ev_next = None\<rparr>,
              2 \<mapsto> \<lparr>ev_time = 4, ev_userdata = 9, ev_type = 0, ev_next = None\<rparr>],
     next_cell = 3, first = Some 0, tsFirst = Some 2, tsLast = Some 2, eventPool = None, eventTsPool = None,
     allocatedTsEvents = 1, hasTsEvents = True, globalTimer = 3, idledCycles = 0, halted = False, world = 0\<rparr>"

lemma ex_timing_ok: "timing_ok ex_timing [(4, 7, 0), (9, 8, 0)] [(4, 9, 0)]"
  by (rule timing_okI [of _ "[0, 1]" "[2]" "[]" "[]"])
    (auto simp: ex_timing_def hp_def head_of_def pool_of_def ts_ok_def info_at_def info_def split: if_splits)

lemma scheduler_refines_lists_witness:
  "\<exists>s'. ScheduleEvent 1 0 5 ex_timing = Some s' \<and> timing_ok s' [(4, 7, 0), (4, 5, 0), (9, 8, 0)] [(4, 9, 0)]"
  using scheduler_refines_lists [OF ex_timing_ok, of 1 0 5] by (simp add: event_time_def GetTicks_def ex_timing_def)

lemma unschedule_event_effect_witness:
  "\<exists>s'. UnscheduleEvent 0 8 ex_timing = Some (6, s') \<and> timing_ok s' [(4, 7, 0)] [(4, 9, 0)]"
proof -
  have g: "globalTimer ex_timing = 3" by (simp add: ex_timing_def)
  have "\<forall>x \<in> set [(4, 7, 0), (9, 8, 0)]. matches 0 8 x \<longrightarrow> s64_range (fst x - globalTimer ex_timing)"
    by (simp add: g s64_range_def)
  from unschedule_event_effect [OF ex_timing_ok this] show ?thesis by (auto simp: matches_def g)
qed


end
