(* ===== verification/IPC.thy ===== *)
theory IPC
  imports Handle_Table VM_Manager
begin

text \<open>
  Translation of command buffers between processes: the descriptors of \<^verbatim>\<open>src/core/hle/ipc.h\<close> and
  \<open>TranslateCommandBuffer\<close> of \<^verbatim>\<open>src/core/hle/kernel/ipc.cpp\<close>.

  The two processes are looked up in a store by number, so that they may be the same one.  The
  memory system is not part of the sources: its block reads, writes and copies, the allocation
  of a host buffer and the layout constants are the fields of \<open>MemSys\<close>, over a memory of any type.
  The array \<open>cmd_buf\<close> has 64 words, those beyond the command being uninitialized; reading such a
  word, or any access past the array, is \<open>None\<close>.  The recorder for debugging is left out.
\<close>

subsection \<open>Descriptors\<close>

definition COMMAND_BUFFER_LENGTH :: nat where "COMMAND_BUFFER_LENGTH = 0x100 div 4"
definition MAX_STATIC_BUFFERS :: nat where "MAX_STATIC_BUFFERS = 16"

definition DT_StaticBuffer :: u32 where "DT_StaticBuffer = 0x02"
definition DT_PXIBuffer :: u32 where "DT_PXIBuffer = 0x04"
definition DT_MappedBuffer :: u32 where "DT_MappedBuffer = 0x08"
definition DT_CopyHandle :: u32 where "DT_CopyHandle = 0x00"
definition DT_MoveHandle :: u32 where "DT_MoveHandle = 0x10"
definition DT_CallingPid :: u32 where "DT_CallingPid = 0x20"

lemmas descriptor_types = DT_StaticBuffer_def DT_PXIBuffer_def DT_MappedBuffer_def DT_CopyHandle_def DT_MoveHandle_def
  DT_CallingPid_def

definition translate_params_size :: "u32 \<Rightarrow> u32" where "translate_params_size w = bf_Value 0 6 w"
definition normal_params_size :: "u32 \<Rightarrow> u32" where "normal_params_size w = bf_Value 6 6 w"
definition command_id :: "u32 \<Rightarrow> u32" where "command_id w = bf_Value 16 16 w"

definition MakeHeader :: "u16 \<Rightarrow> u32 \<Rightarrow> u32 \<Rightarrow> u32" where
  "MakeHeader cmd normal translate =
     bf_Assign 0 6 (bf_Assign 6 6 (bf_Assign 16 16 0 (ucast cmd)) normal) translate"

definition MoveHandleDesc :: "u32 \<Rightarrow> u32" where
  "MoveHandleDesc num_handles = DT_MoveHandle OR push_bit 26 (num_handles - 1)"

definition CopyHandleDesc :: "u32 \<Rightarrow> u32" where
  "CopyHandleDesc num_handles = DT_CopyHandle OR push_bit 26 (num_handles - 1)"

definition CallingPidDesc :: u32 where
  "CallingPidDesc = DT_CallingPid"

definition IsHandleDescriptor :: "u32 \<Rightarrow> bool" where
  "IsHandleDescriptor descriptor \<longleftrightarrow> descriptor AND 0xF = 0"

definition HandleNumberFromDesc :: "u32 \<Rightarrow> u32" where
  "HandleNumberFromDesc handle_descriptor = drop_bit 26 handle_descriptor + 1"

definition sb_buffer_id :: "u32 \<Rightarrow> u32" where "sb_buffer_id w = bf_Value 10 4 w"
definition sb_size :: "u32 \<Rightarrow> u32" where "sb_size w = bf_Value 14 18 w"

definition StaticBufferDesc :: "u32 \<Rightarrow> u8 \<Rightarrow> u32" where
  "StaticBufferDesc sz buffer_id = bf_Assign 14 18 (bf_Assign 10 4 (bf_Assign 0 4 0 DT_StaticBuffer) (ucast buffer_id)) sz"

definition PXIBufferDesc :: "u32 \<Rightarrow> u32 \<Rightarrow> bool \<Rightarrow> u32" where
  "PXIBufferDesc sz buffer_id is_read_only =
     (let type = (if is_read_only then DT_PXIBuffer OR 0x2 else DT_PXIBuffer)
      in type OR push_bit 8 sz OR push_bit 4 (buffer_id AND 0xF))"

definition MBP_R :: u32 where "MBP_R = 1"
definition MBP_W :: u32 where "MBP_W = 2"
definition MBP_RW :: u32 where "MBP_RW = MBP_R OR MBP_W"

definition mb_perms :: "u32 \<Rightarrow> u32" where "mb_perms w = bf_Value 1 2 w"
definition mb_size :: "u32 \<Rightarrow> u32" where "mb_size w = bf_Value 4 28 w"

definition MappedBufferDesc :: "u32 \<Rightarrow> u32 \<Rightarrow> u32" where
  "MappedBufferDesc sz perms = bf_Assign 4 28 (bf_Assign 1 2 (bf_Assign 0 4 0 DT_MappedBuffer) perms) sz"

definition GetDescriptorType :: "u32 \<Rightarrow> u32" where
  "GetDescriptorType descriptor =
     (if IsHandleDescriptor descriptor then descriptor AND 0x30
      else if descriptor AND DT_MappedBuffer \<noteq> 0 then DT_MappedBuffer
      else if descriptor AND DT_PXIBuffer \<noteq> 0 then DT_PXIBuffer
      else DT_StaticBuffer)"

subsection \<open>State\<close>

record 'm MemSys =
  ReadBlock :: "'m \<Rightarrow> nat \<Rightarrow> VAddr \<Rightarrow> nat \<Rightarrow> u8 list"
  WriteBlock :: "'m \<Rightarrow> nat \<Rightarrow> VAddr \<Rightarrow> u8 list \<Rightarrow> 'm"
  CopyBlock :: "'m \<Rightarrow> nat \<Rightarrow> nat \<Rightarrow> VAddr \<Rightarrow> VAddr \<Rightarrow> nat \<Rightarrow> 'm"
  new_vector :: "'m \<Rightarrow> u32 \<Rightarrow> u64 \<times> 'm"
  ReadIntoHost :: "'m \<Rightarrow> nat \<Rightarrow> VAddr \<Rightarrow> u64 \<Rightarrow> nat \<Rightarrow> 'm"
  PAGE_SIZE :: u32
  PAGE_BITS :: nat
  PAGE_MASK :: u32
  IPC_MAPPING_VADDR :: u32
  IPC_MAPPING_SIZE :: u32

record 'obj IpcProcess =
  handle_table :: "'obj HandleTable"
  vm_manager :: VMManager
  process_id :: u32

record MappedBufferContext =
  mbc_permissions :: u32
  mbc_size :: u32
  source_address :: VAddr
  target_address :: VAddr
  mbc_buffer :: BackingMem

record ('obj, 'm) IpcState =
  processes :: "nat \<Rightarrow> 'obj IpcProcess"
  memory :: 'm
  mapped_buffer_context :: "MappedBufferContext list"

record ('obj, 'm) IpcCall =
  sys :: "'m MemSys"
  src_process :: nat
  dst_process :: nat
  src_thread_object :: 'obj
  src_process_object :: 'obj
  src_address :: VAddr
  dst_address :: VAddr
  reply :: bool

type_synonym cmdbuf = "u32 option list"

definition rd :: "cmdbuf \<Rightarrow> nat \<Rightarrow> u32 option" where
  "rd buf i = (if i < length buf then buf ! i else None)"

definition wr :: "cmdbuf \<Rightarrow> nat \<Rightarrow> u32 \<Rightarrow> cmdbuf option" where
  "wr buf i v = (if i < length buf then Some (buf[i := Some v]) else None)"

definition upd_table :: "nat \<Rightarrow> 'obj HandleTable \<Rightarrow> ('obj, 'm) IpcState \<Rightarrow> ('obj, 'm) IpcState" where
  "upd_table p ht s = s\<lparr>processes := (processes s)(p := (processes s p)\<lparr>handle_table := ht\<rparr>)\<rparr>"

definition upd_vm :: "nat \<Rightarrow> VMManager \<Rightarrow> ('obj, 'm) IpcState \<Rightarrow> ('obj, 'm) IpcState" where
  "upd_vm p vm s = s\<lparr>processes := (processes s)(p := (processes s p)\<lparr>vm_manager := vm\<rparr>)\<rparr>"

subsection \<open>Words in memory\<close>

fun words_of :: "u8 list \<Rightarrow> u32 list" where
  "words_of (a # b # c # d # bs) =
     (ucast a OR push_bit 8 (ucast b) OR push_bit 16 (ucast c) OR push_bit 24 (ucast d)) # words_of bs"
| "words_of _ = []"

definition bytes_of :: "u32 list \<Rightarrow> u8 list" where
  "bytes_of ws = concat (map (\<lambda>w. [ucast w, ucast (drop_bit 8 w), ucast (drop_bit 16 w), ucast (drop_bit 24 w)]) ws)"

definition read_words :: "'m MemSys \<Rightarrow> 'm \<Rightarrow> nat \<Rightarrow> VAddr \<Rightarrow> nat \<Rightarrow> u32 list" where
  "read_words ms m p addr n = words_of (ReadBlock ms m p addr (4 * n))"

subsection \<open>Handles\<close>

definition lookup_handle :: "('obj, 'm) IpcCall \<Rightarrow> u32 \<Rightarrow> u32 \<Rightarrow> ('obj, 'm) IpcState \<Rightarrow> 'obj option \<times> ('obj, 'm) IpcState" where
  "lookup_handle c descriptor handle s =
     (if handle = CurrentThread then (Some (src_thread_object c), s)
      else if handle = CurrentProcess then (Some (src_process_object c), s)
      else if handle \<noteq> 0
      then let ht = handle_table (processes s (src_process c)); object = GetGeneric None None ht handle
           in if descriptor = DT_MoveHandle then (object, upd_table (src_process c) (snd (Close ht handle)) s) else (object, s)
      else (None, s))"

fun translate_handles ::
  "('obj, 'm) IpcCall \<Rightarrow> u32 \<Rightarrow> nat \<Rightarrow> nat \<Rightarrow> cmdbuf \<Rightarrow> ('obj, 'm) IpcState \<Rightarrow> (cmdbuf \<times> ('obj, 'm) IpcState) option" where
  "translate_handles c descriptor 0 i buf s = Some (buf, s)"
| "translate_handles c descriptor (Suc n) i buf s = do {
     handle \<leftarrow> rd buf i;
     let (object, s1) = lookup_handle c descriptor handle s;
     (case object of
        None \<Rightarrow> do { buf1 \<leftarrow> wr buf i 0; translate_handles c descriptor n (i + 1) buf1 s1 }
      | Some ob \<Rightarrow> do {
          (r, ht) \<leftarrow> Create (handle_table (processes s1 (dst_process c))) (Some ob);
          (case r of
             Inl e \<Rightarrow> None
           | Inr h \<Rightarrow> do { buf1 \<leftarrow> wr buf i h; translate_handles c descriptor n (i + 1) buf1 (upd_table (dst_process c) ht s1) })
        })
   }"

subsection \<open>Buffers\<close>

definition translate_static ::
  "('obj, 'm) IpcCall \<Rightarrow> u32 \<Rightarrow> nat \<Rightarrow> cmdbuf \<Rightarrow> ('obj, 'm) IpcState \<Rightarrow> (cmdbuf \<times> ('obj, 'm) IpcState) option" where
  "translate_static c descriptor i buf s = do {
     static_buffer_src_address \<leftarrow> rd buf i;
     let data = ReadBlock (sys c) (memory s) (src_process c) static_buffer_src_address (unat (sb_size descriptor));
     let static_buffer_offset = of_nat (COMMAND_BUFFER_LENGTH * 4) + 8 * sb_buffer_id descriptor;
     let target_buffer = read_words (sys c) (memory s) (dst_process c) (dst_address c + static_buffer_offset) 2;
     (case target_buffer of
        [target_descriptor, address] \<Rightarrow> do {
          _ \<leftarrow> ASSERT (unat (sb_size target_descriptor) \<ge> unat (sb_size descriptor));
          buf1 \<leftarrow> wr buf i address;
          Some (buf1, s\<lparr>memory := WriteBlock (sys c) (memory s) (dst_process c) address data\<rparr>)
        }
      | _ \<Rightarrow> None)
   }"

definition BufferMem :: "u64 \<Rightarrow> u32 \<Rightarrow> BackingMem" where
  "BufferMem host sz = \<lparr>bm_ptr = host, bm_size = ucast sz\<rparr>"

definition AlignDown :: "u32 \<Rightarrow> u32 \<Rightarrow> u32" where
  "AlignDown val sz = val - val mod sz"

definition AlignUp :: "u32 \<Rightarrow> u32 \<Rightarrow> u32" where
  "AlignUp val sz = (let m = val mod sz; v = val - m in if m = 0 then v else v + sz)"

definition matches_context :: "u32 \<Rightarrow> u32 \<Rightarrow> VAddr \<Rightarrow> MappedBufferContext \<Rightarrow> bool" where
  "matches_context perms sz src ctx \<longleftrightarrow> mbc_permissions ctx = perms \<and> mbc_size ctx = sz \<and> target_address ctx = src"

fun remove_first :: "('a \<Rightarrow> bool) \<Rightarrow> 'a list \<Rightarrow> 'a list" where
  "remove_first P [] = []"
| "remove_first P (x # xs) = (if P x then xs else x # remove_first P xs)"

definition is_reserved :: "vmas \<Rightarrow> VAddr \<Rightarrow> bool option" where
  "is_reserved m addr = do { it \<leftarrow> FindVMA m addr; (case snd it of [] \<Rightarrow> None | vma # _ \<Rightarrow> Some (meminfo_state vma = MS_Reserved)) }"

definition unmap_reply ::
  "('obj, 'm) IpcCall \<Rightarrow> u32 \<Rightarrow> u32 \<Rightarrow> VAddr \<Rightarrow> u32 \<Rightarrow> u32 \<Rightarrow> ('obj, 'm) IpcState \<Rightarrow> ('obj, 'm) IpcState option" where
  "unmap_reply c perms sz src page_start num_pages s = do {
     found \<leftarrow> List.find (matches_context perms sz src) (mapped_buffer_context s);
     let s1 = (if perms \<noteq> MBP_R
               then s\<lparr>memory := CopyBlock (sys c) (memory s) (dst_process c) (src_process c) (source_address found) (target_address found) (unat sz)\<rparr>
               else s);
     let vm = vm_manager (processes s1 (src_process c));
     prev_ok \<leftarrow> is_reserved (vma_map vm) (page_start - PAGE_SIZE (sys c));
     next_ok \<leftarrow> is_reserved (vma_map vm) (page_start + num_pages * PAGE_SIZE (sys c));
     _ \<leftarrow> ASSERT (prev_ok \<and> next_ok);
     (r, vm') \<leftarrow> UnmapRange (PAGE_MASK (sys c)) vm (page_start - PAGE_SIZE (sys c)) ((num_pages + 2) * PAGE_SIZE (sys c));
     _ \<leftarrow> ASSERT (r = ResultSuccess);
     Some ((upd_vm (src_process c) vm' s1)\<lparr>mapped_buffer_context := remove_first (matches_context perms sz src) (mapped_buffer_context s)\<rparr>)
   }"

definition guard_page ::
  "('obj, 'm) IpcCall \<Rightarrow> VAddr \<Rightarrow> ('obj, 'm) IpcState \<Rightarrow> ('obj, 'm) IpcState option" where
  "guard_page c addr s = do {
     (r, vm) \<leftarrow> ChangeMemoryState (PAGE_MASK (sys c)) (vm_manager (processes s (dst_process c))) addr (PAGE_SIZE (sys c))
       MS_Shared VMAPermission_ReadWrite MS_Reserved VMAPermission_None;
     _ \<leftarrow> ASSERT (r = ResultSuccess);
     Some (upd_vm (dst_process c) vm s)
   }"

definition map_request ::
  "('obj, 'm) IpcCall \<Rightarrow> u32 \<Rightarrow> u32 \<Rightarrow> VAddr \<Rightarrow> u32 \<Rightarrow> u32 \<Rightarrow> ('obj, 'm) IpcState \<Rightarrow> (VAddr \<times> ('obj, 'm) IpcState) option" where
  "map_request c perms sz src page_offset num_pages s = do {
     let tot = (num_pages + 2) * PAGE_SIZE (sys c);
     let (host, m1) = new_vector (sys c) (memory s) tot;
     let buffer = BufferMem host tot;
     let m2 = ReadIntoHost (sys c) m1 (src_process c) src (bm_ptr buffer + ucast (PAGE_SIZE (sys c)) + ucast page_offset) (unat sz);
     let ref = Init \<lparr>backing_mem = Some buffer, ref_offset = 0, cptr = 0, csize = 0\<rparr>;
     (r, vm) \<leftarrow> MapBackingMemoryToBase (PAGE_MASK (sys c)) (vm_manager (processes s (dst_process c)))
       (IPC_MAPPING_VADDR (sys c)) (IPC_MAPPING_SIZE (sys c)) ref (ucast (bm_size buffer)) MS_Shared;
     (case r of
        Inl e \<Rightarrow> None
      | Inr low_guard_address \<Rightarrow> do {
          let s1 = upd_vm (dst_process c) vm (s\<lparr>memory := m2\<rparr>);
          s2 \<leftarrow> guard_page c low_guard_address s1;
          s3 \<leftarrow> guard_page c (low_guard_address + ucast (bm_size buffer) - PAGE_SIZE (sys c)) s2;
          let target = low_guard_address + PAGE_SIZE (sys c) + page_offset;
          Some (target, s3\<lparr>mapped_buffer_context := mapped_buffer_context s3 @
            [\<lparr>mbc_permissions = perms, mbc_size = sz, source_address = src, target_address = target, mbc_buffer = buffer\<rparr>]\<rparr>)
        })
   }"

definition translate_mapped ::
  "('obj, 'm) IpcCall \<Rightarrow> u32 \<Rightarrow> nat \<Rightarrow> cmdbuf \<Rightarrow> ('obj, 'm) IpcState \<Rightarrow> (cmdbuf \<times> ('obj, 'm) IpcState) option" where
  "translate_mapped c descriptor i buf s = do {
     src \<leftarrow> rd buf i;
     let sz = mb_size descriptor;
     let perms = mb_perms descriptor;
     let page_start = AlignDown src (PAGE_SIZE (sys c));
     let page_offset = src - page_start;
     let num_pages = drop_bit (PAGE_BITS (sys c)) (AlignUp (page_offset + sz) (PAGE_SIZE (sys c)));
     if sz = 0 then do { buf1 \<leftarrow> wr buf i 0; Some (buf1, s) }
     else do {
       _ \<leftarrow> ASSERT (num_pages \<ge> 1);
       if reply c then do { s1 \<leftarrow> unmap_reply c perms sz src page_start num_pages s; Some (buf, s1) }
       else do {
         (target, s1) \<leftarrow> map_request c perms sz src page_offset num_pages s;
         buf1 \<leftarrow> wr buf i target;
         Some (buf1, s1)
       }
     }
   }"

subsection \<open>The loop\<close>

definition CommandTooLarge :: Result where
  "CommandTooLarge = mk_Result Err_CommandTooLarge EM_OS ES_InvalidState EL_Status"

definition translate_descriptor ::
  "('obj, 'm) IpcCall \<Rightarrow> nat \<Rightarrow> u32 \<Rightarrow> nat \<Rightarrow> cmdbuf \<Rightarrow> ('obj, 'm) IpcState \<Rightarrow> (Result + nat \<times> cmdbuf \<times> ('obj, 'm) IpcState) option" where
  "translate_descriptor c command_size descriptor i buf s =
     (let type = GetDescriptorType descriptor in
      if type = DT_CopyHandle \<or> type = DT_MoveHandle
      then let num_handles = unat (HandleNumberFromDesc descriptor) in
           if i + num_handles > command_size then Some (Inl CommandTooLarge)
           else do { (buf1, s1) \<leftarrow> translate_handles c descriptor num_handles i buf s; Some (Inr (i + num_handles, buf1, s1)) }
      else if type = DT_CallingPid
      then do { buf1 \<leftarrow> wr buf i (process_id (processes s (src_process c))); Some (Inr (i + 1, buf1, s)) }
      else if type = DT_StaticBuffer
      then do { (buf1, s1) \<leftarrow> translate_static c descriptor i buf s; Some (Inr (i + 1, buf1, s1)) }
      else if type = DT_MappedBuffer
      then do { (buf1, s1) \<leftarrow> translate_mapped c descriptor i buf s; Some (Inr (i + 1, buf1, s1)) }
      else None)"

lemma translate_descriptor_advances:
  "translate_descriptor c n d i buf s = Some (Inr (j, buf', s')) \<Longrightarrow> i \<le> j"
  by (auto simp: translate_descriptor_def Let_def bind_eq_Some_iff split: if_splits)

function translate_loop ::
  "('obj, 'm) IpcCall \<Rightarrow> nat \<Rightarrow> nat \<Rightarrow> cmdbuf \<Rightarrow> ('obj, 'm) IpcState \<Rightarrow> (Result \<times> cmdbuf \<times> ('obj, 'm) IpcState) option" where
  "translate_loop c command_size i buf s =
     (if i < command_size
      then case rd buf i of
          None \<Rightarrow> None
        | Some descriptor \<Rightarrow> (case translate_descriptor c command_size descriptor (i + 1) buf s of
            None \<Rightarrow> None
          | Some (Inl r) \<Rightarrow> Some (r, buf, s)
          | Some (Inr (j, buf1, s1)) \<Rightarrow> translate_loop c command_size j buf1 s1)
      else Some (ResultSuccess, buf, s))"
  by pat_completeness auto
termination
  by (relation "measure (\<lambda>(c, command_size, i, buf, s). command_size - i)")
    (auto dest!: translate_descriptor_advances)

declare translate_loop.simps [simp del]

definition TranslateCommandBuffer :: "('obj, 'm) IpcCall \<Rightarrow> ('obj, 'm) IpcState \<Rightarrow> (Result \<times> ('obj, 'm) IpcState) option" where
  "TranslateCommandBuffer c s =
     (case read_words (sys c) (memory s) (src_process c) (src_address c) 1 of
        [header] \<Rightarrow> do {
          let untranslated_size = 1 + unat (normal_params_size header);
          let command_size = untranslated_size + unat (translate_params_size header);
          _ \<leftarrow> ASSERT (command_size \<le> COMMAND_BUFFER_LENGTH);
          let ws = read_words (sys c) (memory s) (src_process c) (src_address c) command_size;
          let buf = map Some ws @ replicate (COMMAND_BUFFER_LENGTH - length ws) None;
          (r, buf1, s1) \<leftarrow> translate_loop c command_size untranslated_size buf s;
          if r \<noteq> ResultSuccess then Some (r, s1)
          else Some (ResultSuccess,
            s1\<lparr>memory := WriteBlock (sys c) (memory s1) (dst_process c) (dst_address c) (bytes_of (map the (take command_size buf1)))\<rparr>)
        }
      | _ \<Rightarrow> None)"


subsection \<open>Handles: what arrives\<close>

definition resolve :: "('obj, 'm) IpcCall \<Rightarrow> 'obj HandleTable \<Rightarrow> Handle \<Rightarrow> 'obj option" where
  "resolve c ht h = (if h = CurrentThread then Some (src_thread_object c)
     else if h = CurrentProcess then Some (src_process_object c)
     else if h = 0 then None else GetGeneric None None ht h)"

lemma lookup_handle_copy:
  "descriptor \<noteq> DT_MoveHandle \<Longrightarrow>
   lookup_handle c descriptor h s = (resolve c (handle_table (processes s (src_process c))) h, s)"
  by (simp add: lookup_handle_def resolve_def Let_def)

lemma upd_table_simps [simp]:
  "handle_table (processes (upd_table p ht s) q) = (if q = p then ht else handle_table (processes s q))"
  "vm_manager (processes (upd_table p ht s) q) = vm_manager (processes s q)"
  "process_id (processes (upd_table p ht s) q) = process_id (processes s q)"
  "memory (upd_table p ht s) = memory s"
  "mapped_buffer_context (upd_table p ht s) = mapped_buffer_context s"
  by (simp_all add: upd_table_def)

lemma processes_upd_table: "q \<noteq> p \<Longrightarrow> processes (upd_table p ht s) q = processes s q"
  by (simp add: upd_table_def)

lemma upd_vm_simps [simp]:
  "vm_manager (processes (upd_vm p vm s) q) = (if q = p then vm else vm_manager (processes s q))"
  "handle_table (processes (upd_vm p vm s) q) = handle_table (processes s q)"
  "process_id (processes (upd_vm p vm s) q) = process_id (processes s q)"
  "memory (upd_vm p vm s) = memory s"
  "mapped_buffer_context (upd_vm p vm s) = mapped_buffer_context s"
  by (simp_all add: upd_vm_def)

definition free_slots :: "'obj HandleTable \<Rightarrow> nat" where
  "free_slots ht = card {i. i < MAX_COUNT \<and> objects ht i = None}"

text \<open>One word of the translated command against the word it came from: null when the source
  handle names nothing, otherwise a new handle of the destination for the same object.\<close>

definition arrived :: "'obj HandleTable \<Rightarrow> 'obj HandleTable \<Rightarrow> 'obj option \<Rightarrow> u32 option \<Rightarrow> bool" where
  "arrived old new ob w = (case ob of
     None \<Rightarrow> w = Some 0
   | Some x \<Rightarrow> (\<exists>h. w = Some h \<and> h \<noteq> 0 \<and> \<not> IsValid old h \<and> GetGeneric None None new h = Some x))"

definition keeps :: "'obj HandleTable \<Rightarrow> 'obj HandleTable \<Rightarrow> bool" where
  "keeps old new \<longleftrightarrow> (\<forall>h. IsValid old h \<longrightarrow> GetGeneric None None new h = GetGeneric None None old h)"

lemma keeps_refl: "keeps t t" by (simp add: keeps_def)

lemma keeps_valid: "keeps t u \<Longrightarrow> IsValid t h \<Longrightarrow> IsValid u h"
  by (metis GetGeneric_valid keeps_def)

lemma keeps_trans: "keeps t u \<Longrightarrow> keeps u v \<Longrightarrow> keeps t v"
  by (metis keeps_valid keeps_def)

lemma arrived_later: "arrived t u ob w \<Longrightarrow> keeps u v \<Longrightarrow> arrived t v ob w"
  unfolding arrived_def keeps_def by (fastforce simp: GetGeneric_valid split: option.splits)

lemma arrived_earlier: "arrived u v ob w \<Longrightarrow> keeps t u \<Longrightarrow> arrived t v ob w"
  unfolding arrived_def using keeps_valid by (fastforce split: option.splits)

lemma free_slots_create:
  assumes "ht_inv t" "0 < free_slots t"
  obtains h u where "Create t (Some x) = Some (Inr h, u)" "ht_inv u" "free_slots u = free_slots t - 1"
    "keeps t u" "arrived t u (Some x) (Some h)"
proof -
  let ?F = "\<lambda>t :: 'a HandleTable. {i. i < MAX_COUNT \<and> objects t i = None}"
  have ne: "?F t \<noteq> {}" using assms(2) unfolding free_slots_def by (rule contrapos_pn) simp
  then have lt: "unat (next_free_slot t) < MAX_COUNT" using ht_inv_full_iff [OF assms(1)] by auto
  then obtain h where c: "Create t (Some x) = Some (Inr h, create_state t x)" by (simp add: Create_ok)
  have hd: "h = mk_handle (next_free_slot t) (next_generation t)" using c Create_ok [OF lt, of x] by simp
  note new = lookup_create_new [OF assms(1) lt, folded hd]
  have "?F (create_state t x) = ?F t - {unat (next_free_slot t)}"
    by (auto simp: create_state_def Let_def)
  moreover have "unat (next_free_slot t) \<in> ?F t" using ht_inv_slot_free [OF assms(1) lt] lt by auto
  ultimately have "free_slots (create_state t x) = free_slots t - 1"
    by (simp add: free_slots_def)
  then show thesis
    using that c new lookup_create_old [OF assms(1) lt] create_state_inv [OF assms(1) lt]
    by (auto simp: keeps_def arrived_def)
qed


definition only_table_of :: "nat \<Rightarrow> ('obj, 'm) IpcState \<Rightarrow> ('obj, 'm) IpcState \<Rightarrow> bool" where
  "only_table_of p s t \<longleftrightarrow> (\<exists>ht. t = upd_table p ht s)"

lemma only_table_trans: "only_table_of p s t \<Longrightarrow> only_table_of p t u \<Longrightarrow> only_table_of p s u"
  by (auto simp: only_table_of_def upd_table_def)

lemma only_table_refl: "only_table_of p s s"
  unfolding only_table_of_def by (rule exI [of _ "handle_table (processes s p)"]) (simp add: upd_table_def)

lemma only_table_step: "only_table_of p s (upd_table p ht s)"
  by (auto simp: only_table_of_def)

lemma only_table_src:
  "only_table_of p s t \<Longrightarrow> q \<noteq> p \<Longrightarrow> processes t q = processes s q"
  by (auto simp: only_table_of_def processes_upd_table)

lemma translate_handles_copy:
  assumes d: "descriptor \<noteq> DT_MoveHandle" and pq: "src_process c \<noteq> dst_process c"
  shows "ht_inv (handle_table (processes s (dst_process c))) \<Longrightarrow>
    n \<le> free_slots (handle_table (processes s (dst_process c))) \<Longrightarrow>
    i + n \<le> length buf \<Longrightarrow> (\<And>k. k < n \<Longrightarrow> buf ! (i + k) \<noteq> None) \<Longrightarrow>
    \<exists>buf' s'. translate_handles c descriptor n i buf s = Some (buf', s') \<and> length buf' = length buf \<and>
      (\<forall>j. j < i \<or> i + n \<le> j \<longrightarrow> buf' ! j = buf ! j) \<and>
      (\<forall>k < n. arrived (handle_table (processes s (dst_process c))) (handle_table (processes s' (dst_process c)))
         (resolve c (handle_table (processes s (src_process c))) (the (buf ! (i + k)))) (buf' ! (i + k))) \<and>
      keeps (handle_table (processes s (dst_process c))) (handle_table (processes s' (dst_process c))) \<and>
      only_table_of (dst_process c) s s'"
proof (induction n arbitrary: i buf s)
  case 0
  then show ?case by (simp add: keeps_refl only_table_refl)
next
  case (Suc n)
  let ?D = "\<lambda>s. handle_table (processes s (dst_process c))"
  let ?R = "\<lambda>s. resolve c (handle_table (processes s (src_process c)))"
  obtain h where h: "buf ! i = Some h" using Suc.prems(4) [of 0] by auto
  have rd: "rd buf i = Some h" and il: "i < length buf" using h Suc.prems(3) by (simp_all add: rd_def)
  have step: "\<exists>w s1. translate_handles c descriptor (Suc n) i buf s =
      translate_handles c descriptor n (i + 1) (buf[i := Some w]) s1 \<and> only_table_of (dst_process c) s s1 \<and>
      ht_inv (?D s1) \<and> n \<le> free_slots (?D s1) \<and> keeps (?D s) (?D s1) \<and> arrived (?D s) (?D s1) (?R s h) (Some w)"
  proof (cases "?R s h")
    case None
    then show ?thesis
      using Suc.prems(1,2) rd il
      by (intro exI [of _ 0] exI [of _ s])
        (simp add: lookup_handle_copy [OF d] wr_def arrived_def keeps_refl only_table_refl)
  next
    case (Some x)
    have "0 < free_slots (?D s)" using Suc.prems(2) by simp
    then obtain w u where c: "Create (?D s) (Some x) = Some (Inr w, u)" "ht_inv u"
      "free_slots u = free_slots (?D s) - 1" "keeps (?D s) u" "arrived (?D s) u (Some x) (Some w)"
      by (rule free_slots_create [OF Suc.prems(1)])
    with Some show ?thesis
      using Suc.prems(2) rd il
      by (intro exI [of _ w] exI [of _ "upd_table (dst_process c) u s"])
        (simp add: lookup_handle_copy [OF d] wr_def only_table_step)
  qed
  then obtain w s1 where s1: "translate_handles c descriptor (Suc n) i buf s =
      translate_handles c descriptor n (i + 1) (buf[i := Some w]) s1" "only_table_of (dst_process c) s s1"
      "ht_inv (?D s1)" "n \<le> free_slots (?D s1)" "keeps (?D s) (?D s1)" "arrived (?D s) (?D s1) (?R s h) (Some w)"
    by blast
  have "\<exists>buf' s'. translate_handles c descriptor n (i + 1) (buf[i := Some w]) s1 = Some (buf', s') \<and>
      length buf' = length (buf[i := Some w]) \<and>
      (\<forall>j. j < i + 1 \<or> i + 1 + n \<le> j \<longrightarrow> buf' ! j = buf[i := Some w] ! j) \<and>
      (\<forall>k < n. arrived (?D s1) (?D s') (?R s1 (the (buf[i := Some w] ! (i + 1 + k)))) (buf' ! (i + 1 + k))) \<and>
      keeps (?D s1) (?D s') \<and> only_table_of (dst_process c) s1 s'"
    using Suc.prems(3) Suc.prems(4) [of "Suc k" for k] by (intro Suc.IH [OF s1(3,4)]) simp_all
  then obtain buf' s' where r: "translate_handles c descriptor n (i + 1) (buf[i := Some w]) s1 = Some (buf', s')"
      "length buf' = length buf" "\<And>j. j < i + 1 \<or> i + 1 + n \<le> j \<Longrightarrow> buf' ! j = buf[i := Some w] ! j"
      "\<And>k. k < n \<Longrightarrow> arrived (?D s1) (?D s') (?R s1 (the (buf[i := Some w] ! (i + 1 + k)))) (buf' ! (i + 1 + k))"
      "keeps (?D s1) (?D s')" "only_table_of (dst_process c) s1 s'"
    unfolding length_list_update by blast
  have src: "?R s1 = ?R s" using only_table_src [OF s1(2) pq] by simp
  have "arrived (?D s) (?D s') (?R s (the (buf ! (i + k)))) (buf' ! (i + k))" if "k < Suc n" for k
  proof (cases k)
    case 0
    with r(3) [of i] h il arrived_later [OF s1(6) r(5)] show ?thesis by simp
  next
    case (Suc l)
    with that arrived_earlier [OF r(4) [of l] s1(5)] src show ?thesis by simp
  qed
  then show ?case
    using s1(1) r il keeps_trans [OF s1(5) r(5)] only_table_trans [OF s1(2) r(6)]
    by (intro exI [of _ buf'] exI [of _ s']) auto
qed

subsection \<open>Reading descriptors back\<close>

lemma drop_push_u32: "k \<le> 32 \<Longrightarrow> drop_bit k (push_bit k w :: u32) = take_bit (32 - k) w"
  by (rule bit_word_eqI) (auto simp: bit_simps)

lemma handle_count_word: "1 \<le> n \<Longrightarrow> n \<le> 64 \<Longrightarrow> take_bit 6 (n - 1) + 1 = (n :: u32)"
proof -
  assume "1 \<le> n" "n \<le> 64"
  then have "n - 1 < 2 ^ 6" by unat_arith
  then show ?thesis by (simp add: take_bit_eq_mod mod_word_less word_less_nat_alt)
qed

lemma bit_bf_Assign:
  "p + b \<le> 32 \<Longrightarrow> bit (bf_Assign p b x v) n \<longleftrightarrow> (if p \<le> n \<and> n < p + b then bit v (n - p) else bit x n)"
  by (auto simp: bf_Assign_def FormatValue_def bit_simps bit_GetMask dest: bit_imp_le_length)

lemma and_single_bit: "(d AND 2 ^ k) \<noteq> 0 \<longleftrightarrow> bit d k" for d :: u32
  by (simp add: and_exp_eq_0_iff_not_bit)

lemma low_nibble: "d AND 0xF = take_bit 4 (d :: u32)"
proof -
  have "mask 4 = (0xF :: u32)" by (simp add: mask_eq_exp_minus_1)
  then show ?thesis by (simp add: take_bit_eq_mask)
qed

lemma handle_descriptor_iff: "IsHandleDescriptor d \<longleftrightarrow> (\<forall>k < 4. \<not> bit d k)"
  by (auto simp: IsHandleDescriptor_def low_nibble bit_eq_iff bit_take_bit_iff)

lemma GetDescriptorType_handle:
  assumes "\<forall>k < 4. \<not> bit d k"
  shows "GetDescriptorType d = push_bit 4 (take_bit 2 (drop_bit 4 d))"
proof -
  have "d AND push_bit 4 (mask 2) = push_bit 4 (take_bit 2 (drop_bit 4 d))"
    by (rule bit_word_eqI) (auto simp: bit_simps)
  moreover have "push_bit 4 (mask 2) = (0x30 :: u32)" by (simp add: mask_eq_exp_minus_1)
  ultimately have "d AND 0x30 = push_bit 4 (take_bit 2 (drop_bit 4 d))" by (simp only:)
  with assms show ?thesis by (simp add: GetDescriptorType_def handle_descriptor_iff)
qed

lemma GetDescriptorType_buffer:
  "bit d 3 \<Longrightarrow> GetDescriptorType d = DT_MappedBuffer"
  "\<not> bit d 3 \<Longrightarrow> bit d 2 \<Longrightarrow> GetDescriptorType d = DT_PXIBuffer"
  "\<not> bit d 3 \<Longrightarrow> \<not> bit d 2 \<Longrightarrow> bit d 1 \<Longrightarrow> GetDescriptorType d = DT_StaticBuffer"
  using and_single_bit [of d 3] and_single_bit [of d 2]
  by (auto simp: GetDescriptorType_def handle_descriptor_iff descriptor_types)

lemma HandleNumber_Copy: "1 \<le> n \<Longrightarrow> n \<le> 64 \<Longrightarrow> HandleNumberFromDesc (CopyHandleDesc n) = n"
  by (simp add: HandleNumberFromDesc_def CopyHandleDesc_def DT_CopyHandle_def drop_push_u32 handle_count_word)

lemma HandleNumber_Move: "1 \<le> n \<Longrightarrow> n \<le> 64 \<Longrightarrow> HandleNumberFromDesc (MoveHandleDesc n) = n"
  by (simp add: HandleNumberFromDesc_def MoveHandleDesc_def DT_MoveHandle_def drop_bit_or drop_push_u32 handle_count_word)

lemma MoveHandleDesc_single: "1 < n \<Longrightarrow> n \<le> 64 \<Longrightarrow> MoveHandleDesc n \<noteq> DT_MoveHandle"
proof
  assume n: "1 < n" "n \<le> 64" and eq: "MoveHandleDesc n = DT_MoveHandle"
  have "HandleNumberFromDesc (MoveHandleDesc n) = n" using n by (intro HandleNumber_Move) simp_all
  with eq n(1) show False by (simp add: HandleNumberFromDesc_def DT_MoveHandle_def)
qed

lemma handle_desc_type:
  "GetDescriptorType (CopyHandleDesc n) = DT_CopyHandle" "GetDescriptorType (MoveHandleDesc n) = DT_MoveHandle"
  "GetDescriptorType CallingPidDesc = DT_CallingPid"
proof -
  have 1: "take_bit 2 (drop_bit 4 (push_bit 26 w)) = (0 :: u32)" for w
    by (rule bit_word_eqI) (auto simp: bit_simps)
  have low: "(\<forall>k < 4. \<not> bit (x OR push_bit 26 w) k) \<longleftrightarrow> (\<forall>k < 4. \<not> bit x k)" for x w :: u32
    by (auto simp: bit_simps)
  have 3: "take_bit 4 (0x10 :: u32) = 0" "take_bit 4 (0x20 :: u32) = 0" by simp_all
  have x: "(\<forall>k < 4. \<not> bit x k) \<longleftrightarrow> take_bit 4 x = 0" for x :: u32 by (auto simp: bit_eq_iff bit_take_bit_iff)
  note types = DT_CopyHandle_def DT_MoveHandle_def DT_CallingPid_def
  show "GetDescriptorType (CopyHandleDesc n) = DT_CopyHandle"
    using low [of 0] by (subst GetDescriptorType_handle) (simp_all add: CopyHandleDesc_def types 1)
  show "GetDescriptorType (MoveHandleDesc n) = DT_MoveHandle"
    unfolding MoveHandleDesc_def types
    by (subst GetDescriptorType_handle) (simp_all only: low x 3 drop_bit_or take_bit_or 1, simp_all)
  show "GetDescriptorType CallingPidDesc = DT_CallingPid"
    unfolding CallingPidDesc_def types
    by (subst GetDescriptorType_handle) (simp_all only: x 3, simp_all)
qed

lemma buffer_desc_type:
  "GetDescriptorType (StaticBufferDesc sz b) = DT_StaticBuffer"
  "GetDescriptorType (MappedBufferDesc sz perms) = DT_MappedBuffer"
  by (rule GetDescriptorType_buffer; simp add: StaticBufferDesc_def MappedBufferDesc_def descriptor_types bit_bf_Assign)+


end
