(* ===== verification/IPC_Translation.thy ===== *)
theory IPC_Translation
  imports IPC
begin

text \<open>
  What \<open>TranslateCommandBuffer\<close> does: mapped buffers from the request to the reply, the
  invariants of every handle table and address space across a whole translation, commands
  without translated parameters, and the two places where the code leaves its buffers.
\<close>

subsection \<open>Mapped buffers: request and reply\<close>

definition page_layout :: "'m MemSys \<Rightarrow> bool" where
  "page_layout ms \<longleftrightarrow> PAGE_SIZE ms = 0x1000 \<and> PAGE_BITS ms = 12 \<and> PAGE_MASK ms = 0xFFF"

lemma upd_vm_twice [simp]: "upd_vm p vm' (upd_vm p vm s) = upd_vm p vm' s"
  by (simp add: upd_vm_def)

definition shared_at :: "vmas \<Rightarrow> VAddr \<Rightarrow> bool" where
  "shared_at m a \<longleftrightarrow> (\<exists>h. vm_view m a = Some (VMAType_BackingMemory, VMAPermission_ReadWrite, MS_Shared, h))"

lemma guard_page_ok:
  assumes B: "backings_ok B" and ms: "page_layout (sys c)"
    and vm: "vm_manager (processes s (dst_process c)) = vm" "vm_inv B vm" "\<not> vm_locked vm"
    and al: "unat addr mod 0x1000 = 0" and fit: "unat addr + 0x1000 \<le> 0x40000000"
    and sh: "\<And>a. in_range addr 0x1000 a \<Longrightarrow> shared_at (vma_map vm) a"
  obtains vm' where "guard_page c addr s = Some (upd_vm (dst_process c) vm' s)" "vm_inv B vm'" "\<not> vm_locked vm'"
    "vm_view (vma_map vm') = (\<lambda>a. if in_range addr 0x1000 a
       then map_option (\<lambda>(t, _, _, h). (t, VMAPermission_None, MS_Reserved, h)) (vm_view (vma_map vm) a) else vm_view (vma_map vm) a)"
proof -
  have a1: "(0x1000 :: u32) AND 0xFFF = 0" and a2: "addr AND 0xFFF = 0" using al by (simp_all add: aligned_iff)
  have f: "unat addr + unat (0x1000 :: u32) \<le> 0x40000000" using fit by simp
  show thesis
  proof (rule ChangeMemoryState_cases [OF B vm(2,3) a1 a2 _ f, of MS_Shared VMAPermission_ReadWrite MS_Reserved VMAPermission_None], goal_cases)
    case (2 a x)
    with sh [of a] show ?case by (auto simp: shared_at_def attr_mismatch_def)
  next
    case (3 vm')
    then show ?case using that [of vm'] ms vm(1) by (simp add: guard_page_def page_layout_def)
  qed simp
qed

text \<open>The address space after a request: the buffer between two guard pages.\<close>

definition mapped_view :: "VAddr \<Rightarrow> nat \<Rightarrow> u64 \<Rightarrow> (VAddr \<Rightarrow> attr option) \<Rightarrow> VAddr \<Rightarrow> attr option" where
  "mapped_view lo n host old a =
     (if unat lo \<le> unat a \<and> unat a < unat lo + (n + 2) * 0x1000
      then if unat a < unat lo + 0x1000 \<or> unat lo + (n + 1) * 0x1000 \<le> unat a
           then Some (VMAType_BackingMemory, VMAPermission_None, MS_Reserved, Some (host + ucast (a - lo)))
           else Some (VMAType_BackingMemory, VMAPermission_ReadWrite, MS_Shared, Some (host + ucast (a - lo)))
      else old a)"

lemma total_size:
  fixes n :: u32
  assumes "unat n \<le> 0x20000"
  shows "unat ((n + 2) * 0x1000) = (unat n + 2) * 0x1000"
  using assms by (simp add: unat_word_ariths)

lemma BufferMem_ref:
  assumes "BufferMem host t \<in> B"
  shows "ref_to B (Init \<lparr>backing_mem = Some (BufferMem host t), ref_offset = 0, cptr = 0, csize = 0\<rparr>) t"
    and "cptr (Init \<lparr>backing_mem = Some (BufferMem host t), ref_offset = 0, cptr = 0, csize = 0\<rparr>) = host"
    and "ucast (bm_size (BufferMem host t)) = t"
proof -
  show "ucast (bm_size (BufferMem host t)) = t"
    by (rule bit_word_eqI) (auto simp: BufferMem_def bit_simps)
qed (use assms in \<open>auto simp: ref_to_def Init_def BufferMem_def unat_ucast_u32_u64\<close>)

definition request_fits :: "('obj, 'm) IpcCall \<Rightarrow> vmas \<Rightarrow> u32 \<Rightarrow> VAddr \<Rightarrow> bool" where
  "request_fits c m tot lo \<longleftrightarrow> (\<exists>v. first_free (IPC_MAPPING_VADDR (sys c)) tot m = Some v \<and>
     lo = max (IPC_MAPPING_VADDR (sys c)) (vma_base v) \<and> unat lo mod 0x1000 = 0 \<and>
     unat lo + unat tot \<le> unat (vma_base v) + unat (vma_size v) \<and>
     \<not> lo + tot > IPC_MAPPING_VADDR (sys c) + IPC_MAPPING_SIZE (sys c))"

lemma request_fits_bound:
  assumes "map_ok B m" "request_fits c m tot lo"
  shows "unat lo + unat tot \<le> 0x40000000"
proof -
  from assms(2) obtain v where v: "first_free (IPC_MAPPING_VADDR (sys c)) tot m = Some v"
    "unat lo + unat tot \<le> unat (vma_base v) + unat (vma_size v)" by (auto simp: request_fits_def)
  then have "v \<in> set m" by (auto simp: first_free_def find_Some_iff)
  with v(2) tiles_mem [of 0 m "0x40000000" v] assms(1) show ?thesis by (simp add: map_ok_def)
qed

lemma map_request_ok:
  assumes B: "backings_ok B" and ms: "page_layout (sys c)"
    and vm: "vm_manager (processes s (dst_process c)) = vm" "vm_inv B vm" "\<not> vm_locked vm"
    and n: "1 \<le> unat np" "unat np \<le> 0x20000" and t: "(np + 2) * 0x1000 = t"
    and new: "new_vector (sys c) (memory s) t = (host, m1)" "BufferMem host t \<in> B"
    and fits: "request_fits c (vma_map vm) t lo"
  obtains vm' where "map_request c perms sz src off np s = Some (lo + 0x1000 + off,
      (upd_vm (dst_process c) vm' s)\<lparr>memory := ReadIntoHost (sys c) m1 (src_process c) src (host + 0x1000 + ucast off) (unat sz),
         mapped_buffer_context := mapped_buffer_context s @
           [\<lparr>mbc_permissions = perms, mbc_size = sz, source_address = src, target_address = lo + 0x1000 + off,
             mbc_buffer = BufferMem host t\<rparr>]\<rparr>)"
    "vm_inv B vm'" "\<not> vm_locked vm'"
    "vm_view (vma_map vm') = mapped_view lo (unat np) host (vm_view (vma_map vm))"
proof -
  let ?hi = "lo + t - 0x1000"
  let ?buf = "BufferMem host t"
  let ?mem = "ReadIntoHost (sys c) m1 (src_process c) src (host + 0x1000 + ucast off) (unat sz)"
  have ut: "unat t = (unat np + 2) * 0x1000" using total_size [OF n(2)] t by simp
  note ref = BufferMem_ref [OF new(2)]
  have mok: "map_ok B (vma_map vm)" using vm(2) by (simp add: vm_inv_def)
  have top: "unat lo + unat t \<le> 0x40000000" by (rule request_fits_bound [OF mok fits])
  have alt: "unat t mod 0x1000 = 0" by (simp add: ut)
  have lo: "unat lo mod 0x1000 = 0" using fits by (auto simp: request_fits_def)
  have "unat (lo + t) = unat lo + unat t" using top by (intro unat_add_nowrap) simp
  then have hi: "unat ?hi = unat lo + (unat np + 1) * 0x1000"
    using ut by (subst unat_sub) (simp_all add: word_le_nat_alt)
  then have alh: "unat ?hi mod 0x1000 = 0" using lo by (simp add: mod_add_eq [symmetric])
  obtain v where v: "first_free (IPC_MAPPING_VADDR (sys c)) t (vma_map vm) = Some v"
    "lo = max (IPC_MAPPING_VADDR (sys c)) (vma_base v)"
    "unat lo + unat t \<le> unat (vma_base v) + unat (vma_size v)"
    "\<not> lo + t > IPC_MAPPING_VADDR (sys c) + IPC_MAPPING_SIZE (sys c)"
    using fits by (auto simp: request_fits_def)
  have a: "t AND 0xFFF = 0" "max (IPC_MAPPING_VADDR (sys c)) (vma_base v) AND 0xFFF = 0"
    using alt lo v(2) by (simp_all only: aligned_iff)
  have pos: "0 < t" using ut n by (simp add: word_less_nat_alt)
  obtain vm1 where vm1: "MapBackingMemoryToBase 0xFFF vm (IPC_MAPPING_VADDR (sys c)) (IPC_MAPPING_SIZE (sys c))
      (Init \<lparr>backing_mem = Some ?buf, ref_offset = 0, cptr = 0, csize = 0\<rparr>) t MS_Shared = Some (Inr lo, vm1)"
    "vm_inv B vm1" "\<not> vm_locked vm1"
    "\<And>a. vm_view (vma_map vm1) a = (if in_range lo t a
       then Some (VMAType_BackingMemory, VMAPermission_ReadWrite, MS_Shared, Some (host + ucast (a - lo)))
       else vm_view (vma_map vm) a)"
    by (rule map_to_base_ok [OF B vm(2,3) ref(1) a pos v(1), of "IPC_MAPPING_SIZE (sys c)" MS_Shared])
      (use v(2-4) ref(2) in simp_all)
  let ?s1 = "upd_vm (dst_process c) vm1 (s\<lparr>memory := ?mem\<rparr>)"
  have sh1: "shared_at (vma_map vm1) a" if "in_range lo 0x1000 a" for a
    using that ut by (simp add: shared_at_def vm1(4))
  obtain vm2 where vm2: "guard_page c lo ?s1 = Some (upd_vm (dst_process c) vm2 ?s1)" "vm_inv B vm2" "\<not> vm_locked vm2"
    "vm_view (vma_map vm2) = (\<lambda>a. if in_range lo 0x1000 a
       then map_option (\<lambda>(t, _, _, h). (t, VMAPermission_None, MS_Reserved, h)) (vm_view (vma_map vm1) a) else vm_view (vma_map vm1) a)"
    by (rule guard_page_ok [where s = ?s1, OF B ms _ vm1(2,3) lo _ sh1]) (use top ut in simp_all)
  let ?s2 = "upd_vm (dst_process c) vm2 ?s1"
  have sh2: "shared_at (vma_map vm2) a" if "in_range ?hi 0x1000 a" for a
    using that ut hi n by (simp add: shared_at_def vm1(4) vm2(4))
  obtain vm3 where vm3: "guard_page c ?hi ?s2 = Some (upd_vm (dst_process c) vm3 ?s2)" "vm_inv B vm3" "\<not> vm_locked vm3"
    "vm_view (vma_map vm3) = (\<lambda>a. if in_range ?hi 0x1000 a
       then map_option (\<lambda>(t, _, _, h). (t, VMAPermission_None, MS_Reserved, h)) (vm_view (vma_map vm2) a) else vm_view (vma_map vm2) a)"
    by (rule guard_page_ok [where s = ?s2, OF B ms _ vm2(2,3) alh _ sh2]) (use top hi ut in simp_all)
  have "vm_view (vma_map vm3) = mapped_view lo (unat np) host (vm_view (vma_map vm))"
    using hi ut n by (auto simp: fun_eq_iff mapped_view_def vm3(4) vm2(4) vm1(4))
  moreover have "map_request c perms sz src off np s = Some (lo + 0x1000 + off,
      (upd_vm (dst_process c) vm3 s)\<lparr>memory := ?mem, mapped_buffer_context := mapped_buffer_context s @
           [\<lparr>mbc_permissions = perms, mbc_size = sz, source_address = src, target_address = lo + 0x1000 + off,
             mbc_buffer = ?buf\<rparr>]\<rparr>)"
    using ms new(1) vm(1) vm1(1) vm2(1) vm3(1) ref(3) t
    by (simp add: map_request_def page_layout_def Let_def BufferMem_def upd_vm_def)
  ultimately show thesis using that vm3(2,3) by blast
qed

lemma field_bound: "p + b \<le> 32 \<Longrightarrow> unat (bf_Value p b w) < 2 ^ b"
proof -
  assume "p + b \<le> 32"
  then have "bf_Value p b w = take_bit b (drop_bit p w)"
    unfolding bf_Value_def by (intro bit_word_eqI) (auto simp: bit_simps bit_GetMask)
  then have "unat (bf_Value p b w) = take_bit b (unat (drop_bit p w))" by (simp only: unsigned_take_bit_eq)
  then show ?thesis by (simp only: take_bit_nat_less_exp)
qed

lemma mb_size_bound: "unat (mb_size d) < 2 ^ 28"
  unfolding mb_size_def by (rule field_bound) simp

definition page_count :: "nat \<Rightarrow> nat \<Rightarrow> nat" where
  "page_count off sz = (off + sz + 0xFFF) div 0x1000"

lemma page_count_bounds: "off < 0x1000 \<Longrightarrow> 0 < sz \<Longrightarrow> sz < 2 ^ 28 \<Longrightarrow> 1 \<le> page_count off sz \<and> page_count off sz \<le> 0x20000"
  by (simp add: page_count_def) linarith

lemma unat_AlignDown: "unat (AlignDown a 0x1000) = unat a - unat a mod 0x1000"
proof -
  have "unat (a mod 0x1000) = unat a mod 0x1000" by (simp add: unat_mod)
  then show ?thesis unfolding AlignDown_def by (subst unat_sub) (simp_all add: word_le_nat_alt)
qed

lemma unat_page_offset: "unat (a - AlignDown a 0x1000) = unat a mod 0x1000"
proof -
  have "a - AlignDown a 0x1000 = a mod 0x1000" by (simp add: AlignDown_def)
  then show ?thesis by (simp add: unat_mod)
qed

lemma round_up_pages: "k - k mod 0x1000 + (if k mod 0x1000 = 0 then 0 else 0x1000) = (k + 0xFFF) div 0x1000 * 0x1000" for k :: nat
proof -
  define q r where "q = k div 0x1000" and "r = k mod 0x1000"
  have k: "k = q * 0x1000 + r" "r < 0x1000" by (simp_all add: q_def r_def)
  have "(k + 0xFFF) div 0x1000 = (if r = 0 then q else q + 1)" unfolding k(1) using k(2) by auto
  then show ?thesis by (simp add: flip: r_def) (simp add: k(1))
qed

lemma unat_AlignUp:
  assumes "unat a < 2 ^ 31"
  shows "unat (AlignUp a 0x1000) = (unat a + 0xFFF) div 0x1000 * 0x1000"
proof -
  have d: "unat (a - a mod 0x1000) = unat a - unat a mod 0x1000" using unat_AlignDown [of a] by (simp add: AlignDown_def)
  have m: "unat (a mod 0x1000) = unat a mod 0x1000" by (simp add: unat_mod)
  then have z: "a mod 0x1000 = 0 \<longleftrightarrow> unat a mod 0x1000 = 0" by (metis unat_eq_0)
  have "unat (a - a mod 0x1000 + 0x1000) = unat a - unat a mod 0x1000 + 0x1000"
    using assms d by (subst unat_add_nowrap) auto
  then show ?thesis using d z round_up_pages [of "unat a"]
    by (simp add: AlignUp_def Let_def split: if_splits)
qed

lemma unat_num_pages:
  assumes "unat sz < 2 ^ 28"
  shows "unat (drop_bit 12 (AlignUp (src - AlignDown src 0x1000 + sz) 0x1000)) = page_count (unat src mod 0x1000) (unat sz)"
proof -
  have "unat src mod 0x1000 < 0x1000" by simp
  then have s: "unat (src - AlignDown src 0x1000 + sz) = unat src mod 0x1000 + unat sz"
    using assms by (subst unat_add_nowrap) (simp_all add: unat_page_offset)
  moreover have "unat src mod 0x1000 + unat sz < 2 ^ 31" using assms \<open>unat src mod 0x1000 < 0x1000\<close> by simp
  ultimately show ?thesis
    using unat_AlignUp [of "src - AlignDown src 0x1000 + sz"]
    by (simp add: drop_bit_eq_div unat_div page_count_def)
qed

lemma is_reserved_view:
  assumes "map_ok B m" "vm_view m a = Some (t, p, MS_Reserved, h)"
  shows "is_reserved m a = Some True"
proof -
  have "unat a < 0x40000000" using map_ok_view [OF assms(1), of a] assms(2) by simp
  then obtain pre v post where v: "m = pre @ v # post" "covers v a" "FindVMA m a = Some (pre, v # post)"
    by (rule FindVMA_spec [OF assms(1)])
  with map_ok_covers [OF assms(1), of v a] assms(2) show ?thesis by (simp add: is_reserved_def attr_at_def)
qed

lemma find_append_new:
  "list_all (\<lambda>y. \<not> P y) xs \<Longrightarrow> P x \<Longrightarrow> List.find P (xs @ [x]) = Some x \<and> remove_first P (xs @ [x]) = xs"
  by (induction xs) auto

lemma unmap_reply_ok:
  assumes B: "backings_ok B" and ms: "page_layout (sys c)"
    and vm: "vm_manager (processes s (src_process c)) = vm" "vm_inv B vm" "\<not> vm_locked vm"
    and n: "1 \<le> unat np" "unat np \<le> 0x20000"
    and al: "unat lo mod 0x1000 = 0" and top: "unat lo + (unat np + 2) * 0x1000 \<le> 0x40000000"
    and view: "vm_view (vma_map vm) = mapped_view lo (unat np) host old"
    and cx: "mapped_buffer_context s = cx @ [e]" "list_all (\<lambda>e. \<not> matches_context perms sz src e) cx"
      "matches_context perms sz src e"
  obtains vm' where "unmap_reply c perms sz src (lo + 0x1000) np s = Some
      ((upd_vm (src_process c) vm' s)\<lparr>mapped_buffer_context := cx,
        memory := (if perms = MBP_R then memory s
          else CopyBlock (sys c) (memory s) (dst_process c) (src_process c) (source_address e) (target_address e) (unat sz))\<rparr>)"
    "vm_inv B vm'" "\<not> vm_locked vm'"
    "vm_view (vma_map vm') = (\<lambda>a. if unat lo \<le> unat a \<and> unat a < unat lo + (unat np + 2) * 0x1000
       then Some (VMAType_Free, VMAPermission_None, MS_Free, None) else vm_view (vma_map vm) a)"
proof -
  obtain t where t: "(np + 2) * 0x1000 = t" by simp
  have ut: "unat t = (unat np + 2) * 0x1000" using total_size [OF n(2)] t by simp
  obtain hi where hi: "lo + 0x1000 + np * 0x1000 = hi" by simp
  have "unat (np * 0x1000) = unat np * 0x1000" "unat (lo + 0x1000) = unat lo + 0x1000"
    using n top by (simp_all add: unat_word_ariths)
  then have uh: "unat hi = unat lo + (unat np + 1) * 0x1000"
    using top hi unat_add_nowrap [of "lo + 0x1000" "np * 0x1000"] by simp
  have mok: "map_ok B (vma_map vm)" using vm(2) by (simp add: vm_inv_def)
  have r1: "is_reserved (vma_map vm) lo = Some True" and r2: "is_reserved (vma_map vm) hi = Some True"
    by (rule is_reserved_view [OF mok], unfold view, simp add: mapped_view_def uh)+
  have a: "t AND 0xFFF = 0" "lo AND 0xFFF = 0" using ut al by (simp_all add: aligned_iff)
  have pos: "0 < t" using ut by (simp add: word_less_nat_alt)
  have fit: "unat lo + unat t \<le> 0x40000000" using top ut by simp
  note F = find_append_new [OF cx(2,3)]
  show thesis
  proof (rule UnmapRange_cases [OF B vm(2,3) a pos fit], goal_cases)
    case (1 a)
    then show ?case using ut by (simp add: type_at_def view mapped_view_def split: if_splits)
  next
    case (2 vm')
    have "unmap_reply c perms sz src (lo + 0x1000) np s = Some
      ((upd_vm (src_process c) vm' s)\<lparr>mapped_buffer_context := cx,
        memory := (if perms = MBP_R then memory s
          else CopyBlock (sys c) (memory s) (dst_process c) (src_process c) (source_address e) (target_address e) (unat sz))\<rparr>)"
      using ms vm(1) F cx(1) r1 r2 hi t 2(1) by (simp add: unmap_reply_def page_layout_def Let_def upd_vm_def)
    with 2 ut show ?case using that [of vm'] by simp
  qed
qed

definition request_pages :: "u32 \<Rightarrow> VAddr \<Rightarrow> u32" where
  "request_pages d src = drop_bit 12 (AlignUp (src - AlignDown src 0x1000 + mb_size d) 0x1000)"

lemma request_pages_bounds:
  assumes "mb_size d \<noteq> 0"
  shows "1 \<le> unat (request_pages d src)" "unat (request_pages d src) \<le> 0x20000" "1 \<le> request_pages d src"
proof -
  have "unat (request_pages d src) = page_count (unat src mod 0x1000) (unat (mb_size d))"
    unfolding request_pages_def by (rule unat_num_pages [OF mb_size_bound])
  moreover have "0 < unat (mb_size d)" using assms by (simp add: unat_gt_0)
  ultimately show "1 \<le> unat (request_pages d src)" "unat (request_pages d src) \<le> 0x20000"
    using page_count_bounds [of "unat src mod 0x1000" "unat (mb_size d)"] mb_size_bound [of d] by simp_all
  then show "1 \<le> request_pages d src" by (simp add: word_le_nat_alt)
qed

lemma translate_mapped_nonzero:
  assumes "page_layout (sys c)" "rd buf i = Some src" "mb_size d \<noteq> 0"
  shows "translate_mapped c d i buf s =
    (let start = AlignDown src 0x1000 in
     if reply c
     then Option.bind (unmap_reply c (mb_perms d) (mb_size d) src start (request_pages d src) s) (\<lambda>s1. Some (buf, s1))
     else Option.bind (map_request c (mb_perms d) (mb_size d) src (src - start) (request_pages d src) s)
       (\<lambda>(target, s1). Option.bind (wr buf i target) (\<lambda>buf1. Some (buf1, s1))))"
  using assms request_pages_bounds(3) [OF assms(3), of src]
  by (simp add: translate_mapped_def page_layout_def request_pages_def Let_def)

lemma reply_address:
  assumes "unat lo mod 0x1000 = 0" "unat lo + 0x2000 \<le> 0x40000000"
    and src'_def: "src' = lo + 0x1000 + (src - AlignDown src 0x1000)"
  shows "AlignDown src' 0x1000 = lo + 0x1000" "request_pages d src' = request_pages d src"
proof -
  have l: "unat (lo + 0x1000) = unat lo + 0x1000" using assms(2) by (simp add: unat_word_ariths)
  have o: "unat src mod 0x1000 < 0x1000" by simp
  have u: "unat src' = unat lo + 0x1000 + unat src mod 0x1000"
    unfolding src'_def using assms(2) o l by (subst unat_add_nowrap) (simp_all add: unat_page_offset)
  have m: "unat src' mod 0x1000 = unat src mod 0x1000"
  proof -
    obtain k where "unat lo = 0x1000 * k" using assms(1) by (meson dvd_def mod_0_imp_dvd)
    then have "unat src' = unat src mod 0x1000 + 0x1000 * (k + 1)" by (simp add: u)
    then show ?thesis by (simp only: mod_mult_self2 mod_mod_trivial)
  qed
  have "unat (AlignDown src' 0x1000) = unat src' - unat src mod 0x1000" by (simp add: unat_AlignDown m)
  then show a: "AlignDown src' 0x1000 = lo + 0x1000" by (simp add: word_unat_eq_iff u l)
  then show "request_pages d src' = request_pages d src" by (simp add: request_pages_def a src'_def)
qed

text \<open>The buffer an allocation request leads to, and where it lands.\<close>

definition request_ok :: "('obj, 'm) IpcCall \<Rightarrow> BackingMem set \<Rightarrow> u32 \<Rightarrow> VAddr \<Rightarrow> ('obj, 'm) IpcState \<Rightarrow> VAddr \<Rightarrow> u64 \<Rightarrow> 'm \<Rightarrow> bool" where
  "request_ok c B d src s lo host m1 \<longleftrightarrow>
     (let t = (request_pages d src + 2) * 0x1000 in
      new_vector (sys c) (memory s) t = (host, m1) \<and> BufferMem host t \<in> B \<and>
      request_fits c (vma_map (vm_manager (processes s (dst_process c)))) t lo)"

lemma translate_mapped_request:
  assumes B: "backings_ok B" and ms: "page_layout (sys c)" and r: "\<not> reply c" and src: "rd buf i = Some src"
    and sz: "mb_size d \<noteq> 0" and vm: "vm_inv B vm" "\<not> vm_locked vm" "vm = vm_manager (processes s (dst_process c))"
    and ok: "request_ok c B d src s lo host m1"
  obtains vm' where "translate_mapped c d i buf s = Some (buf[i := Some (lo + 0x1000 + (src - AlignDown src 0x1000))],
      (upd_vm (dst_process c) vm' s)\<lparr>memory := ReadIntoHost (sys c) m1 (src_process c) src
           (host + 0x1000 + ucast (src - AlignDown src 0x1000)) (unat (mb_size d)),
         mapped_buffer_context := mapped_buffer_context s @
           [\<lparr>mbc_permissions = mb_perms d, mbc_size = mb_size d, source_address = src,
             target_address = lo + 0x1000 + (src - AlignDown src 0x1000),
             mbc_buffer = BufferMem host ((request_pages d src + 2) * 0x1000)\<rparr>]\<rparr>)"
    "vm_inv B vm'" "\<not> vm_locked vm'"
    "vm_view (vma_map vm') = mapped_view lo (unat (request_pages d src)) host (vm_view (vma_map vm))"
proof -
  obtain t where t: "(request_pages d src + 2) * 0x1000 = t" by simp
  note np = request_pages_bounds(1,2) [OF sz, of src]
  have w: "wr buf i x = Some (buf[i := Some x])" for x using src by (auto simp: wr_def rd_def split: if_splits)
  have a: "new_vector (sys c) (memory s) t = (host, m1)" "BufferMem host t \<in> B" "request_fits c (vma_map vm) t lo"
    using ok t vm(3) by (simp_all add: request_ok_def Let_def)
  show thesis
    by (rule map_request_ok [OF B ms vm(3) [symmetric] vm(1,2) np t a, of "mb_perms d" "mb_size d" src "src - AlignDown src 0x1000"])
      (use that r t w in \<open>simp add: translate_mapped_nonzero [OF ms src sz] Let_def\<close>)
qed

lemma request_fits_free:
  assumes "map_ok B m" "request_fits c m t lo" "in_range lo t a"
  shows "type_at m a = Some VMAType_Free"
proof -
  from assms(2) obtain v where v: "first_free (IPC_MAPPING_VADDR (sys c)) t m = Some v"
    "lo = max (IPC_MAPPING_VADDR (sys c)) (vma_base v)"
    "unat lo + unat t \<le> unat (vma_base v) + unat (vma_size v)" by (auto simp: request_fits_def)
  then have "v \<in> set m" "vma_type v = VMAType_Free" by (auto simp: first_free_def find_Some_iff)
  moreover have "vma_base v \<le> lo" using v(2) by simp
  then have "covers v a" using assms(3) v(3) by (simp add: covers_def word_le_nat_alt)
  ultimately show ?thesis using map_ok_covers [OF assms(1)] by (simp add: type_at_def attr_at_def)
qed

lemma request_top:
  assumes "map_ok B (vma_map (vm_manager (processes s (dst_process c))))" "request_ok c B d src s lo host m1" "mb_size d \<noteq> 0"
  shows "unat lo mod 0x1000 = 0" "unat lo + (unat (request_pages d src) + 2) * 0x1000 \<le> 0x40000000"
    "in_range lo ((request_pages d src + 2) * 0x1000) a \<longleftrightarrow> unat lo \<le> unat a \<and> unat a < unat lo + (unat (request_pages d src) + 2) * 0x1000"
proof -
  obtain t where t: "(request_pages d src + 2) * 0x1000 = t" by simp
  have ut: "unat t = (unat (request_pages d src) + 2) * 0x1000"
    using total_size [OF request_pages_bounds(2) [OF assms(3)], of src] t by simp
  have f: "request_fits c (vma_map (vm_manager (processes s (dst_process c)))) t lo"
    using assms(2) t by (simp add: request_ok_def Let_def)
  from f show "unat lo mod 0x1000 = 0" by (auto simp: request_fits_def)
  show "unat lo + (unat (request_pages d src) + 2) * 0x1000 \<le> 0x40000000"
    using request_fits_bound [OF assms(1) f] ut by simp
  show "in_range lo ((request_pages d src + 2) * 0x1000) a \<longleftrightarrow> unat lo \<le> unat a \<and> unat a < unat lo + (unat (request_pages d src) + 2) * 0x1000"
    unfolding t ut ..
qed

lemma request_then_reply:
  assumes B: "backings_ok B" and ms: "page_layout (sys c)" and r: "\<not> reply c" and src: "rd buf i = Some src"
    and sz: "mb_size d \<noteq> 0" and vm: "vm_inv B vm" "\<not> vm_locked vm" "vm = vm_manager (processes s (dst_process c))"
    and ok: "request_ok c B d src s lo host m1"
    and cx: "list_all (\<lambda>e. target_address e \<noteq> lo + 0x1000 + (src - AlignDown src 0x1000)) (mapped_buffer_context s)"
    and c2: "sys c2 = sys c" "src_process c2 = dst_process c" "dst_process c2 = src_process c" "reply c2"
  shows "\<exists>buf1 s1 s2. translate_mapped c d i buf s = Some (buf1, s1) \<and>
     translate_mapped c2 d i buf1 (s1\<lparr>memory := m\<rparr>) = Some (buf1, s2) \<and>
     mapped_buffer_context s2 = mapped_buffer_context s \<and>
     memory s2 = (if mb_perms d = MBP_R then m else
       CopyBlock (sys c) m (src_process c) (dst_process c) src (lo + 0x1000 + (src - AlignDown src 0x1000)) (unat (mb_size d))) \<and>
     vm_view (vma_map (vm_manager (processes s2 (dst_process c)))) =
       (\<lambda>a. if in_range lo ((request_pages d src + 2) * 0x1000) a
            then Some (VMAType_Free, VMAPermission_None, MS_Free, None) else vm_view (vma_map vm) a)"
proof -
  let ?src = "lo + 0x1000 + (src - AlignDown src 0x1000)"
  let ?n = "request_pages d src"
  note np = request_pages_bounds(1,2) [OF sz, of src]
  have mok: "map_ok B (vma_map vm)" using vm(1) by (simp add: vm_inv_def)
  note top = request_top [OF mok [unfolded vm(3)] ok sz]
  obtain e where e: "e = \<lparr>mbc_permissions = mb_perms d, mbc_size = mb_size d, source_address = src, target_address = ?src,
    mbc_buffer = BufferMem host ((?n + 2) * 0x1000)\<rparr>" by simp
  obtain vm1 s1 where s1: "translate_mapped c d i buf s = Some (buf[i := Some ?src], s1)" "vm_inv B vm1" "\<not> vm_locked vm1"
    "vm_view (vma_map vm1) = mapped_view lo (unat ?n) host (vm_view (vma_map vm))"
    "vm_manager (processes s1 (dst_process c)) = vm1" "mapped_buffer_context s1 = mapped_buffer_context s @ [e]"
    by (rule translate_mapped_request [OF B ms r src sz vm ok]) (simp add: e)
  have rd2: "rd (buf[i := Some ?src]) i = Some ?src" using src by (simp add: rd_def split: if_splits)
  have "unat lo + 0x2000 \<le> 0x40000000" using top(2) by simp
  note ra = reply_address(1) [OF top(1) this HOL.refl, of src] reply_address(2) [OF top(1) this HOL.refl, of d src]
  have match: "list_all (\<lambda>e. \<not> matches_context (mb_perms d) (mb_size d) ?src e) (mapped_buffer_context s)"
    "matches_context (mb_perms d) (mb_size d) ?src e"
    using cx by (auto simp: matches_context_def e list_all_iff)
  have pq: "vm_manager (processes (s1\<lparr>memory := m\<rparr>) (src_process c2)) = vm1" using s1(5) c2 by simp
  have cx1: "mapped_buffer_context (s1\<lparr>memory := m\<rparr>) = mapped_buffer_context s @ [e]" using s1(6) by simp
  have ms2: "page_layout (sys c2)" using ms c2 by simp
  obtain vm2 where vm2: "unmap_reply c2 (mb_perms d) (mb_size d) ?src (lo + 0x1000) ?n (s1\<lparr>memory := m\<rparr>) = Some
      ((upd_vm (src_process c2) vm2 (s1\<lparr>memory := m\<rparr>))\<lparr>mapped_buffer_context := mapped_buffer_context s,
        memory := (if mb_perms d = MBP_R then memory (s1\<lparr>memory := m\<rparr>)
          else CopyBlock (sys c2) (memory (s1\<lparr>memory := m\<rparr>)) (dst_process c2) (src_process c2) (source_address e) (target_address e) (unat (mb_size d)))\<rparr>)"
    "vm_view (vma_map vm2) = (\<lambda>a. if unat lo \<le> unat a \<and> unat a < unat lo + (unat ?n + 2) * 0x1000
       then Some (VMAType_Free, VMAPermission_None, MS_Free, None) else vm_view (vma_map vm1) a)"
    by (rule unmap_reply_ok [OF B ms2 pq s1(2,3) np top(1,2) s1(4) cx1 match])
  have "vm_view (vma_map vm2) = (\<lambda>a. if in_range lo ((?n + 2) * 0x1000) a
            then Some (VMAType_Free, VMAPermission_None, MS_Free, None) else vm_view (vma_map vm) a)"
    unfolding vm2(2) top(3) by (rule ext) (simp add: s1(4) mapped_view_def)
  note view = this
  obtain s2 where s2: "unmap_reply c2 (mb_perms d) (mb_size d) ?src (lo + 0x1000) ?n (s1\<lparr>memory := m\<rparr>) = Some s2"
      "mapped_buffer_context s2 = mapped_buffer_context s" "vm_manager (processes s2 (dst_process c)) = vm2"
      "memory s2 = (if mb_perms d = MBP_R then m else CopyBlock (sys c) m (src_process c) (dst_process c) src ?src (unat (mb_size d)))"
    using vm2(1) c2 e by simp
  have t2: "translate_mapped c2 d i (buf[i := Some ?src]) (s1\<lparr>memory := m\<rparr>) = Some (buf[i := Some ?src], s2)"
    by (simp only: translate_mapped_nonzero [OF ms2 rd2 sz] Let_def ra c2(4) if_True s2(1) bind.bind_lunit)
  show ?thesis
    by (intro exI conjI) (rule s1(1) t2 s2(2,4) view [folded s2(3)])+
qed

subsection \<open>Runs of the translation\<close>

lemma vm_reach_mono: "vm_reach B vm \<Longrightarrow> B \<subseteq> B' \<Longrightarrow> vm_reach B' vm"
proof (induction rule: vm_reach.induct)
  case (map vm mem sz pm target st r vm')
  moreover from map have "ref_to B' mem sz" by (auto simp: ref_to_def)
  ultimately show ?case by (blast intro: vm_reach.map)
next
  case (map_base vm mem sz pm base region_size st ra vm')
  moreover from map_base have "ref_to B' mem sz" by (auto simp: ref_to_def)
  ultimately show ?case by (blast intro: vm_reach.map_base)
qed (blast intro: vm_reach.intros)+

definition ipc_ok :: "BackingMem set \<Rightarrow> ('obj, 'm) IpcState \<Rightarrow> bool" where
  "ipc_ok B s \<longleftrightarrow> (\<forall>p. ht_reach (handle_table (processes s p)) \<and>
     vm_reach (B \<union> mbc_buffer ` set (mapped_buffer_context s)) (vm_manager (processes s p)))"

lemma ipc_ok_upd_table: "ipc_ok B s \<Longrightarrow> ht_reach ht \<Longrightarrow> ipc_ok B (upd_table p ht s)"
  by (simp add: ipc_ok_def)

lemma ipc_ok_upd_vm:
  "ipc_ok B s \<Longrightarrow> vm_reach (B \<union> mbc_buffer ` set (mapped_buffer_context s)) vm \<Longrightarrow> ipc_ok B (upd_vm p vm s)"
  by (simp add: ipc_ok_def)

lemma ipc_okD:
  "ipc_ok B s \<Longrightarrow> ht_reach (handle_table (processes s p))"
  "ipc_ok B s \<Longrightarrow> vm_reach (B \<union> mbc_buffer ` set (mapped_buffer_context s)) (vm_manager (processes s p))"
  by (simp_all add: ipc_ok_def)

lemma ipc_ok_memory [simp]: "ipc_ok B (s\<lparr>memory := m\<rparr>) = ipc_ok B s"
  by (simp add: ipc_ok_def)

lemma ipc_ok_context:
  assumes "ipc_ok B s" "mbc_buffer ` set (mapped_buffer_context s) \<subseteq> B \<union> mbc_buffer ` set cx"
  shows "ipc_ok B (s\<lparr>mapped_buffer_context := cx\<rparr>)"
proof -
  have "B \<union> mbc_buffer ` set (mapped_buffer_context s) \<subseteq> B \<union> mbc_buffer ` set cx" using assms(2) by blast
  with assms(1) show ?thesis unfolding ipc_ok_def by (simp, blast intro: vm_reach_mono)
qed

lemma ipc_ok_push:
  "ipc_ok (insert (mbc_buffer e) B) s \<Longrightarrow> ipc_ok B (s\<lparr>mapped_buffer_context := mapped_buffer_context s @ [e]\<rparr>)"
  by (simp add: ipc_ok_def)

lemma guard_eq_Some: "(if b then x else None) = Some y \<longleftrightarrow> b \<and> x = Some y"
  by simp

lemma if_memory: "(if b then s\<lparr>memory := m\<rparr> else s) = s\<lparr>memory := (if b then m else memory s)\<rparr>"
  by simp

lemma lookup_handle_ok: "ipc_ok B s \<Longrightarrow> lookup_handle c d h s = (ob, s') \<Longrightarrow> ipc_ok B s'"
  by (auto simp: lookup_handle_def Let_def split: if_splits intro!: ipc_ok_upd_table ht_reach.close ipc_okD)

lemma lookup_handle_context: "lookup_handle c d h s = (ob, s') \<Longrightarrow> mapped_buffer_context s' = mapped_buffer_context s"
  by (auto simp: lookup_handle_def Let_def split: if_splits)

lemma case_sum_Some: "(case r of Inl e \<Rightarrow> None | Inr x \<Rightarrow> f x) = Some y \<longleftrightarrow> (\<exists>x. r = Inr x \<and> f x = Some y)"
  by (cases r) auto

lemma translate_handles_ok:
  "ipc_ok B s \<Longrightarrow> translate_handles c d n i buf s = Some (buf', s') \<Longrightarrow>
   ipc_ok B s' \<and> mapped_buffer_context s' = mapped_buffer_context s"
proof (induction n arbitrary: i buf s)
  case (Suc n)
  obtain h where h: "rd buf i = Some h" using Suc.prems(2) by (auto simp: bind_eq_Some_iff)
  obtain ob s1 where l: "lookup_handle c d h s = (ob, s1)" by fastforce
  note ok = lookup_handle_ok [OF Suc.prems(1) l] and cx = lookup_handle_context [OF l]
  show ?case
  proof (cases ob)
    case None
    with Suc.prems(2) h l obtain buf1 where "translate_handles c d n (i + 1) buf1 s1 = Some (buf', s')"
      by (auto simp: bind_eq_Some_iff)
    from Suc.IH [OF ok this] cx show ?thesis by simp
  next
    case (Some x)
    with Suc.prems(2) h l obtain w ht buf1 where "Create (handle_table (processes s1 (dst_process c))) (Some x) = Some (Inr w, ht)"
      and t: "translate_handles c d n (i + 1) buf1 (upd_table (dst_process c) ht s1) = Some (buf', s')"
      by (auto simp: bind_eq_Some_iff case_sum_Some)
    then have "ht_reach ht" using ok by (blast intro: ht_reach.create ipc_okD)
    from Suc.IH [OF ipc_ok_upd_table [OF ok this] t] cx show ?thesis by simp
  qed
qed simp

lemma guard_page_keeps:
  assumes "ipc_ok B s" "guard_page c a s = Some s'"
  shows "ipc_ok B s' \<and> mapped_buffer_context s' = mapped_buffer_context s"
proof -
  from assms(2) obtain vm res where ch: "ChangeMemoryState (PAGE_MASK (sys c)) (vm_manager (processes s (dst_process c))) a (PAGE_SIZE (sys c))
       MS_Shared VMAPermission_ReadWrite MS_Reserved VMAPermission_None = Some (res, vm)" and s': "s' = upd_vm (dst_process c) vm s"
    by (auto simp: guard_page_def bind_eq_Some_iff guard_eq_Some)
  have "ipc_ok B s'" unfolding s' by (rule ipc_ok_upd_vm [OF assms(1) vm_reach.change [OF ipc_okD(2) [OF assms(1)] ch]])
  then show ?thesis by (simp add: s')
qed

lemma map_request_keeps:
  assumes ok: "ipc_ok B s" and r: "map_request c perms sz src off np s = Some (target, s')"
  shows "ipc_ok B s'"
proof -
  let ?t = "(np + 2) * PAGE_SIZE (sys c)"
  obtain host m1 where nv: "new_vector (sys c) (memory s) ?t = (host, m1)" by fastforce
  let ?buf = "BufferMem host ?t"
  obtain m2 where m2: "m2 = ReadIntoHost (sys c) m1 (src_process c) src (bm_ptr ?buf + ucast (PAGE_SIZE (sys c)) + ucast off) (unat sz)" by simp
  let ?B = "insert ?buf B"
  have ref: "ref_to (?B \<union> mbc_buffer ` set (mapped_buffer_context s)) (Init \<lparr>backing_mem = Some ?buf, ref_offset = 0, cptr = 0, csize = 0\<rparr>)
      (ucast (bm_size ?buf))"
    using BufferMem_ref(1,3) [of host ?t "?B \<union> mbc_buffer ` set (mapped_buffer_context s)"] by simp
  from r nv obtain lo vm s2 s3 where
    mb: "MapBackingMemoryToBase (PAGE_MASK (sys c)) (vm_manager (processes s (dst_process c))) (IPC_MAPPING_VADDR (sys c))
      (IPC_MAPPING_SIZE (sys c)) (Init \<lparr>backing_mem = Some ?buf, ref_offset = 0, cptr = 0, csize = 0\<rparr>) (ucast (bm_size ?buf)) MS_Shared
        = Some (Inr lo, vm)"
    and g: "guard_page c lo (upd_vm (dst_process c) vm (s\<lparr>memory := m2\<rparr>)) = Some s2"
      "guard_page c (lo + ucast (bm_size ?buf) - PAGE_SIZE (sys c)) s2 = Some s3"
    and s': "s' = s3\<lparr>mapped_buffer_context := mapped_buffer_context s3 @
        [\<lparr>mbc_permissions = perms, mbc_size = sz, source_address = src, target_address = lo + PAGE_SIZE (sys c) + off, mbc_buffer = ?buf\<rparr>]\<rparr>"
    by (auto simp: map_request_def Let_def bind_eq_Some_iff m2 case_sum_Some)
  have ok1: "ipc_ok ?B s" using ok unfolding ipc_ok_def by (blast intro: vm_reach_mono)
  have "vm_reach (?B \<union> mbc_buffer ` set (mapped_buffer_context s)) vm"
    by (rule vm_reach.map_base [OF ipc_okD(2) [OF ok1] ref mb])
  with ok1 have "ipc_ok ?B (upd_vm (dst_process c) vm (s\<lparr>memory := m2\<rparr>))"
    by (intro ipc_ok_upd_vm) simp_all
  then have "ipc_ok ?B s3" using g by (blast dest: guard_page_keeps)
  then show ?thesis unfolding s' by (intro ipc_ok_push) simp
qed

lemma remove_first_subset: "set (remove_first P xs) \<subseteq> set xs"
  by (induction xs) auto

lemma unmap_reply_keeps:
  assumes ok: "ipc_ok B s" and cx: "mbc_buffer ` set (mapped_buffer_context s) \<subseteq> B"
    and r: "unmap_reply c perms sz src start np s = Some s'"
  shows "ipc_ok B s' \<and> mbc_buffer ` set (mapped_buffer_context s') \<subseteq> B"
proof -
  from r obtain vm res m where u: "UnmapRange (PAGE_MASK (sys c)) (vm_manager (processes s (src_process c))) (start - PAGE_SIZE (sys c))
      ((np + 2) * PAGE_SIZE (sys c)) = Some (res, vm)"
    and s': "s' = (upd_vm (src_process c) vm (s\<lparr>memory := m\<rparr>))\<lparr>mapped_buffer_context :=
        remove_first (matches_context perms sz src) (mapped_buffer_context s)\<rparr>"
    by (auto simp: unmap_reply_def Let_def bind_eq_Some_iff if_memory guard_eq_Some)
  have "ipc_ok B (upd_vm (src_process c) vm (s\<lparr>memory := m\<rparr>))"
    using ok by (intro ipc_ok_upd_vm) (auto intro: vm_reach.unmap [OF _ u] ipc_okD)
  then show ?thesis
    unfolding s' using cx remove_first_subset [of "matches_context perms sz src" "mapped_buffer_context s"]
    by (auto intro!: ipc_ok_context)
qed


lemma translate_mapped_keeps:
  assumes ok: "ipc_ok B s" and cx: "reply c \<longrightarrow> mbc_buffer ` set (mapped_buffer_context s) \<subseteq> B"
    and r: "translate_mapped c d i buf s = Some (buf', s')"
  shows "ipc_ok B s' \<and> (reply c \<longrightarrow> mbc_buffer ` set (mapped_buffer_context s') \<subseteq> B)"
proof -
  consider "mb_size d = 0" | "mb_size d \<noteq> 0" "reply c" | "mb_size d \<noteq> 0" "\<not> reply c" by blast
  then show ?thesis
  proof cases
    case 1
    then have "s' = s" using r by (auto simp: translate_mapped_def Let_def bind_eq_Some_iff)
    with ok cx show ?thesis by simp
  next
    case 2
    then obtain perms sz src start np where "unmap_reply c perms sz src start np s = Some s'"
      using r unfolding translate_mapped_def Let_def by (simp add: bind_eq_Some_iff guard_eq_Some) blast
    with unmap_reply_keeps [OF ok] 2 cx show ?thesis by simp
  next
    case 3
    then obtain perms sz src off np t where "map_request c perms sz src off np s = Some (t, s')"
      using r unfolding translate_mapped_def Let_def by (simp add: bind_eq_Some_iff guard_eq_Some) blast
    with map_request_keeps [OF ok] 3 show ?thesis by simp
  qed
qed

lemma case_two_Some: "(case xs of [a, b] \<Rightarrow> f a b | _ \<Rightarrow> None) = Some y \<longleftrightarrow> (\<exists>a b. xs = [a, b] \<and> f a b = Some y)"
  by (auto split: list.splits)

lemma translate_static_keeps:
  assumes "ipc_ok B s" "translate_static c d i buf s = Some (buf', s')"
  shows "ipc_ok B s' \<and> mapped_buffer_context s' = mapped_buffer_context s"
proof -
  from assms(2) obtain m where "s' = s\<lparr>memory := m\<rparr>"
    by (auto simp: translate_static_def Let_def bind_eq_Some_iff case_two_Some guard_eq_Some)
  with assms(1) show ?thesis by simp
qed

lemma translate_descriptor_keeps:
  assumes ok: "ipc_ok B s" and cx: "reply c \<longrightarrow> mbc_buffer ` set (mapped_buffer_context s) \<subseteq> B"
    and r: "translate_descriptor c n d i buf s = Some (Inr (j, buf', s'))"
  shows "ipc_ok B s' \<and> (reply c \<longrightarrow> mbc_buffer ` set (mapped_buffer_context s') \<subseteq> B)"
proof -
  from r consider k where "translate_handles c d k i buf s = Some (buf', s')" | "s' = s"
    | "translate_static c d i buf s = Some (buf', s')" | "translate_mapped c d i buf s = Some (buf', s')"
    by (auto simp: translate_descriptor_def Let_def bind_eq_Some_iff split: if_splits)
  then show ?thesis
  proof cases
    case (1 k) with translate_handles_ok [OF ok 1] cx show ?thesis by simp
  next
    case 2 with ok cx show ?thesis by simp
  next
    case 3 with translate_static_keeps [OF ok 3] cx show ?thesis by simp
  next
    case 4 with translate_mapped_keeps [OF ok cx 4] show ?thesis by simp
  qed
qed

lemma translate_loop_keeps:
  "ipc_ok B s \<Longrightarrow> reply c \<longrightarrow> mbc_buffer ` set (mapped_buffer_context s) \<subseteq> B \<Longrightarrow>
   translate_loop c n i buf s = Some (r, buf', s') \<Longrightarrow> ipc_ok B s'"
proof (induction c n i buf s rule: translate_loop.induct)
  case (1 c n i buf s)
  note run = "1.prems"(3) [unfolded translate_loop.simps [of c n i]]
  show ?case
  proof (cases "i < n \<and> rd buf i \<noteq> None")
    case False
    with run "1.prems"(1) show ?thesis by (auto split: if_splits)
  next
    case True
    then obtain d where d: "i < n" "rd buf i = Some d" by blast
    show ?thesis
    proof (cases "translate_descriptor c n d (i + 1) buf s")
      case None
      with run d show ?thesis by simp
    next
      case (Some res)
      show ?thesis
      proof (cases res)
        case (Inl e)
        with run d Some "1.prems"(1) show ?thesis by simp
      next
        case (Inr q)
        obtain j buf1 s1 where q: "q = (j, buf1, s1)" by (cases q) auto
        with Some Inr have t: "translate_descriptor c n d (i + 1) buf s = Some (Inr (j, buf1, s1))" by simp
        note k = translate_descriptor_keeps [OF "1.prems"(1,2) t]
        show ?thesis
          by (rule "1.IH" [OF d Some Inr q [symmetric] HOL.refl]) (use k run d t in auto)
      qed
    qed
  qed
qed

lemma translation_keeps:
  assumes ok: "ipc_ok B s" and r: "TranslateCommandBuffer c s = Some (res, s')"
  shows "ipc_ok (B \<union> (if reply c then mbc_buffer ` set (mapped_buffer_context s) else {})) s'"
proof -
  let ?B = "B \<union> (if reply c then mbc_buffer ` set (mapped_buffer_context s) else {})"
  have ok1: "ipc_ok ?B s" using ok unfolding ipc_ok_def by (blast intro: vm_reach_mono)
  have cx: "reply c \<longrightarrow> mbc_buffer ` set (mapped_buffer_context s) \<subseteq> ?B" by auto
  have one: "(case xs of [a] \<Rightarrow> f a | _ \<Rightarrow> None) = Some y \<longleftrightarrow> (\<exists>a. xs = [a] \<and> f a = Some y)" for xs :: "u32 list" and f and y :: "Result \<times> ('a, 'b) IpcState"
    by (auto split: list.splits)
  from r have "\<exists>n i buf rr buf1 s1. translate_loop c n i buf s = Some (rr, buf1, s1) \<and> (\<exists>m. s' = s1\<lparr>memory := m\<rparr>)"
    unfolding TranslateCommandBuffer_def Let_def one ASSERT_bind guard_eq_Some
    by (fastforce simp: bind_eq_Some_iff split: if_splits intro: exI [of _ "memory s'"])
  then obtain n i buf rr buf1 s1 m where t: "translate_loop c n i buf s = Some (rr, buf1, s1)" and s': "s' = s1\<lparr>memory := m\<rparr>"
    by blast
  show ?thesis using translate_loop_keeps [OF ok1 cx t] s' by auto
qed


subsection \<open>Words and bytes\<close>

lemma word_bytes:
  fixes a b c d :: u8
  defines "w \<equiv> (ucast a OR push_bit 8 (ucast b) OR push_bit 16 (ucast c) OR push_bit 24 (ucast d) :: u32)"
  shows "ucast w = a" "ucast (drop_bit 8 w) = b" "ucast (drop_bit 16 w) = c" "ucast (drop_bit 24 w) = d"
  unfolding w_def by (rule bit_word_eqI; auto simp: bit_simps dest: bit_imp_le_length)+

lemma bytes_words: "length bs = 4 * n \<Longrightarrow> bytes_of (words_of bs) = bs \<and> length (words_of bs) = n"
proof (induction bs arbitrary: n rule: words_of.induct)
  case (1 a b c d bs)
  then obtain k where "n = Suc k" "length bs = 4 * k" by (cases n) auto
  with "1.IH" [of k] show ?case by (simp add: bytes_of_def word_bytes del: drop_bit_or)
qed (auto simp: bytes_of_def; presburger)+

definition reads_in_full :: "'m MemSys \<Rightarrow> bool" where
  "reads_in_full ms \<longleftrightarrow> (\<forall>m p a n. length (ReadBlock ms m p a n) = n)"

lemma read_words_full:
  assumes "reads_in_full ms"
  shows "length (read_words ms m p a n) = n" "bytes_of (read_words ms m p a n) = ReadBlock ms m p a (4 * n)"
  using assms bytes_words [of "ReadBlock ms m p a (4 * n)" n] by (simp_all add: reads_in_full_def read_words_def)

lemma read_header:
  assumes "reads_in_full ms"
  obtains header where "read_words ms m p a 1 = [header]"
proof -
  have "length (read_words ms m p a 1) = 1" by (rule read_words_full [OF assms])
  then show thesis using that by (cases "read_words ms m p a 1") auto
qed

lemma plain_copy:
  assumes rf: "reads_in_full (sys c)" and h: "read_words (sys c) (memory s) (src_process c) (src_address c) 1 = [header]"
    and z: "translate_params_size header = 0"
  shows "TranslateCommandBuffer c s = Some (ResultSuccess, s\<lparr>memory := WriteBlock (sys c) (memory s) (dst_process c) (dst_address c)
     (ReadBlock (sys c) (memory s) (src_process c) (src_address c) (4 * (1 + unat (normal_params_size header))))\<rparr>)"
proof -
  obtain n where n: "1 + unat (normal_params_size header) = n" by simp
  have "n \<le> COMMAND_BUFFER_LENGTH"
    using field_bound [of 6 6 header] n by (simp add: normal_params_size_def COMMAND_BUFFER_LENGTH_def)
  moreover obtain ws where ws: "read_words (sys c) (memory s) (src_process c) (src_address c) n = ws" by simp
  have len: "length ws = n" "bytes_of ws = ReadBlock (sys c) (memory s) (src_process c) (src_address c) (4 * n)"
    using read_words_full [OF rf, of "memory s" "src_process c" "src_address c" n] ws by simp_all
  moreover have "map the (take n (map Some ws @ replicate (COMMAND_BUFFER_LENGTH - length ws) None)) = ws"
    using len(1) by (simp add: comp_def)
  ultimately show ?thesis
    using h z n ws by (simp add: TranslateCommandBuffer_def Let_def translate_loop.simps [of c n n])
qed

subsection \<open>Moved handles and truncated commands\<close>

lemma translate_one_move:
  assumes pq: "src_process c \<noteq> dst_process c" and inv: "ht_inv (handle_table (processes s (dst_process c)))"
    and fr: "0 < free_slots (handle_table (processes s (dst_process c)))"
    and h: "rd buf i = Some h" "GetGeneric None None (handle_table (processes s (src_process c))) h = Some ob"
    and nz: "h \<noteq> 0"
  shows "\<exists>w s'. translate_handles c DT_MoveHandle 1 i buf s = Some (buf[i := Some w], s') \<and>
     arrived (handle_table (processes s (dst_process c))) (handle_table (processes s' (dst_process c))) (Some ob) (Some w) \<and>
     keeps (handle_table (processes s (dst_process c))) (handle_table (processes s' (dst_process c))) \<and>
     handle_table (processes s' (src_process c)) = snd (Close (handle_table (processes s (src_process c))) h)"
proof -
  let ?src = "handle_table (processes s (src_process c))" and ?dst = "handle_table (processes s (dst_process c))"
  have v: "IsValid ?src h" using h(2) by (simp add: GetGeneric_valid)
  then have np: "h \<noteq> CurrentThread" "h \<noteq> CurrentProcess" using IsValid_not_pseudo by blast+
  have i: "i < length buf" using h(1) by (auto simp: rd_def split: if_splits)
  obtain w u where c: "Create ?dst (Some ob) = Some (Inr w, u)" "keeps ?dst u" "arrived ?dst u (Some ob) (Some w)"
    by (rule free_slots_create [OF inv fr])
  show ?thesis
    by (rule exI [of _ w], rule exI [of _ "upd_table (dst_process c) u (upd_table (src_process c) (snd (Close ?src h)) s)"])
      (use c i h np nz pq in \<open>simp add: lookup_handle_def wr_def\<close>)
qed


lemma run_off_end:
  assumes "length buf = COMMAND_BUFFER_LENGTH" "n \<le> COMMAND_BUFFER_LENGTH" "0 < n" "rd buf (n - 1) = Some d"
    and "\<And>k. n \<le> k \<Longrightarrow> k < COMMAND_BUFFER_LENGTH \<Longrightarrow> buf ! k = None"
    and "GetDescriptorType d \<in> {DT_StaticBuffer, DT_MappedBuffer} \<or> (GetDescriptorType d = DT_CallingPid \<and> n = COMMAND_BUFFER_LENGTH)"
  shows "translate_loop c n (n - 1) buf s = None"
proof -
  have n: "n - 1 + 1 = n" using assms(3) by simp
  have "rd buf n = None" using assms(1,2,5) by (auto simp: rd_def)
  moreover have "n = COMMAND_BUFFER_LENGTH \<Longrightarrow> wr buf n x = None" for x using assms(1) by (simp add: wr_def)
  ultimately have "translate_descriptor c n d n buf s = None"
    using assms(6) by (auto simp: translate_descriptor_def descriptor_types translate_static_def translate_mapped_def Let_def)
  then show ?thesis using assms(3,4) n by (subst translate_loop.simps) simp
qed


subsection \<open>A flat memory, for the witnesses\<close>

type_synonym flat = "nat \<Rightarrow> VAddr \<Rightarrow> u8"

definition flat_read :: "flat \<Rightarrow> nat \<Rightarrow> VAddr \<Rightarrow> nat \<Rightarrow> u8 list" where
  "flat_read m p a n = map (\<lambda>i. m p (a + of_nat i)) [0..<n]"

definition flat_write :: "flat \<Rightarrow> nat \<Rightarrow> VAddr \<Rightarrow> u8 list \<Rightarrow> flat" where
  "flat_write m p a bs = m(p := (\<lambda>x. if unat (x - a) < length bs then bs ! unat (x - a) else m p x))"

definition flat_sys :: "flat MemSys" where
  "flat_sys = \<lparr>ReadBlock = flat_read, WriteBlock = flat_write,
     CopyBlock = (\<lambda>m dst src da sa n. flat_write m dst da (flat_read m src sa n)),
     new_vector = (\<lambda>m t. (0x7F0000000000, m)), ReadIntoHost = (\<lambda>m p a h n. m),
     PAGE_SIZE = 0x1000, PAGE_BITS = 12, PAGE_MASK = 0xFFF,
     IPC_MAPPING_VADDR = 0x4000000, IPC_MAPPING_SIZE = 0x4000000\<rparr>"

definition flat_process :: "nat IpcProcess" where
  "flat_process = \<lparr>handle_table = mk_HandleTable blank_table, vm_manager = fresh_vm, process_id = 1\<rparr>"

definition flat_state :: "(nat, flat) IpcState" where
  "flat_state = \<lparr>processes = (\<lambda>_. flat_process), memory = (\<lambda>_ _. 0), mapped_buffer_context = []\<rparr>"

definition flat_call :: "bool \<Rightarrow> (nat, flat) IpcCall" where
  "flat_call r = \<lparr>sys = flat_sys, src_process = (if r then 2 else 1), dst_process = (if r then 1 else 2),
     src_thread_object = 7, src_process_object = 8, src_address = 0x1000, dst_address = 0x2000, reply = r\<rparr>"

lemma flat_simps [simp]:
  "sys (flat_call r) = flat_sys" "src_process (flat_call r) = (if r then 2 else 1)" "dst_process (flat_call r) = (if r then 1 else 2)"
  "reply (flat_call r) = r" "src_thread_object (flat_call r) = 7" "processes flat_state p = flat_process" "handle_table flat_process = mk_HandleTable blank_table"
  "vm_manager flat_process = fresh_vm" "mapped_buffer_context flat_state = []"
  by (simp_all add: flat_call_def flat_state_def flat_process_def)

lemma flat_layout: "page_layout flat_sys"
  by (simp add: page_layout_def flat_sys_def)

lemma flat_reads: "reads_in_full flat_sys"
  by (simp add: reads_in_full_def flat_sys_def flat_read_def)

lemma flat_free_slots: "free_slots (mk_HandleTable blank_table) = 4096"
proof -
  have "{i. i < MAX_COUNT \<and> objects (mk_HandleTable blank_table) i = None} = {..<4096}"
    by (auto simp: mk_HandleTable_def Clear_def MAX_COUNT_def)
  then show ?thesis by (simp add: free_slots_def)
qed

lemma flat_ok: "ipc_ok {} flat_state"
proof -
  have "vm_reach {} fresh_vm"
    by (rule vm_reach.reset [of blank_vm])
      (simp add: VM_Reset_def blank_vm_def fresh_vm_def UpdatePageTableForVMA_def initial_vma_def)
  then show ?thesis by (simp add: ipc_ok_def ht_reach.start)
qed

subsection \<open>Properties\<close>


text \<open>a command without translated parameters arrives byte for byte: the call always succeeds,
  its only effect is that the header and the normal parameters, at most 64 words, are
  written to the destination exactly as they were read from the source.\<close>
theorem plain_command_copied:
  assumes "reads_in_full (sys c)" "read_words (sys c) (memory s) (src_process c) (src_address c) 1 = [header]"
    and "translate_params_size header = 0"
  shows "TranslateCommandBuffer c s = Some (ResultSuccess, s\<lparr>memory := WriteBlock (sys c) (memory s) (dst_process c) (dst_address c)
     (ReadBlock (sys c) (memory s) (src_process c) (src_address c) (4 * (1 + unat (normal_params_size header))))\<rparr>)"
  by (rule plain_copy [OF assms])

theorem plain_command_copied_witness:
  "\<exists>s'. TranslateCommandBuffer (flat_call False) flat_state = Some (ResultSuccess, s')"
proof -
  have "read_words (sys (flat_call False)) (memory flat_state) (src_process (flat_call False)) (src_address (flat_call False)) 1 = [0]"
    by code_simp
  moreover have "translate_params_size 0 = 0" by code_simp
  ultimately show ?thesis using plain_command_copied [of "flat_call False" flat_state 0] flat_reads by auto
qed


text \<open>C6: a buffer mapped for a request is taken away by the reply that names it, and nothing
  stays behind.  The request places the buffer between two guard pages in a free part of the
  IPC area of the destination; the reply, translated the other way in any state whose memory
  has changed meanwhile, finds the buffer by permissions, size and address, copies it back
  unless it was read-only, passes every assertion, makes exactly the pages of buffer and guards
  free again and restores the list of mapped buffers.\<close>
theorem mapped_buffer_request_then_reply:
  assumes "backings_ok B" "vm_reach B (vm_manager (processes s (dst_process c)))"
    and "page_layout (sys c)" "\<not> reply c" "rd buf i = Some src" "mb_size d \<noteq> 0"
    and "request_ok c B d src s lo host m1"
    and "list_all (\<lambda>e. target_address e \<noteq> lo + 0x1000 + (src - AlignDown src 0x1000)) (mapped_buffer_context s)"
    and "sys c2 = sys c" "src_process c2 = dst_process c" "dst_process c2 = src_process c" "reply c2"
  shows "\<exists>buf1 s1 s2. translate_mapped c d i buf s = Some (buf1, s1) \<and>
     translate_mapped c2 d i buf1 (s1\<lparr>memory := m\<rparr>) = Some (buf1, s2) \<and>
     mapped_buffer_context s2 = mapped_buffer_context s \<and>
     memory s2 = (if mb_perms d = MBP_R then m else
       CopyBlock (sys c) m (src_process c) (dst_process c) src (lo + 0x1000 + (src - AlignDown src 0x1000)) (unat (mb_size d))) \<and>
     vm_view (vma_map (vm_manager (processes s2 (dst_process c)))) =
       (\<lambda>a. if in_range lo ((request_pages d src + 2) * 0x1000) a
            then Some (VMAType_Free, VMAPermission_None, MS_Free, None)
            else vm_view (vma_map (vm_manager (processes s (dst_process c)))) a)"
  by (rule request_then_reply [OF assms(1,3-6) _ _ HOL.refl assms(7-12)]) (use vm_reach_inv [OF assms(1,2)] in simp_all)


lemma flat_request: "request_ok (flat_call False) {BufferMem 0x7F0000000000 0x3000} 0x101C 0x5800 flat_state 0x4000000 0x7F0000000000 (\<lambda>_ _. 0)"
proof -
  have t: "(request_pages 0x101C 0x5800 + 2) * 0x1000 = 0x3000" by code_simp
  have "first_free 0x4000000 0x3000 (vma_map fresh_vm) = Some initial_vma" by code_simp
  then show ?thesis
    unfolding request_ok_def t Let_def request_fits_def
    by (simp add: flat_sys_def) (simp add: flat_state_def initial_vma_def MAX_ADDRESS_def max_def)
qed

theorem mapped_buffer_request_then_reply_witness:
  "\<exists>buf1 s1 s2. translate_mapped (flat_call False) 0x101C 0 [Some 0x5800] flat_state = Some (buf1, s1) \<and>
     translate_mapped (flat_call True) 0x101C 0 buf1 (s1\<lparr>memory := (\<lambda>_ _. 5)\<rparr>) = Some (buf1, s2) \<and>
     mapped_buffer_context s2 = []"
proof -
  have b: "backings_ok {BufferMem 0x7F0000000000 0x3000}" by (simp add: backings_ok_def BufferMem_def)
  have v: "vm_reach {BufferMem 0x7F0000000000 0x3000} (vm_manager (processes flat_state (dst_process (flat_call False))))"
    using ipc_okD(2) [OF flat_ok, of 2] by (auto elim: vm_reach_mono)
  have sz: "mb_size 0x101C \<noteq> 0" by code_simp
  have rd: "rd [Some 0x5800] 0 = Some 0x5800" by (simp add: rd_def)
  show ?thesis
    using mapped_buffer_request_then_reply [OF b v _ _ rd sz flat_request, of "flat_call True" "\<lambda>_ _. 5"] flat_layout by auto
qed

text \<open>a request for a mapped buffer gives the receiver, in a hole of the IPC area, an
  unreadable guard page, then as many readable and writable pages as the buffer touches, backed by
  consecutive bytes of the fresh host copy, then another guard page; every other address is
  as before.  The word of the command becomes the address of the buffer, with its offset
  inside the page kept, and the mapping is remembered for the reply.\<close>
theorem mapped_buffer_request_effect:
  assumes "backings_ok B" "vm_reach B (vm_manager (processes s (dst_process c)))"
    and "page_layout (sys c)" "\<not> reply c" "rd buf i = Some src" "mb_size d \<noteq> 0"
    and "request_ok c B d src s lo host m1"
  shows "\<exists>s'. translate_mapped c d i buf s = Some (buf[i := Some (lo + 0x1000 + (src - AlignDown src 0x1000))], s') \<and>
     unat (request_pages d src) = (unat src mod 0x1000 + unat (mb_size d) + 0xFFF) div 0x1000 \<and>
     vm_view (vma_map (vm_manager (processes s' (dst_process c)))) =
       mapped_view lo (unat (request_pages d src)) host (vm_view (vma_map (vm_manager (processes s (dst_process c))))) \<and>
     memory s' = ReadIntoHost (sys c) m1 (src_process c) src (host + 0x1000 + ucast (src - AlignDown src 0x1000)) (unat (mb_size d)) \<and>
     map target_address (mapped_buffer_context s') =
       map target_address (mapped_buffer_context s) @ [lo + 0x1000 + (src - AlignDown src 0x1000)]"
proof -
  have n: "unat (request_pages d src) = (unat src mod 0x1000 + unat (mb_size d) + 0xFFF) div 0x1000"
    unfolding request_pages_def using unat_num_pages [OF mb_size_bound, of src d] by (simp only: page_count_def)
  have i: "vm_inv B (vm_manager (processes s (dst_process c)))" "\<not> vm_locked (vm_manager (processes s (dst_process c)))"
    using vm_reach_inv [OF assms(1,2)] by simp_all
  show ?thesis
  proof (rule translate_mapped_request [OF assms(1,3-6) i HOL.refl assms(7)], goal_cases)
    case (1 vm')
    then show ?case using n by (intro exI conjI) (assumption | simp)+
  qed
qed

theorem mapped_buffer_request_effect_witness:
  "\<exists>s'. translate_mapped (flat_call False) 0x101C 0 [Some 0x5800] flat_state = Some ([Some 0x4001800], s') \<and>
     unat (request_pages 0x101C 0x5800) = 1"
proof -
  have b: "backings_ok {BufferMem 0x7F0000000000 0x3000}" by (simp add: backings_ok_def BufferMem_def)
  have v: "vm_reach {BufferMem 0x7F0000000000 0x3000} (vm_manager (processes flat_state (dst_process (flat_call False))))"
    using ipc_okD(2) [OF flat_ok, of 2] by (auto elim: vm_reach_mono)
  have sz: "mb_size 0x101C \<noteq> 0" "unat (mb_size 0x101C) = 0x101" by code_simp+
  have al: "AlignDown 0x5800 0x1000 = 0x5000" by code_simp
  have rd: "rd [Some 0x5800] 0 = Some 0x5800" by (simp add: rd_def)
  show ?thesis
    using mapped_buffer_request_effect [OF b v _ _ rd sz(1) flat_request] flat_layout by (auto simp: al sz)
qed




text \<open>a single handle sent with a move descriptor arrives as a new handle for the same object, and
  the sender no longer has it.\<close>
theorem single_move_closes_source:
  assumes "src_process c \<noteq> dst_process c" "ht_reach (handle_table (processes s (dst_process c)))"
    and "0 < free_slots (handle_table (processes s (dst_process c)))"
    and "rd buf i = Some h" "GetGeneric None None (handle_table (processes s (src_process c))) h = Some ob" "h \<noteq> 0"
    and "i + 1 \<le> command_size"
  shows "\<exists>w s'. translate_descriptor c command_size (MoveHandleDesc 1) i buf s = Some (Inr (i + 1, buf[i := Some w], s')) \<and>
     arrived (handle_table (processes s (dst_process c))) (handle_table (processes s' (dst_process c))) (Some ob) (Some w) \<and>
     keeps (handle_table (processes s (dst_process c))) (handle_table (processes s' (dst_process c))) \<and>
     \<not> IsValid (handle_table (processes s' (src_process c))) h"
proof -
  have d: "MoveHandleDesc 1 = DT_MoveHandle" "GetDescriptorType DT_MoveHandle = DT_MoveHandle" "unat (HandleNumberFromDesc DT_MoveHandle) = 1"
    by code_simp+
  obtain w s' where t: "translate_handles c DT_MoveHandle 1 i buf s = Some (buf[i := Some w], s')"
     "arrived (handle_table (processes s (dst_process c))) (handle_table (processes s' (dst_process c))) (Some ob) (Some w)"
     "keeps (handle_table (processes s (dst_process c))) (handle_table (processes s' (dst_process c)))"
     "handle_table (processes s' (src_process c)) = snd (Close (handle_table (processes s (src_process c))) h)"
    using translate_one_move [OF assms(1) ht_reach_inv [OF assms(2)] assms(3-6)] by blast
  have "translate_descriptor c command_size (MoveHandleDesc 1) i buf s = Some (Inr (i + 1, buf[i := Some w], s'))"
    using assms(7) t(1) by (simp add: translate_descriptor_def d Let_def del: translate_handles.simps)
  moreover have "\<not> IsValid (handle_table (processes s' (src_process c))) h" by (simp add: t(4) IsValid_Close)
  ultimately show ?thesis using t(2,3) by blast
qed

theorem single_move_closes_source_witness:
  "\<exists>s h w s'. translate_descriptor (flat_call False) 1 (MoveHandleDesc 1) 0 [Some h] s = Some (Inr (1, [Some w], s')) \<and>
     GetGeneric None None (handle_table (processes s 1)) h = Some 9 \<and> \<not> IsValid (handle_table (processes s' 1)) h"
proof -
  let ?t = "mk_HandleTable blank_table"
  have f: "0 < free_slots ?t" by (simp add: flat_free_slots)
  obtain h u where h: "Create ?t (Some 9) = Some (Inr h, u)" "arrived ?t u (Some 9) (Some h)"
    by (rule free_slots_create [OF mk_HandleTable_inv f])
  then have g: "GetGeneric None None u h = Some 9" "h \<noteq> 0" by (simp_all add: arrived_def)
  let ?s = "upd_table 1 u flat_state"
  have "\<exists>w s'. translate_descriptor (flat_call False) 1 (MoveHandleDesc 1) 0 [Some h] ?s = Some (Inr (0 + 1, [Some h][0 := Some w], s')) \<and>
     arrived (handle_table (processes ?s (dst_process (flat_call False)))) (handle_table (processes s' (dst_process (flat_call False)))) (Some 9) (Some w) \<and>
     keeps (handle_table (processes ?s (dst_process (flat_call False)))) (handle_table (processes s' (dst_process (flat_call False)))) \<and>
     \<not> IsValid (handle_table (processes s' (src_process (flat_call False)))) h"
    by (rule single_move_closes_source) (use g f in \<open>simp_all add: ht_reach.start rd_def\<close>)
  then obtain w s' where "translate_descriptor (flat_call False) 1 (MoveHandleDesc 1) 0 [Some h] ?s = Some (Inr (1, [Some w], s'))"
    "\<not> IsValid (handle_table (processes s' 1)) h" by auto
  with g(1) show ?thesis by (intro exI [of _ ?s] exI [of _ h] exI [of _ w] exI [of _ s']) simp
qed

text \<open>a move descriptor for several handles does not move them: the translation compares the whole
  descriptor with the constant for one moved handle, so with more than one the receiver gets new
  handles but every handle of the sender stays valid.\<close>
theorem several_moves_keep_source:
  assumes "src_process c \<noteq> dst_process c" "ht_reach (handle_table (processes s (dst_process c)))"
    and "1 < num" "num \<le> 64" "i + unat num \<le> command_size" "command_size \<le> length buf" "\<forall>k < unat num. buf ! (i + k) \<noteq> None"
    and "unat num \<le> free_slots (handle_table (processes s (dst_process c)))"
  shows "\<exists>buf' s'. GetDescriptorType (MoveHandleDesc num) = DT_MoveHandle \<and>
      translate_descriptor c command_size (MoveHandleDesc num) i buf s = Some (Inr (i + unat num, buf', s')) \<and>
      handle_table (processes s' (src_process c)) = handle_table (processes s (src_process c))"
proof -
  have d: "MoveHandleDesc num \<noteq> DT_MoveHandle" by (rule MoveHandleDesc_single [OF assms(3,4)])
  have n: "HandleNumberFromDesc (MoveHandleDesc num) = num" using assms(3,4) by (intro HandleNumber_Move) simp_all
  have len: "i + unat num \<le> length buf" using assms(5,6) by simp
  obtain buf' s' where t: "translate_handles c (MoveHandleDesc num) (unat num) i buf s = Some (buf', s')" "only_table_of (dst_process c) s s'"
    using translate_handles_copy [OF d assms(1) ht_reach_inv [OF assms(2)] assms(8) len] assms(7) by blast
  then show ?thesis
    using assms(5) only_table_src [OF t(2) assms(1)]
    by (intro exI [of _ buf'] exI [of _ s']) (simp add: translate_descriptor_def handle_desc_type n Let_def)
qed

theorem several_moves_keep_source_witness:
  "\<exists>buf' s'. translate_descriptor (flat_call False) 2 (MoveHandleDesc 2) 0 [Some CurrentThread, Some CurrentProcess] flat_state =
     Some (Inr (2, buf', s')) \<and> handle_table (processes s' 1) = mk_HandleTable blank_table"
proof -
  have "\<exists>buf' s'. GetDescriptorType (MoveHandleDesc 2) = DT_MoveHandle \<and>
      translate_descriptor (flat_call False) 2 (MoveHandleDesc 2) 0 [Some CurrentThread, Some CurrentProcess] flat_state =
        Some (Inr (0 + unat (2 :: u32), buf', s')) \<and>
      handle_table (processes s' (src_process (flat_call False))) = handle_table (processes flat_state (src_process (flat_call False)))"
    by (rule several_moves_keep_source) (auto simp: ht_reach.start flat_free_slots less_2_cases_iff)
  moreover have "0 + unat (2 :: u32) = 2" by simp
  ultimately show ?thesis by (simp only: flat_simps if_False) blast
qed

text \<open>C30: a static-buffer or mapped-buffer descriptor in the last word of a command makes the
  translation read a word of its local buffer that was never set or lies past its end, and a
  process-id descriptor in the last word of a full command writes past the end: nothing checks
  that the descriptor's operand belongs to the command.\<close>
theorem truncated_descriptor_overruns:
  assumes "length buf = COMMAND_BUFFER_LENGTH" "n \<le> COMMAND_BUFFER_LENGTH" "0 < n" "rd buf (n - 1) = Some d"
    and "\<forall>k. n \<le> k \<and> k < COMMAND_BUFFER_LENGTH \<longrightarrow> buf ! k = None"
    and "GetDescriptorType d \<in> {DT_StaticBuffer, DT_MappedBuffer} \<or> (GetDescriptorType d = DT_CallingPid \<and> n = COMMAND_BUFFER_LENGTH)"
  shows "translate_loop c n (n - 1) buf s = None"
  by (rule run_off_end [OF assms(1-4) _ assms(6)]) (use assms(5) in simp)

theorem truncated_descriptor_overruns_witness:
  "translate_loop (flat_call False) 64 63 (replicate 64 (Some CallingPidDesc)) flat_state = None"
  using truncated_descriptor_overruns [of "replicate 64 (Some CallingPidDesc)" 64 CallingPidDesc "flat_call False" flat_state]
  by (simp add: COMMAND_BUFFER_LENGTH_def rd_def handle_desc_type)

lemma take_ucast_u16: "take_bit 16 (ucast (w :: u16) :: u32) = ucast w"
  by (rule bit_word_eqI) (auto simp: bit_simps dest: bit_imp_le_length)

text \<open>what the descriptor constructors pack, the readers of the translation recover: sizes up to the
  width of their field, buffer ids, permissions, handle counts from 1 to 64, the three header fields,
  and the kind of each descriptor.\<close>
theorem descriptors_read_back:
  "command_id (MakeHeader cmd normal translate) = ucast cmd \<and>
   normal_params_size (MakeHeader cmd normal translate) = take_bit 6 normal \<and>
   translate_params_size (MakeHeader cmd normal translate) = take_bit 6 translate \<and>
   sb_size (StaticBufferDesc sz b) = take_bit 18 sz \<and> sb_buffer_id (StaticBufferDesc sz b) = take_bit 4 (ucast b) \<and>
   mb_size (MappedBufferDesc sz perms) = take_bit 28 sz \<and> mb_perms (MappedBufferDesc sz perms) = take_bit 2 perms \<and>
   HandleNumberFromDesc (CopyHandleDesc n) = take_bit 6 (n - 1) + 1 \<and> HandleNumberFromDesc (MoveHandleDesc n) = take_bit 6 (n - 1) + 1 \<and>
   GetDescriptorType (StaticBufferDesc sz b) = DT_StaticBuffer \<and> GetDescriptorType (MappedBufferDesc sz perms) = DT_MappedBuffer \<and>
   GetDescriptorType (CopyHandleDesc n) = DT_CopyHandle \<and> GetDescriptorType (MoveHandleDesc n) = DT_MoveHandle \<and>
   GetDescriptorType CallingPidDesc = DT_CallingPid"
  by (intro conjI buffer_desc_type handle_desc_type)
    (simp_all add: command_id_def normal_params_size_def translate_params_size_def MakeHeader_def sb_size_def sb_buffer_id_def
      StaticBufferDesc_def mb_size_def mb_perms_def MappedBufferDesc_def bf_Value_Assign_same bf_Value_Assign_other
      HandleNumberFromDesc_def CopyHandleDesc_def MoveHandleDesc_def DT_CopyHandle_def DT_MoveHandle_def drop_bit_or drop_push_u32 take_ucast_u16)

end
