(* ===== verification/Process_Memory.thy ===== *)
theory Process_Memory
  imports Memory_Region VM_Manager Resource_Limit
begin

text \<open>
  The memory of a process: \<^verbatim>\<open>src/core/hle/kernel/process.cpp\<close> on top of the physical regions, the
  address space and the resource limit.

  Processes, regions and limits live in one store, because regions and limits are shared.  The
  memory system is not part of the sources: the references it gives into FCRAM, the offset it finds
  for a host pointer and the layout constants are the fields of \<open>MemEnv\<close>; its effects on host
  memory are recorded in order.  A set of held memory is the same ordered set of intervals the
  regions use, \<open>+=\<close> being \<open>InsertMerge\<close> and \<open>-=\<close> being \<open>SubtractInterval\<close>.
\<close>

subsection \<open>State\<close>

datatype MemoryRegion = MR_APPLICATION | MR_SYSTEM | MR_BASE

record AddressMapping =
  am_address :: VAddr
  am_size :: u32
  am_read_only :: bool
  am_unk_flag :: bool

record Process =
  vm_manager :: VMManager
  memory_used :: u32
  memory_region :: "MemoryRegion option"
  holding_memory :: IntervalSet
  holding_tls_memory :: IntervalSet
  tls_slots :: "bool list list"
  resource_limit :: "nat option"
  svc_access_mask :: "bool list"
  handle_table_size :: u32
  address_mappings :: "AddressMapping list"
  proc_flags :: u16
  kernel_version :: u16

datatype HostCall = FillFCRAM u32 u32 | FillHost u64 u32 | ZeroBlock nat VAddr u32

record MemKernel =
  procs :: "nat \<Rightarrow> Process"
  regions :: "MemoryRegion \<Rightarrow> MemoryRegionInfo"
  limits :: "nat \<Rightarrow> ResourceLimit"
  host_calls :: "HostCall list"

record MemEnv =
  env_PAGE_SIZE :: u32
  env_PAGE_MASK :: u32
  LINEAR_HEAP_VADDR :: u32
  NEW_LINEAR_HEAP_VADDR :: u32
  TLS_AREA_VADDR :: u32
  TLS_ENTRY_SIZE :: u32
  GetFCRAMRef :: "u32 \<Rightarrow> MemoryRef"
  GetFCRAMOffset :: "u64 \<Rightarrow> u32"

definition HEAP_VADDR :: u32 where "HEAP_VADDR = 0x08000000"
definition HEAP_VADDR_END :: u32 where "HEAP_VADDR_END = HEAP_VADDR + 0x08000000"
definition SHARED_MEMORY_VADDR_END :: u32 where "SHARED_MEMORY_VADDR_END = 0x10000000 + 0x04000000"

definition upd_proc :: "nat \<Rightarrow> (Process \<Rightarrow> Process) \<Rightarrow> MemKernel \<Rightarrow> MemKernel" where
  "upd_proc p f k = k\<lparr>procs := (procs k)(p := f (procs k p))\<rparr>"

definition upd_region :: "MemoryRegion \<Rightarrow> MemoryRegionInfo \<Rightarrow> MemKernel \<Rightarrow> MemKernel" where
  "upd_region r i k = k\<lparr>regions := (regions k)(r := i)\<rparr>"

definition upd_limit :: "nat \<Rightarrow> ResourceLimit \<Rightarrow> MemKernel \<Rightarrow> MemKernel" where
  "upd_limit l rl k = k\<lparr>limits := (limits k)(l := rl)\<rparr>"

definition host_call :: "HostCall list \<Rightarrow> MemKernel \<Rightarrow> MemKernel" where
  "host_call cs k = k\<lparr>host_calls := host_calls k @ cs\<rparr>"

definition insert_all :: "IntervalSet \<Rightarrow> IntervalSet \<Rightarrow> IntervalSet" where
  "insert_all hold blocks = fold (\<lambda>i s. InsertMerge s i) blocks hold"

subsection \<open>Capabilities\<close>

definition append_address_mapping :: "AddressMapping \<Rightarrow> Process \<Rightarrow> Process" where
  "append_address_mapping mapping pr =
     (if length (address_mappings pr) \<ge> 8 then pr else pr\<lparr>address_mappings := address_mappings pr @ [mapping]\<rparr>)"

function set_syscalls :: "nat \<Rightarrow> u32 \<Rightarrow> bool list \<Rightarrow> bool list" where
  "set_syscalls index bits mask' =
     (if bits \<noteq> 0 \<and> index < length mask' then set_syscalls (index + 1) (drop_bit 1 bits) (mask'[index := bit bits 0]) else mask')"
  by pat_completeness auto
termination
  by (relation "measure (\<lambda>(index, bits, m). length m - index)") auto

declare set_syscalls.simps [simp del]

fun ParseKernelCaps :: "MemEnv \<Rightarrow> u32 list \<Rightarrow> Process \<Rightarrow> Process" where
  "ParseKernelCaps env [] pr = pr"
| "ParseKernelCaps env (descriptor # rest) pr =
     (let type = drop_bit 20 descriptor in
      if descriptor = 0xFFFFFFFF then ParseKernelCaps env rest pr
      else if type AND 0xF00 = 0xE00 then ParseKernelCaps env rest pr
      else if type AND 0xF80 = 0xF00
      then ParseKernelCaps env rest (pr\<lparr>svc_access_mask :=
             set_syscalls (unat ((drop_bit 24 descriptor AND 7) * 24)) (descriptor AND 0xFFFFFF) (svc_access_mask pr)\<rparr>)
      else if type AND 0xFF0 = 0xFE0 then ParseKernelCaps env rest (pr\<lparr>handle_table_size := descriptor AND 0x3FF\<rparr>)
      else if type AND 0xFF8 = 0xFF0 then ParseKernelCaps env rest (pr\<lparr>proc_flags := ucast (descriptor AND 0xFFFF)\<rparr>)
      else if type AND 0xFFE = 0xFF8
      then (case rest of
              [] \<Rightarrow> ParseKernelCaps env rest pr
            | end_desc # rest' \<Rightarrow>
                if drop_bit 20 end_desc AND 0xFFE \<noteq> 0xFF8 then ParseKernelCaps env rest pr
                else let address = push_bit 12 descriptor; end_address = push_bit 12 end_desc in
                  ParseKernelCaps env rest' (append_address_mapping
                    \<lparr>am_address = address, am_size = (if address < end_address then end_address - address else 0),
                     am_read_only = bit descriptor 20, am_unk_flag = bit end_desc 20\<rparr> pr))
      else if type AND 0xFFF = 0xFFE
      then ParseKernelCaps env rest (append_address_mapping
             \<lparr>am_address = push_bit 12 descriptor, am_size = env_PAGE_SIZE env, am_read_only = False, am_unk_flag = False\<rparr> pr)
      else if type AND 0xFE0 = 0xFC0 then ParseKernelCaps env rest (pr\<lparr>kernel_version := ucast (descriptor AND 0xFFFF)\<rparr>)
      else ParseKernelCaps env rest pr)"

definition Set3dsxKernelCaps :: "Process \<Rightarrow> Process" where
  "Set3dsxKernelCaps pr = pr\<lparr>svc_access_mask := replicate (length (svc_access_mask pr)) True,
     address_mappings := [\<lparr>am_address = 0x1FF50000, am_size = 0x8000, am_read_only = True, am_unk_flag = False\<rparr>,
       \<lparr>am_address = 0x1FF70000, am_size = 0x8000, am_read_only = True, am_unk_flag = False\<rparr>,
       \<lparr>am_address = 0x1F000000, am_size = 0x600000, am_read_only = False, am_unk_flag = False\<rparr>],
     kernel_version := 0x23a\<rparr>"

subsection \<open>Heap\<close>

definition GetLinearHeapAreaAddress :: "MemEnv \<Rightarrow> Process \<Rightarrow> VAddr" where
  "GetLinearHeapAreaAddress env pr = (if kernel_version pr < 0x22C then LINEAR_HEAP_VADDR env else NEW_LINEAR_HEAP_VADDR env)"

definition GetLinearHeapBase :: "MemEnv \<Rightarrow> MemKernel \<Rightarrow> Process \<Rightarrow> VAddr option" where
  "GetLinearHeapBase env k pr = do { r \<leftarrow> memory_region pr; Some (GetLinearHeapAreaAddress env pr + region_base (regions k r)) }"

definition GetLinearHeapLimit :: "MemEnv \<Rightarrow> MemKernel \<Rightarrow> Process \<Rightarrow> VAddr option" where
  "GetLinearHeapLimit env k pr = do {
     base \<leftarrow> GetLinearHeapBase env k pr;
     r \<leftarrow> memory_region pr;
     Some (base + region_size (regions k r))
   }"

definition outside :: "VAddr \<Rightarrow> VAddr \<Rightarrow> VAddr \<Rightarrow> u32 \<Rightarrow> bool" where
  "outside lo hi target sz \<longleftrightarrow> target < lo \<or> target + sz > hi \<or> target + sz < target"

text \<open>The check before mapping: the area at the target must be free up to the end of the range.\<close>

definition already_allocated :: "vmas \<Rightarrow> VAddr \<Rightarrow> u32 \<Rightarrow> bool option" where
  "already_allocated m target sz = do {
     it \<leftarrow> FindVMA m target;
     (case snd it of
        [] \<Rightarrow> None
      | vma # _ \<Rightarrow> Some (vma_type vma \<noteq> VMAType_Free \<or> vma_base vma + vma_size vma < target + sz))
   }"

text \<open>The loop that maps blocks one after the other and protects each; \<open>HeapAllocate\<close>, \<open>Map\<close> and
  \<open>SharedMemory::Map\<close> share it.\<close>

fun map_blocks ::
  "u32 \<Rightarrow> VMAPermission \<Rightarrow> MemoryState \<Rightarrow> (MemoryRef \<times> u32) list \<Rightarrow> VAddr \<Rightarrow> VMManager \<Rightarrow> VMManager option" where
  "map_blocks pm perms st [] target vm = Some vm"
| "map_blocks pm perms st ((mem, n) # bs) target vm = do {
     (r, vm1) \<leftarrow> MapBackingMemory pm vm target mem n st;
     (case r of
        Inl e \<Rightarrow> None
      | Inr it \<Rightarrow> do {
          (_, vm2) \<leftarrow> Reprotect vm1 it perms;
          map_blocks pm perms st bs (target + n) vm2
        })
   }"

definition fcram_blocks :: "MemEnv \<Rightarrow> IntervalSet \<Rightarrow> (MemoryRef \<times> u32) list" where
  "fcram_blocks env ivs = map (\<lambda>i. (GetFCRAMRef env (lower i), IntervalSize i)) ivs"

definition Process_HeapAllocate ::
  "MemEnv \<Rightarrow> nat \<Rightarrow> VAddr \<Rightarrow> u32 \<Rightarrow> VMAPermission \<Rightarrow> MemoryState \<Rightarrow> bool \<Rightarrow> MemKernel \<Rightarrow> (VAddr ResultVal \<times> MemKernel) option" where
  "Process_HeapAllocate env p target sz perms st skip_range_check k =
     (let pr = procs k p in
      if outside HEAP_VADDR HEAP_VADDR_END target sz \<and> \<not> skip_range_check then Some (Inl ResultInvalidAddress, k)
      else do {
        busy \<leftarrow> already_allocated (vma_map (vm_manager pr)) target sz;
        if busy then Some (Inl ResultInvalidAddressState, k)
        else do {
          r \<leftarrow> memory_region pr;
          (allocated_fcram, reg) \<leftarrow> HeapAllocate (regions k r) sz;
          if allocated_fcram = [] then Some (Inl ResultOutOfHeapMemory, upd_region r reg k)
          else do {
            vm \<leftarrow> map_blocks (env_PAGE_MASK env) perms st (fcram_blocks env allocated_fcram) target (vm_manager pr);
            l \<leftarrow> resource_limit pr;
            (_, lim) \<leftarrow> Reserve (limits k l) RLT_Commit (sint sz);
            Some (Inr target,
              upd_limit l lim (upd_region r reg (host_call (map (\<lambda>i. FillFCRAM (lower i) (upper i)) allocated_fcram)
                (upd_proc p (\<lambda>pr. pr\<lparr>vm_manager := vm, holding_memory := insert_all (holding_memory pr) allocated_fcram,
                   memory_used := memory_used pr + sz\<rparr>) k))))
          }
        }
      })"

fun release_blocks ::
  "MemEnv \<Rightarrow> (MemoryRef \<times> u32) list \<Rightarrow> MemoryRegionInfo \<Rightarrow> IntervalSet \<Rightarrow> (MemoryRegionInfo \<times> IntervalSet) option" where
  "release_blocks env [] reg hold = Some (reg, hold)"
| "release_blocks env ((mem, n) # bs) reg hold = do {
     let backing_offset = GetFCRAMOffset env (cptr mem);
     reg1 \<leftarrow> Free reg backing_offset n;
     release_blocks env bs reg1 (SubtractInterval hold (Interval backing_offset (backing_offset + n)))
   }"

definition Process_HeapFree :: "MemEnv \<Rightarrow> nat \<Rightarrow> VAddr \<Rightarrow> u32 \<Rightarrow> MemKernel \<Rightarrow> (Result \<times> MemKernel) option" where
  "Process_HeapFree env p target sz k =
     (let pr = procs k p in
      if outside HEAP_VADDR HEAP_VADDR_END target sz then Some (ResultInvalidAddress, k)
      else if sz = 0 then Some (ResultSuccess, k)
      else do {
        blocks \<leftarrow> GetBackingBlocksForRange (vm_manager pr) target sz;
        (case blocks of
           Inl e \<Rightarrow> Some (e, k)
         | Inr bs \<Rightarrow> do {
             r \<leftarrow> memory_region pr;
             (reg, hold) \<leftarrow> release_blocks env bs (regions k r) (holding_memory pr);
             (res, vm) \<leftarrow> UnmapRange (env_PAGE_MASK env) (vm_manager pr) target sz;
             _ \<leftarrow> ASSERT (IsSuccess res);
             l \<leftarrow> resource_limit pr;
             (_, lim) \<leftarrow> Release (limits k l) RLT_Commit (sint sz);
             Some (ResultSuccess, upd_limit l lim (upd_region r reg
               (upd_proc p (\<lambda>pr. pr\<lparr>vm_manager := vm, holding_memory := hold, memory_used := memory_used pr - sz\<rparr>) k)))
           })
      })"

subsection \<open>Linear heap\<close>

definition linear_offset :: "MemEnv \<Rightarrow> nat \<Rightarrow> VAddr \<Rightarrow> u32 \<Rightarrow> MemKernel \<Rightarrow> ((Result + u32 \<times> VAddr) \<times> MemKernel) option" where
  "linear_offset env p target sz k =
     (let pr = procs k p; area = GetLinearHeapAreaAddress env pr in do {
        r \<leftarrow> memory_region pr;
        if target = 0
        then do {
          (offset, reg) \<leftarrow> LinearAllocate (regions k r) sz;
          (case offset of
             None \<Rightarrow> Some (Inl ResultOutOfHeapMemory, upd_region r reg k)
           | Some physical_offset \<Rightarrow> Some (Inr (physical_offset, physical_offset + area), upd_region r reg k))
        }
        else do {
          base \<leftarrow> GetLinearHeapBase env k pr;
          limit \<leftarrow> GetLinearHeapLimit env k pr;
          if outside base limit target sz then Some (Inl ResultInvalidAddress, k)
          else do {
            (ok, reg) \<leftarrow> LinearAllocateAt (regions k r) (target - area) sz;
            if \<not> ok then Some (Inl ResultInvalidAddressState, upd_region r reg k)
            else Some (Inr (target - area, target), upd_region r reg k)
          }
        }
      })"

definition Process_LinearAllocate ::
  "MemEnv \<Rightarrow> nat \<Rightarrow> VAddr \<Rightarrow> u32 \<Rightarrow> VMAPermission \<Rightarrow> MemKernel \<Rightarrow> (VAddr ResultVal \<times> MemKernel) option" where
  "Process_LinearAllocate env p target sz perms k = do {
     (place, k1) \<leftarrow> linear_offset env p target sz k;
     (case place of
        Inl e \<Rightarrow> Some (Inl e, k1)
      | Inr (physical_offset, target1) \<Rightarrow> do {
          let pr = procs k1 p;
          let backing_memory = GetFCRAMRef env physical_offset;
          vm \<leftarrow> map_blocks (env_PAGE_MASK env) perms MS_Continuous [(backing_memory, sz)] target1 (vm_manager pr);
          l \<leftarrow> resource_limit pr;
          (_, lim) \<leftarrow> Reserve (limits k1 l) RLT_Commit (sint sz);
          Some (Inr target1, upd_limit l lim (host_call [FillHost (cptr backing_memory) sz]
            (upd_proc p (\<lambda>pr. pr\<lparr>vm_manager := vm,
               holding_memory := InsertMerge (holding_memory pr) (Interval physical_offset (physical_offset + sz)),
               memory_used := memory_used pr + sz\<rparr>) k1)))
        })
   }"

definition Process_LinearFree :: "MemEnv \<Rightarrow> nat \<Rightarrow> VAddr \<Rightarrow> u32 \<Rightarrow> MemKernel \<Rightarrow> (Result \<times> MemKernel) option" where
  "Process_LinearFree env p target sz k =
     (let pr = procs k p in do {
        base \<leftarrow> GetLinearHeapBase env k pr;
        limit \<leftarrow> GetLinearHeapLimit env k pr;
        if outside base limit target sz then Some (ResultInvalidAddress, k)
        else if sz = 0 then Some (ResultSuccess, k)
        else do {
          (res, vm) \<leftarrow> UnmapRange (env_PAGE_MASK env) (vm_manager pr) target sz;
          if IsError res then Some (res, upd_proc p (\<lambda>pr. pr\<lparr>vm_manager := vm\<rparr>) k)
          else do {
            let physical_offset = target - GetLinearHeapAreaAddress env pr;
            r \<leftarrow> memory_region pr;
            reg \<leftarrow> Free (regions k r) physical_offset sz;
            l \<leftarrow> resource_limit pr;
            (_, lim) \<leftarrow> Release (limits k l) RLT_Commit (sint sz);
            Some (ResultSuccess, upd_limit l lim (upd_region r reg
              (upd_proc p (\<lambda>pr. pr\<lparr>vm_manager := vm,
                 holding_memory := SubtractInterval (holding_memory pr) (Interval physical_offset (physical_offset + sz)),
                 memory_used := memory_used pr - sz\<rparr>) k)))
          }
        }
      })"

subsection \<open>Thread local storage\<close>

fun find_tls :: "nat \<Rightarrow> bool list list \<Rightarrow> (nat \<times> nat) option" where
  "find_tls tls_page [] = None"
| "find_tls tls_page (slots # rest) =
     (if \<not> list_all id slots then Some (tls_page, length (takeWhile id slots)) else find_tls (tls_page + 1) rest)"

definition mark_tls :: "nat \<Rightarrow> nat \<Rightarrow> bool list list \<Rightarrow> bool list list" where
  "mark_tls tls_page tls_slot slots = slots[tls_page := (slots ! tls_page)[tls_slot := True]]"

definition tls_address :: "MemEnv \<Rightarrow> nat \<Rightarrow> nat \<Rightarrow> VAddr" where
  "tls_address env tls_page tls_slot = TLS_AREA_VADDR env + of_nat tls_page * env_PAGE_SIZE env + of_nat tls_slot * TLS_ENTRY_SIZE env"

definition new_tls_page :: "MemEnv \<Rightarrow> nat \<Rightarrow> MemKernel \<Rightarrow> (Result + MemKernel) option" where
  "new_tls_page env p k = do {
     let pr = procs k p;
     let tls_page = length (tls_slots pr);
     (offset, reg) \<leftarrow> LinearAllocate (regions k MR_BASE) (env_PAGE_SIZE env);
     (case offset of
        None \<Rightarrow> Some (Inl ResultOutOfMemory)
      | Some off \<Rightarrow> do {
          (_, vm) \<leftarrow> MapBackingMemory (env_PAGE_MASK env) (vm_manager pr) (TLS_AREA_VADDR env + of_nat tls_page * env_PAGE_SIZE env)
            (GetFCRAMRef env off) (env_PAGE_SIZE env) MS_Locked;
          Some (Inr (upd_region MR_BASE reg (upd_proc p (\<lambda>pr. pr\<lparr>vm_manager := vm,
            holding_tls_memory := InsertMerge (holding_tls_memory pr) (Interval off (off + env_PAGE_SIZE env)),
            memory_used := memory_used pr + env_PAGE_SIZE env,
            tls_slots := tls_slots pr @ [replicate 8 False]\<rparr>) k)))
        })
   }"

definition AllocateThreadLocalStorage :: "MemEnv \<Rightarrow> nat \<Rightarrow> MemKernel \<Rightarrow> (VAddr ResultVal \<times> MemKernel) option" where
  "AllocateThreadLocalStorage env p k = do {
     let pr = procs k p;
     let found = find_tls 0 (tls_slots pr);
     let (tls_page, tls_slot) = (case found of Some x \<Rightarrow> x | None \<Rightarrow> (length (tls_slots pr), 0));
     r \<leftarrow> (if found = None then new_tls_page env p k else Some (Inr k));
     (case r of
        Inl e \<Rightarrow> Some (Inl e, k)
      | Inr k1 \<Rightarrow>
          let addr = tls_address env tls_page tls_slot in
          Some (Inr addr, host_call [ZeroBlock p addr (TLS_ENTRY_SIZE env)]
            (upd_proc p (\<lambda>pr. pr\<lparr>tls_slots := mark_tls tls_page tls_slot (tls_slots pr)\<rparr>) k1)))
   }"

subsection \<open>Aliases\<close>

definition overlapping :: "VAddr \<Rightarrow> VAddr \<Rightarrow> u32 \<Rightarrow> bool" where
  "overlapping target source sz \<longleftrightarrow> source - target < sz \<or> target - source < sz"

definition set_vm :: "nat \<Rightarrow> VMManager \<Rightarrow> MemKernel \<Rightarrow> MemKernel" where
  "set_vm p vm k = upd_proc p (\<lambda>pr. pr\<lparr>vm_manager := vm\<rparr>) k"

definition Process_Map ::
  "MemEnv \<Rightarrow> nat \<Rightarrow> VAddr \<Rightarrow> VAddr \<Rightarrow> u32 \<Rightarrow> VMAPermission \<Rightarrow> bool \<Rightarrow> MemKernel \<Rightarrow> (Result \<times> MemKernel) option" where
  "Process_Map env p target source sz perms privileged k =
     (let vm = vm_manager (procs k p); pm = env_PAGE_MASK env in
      if \<not> privileged \<and> outside HEAP_VADDR HEAP_VADDR_END source sz then Some (ResultInvalidAddress, k)
      else if overlapping target source sz
      then if privileged
           then if source = target
                then do {
                  (r, vm1) \<leftarrow> ChangeMemoryState pm vm source sz MS_Private VMAPermission_ReadWrite MS_AliasCode perms;
                  Some (r, set_vm p vm1 k)
                }
                else Some (ResultInvalidAddress, k)
           else Some (ResultInvalidAddressState, k)
      else do {
        busy \<leftarrow> already_allocated (vma_map vm) target sz;
        if busy then Some (ResultInvalidAddressState, k)
        else do {
          let source_state = (if privileged then MS_Locked else MS_Aliased);
          let target_state = (if privileged then MS_AliasCode else MS_Alias);
          let source_perm = (if privileged then VMAPermission_None else VMAPermission_ReadWrite);
          (r, vm1) \<leftarrow> ChangeMemoryState pm vm source sz MS_Private VMAPermission_ReadWrite source_state source_perm;
          if IsError r then Some (r, set_vm p vm1 k)
          else do {
            blocks \<leftarrow> GetBackingBlocksForRange vm1 source sz;
            (case blocks of
               Inl e \<Rightarrow> Some (e, set_vm p vm1 k)
             | Inr bs \<Rightarrow> do {
                 vm2 \<leftarrow> map_blocks pm perms target_state bs target vm1;
                 Some (ResultSuccess, set_vm p vm2 k)
               })
          }
        }
      })"

definition Process_Unmap ::
  "MemEnv \<Rightarrow> nat \<Rightarrow> VAddr \<Rightarrow> VAddr \<Rightarrow> u32 \<Rightarrow> VMAPermission \<Rightarrow> bool \<Rightarrow> MemKernel \<Rightarrow> (Result \<times> MemKernel) option" where
  "Process_Unmap env p target source sz perms privileged k =
     (let vm = vm_manager (procs k p); pm = env_PAGE_MASK env in
      if \<not> privileged \<and> outside HEAP_VADDR HEAP_VADDR_END source sz then Some (ResultInvalidAddress, k)
      else if overlapping target source sz
      then if privileged
           then if source = target
                then do {
                  (r, vm1) \<leftarrow> ChangeMemoryState pm vm source sz MS_AliasCode VMAPermission_None MS_Private perms;
                  Some (r, set_vm p vm1 k)
                }
                else Some (ResultInvalidAddress, k)
           else Some (ResultInvalidAddressState, k)
      else do {
        let source_state = (if privileged then MS_Locked else MS_Aliased);
        (r, vm1) \<leftarrow> UnmapRange pm vm target sz;
        if IsError r then Some (r, set_vm p vm1 k)
        else do {
          (r2, vm2) \<leftarrow> ChangeMemoryState pm vm1 source sz source_state VMAPermission_None MS_Private perms;
          if IsError r2 then Some (r2, set_vm p vm2 k) else Some (ResultSuccess, set_vm p vm2 k)
        }
      })"

subsection \<open>Giving everything back\<close>

fun free_held :: "Interval list \<Rightarrow> MemoryRegionInfo \<Rightarrow> u32 \<Rightarrow> (MemoryRegionInfo \<times> u32) option" where
  "free_held [] reg mu = Some (reg, mu)"
| "free_held (entry # rest) reg mu = do {
     reg1 \<leftarrow> Free reg (lower entry) (IntervalSize entry);
     free_held rest reg1 (mu - IntervalSize entry)
   }"

fun release_commit :: "Interval list \<Rightarrow> ResourceLimit \<Rightarrow> ResourceLimit option" where
  "release_commit [] lim = Some lim"
| "release_commit (entry # rest) lim = do {
     (_, lim1) \<leftarrow> Release lim RLT_Commit (sint (IntervalSize entry));
     release_commit rest lim1
   }"

definition FreeAllMemory :: "nat \<Rightarrow> MemKernel \<Rightarrow> MemKernel option" where
  "FreeAllMemory p k =
     (let pr = procs k p in
      case (memory_region pr, resource_limit pr) of
        (Some r, Some l) \<Rightarrow> do {
          (reg, mu) \<leftarrow> free_held (holding_memory pr) (regions k r) (memory_used pr);
          lim \<leftarrow> release_commit (holding_memory pr) (limits k l);
          let k1 = upd_limit l lim (upd_region r reg k);
          (base, mu1) \<leftarrow> free_held (holding_tls_memory pr) (regions k1 MR_BASE) mu;
          Some (upd_region MR_BASE base (upd_proc p (\<lambda>pr. pr\<lparr>memory_used := mu1, holding_memory := [],
            holding_tls_memory := [], tls_slots := []\<rparr>) k1))
        }
      | _ \<Rightarrow> Some k)"

subsection \<open>Mapping blocks\<close>

lemma map_protect_RW:
  assumes B: "backings_ok B" and inv: "vm_inv B vm" and lk: "\<not> vm_locked vm"
    and r: "ref_to B mem n" and al: "n AND pm = 0" "target AND pm = 0" and s: "0 < n"
    and v: "v \<in> set (vma_map vm)" "covers v target" "vma_type v = VMAType_Free"
      "unat target + unat n \<le> unat (vma_base v) + unat (vma_size v)"
  obtains it vm1 it2 vm2 where "MapBackingMemory pm vm target mem n st = Some (Inr it, vm1)"
    "Reprotect vm1 it VMAPermission_ReadWrite = Some (it2, vm2)" "vm_inv B vm2" "\<not> vm_locked vm2"
    "\<And>a. vm_view (vma_map vm2) a = (if in_range target n a
       then Some (VMAType_BackingMemory, VMAPermission_ReadWrite, st, Some (cptr mem + ucast (a - target)))
       else vm_view (vma_map vm) a)"
    "unat target + unat n < unat (vma_base v) + unat (vma_size v) \<longrightarrow> (\<exists>f \<in> set (vma_map vm2). rest_of v (target + n) f)"
proof -
  obtain pre post where m: "vma_map vm = pre @ v # post" using v(1) by (auto simp: in_set_conv_decomp)
  obtain it vm1 w rest where 1: "MapBackingMemory pm vm target mem n st = Some (Inr it, vm1)" "vm_inv B vm1" "\<not> vm_locked vm1"
    "\<And>a. vm_view (vma_map vm1) a = (if in_range target n a
       then Some (VMAType_BackingMemory, VMAPermission_ReadWrite, st, Some (cptr mem + ucast (a - target)))
       else vm_view (vma_map vm) a)"
    "it = (fst it, w # rest)" "vma_map vm1 = fst it @ w # rest" "vma_type w = VMAType_BackingMemory" "permissions w = VMAPermission_ReadWrite"
    "unat target + unat n < unat (vma_base v) + unat (vma_size v) \<longrightarrow> (\<exists>f \<in> set rest. rest_of v (target + n) f)"
    by (rule MapBackingMemory_step [OF B inv lk r al s m v(2,3,4), of st]) blast
  let ?upd = "permissions_update (\<lambda>_. VMAPermission_ReadWrite)"
  have same: "?upd w = w" using 1(8) by simp
  have ok: "map_ok B (fst it @ w # rest)" and pt: "pt_view (page_calls vm1) = vm_host (fst it @ w # rest)"
    using 1(2,6) by (simp_all add: vm_inv_def)
  have wok: "vma_ok B (?upd w)" using ok same by (simp add: map_ok_def)
  show thesis
  proof (rule change_vma_spec [where upd = ?upd, OF B ok _ _ wok pt], goal_cases)
    case (3 it2 w2 rest2)
    let ?vm2 = "put_map vm1 it2 (UpdatePageTableForVMA (?upd w) (page_calls vm1))"
    have "\<And>a. covers w a \<Longrightarrow> vm_view (vma_map vm1) a = Some (attr_at w a)"
      using map_ok_covers [OF ok] 1(6) by simp
    then have view: "vm_view (vma_map ?vm2) = vm_view (vma_map vm1)"
      using 3(4) same 1(6) by (auto simp: put_map_def fun_eq_iff)
    have "f \<in> set rest2" if "f \<in> set rest" "vma_type f = VMAType_Free" for f
      using 3(6) that 1(7) same by (auto simp: mergeable_def)
    then have keep: "f \<in> set (vma_map ?vm2)" if "f \<in> set rest" "vma_type f = VMAType_Free" for f
      using that 3(5) by (simp add: put_map_def)
    have "Reprotect vm1 (fst it, w # rest) VMAPermission_ReadWrite = Some (it2, ?vm2)"
      using 3(1) 1(3) by (simp add: Reprotect_def)
    then have rp: "Reprotect vm1 it VMAPermission_ReadWrite = Some (it2, ?vm2)" by (simp only: 1(5) [symmetric])
    show ?case
    proof (rule that [OF 1(1) rp])
      show "vm_inv B ?vm2" using 3(2,3) by (simp add: vm_inv_def put_map_def iter_ok_def)
      show "\<not> vm_locked ?vm2" using 1(3) by (simp add: put_map_def)
      show "unat target + unat n < unat (vma_base v) + unat (vma_size v) \<longrightarrow> (\<exists>f \<in> set (vma_map ?vm2). rest_of v (target + n) f)"
        using 1(9) keep by (auto simp: rest_of_def)
    qed (simp add: view 1(4))
  qed simp_all
qed


definition total_size :: "(MemoryRef \<times> u32) list \<Rightarrow> nat" where
  "total_size bs = sum_list (map (\<lambda>(_, n). unat n) bs)"

lemma total_size_simps [simp]:
  "total_size [] = 0" "total_size ((mem, n) # bs) = unat n + total_size bs"
  by (simp_all add: total_size_def)

lemma length_expand: "length (expand bs) = total_size bs"
  by (induction bs) (auto simp: expand_def)

lemma expand_Cons: "expand ((mem, n) # bs) = map (\<lambda>i. cptr mem + of_nat i) [0 ..< unat n] @ expand bs"
  by (simp add: expand_def)

definition mapped_at :: "VAddr \<Rightarrow> u64 list \<Rightarrow> VMAPermission \<Rightarrow> MemoryState \<Rightarrow> (VAddr \<Rightarrow> attr option) \<Rightarrow> VAddr \<Rightarrow> attr option" where
  "mapped_at target hosts perms st old a =
     (if unat target \<le> unat a \<and> unat a < unat target + length hosts
      then Some (VMAType_BackingMemory, perms, st, Some (hosts ! (unat a - unat target))) else old a)"

lemma ucast_diff: "unat target \<le> unat a \<Longrightarrow> (ucast (a - target) :: u64) = of_nat (unat a - unat target)" for a target :: u32
  by (rule word_unat_eq_iff [THEN iffD2])
    (use unat_u32_bound [of a] in \<open>simp add: unat_ucast_u32_u64 unat_sub word_le_nat_alt unat_of_nat\<close>)

lemma map_blocks_RW:
  assumes B: "backings_ok B"
  shows "vm_inv B vm \<Longrightarrow> \<not> vm_locked vm \<Longrightarrow> target AND 0xFFF = 0 \<Longrightarrow> bs \<noteq> [] \<Longrightarrow>
    (\<And>mem n. (mem, n) \<in> set bs \<Longrightarrow> ref_to B mem n \<and> 0 < n \<and> n AND 0xFFF = 0) \<Longrightarrow>
    v \<in> set (vma_map vm) \<Longrightarrow> vma_type v = VMAType_Free \<Longrightarrow> unat (vma_base v) \<le> unat target \<Longrightarrow>
    unat target + total_size bs \<le> unat (vma_base v) + unat (vma_size v) \<Longrightarrow>
    \<exists>vm'. map_blocks 0xFFF VMAPermission_ReadWrite st bs target vm = Some vm' \<and> vm_inv B vm' \<and> \<not> vm_locked vm' \<and>
      vm_view (vma_map vm') = mapped_at target (expand bs) VMAPermission_ReadWrite st (vm_view (vma_map vm))"
proof (induction bs arbitrary: vm target v)
  case (Cons b bs)
  obtain mem n where b: "b = (mem, n)" by fastforce
  have bn: "ref_to B mem n" "0 < n" "n AND 0xFFF = 0" using Cons.prems(5) [of mem n] b by simp_all
  have un: "0 < unat n" using bn(2) by (simp add: word_less_nat_alt)
  have mok: "map_ok B (vma_map vm)" using Cons.prems(1) by (simp add: vm_inv_def)
  then have ve: "unat (vma_base v) + unat (vma_size v) \<le> 0x40000000"
    using tiles_mem [of 0 "vma_map vm" "0x40000000" v] Cons.prems(6) by (simp add: map_ok_def)
  have fit: "unat target + unat n \<le> unat (vma_base v) + unat (vma_size v)" using Cons.prems(9) b by simp
  have cov: "covers v target" using Cons.prems(8) fit un by (simp add: covers_def)
  obtain it vm1 it2 vm2 where 1: "MapBackingMemory 0xFFF vm target mem n st = Some (Inr it, vm1)"
    "Reprotect vm1 it VMAPermission_ReadWrite = Some (it2, vm2)" "vm_inv B vm2" "\<not> vm_locked vm2"
    "\<And>a. vm_view (vma_map vm2) a = (if in_range target n a
       then Some (VMAType_BackingMemory, VMAPermission_ReadWrite, st, Some (cptr mem + ucast (a - target)))
       else vm_view (vma_map vm) a)"
    "unat target + unat n < unat (vma_base v) + unat (vma_size v) \<longrightarrow> (\<exists>f \<in> set (vma_map vm2). rest_of v (target + n) f)"
    by (rule map_protect_RW [OF B Cons.prems(1,2) bn(1,3) Cons.prems(3) bn(2) Cons.prems(6) cov Cons.prems(7) fit, of st]) blast
  have step: "map_blocks 0xFFF VMAPermission_ReadWrite st (b # bs) target vm = map_blocks 0xFFF VMAPermission_ReadWrite st bs (target + n) vm2"
    using 1(1,2) by (simp add: b)
  have tn: "unat (target + n) = unat target + unat n" using fit ve by (intro unat_add_nowrap) simp
  have one: "vm_view (vma_map vm2) = mapped_at target (map (\<lambda>i. cptr mem + of_nat i) [0 ..< unat n]) VMAPermission_ReadWrite st (vm_view (vma_map vm))"
    by (auto simp: fun_eq_iff mapped_at_def 1(5) ucast_diff)
  show ?case
  proof (cases "bs = []")
    case True
    then show ?thesis using step one 1(3,4) by (simp add: b expand_Cons) (simp add: expand_def)
  next
    case False
    then obtain mem' n' bs' where bs: "bs = (mem', n') # bs'" by (cases bs) auto
    then have "0 < unat n'" using Cons.prems(5) [of mem' n'] by (simp add: word_less_nat_alt)
    then have lt: "unat target + unat n < unat (vma_base v) + unat (vma_size v)" using Cons.prems(9) b bs by simp
    then obtain f where f: "f \<in> set (vma_map vm2)" "rest_of v (target + n) f" using 1(6) by blast
    have al: "(target + n) AND 0xFFF = 0"
      using aligned_add [of target n] Cons.prems(3) bn(3) by (simp add: aligned_iff)
    have "\<exists>vm'. map_blocks 0xFFF VMAPermission_ReadWrite st bs (target + n) vm2 = Some vm' \<and> vm_inv B vm' \<and> \<not> vm_locked vm' \<and>
      vm_view (vma_map vm') = mapped_at (target + n) (expand bs) VMAPermission_ReadWrite st (vm_view (vma_map vm2))"
      using f(2) Cons.prems(5,9) b tn
      by (intro Cons.IH [OF 1(3,4) al False _ f(1)]) (auto simp: rest_of_def)
    then obtain vm' where r: "map_blocks 0xFFF VMAPermission_ReadWrite st bs (target + n) vm2 = Some vm'" "vm_inv B vm'" "\<not> vm_locked vm'"
      "vm_view (vma_map vm') = mapped_at (target + n) (expand bs) VMAPermission_ReadWrite st (vm_view (vma_map vm2))" by blast
    have "vm_view (vma_map vm') = mapped_at target (expand (b # bs)) VMAPermission_ReadWrite st (vm_view (vma_map vm))"
      unfolding r(4) one b expand_Cons
      by (auto simp: fun_eq_iff mapped_at_def tn nth_append)
    then show ?thesis using step r by simp
  qed
qed simp

end
