(* ===== verification/Process_Heap.thy ===== *)
theory Process_Heap
  imports Process_Memory
begin

text \<open>
  The heap calls of a process: what \<open>HeapAllocate\<close> and \<open>HeapFree\<close> do to the address space, the region, the counters and
  the commit limit together, that they undo each other, and what \<open>FreeAllMemory\<close> gives back.

  The proofs join three specifications: intervals as sets of FCRAM offsets (theory \<^verbatim>\<open>Memory_Region\<close>), the address space as a
  function from addresses to attributes (\<^verbatim>\<open>VM_Manager\<close>) and the limit as a counter (\<^verbatim>\<open>Resource_Limit\<close>).  \<open>offsets_of\<close> lists the offsets
  of an allocation in the order they are mapped, so the bytes behind a range are the host addresses of that list.
  The last part runs concrete call sequences in which the calls disturb memory they were not asked about.
\<close>

subsection \<open>Page alignment\<close>

definition page_aligned :: "u32 \<Rightarrow> bool" where
  "page_aligned w \<longleftrightarrow> w AND 0xFFF = 0"

definition page_ivs :: "IntervalSet \<Rightarrow> bool" where
  "page_ivs s \<longleftrightarrow> (\<forall>i \<in> set s. page_aligned (lower i) \<and> page_aligned (upper i))"

lemma page_ivs_simps [simp]:
  "page_ivs []" "page_ivs (i # s) \<longleftrightarrow> page_aligned (lower i) \<and> page_aligned (upper i) \<and> page_ivs s"
  "page_ivs (s @ t) \<longleftrightarrow> page_ivs s \<and> page_ivs t"
  by (auto simp: page_ivs_def)

lemma page_aligned_dvd: "page_aligned w \<longleftrightarrow> 2 ^ 12 dvd w"
proof -
  have "w AND 0xFFF = take_bit 12 w" by (simp add: take_bit_eq_mask mask_eq_exp_minus_1)
  then show ?thesis by (simp only: page_aligned_def take_bit_eq_0_iff)
qed

lemma page_aligned_add: "page_aligned a \<Longrightarrow> page_aligned b \<Longrightarrow> page_aligned (a + b)"
  unfolding page_aligned_dvd by (rule dvd_add)

lemma page_aligned_diff: "page_aligned a \<Longrightarrow> page_aligned b \<Longrightarrow> page_aligned (a - b)"
  unfolding page_aligned_dvd by (rule dvd_diff)

lemma page_ivs_insort [simp]: "page_ivs (insort_insert i s) \<longleftrightarrow> page_ivs (i # s)"
  by (auto simp: page_ivs_def set_insort_insert)

lemma page_ivs_size: "page_ivs s \<Longrightarrow> i \<in> set s \<Longrightarrow> page_aligned (IntervalSize i)"
  by (simp add: page_ivs_def IntervalSize_def page_aligned_diff)

lemma heap_loop_pages:
  "page_ivs is \<Longrightarrow> page_aligned rest \<Longrightarrow> page_ivs acc \<Longrightarrow> page_ivs (fst (heap_loop is rest acc))"
  by (induction "is" rest acc rule: heap_loop.induct) (auto simp: IntervalSize_def page_aligned_diff)

lemma cut_all_pages: "page_ivs s \<Longrightarrow> page_ivs [n] \<Longrightarrow> page_ivs (cut_all n s)"
  by (induction s) (auto simp: cut_out_def)

lemma SubtractInterval_pages:
  "ivs_ok s \<Longrightarrow> lower n \<le> upper n \<Longrightarrow> page_ivs s \<Longrightarrow> page_ivs [n] \<Longrightarrow> page_ivs (SubtractInterval s n)"
  by (simp add: SubtractInterval_eq cut_all_pages)

lemma SubtractIntervals_pages:
  assumes "ivs_ok s" "ivs_ok t" "page_ivs s" "page_ivs t"
  shows "page_ivs (SubtractIntervals s t)"
  using assms
proof (induction t arbitrary: s)
  case (Cons x t)
  then have "ivs_ok (SubtractInterval s x)" "page_ivs (SubtractInterval s x)"
    by (simp_all add: ivs_ok_SubtractInterval SubtractInterval_pages less_imp_le)
  then show ?case using Cons by (simp add: SubtractIntervals_def)
qed (simp add: SubtractIntervals_def)

lemma absorb_pages:
  "page_ivs s \<Longrightarrow> page_ivs [i] \<Longrightarrow> page_ivs (fst (absorb s i)) \<and> page_ivs [snd (absorb s i)]"
  by (induction s i rule: absorb.induct) (auto simp: min_def max_def)

lemma InsertMerge_pages: "page_ivs s \<Longrightarrow> page_ivs [i] \<Longrightarrow> page_ivs (InsertMerge s i)"
proof -
  assume s: "page_ivs s" and i: "page_ivs [i]"
  obtain pre post where lb: "lower_bound s i = (pre, post)" by fastforce
  then have "s = pre @ post" by (auto simp: lower_bound_def)
  with s have p: "page_ivs pre" "page_ivs post" by simp_all
  define joined where "joined \<longleftrightarrow> pre \<noteq> [] \<and> upper (last pre) \<ge> lower i"
  define pre' where "pre' = (if joined then butlast pre else pre)"
  define i' where "i' = (if joined then Interval (min (lower i) (lower (last pre))) (max (upper i) (upper (last pre))) else i)"
  have "page_ivs pre'" using p(1) by (auto simp: pre'_def page_ivs_def dest: in_set_butlastD)
  moreover have "page_ivs [i']"
    using p(1) i by (auto simp: i'_def joined_def page_ivs_def min_def max_def)
  moreover have "InsertMerge s i = insort_insert (snd (absorb post i')) (pre' @ fst (absorb post i'))"
    by (simp add: InsertMerge_def lb Let_def split_beta pre'_def i'_def joined_def)
  ultimately show ?thesis using absorb_pages [OF p(2), of i'] by simp
qed

lemma HeapAllocate_pages:
  assumes "HeapAllocate r sz = Some (res, r')" "region_inv r" "ivs_ok res" "page_ivs (free_blocks r)" "page_aligned sz"
  shows "page_ivs res \<and> page_ivs (free_blocks r')"
proof -
  have f: "page_ivs (fst (heap_loop (rev (free_blocks r)) sz []))"
    using assms(4,5) by (intro heap_loop_pages) (simp_all add: page_ivs_def)
  show ?thesis
    using assms f SubtractIntervals_pages [OF region_invD(1) [OF assms(2)]]
    by (auto simp: HeapAllocate_def split_beta split: if_splits)
qed

lemma Free_pages:
  assumes "Free r off n = Some r'" "page_ivs (free_blocks r)" "page_aligned off" "page_aligned n"
  shows "page_ivs (free_blocks r')"
  using assms by (auto simp: Free_def Let_def page_aligned_add InsertMerge_pages split: if_splits)

subsection \<open>FCRAM offsets\<close>

definition run_of :: "u32 \<Rightarrow> nat \<Rightarrow> u32 list" where
  "run_of lo n = map (\<lambda>j. lo + of_nat j) [0 ..< n]"

definition offsets_of :: "IntervalSet \<Rightarrow> u32 list" where
  "offsets_of ivs = concat (map (\<lambda>i. run_of (lower i) (unat (IntervalSize i))) ivs)"

lemma length_run_of [simp]: "length (run_of lo n) = n"
  by (simp add: run_of_def)

lemma nth_run_of: "j < n \<Longrightarrow> unat lo + n \<le> 0x100000000 \<Longrightarrow> unat (run_of lo n ! j) = unat lo + j"
  by (simp add: run_of_def unat_word_ariths unat_of_nat)

lemma set_run_of: "unat lo + unat n < 2 ^ 32 \<Longrightarrow> set (run_of lo (unat n)) = {lo ..< lo + n}"
proof -
  assume b: "unat lo + unat n < 2 ^ 32"
  have e: "unat (lo + n) = unat lo + unat n" using b by (intro unat_add_nowrap) simp
  have "x \<in> set (run_of lo (unat n)) \<longleftrightarrow> x \<in> {lo ..< lo + n}" for x
  proof
    assume "x \<in> set (run_of lo (unat n))"
    then obtain j where "j < unat n" "x = run_of lo (unat n) ! j" by (auto simp: in_set_conv_nth)
    then have "unat x = unat lo + j" "j < unat n" using nth_run_of [of j "unat n" lo] b by simp_all
    then show "x \<in> {lo ..< lo + n}" using e by (simp add: word_le_nat_alt word_less_nat_alt)
  next
    assume "x \<in> {lo ..< lo + n}"
    then have x: "unat lo \<le> unat x" "unat x < unat lo + unat n" using e by (simp_all add: word_le_nat_alt word_less_nat_alt)
    then have "unat (run_of lo (unat n) ! (unat x - unat lo)) = unat x" using nth_run_of [of "unat x - unat lo" "unat n" lo] b by simp
    then have "run_of lo (unat n) ! (unat x - unat lo) = x" by simp
    moreover have "unat x - unat lo < length (run_of lo (unat n))" using x by simp
    ultimately show "x \<in> set (run_of lo (unat n))" by (metis nth_mem)
  qed
  then show ?thesis by blast
qed

lemma run_of_interval:
  assumes "lower i < upper i"
  shows "set (run_of (lower i) (unat (IntervalSize i))) = ivl i" "length (run_of (lower i) (unat (IntervalSize i))) = card (ivl i)"
proof -
  have le: "lower i \<le> upper i" using assms by simp
  have "unat (lower i) + unat (IntervalSize i) < 2 ^ 32"
    using unat_IntervalSize [OF le] le unat_u32_bound [of "upper i"] by (simp add: word_le_nat_alt)
  from set_run_of [OF this] show "set (run_of (lower i) (unat (IntervalSize i))) = ivl i"
    by (simp add: ivl_def IntervalSize_def)
qed (use assms in \<open>simp add: card_ivl\<close>)

lemma offsets_of_simps [simp]:
  "offsets_of [] = []" "offsets_of (i # ivs) = run_of (lower i) (unat (IntervalSize i)) @ offsets_of ivs"
  by (simp_all add: offsets_of_def)

lemma offsets_of_spec: "ivs_ok ivs \<Longrightarrow> set (offsets_of ivs) = addrs ivs \<and> length (offsets_of ivs) = card (addrs ivs)"
proof (induction ivs)
  case (Cons i ivs)
  then show ?case using card_addrs_Cons [OF Cons.prems] run_of_interval(1) [of i] by simp
qed simp

lemma distinct_offsets_of: "ivs_ok ivs \<Longrightarrow> distinct (offsets_of ivs)"
  using offsets_of_spec [of ivs] by (metis card_distinct)

text \<open>What the memory system promises about FCRAM: one host allocation \<open>fc\<close>, addressed by offset,
  and the offset of a pointer into it is the one it was made from.\<close>

definition fcram_ok :: "BackingMem set \<Rightarrow> BackingMem \<Rightarrow> MemEnv \<Rightarrow> bool" where
  "fcram_ok B fc env \<longleftrightarrow> backings_ok B \<and> fc \<in> B \<and> env_PAGE_SIZE env = 0x1000 \<and> env_PAGE_MASK env = 0xFFF \<and>
     (\<forall>off. unat off < unat (bm_size fc) \<longrightarrow>
        mk_MemoryRef fc (ucast off) = Some (GetFCRAMRef env off) \<and> GetFCRAMOffset env (bm_ptr fc + ucast off) = off)"

lemma fcram_okD:
  assumes "fcram_ok B fc env"
  shows "backings_ok B" "fc \<in> B" "env_PAGE_MASK env = 0xFFF"
    "unat off < unat (bm_size fc) \<Longrightarrow> cptr (GetFCRAMRef env off) = bm_ptr fc + ucast off"
    "unat off < unat (bm_size fc) \<Longrightarrow> GetFCRAMOffset env (bm_ptr fc + ucast off) = off"
    "unat off < unat (bm_size fc) \<Longrightarrow> unat off + unat n \<le> unat (bm_size fc) \<Longrightarrow> ref_to B (GetFCRAMRef env off) n"
proof -
  have m: "mk_MemoryRef fc (ucast off) = Some (GetFCRAMRef env off)" if "unat off < unat (bm_size fc)"
    using assms that by (simp add: fcram_ok_def)
  show "unat off < unat (bm_size fc) \<Longrightarrow> cptr (GetFCRAMRef env off) = bm_ptr fc + ucast off"
    using m by (auto simp: mk_MemoryRef_def Init_def dest: sym split: if_splits)
  show "unat off < unat (bm_size fc) \<Longrightarrow> unat off + unat n \<le> unat (bm_size fc) \<Longrightarrow> ref_to B (GetFCRAMRef env off) n"
    using m assms by (auto simp: mk_MemoryRef_def Init_def ref_to_def fcram_ok_def unat_ucast_u32_u64 dest!: sym [of _ "GetFCRAMRef env off"] split: if_splits)
qed (use assms in \<open>simp_all add: fcram_ok_def\<close>)

abbreviation host_of :: "BackingMem \<Rightarrow> u32 \<Rightarrow> u64" where
  "host_of fc off \<equiv> bm_ptr fc + ucast off"

lemma ucast_add_of_nat: "unat o' + j < 0x100000000 \<Longrightarrow> (ucast (o' + of_nat j) :: u64) = ucast o' + of_nat j" for o' :: u32
  by (rule word_unat_eq_iff [THEN iffD2]) (simp add: unat_ucast_u32_u64 unat_word_ariths unat_of_nat)

lemma expand_fcram_blocks:
  assumes f: "fcram_ok B fc env"
  shows "ivs_ok ivs \<Longrightarrow> (\<And>a. a \<in> addrs ivs \<Longrightarrow> unat a < unat (bm_size fc)) \<Longrightarrow>
    expand (fcram_blocks env ivs) = map (host_of fc) (offsets_of ivs) \<and> total_size (fcram_blocks env ivs) = card (addrs ivs)"
proof (induction ivs)
  case Nil
  then show ?case by (simp add: expand_def fcram_blocks_def)
next
  case (Cons i ivs)
  have lt: "lower i < upper i" "lower i \<le> upper i" using Cons.prems(1) by (auto intro: less_imp_le)
  have "lower i \<in> ivl i" using lt by (simp add: ivl_def)
  then have "unat (lower i) < unat (bm_size fc)" using Cons.prems(2) by simp
  then have c: "cptr (GetFCRAMRef env (lower i)) = host_of fc (lower i)" by (rule fcram_okD(4) [OF f])
  have b: "unat (lower i) + unat (IntervalSize i) < 2 ^ 32"
    using unat_IntervalSize [OF lt(2)] lt(2) unat_u32_bound [of "upper i"] by (simp add: word_le_nat_alt)
  have "map (\<lambda>j. cptr (GetFCRAMRef env (lower i)) + of_nat j) [0 ..< unat (IntervalSize i)] =
      map (host_of fc) (run_of (lower i) (unat (IntervalSize i)))"
    unfolding c run_of_def map_map using b by (intro map_cong HOL.refl) (simp add: ucast_add_of_nat algebra_simps)
  moreover have "expand (fcram_blocks env ivs) = map (host_of fc) (offsets_of ivs) \<and> total_size (fcram_blocks env ivs) = card (addrs ivs)"
    using Cons.prems by (intro Cons.IH) auto
  ultimately show ?case
    using card_addrs_Cons [OF Cons.prems(1)] by (simp add: fcram_blocks_def expand_Cons)
qed

lemma block_offsets:
  assumes f: "fcram_ok B fc env" and o: "\<forall>x \<in> set offs. unat x < unat (bm_size fc)"
    and e: "map (\<lambda>i. cptr mem + of_nat i) [0 ..< unat n] @ rest = map (host_of fc) offs" and n: "0 < n"
  shows "take (unat n) offs = run_of (GetFCRAMOffset env (cptr mem)) (unat n)"
    "rest = map (host_of fc) (drop (unat n) offs)"
    "unat (GetFCRAMOffset env (cptr mem)) + unat n \<le> 0x100000000" "unat n \<le> length offs"
    "GetFCRAMOffset env (cptr mem) + (n - 1) \<in> set offs"
proof -
  have un: "0 < unat n" "unat n < 0x100000000" using n unat_u32_bound [of n] by (simp_all add: word_less_nat_alt)
  have len: "length (map (\<lambda>i. cptr mem + of_nat i) [0 ..< unat n] @ rest) = length offs" using e by simp
  then show ln: "unat n \<le> length offs" by simp
  have nth: "host_of fc (offs ! j) = cptr mem + of_nat j" if "j < unat n" for j
  proof -
    have "map (host_of fc) offs ! j = cptr mem + of_nat j" using that by (simp add: e [symmetric] nth_append)
    then show ?thesis using that ln by simp
  qed
  have c: "cptr mem = host_of fc (offs ! 0)" using nth [of 0] un by simp
  have off: "GetFCRAMOffset env (cptr mem) = offs ! 0"
    unfolding c using ln un by (intro fcram_okD(5) [OF f] o [rule_format] nth_mem) auto
  have u: "unat (offs ! j) = unat (offs ! 0) + j" if "j < unat n" for j
  proof -
    have "(ucast (offs ! j) :: u64) = ucast (offs ! 0) + of_nat j" using nth [OF that] c by simp
    then have "unat (ucast (offs ! j) :: u64) = unat (ucast (offs ! 0) + of_nat j :: u64)" by simp
    then show ?thesis using that un(2) unat_u32_bound [of "offs ! 0"]
      by (simp add: unat_ucast_u32_u64 unat_word_ariths unat_of_nat)
  qed
  have "unat (offs ! 0) + (unat n - 1) < 0x100000000" using u [of "unat n - 1"] un unat_u32_bound [of "offs ! (unat n - 1)"] by simp
  then show b: "unat (GetFCRAMOffset env (cptr mem)) + unat n \<le> 0x100000000" using off un by simp
  show "take (unat n) offs = run_of (GetFCRAMOffset env (cptr mem)) (unat n)"
  proof (rule nth_equalityI)
    fix j assume "j < length (take (unat n) offs)"
    then have "j < unat n" by simp
    then have "unat (take (unat n) offs ! j) = unat (run_of (GetFCRAMOffset env (cptr mem)) (unat n) ! j)"
      using u [of j] nth_run_of [OF _ b, of j] off by simp
    then show "take (unat n) offs ! j = run_of (GetFCRAMOffset env (cptr mem)) (unat n) ! j" by simp
  qed (use ln in simp)
  have "drop (unat n) (map (\<lambda>i. cptr mem + of_nat i) [0 ..< unat n] @ rest) = drop (unat n) (map (host_of fc) offs)"
    by (simp only: e)
  then show "rest = map (host_of fc) (drop (unat n) offs)" by (simp add: drop_map)
  have "unat (n - 1) = unat n - 1" using unat_minus_one [of n] n by auto
  then have "unat (offs ! (unat n - 1)) = unat (offs ! 0 + (n - 1))"
    using u [of "unat n - 1"] un unat_u32_bound [of "offs ! (unat n - 1)"] by (subst unat_add_nowrap) simp_all
  then have "offs ! (unat n - 1) = GetFCRAMOffset env (cptr mem) + (n - 1)" using off by simp
  then show "GetFCRAMOffset env (cptr mem) + (n - 1) \<in> set offs" using ln un by (metis diff_less less_le_trans nth_mem zero_less_one)
qed

text \<open>Giving back, block by block, memory that is held and mapped once.\<close>

lemma release_blocks_spec:
  assumes f: "fcram_ok B fc env"
  shows "(\<forall>b \<in> set bs. 0 < snd b) \<Longrightarrow> expand bs = map (host_of fc) offs \<Longrightarrow> distinct offs \<Longrightarrow>
    region_inv reg \<Longrightarrow> \<not> is_locked reg \<Longrightarrow> unat (region_base reg) + unat (region_size reg) \<le> unat (bm_size fc) \<Longrightarrow>
    set offs \<subseteq> region_range reg \<Longrightarrow> set offs \<inter> addrs (free_blocks reg) = {} \<Longrightarrow> ivs_ok hold \<Longrightarrow>
    \<exists>reg' hold'. release_blocks env bs reg hold = Some (reg', hold') \<and> region_inv reg' \<and> \<not> is_locked reg' \<and>
      region_base reg' = region_base reg \<and> region_size reg' = region_size reg \<and>
      addrs (free_blocks reg') = addrs (free_blocks reg) \<union> set offs \<and> ivs_ok hold' \<and> addrs hold' = addrs hold - set offs"
proof (induction bs arbitrary: offs reg hold)
  case Nil
  then show ?case by (simp add: expand_def)
next
  case (Cons b bs)
  obtain mem n where b: "b = (mem, n)" by fastforce
  have n: "0 < n" using Cons.prems(1) b by simp
  have rr: "region_range reg = {region_base reg ..< region_base reg + region_size reg}" by (simp add: region_range_def ivl_def)
  have end': "unat (region_base reg + region_size reg) = unat (region_base reg) + unat (region_size reg)"
    using region_invD(3) [OF Cons.prems(4)] by (intro unat_add_nowrap) simp
  have o: "unat x < unat (region_base reg) + unat (region_size reg)" if "x \<in> set offs" for x
    using that Cons.prems(7) rr end' by (auto simp: word_less_nat_alt)
  have e: "map (\<lambda>i. cptr mem + of_nat i) [0 ..< unat n] @ expand bs = map (host_of fc) offs"
    using Cons.prems(2) by (simp add: b expand_Cons)
  define off where "off = GetFCRAMOffset env (cptr mem)"
  have o': "\<forall>x \<in> set offs. unat x < unat (bm_size fc)" using o Cons.prems(6) by (meson less_le_trans)
  note bo = block_offsets [OF f o' e n, folded off_def]
  have un: "0 < unat n" using n by (simp add: word_less_nat_alt)
  have "unat (n - 1) = unat n - 1" using unat_minus_one [of n] n by auto
  then have "unat (off + (n - 1)) = unat off + (unat n - 1)"
    using bo(3) un by (subst unat_add_nowrap) simp_all
  then have ub: "unat off + unat n < 2 ^ 32" using o [OF bo(5)] un region_invD(3) [OF Cons.prems(4)] by simp
  have st: "set (take (unat n) offs) = {off ..< off + n}" unfolding bo(1) by (rule set_run_of [OF ub])
  have split: "set offs = {off ..< off + n} \<union> set (drop (unat n) offs)"
    using st by (metis append_take_drop_id set_append)
  have dj: "{off ..< off + n} \<inter> set (drop (unat n) offs) = {}"
    using Cons.prems(3) st by (metis append_take_drop_id distinct_append)
  have lt: "off < off + n" using ub n by (intro word_less_add_nowrap) simp
  obtain reg1 where r1: "Free reg off n = Some reg1" "addrs (free_blocks reg1) = addrs (free_blocks reg) \<union> {off ..< off + n}"
    "region_inv reg1" "region_range reg1 = region_range reg" "\<not> is_locked reg1"
    by (cases rule: Free_cases [OF Cons.prems(4,5) n ub]) (use split Cons.prems(7,8) in auto)
  have r1b: "region_base reg1 = region_base reg" "region_size reg1 = region_size reg"
    using r1(1) Cons.prems(5) by (auto simp: Free_def Let_def split: if_splits)
  let ?hold = "SubtractInterval hold (Interval off (off + n))"
  have h: "ivs_ok ?hold" "addrs ?hold = addrs hold - {off ..< off + n}"
    using ivs_ok_SubtractInterval [OF Cons.prems(9), of "Interval off (off + n)"]
      addrs_SubtractInterval [OF Cons.prems(9), of "Interval off (off + n)"] lt by (simp_all add: ivl_def)
  have "\<exists>reg' hold'. release_blocks env bs reg1 ?hold = Some (reg', hold') \<and> region_inv reg' \<and> \<not> is_locked reg' \<and>
      region_base reg' = region_base reg1 \<and> region_size reg' = region_size reg1 \<and>
      addrs (free_blocks reg') = addrs (free_blocks reg1) \<union> set (drop (unat n) offs) \<and> ivs_ok hold' \<and>
      addrs hold' = addrs ?hold - set (drop (unat n) offs)"
    using Cons.prems split dj r1 r1b h(1) bo(2) by (intro Cons.IH) (auto dest: in_set_dropD)
  then show ?case using r1(1,2) r1b h(2) split by (auto simp: b off_def [symmetric] Un_assoc)
qed

subsection \<open>The invariant of a process and its memory\<close>

definition proc_ok :: "BackingMem set \<Rightarrow> BackingMem \<Rightarrow> nat \<Rightarrow> MemoryRegion \<Rightarrow> nat \<Rightarrow> MemKernel \<Rightarrow> bool" where
  "proc_ok B fc p r l k \<longleftrightarrow> (let pr = procs k p; reg = regions k r in
     memory_region pr = Some r \<and> resource_limit pr = Some l \<and> rl_ok (limits k l) \<and>
     vm_inv B (vm_manager pr) \<and> \<not> vm_locked (vm_manager pr) \<and>
     region_inv reg \<and> \<not> is_locked reg \<and> page_ivs (free_blocks reg) \<and>
     unat (region_base reg) + unat (region_size reg) \<le> unat (bm_size fc) \<and>
     ivs_ok (holding_memory pr) \<and> addrs (holding_memory pr) \<subseteq> region_range reg \<and>
     addrs (holding_memory pr) \<inter> addrs (free_blocks reg) = {})"

lemma proc_okD:
  assumes "proc_ok B fc p r l k"
  shows "memory_region (procs k p) = Some r" "resource_limit (procs k p) = Some l" "rl_ok (limits k l)"
    "vm_inv B (vm_manager (procs k p))" "\<not> vm_locked (vm_manager (procs k p))"
    "region_inv (regions k r)" "\<not> is_locked (regions k r)" "page_ivs (free_blocks (regions k r))"
    "unat (region_base (regions k r)) + unat (region_size (regions k r)) \<le> unat (bm_size fc)"
    "ivs_ok (holding_memory (procs k p))" "addrs (holding_memory (procs k p)) \<subseteq> region_range (regions k r)"
    "addrs (holding_memory (procs k p)) \<inter> addrs (free_blocks (regions k r)) = {}"
  using assms by (simp_all add: proc_ok_def Let_def)

lemmas upd_defs = upd_proc_def upd_region_def upd_limit_def host_call_def set_vm_def

lemma region_in_fcram:
  assumes "region_inv reg" "unat (region_base reg) + unat (region_size reg) \<le> unat (bm_size fc)" "a \<in> region_range reg"
  shows "unat a < unat (bm_size fc)"
proof -
  have "unat (region_base reg + region_size reg) = unat (region_base reg) + unat (region_size reg)"
    using region_invD(3) [OF assms(1)] by (intro unat_add_nowrap) simp
  then show ?thesis using assms(2,3) by (auto simp: region_range_def ivl_def word_less_nat_alt)
qed

lemma free_page_ref:
  assumes f: "fcram_ok B fc env" and inv: "region_inv reg" and fit: "unat (region_base reg) + unat (region_size reg) \<le> unat (bm_size fc)"
    and a: "a \<le> a + n" "{a ..< a + n} \<subseteq> addrs (free_blocks reg)" and n: "0 < n"
  shows "ref_to B (GetFCRAMRef env a) n" "cptr (GetFCRAMRef env a) = host_of fc a"
proof -
  have in_fc: "unat x < unat (bm_size fc)" if "x \<in> {a ..< a + n}" for x
    using that a(2) region_invD(2) [OF inv] by (intro region_in_fcram [OF inv fit]) auto
  have e: "unat (a + n) = unat a + unat n" using a(1) by (rule unat_add_le)
  have un: "0 < unat n" using n by (simp add: word_less_nat_alt)
  have m: "unat (a + n - 1) = unat a + unat n - 1"
  proof -
    have "a + n \<noteq> 0" using e un by (metis add_is_0 less_numeral_extra(3) unsigned_0)
    then show ?thesis using e by (simp add: unat_minus_one)
  qed
  have "a \<in> {a ..< a + n}" "a + n - 1 \<in> {a ..< a + n}"
    using e m un by (auto simp: word_le_nat_alt word_less_nat_alt)
  then have b: "unat a < unat (bm_size fc)" "unat (a + n - 1) < unat (bm_size fc)" using in_fc by blast+
  then have "unat a + unat n \<le> unat (bm_size fc)" using m un by simp
  with b(1) show "ref_to B (GetFCRAMRef env a) n" "cptr (GetFCRAMRef env a) = host_of fc a"
    by (simp_all add: fcram_okD(4,6) [OF f])
qed

definition free_for :: "vmas \<Rightarrow> VAddr \<Rightarrow> u32 \<Rightarrow> VirtualMemoryArea \<Rightarrow> bool" where
  "free_for m target sz v \<longleftrightarrow> v \<in> set m \<and> vma_type v = VMAType_Free \<and> unat (vma_base v) \<le> unat target \<and>
     unat target + unat sz \<le> unat (vma_base v) + unat (vma_size v)"

lemma free_for_not_allocated:
  assumes ok: "map_ok B m" and v: "free_for m target sz v" and s: "0 < sz"
  shows "already_allocated m target sz = Some False" "unat target + unat sz \<le> 0x40000000"
proof -
  have us: "0 < unat sz" using s by (simp add: word_less_nat_alt)
  have t: "tiles 0 m 0x40000000" using ok by (simp add: map_ok_def)
  have ve: "unat (vma_base v) + unat (vma_size v) \<le> 0x40000000"
    using tiles_mem [OF t, of v] v by (simp add: free_for_def)
  then show fit: "unat target + unat sz \<le> 0x40000000" using v by (simp add: free_for_def)
  obtain pre post where m: "m = pre @ v # post" using v by (auto simp: free_for_def in_set_conv_decomp)
  have c: "covers v target" using v us by (simp add: covers_def free_for_def)
  have "FindVMA m target = Some (pre, v # post)" using FindVMA_at [of pre v post target] t c m by simp
  moreover have "\<not> vma_base v + vma_size v < target + sz"
    using v ve fit by (simp add: free_for_def word_less_nat_alt unat_add_nowrap)
  ultimately show "already_allocated m target sz = Some False" using v by (simp add: already_allocated_def free_for_def)
qed

lemma fcram_blocks_mappable:
  assumes f: "fcram_ok B fc env" and ok: "ivs_ok ivs" "page_ivs ivs" and a: "\<And>a. a \<in> addrs ivs \<Longrightarrow> unat a < unat (bm_size fc)"
    and m: "(mem, n) \<in> set (fcram_blocks env ivs)"
  shows "ref_to B mem n \<and> 0 < n \<and> n AND 0xFFF = 0"
proof -
  obtain i where i: "i \<in> set ivs" "mem = GetFCRAMRef env (lower i)" "n = IntervalSize i" using m by (auto simp: fcram_blocks_def)
  have lt: "lower i < upper i" "lower i \<le> upper i" using ivs_ok_proper [OF ok(1) i(1)] by simp_all
  have ul: "unat (lower i) < unat (upper i)" using lt(1) by (simp add: word_less_nat_alt)
  have un: "unat (IntervalSize i) = unat (upper i) - unat (lower i)" by (rule unat_IntervalSize [OF lt(2)])
  have "upper i \<noteq> 0" using ul by (metis not_less0 unsigned_0)
  then have "unat (upper i - 1) = unat (upper i) - 1" by (simp add: unat_minus_one)
  then have in_i: "lower i \<in> ivl i" "upper i - 1 \<in> ivl i" using ul by (auto simp: ivl_def word_less_nat_alt word_le_nat_alt)
  then have "unat (lower i) < unat (bm_size fc)" "unat (upper i - 1) < unat (bm_size fc)"
    using a i(1) by (auto simp: addrs_def)
  moreover have "unat (lower i) + unat (IntervalSize i) \<le> unat (bm_size fc)"
    using calculation \<open>unat (upper i - 1) = unat (upper i) - 1\<close> un ul by simp
  ultimately have "ref_to B mem n" unfolding i by (intro fcram_okD(6) [OF f]) simp_all
  moreover have "0 < n" using un ul i(3) by (simp add: word_less_nat_alt)
  moreover have "n AND 0xFFF = 0" using page_ivs_size [OF ok(2) i(1)] i(3) by (simp add: page_aligned_def)
  ultimately show ?thesis by simp
qed

lemma insert_all_spec:
  "ivs_ok s \<Longrightarrow> ivs_ok t \<Longrightarrow> ivs_ok (insert_all s t) \<and> addrs (insert_all s t) = addrs s \<union> addrs t"
proof (induction t arbitrary: s)
  case (Cons i t)
  then show ?case using InsertMerge_spec [of s i] Cons.IH [of "InsertMerge s i"] by (auto simp: insert_all_def)
qed (simp add: insert_all_def)

lemma heap_range:
  assumes "unat HEAP_VADDR \<le> unat target" "unat target + unat sz \<le> unat HEAP_VADDR_END"
  shows "\<not> outside HEAP_VADDR HEAP_VADDR_END target sz"
proof -
  have "unat (target + sz) = unat target + unat sz" using assms(2) unat_u32_bound [of HEAP_VADDR_END] by (intro unat_add_nowrap) simp
  then show ?thesis using assms by (simp add: outside_def word_less_nat_alt)
qed

definition commit_after :: "int \<Rightarrow> ResourceLimit \<Rightarrow> ResourceLimit" where
  "commit_after d rl = rl\<lparr>m_current_values := (m_current_values rl)[unat RLT_Commit := m_current_values rl ! unat RLT_Commit + d]\<rparr>"

lemma Commit_spec:
  assumes "rl_ok rl"
  shows "s32_range (m_current_values rl ! unat RLT_Commit + d) \<Longrightarrow> Reserve rl RLT_Commit d = Some (True, commit_after d rl)"
    "s32_range (m_current_values rl ! unat RLT_Commit - d) \<Longrightarrow> Release rl RLT_Commit d = Some (True, commit_after (- d) rl)"
    "rl_ok (commit_after d rl)"
  using Reserve_spec [OF assms, of RLT_Commit d] Release_spec [OF assms, of RLT_Commit d] assms
  by (simp_all add: commit_after_def rlt_defs RLT_Max_def rl_ok_def)

lemma heap_allocate_ok:
  assumes f: "fcram_ok B fc env" and ok: "proc_ok B fc p r l k" and al: "page_aligned target" "page_aligned sz"
    and s: "0 < sz" and rng: "skip_range_check \<or> \<not> outside HEAP_VADDR HEAP_VADDR_END target sz"
    and v: "free_for (vma_map (vm_manager (procs k p))) target sz v"
    and c: "s32_range (m_current_values (limits k l) ! unat RLT_Commit + sint sz)"
    and room: "unat sz \<le> card (addrs (free_blocks (regions k r)))"
  obtains ivs k' where
    "Process_HeapAllocate env p target sz VMAPermission_ReadWrite st skip_range_check k = Some (Inr target, k')"
    "proc_ok B fc p r l k'" "ivs_ok ivs" "card (addrs ivs) = unat sz" "addrs ivs \<subseteq> addrs (free_blocks (regions k r))"
    "\<And>x y. x \<in> addrs ivs \<Longrightarrow> y \<in> addrs (free_blocks (regions k' r)) \<Longrightarrow> y < x"
    "addrs (free_blocks (regions k' r)) = addrs (free_blocks (regions k r)) - addrs ivs"
    "vm_view (vma_map (vm_manager (procs k' p))) =
       mapped_at target (map (host_of fc) (offsets_of ivs)) VMAPermission_ReadWrite st (vm_view (vma_map (vm_manager (procs k p))))"
    "addrs (holding_memory (procs k' p)) = addrs (holding_memory (procs k p)) \<union> addrs ivs"
    "memory_used (procs k' p) = memory_used (procs k p) + sz" "limits k' = (limits k)(l := commit_after (sint sz) (limits k l))"
    "host_calls k' = host_calls k @ map (\<lambda>i. FillFCRAM (lower i) (upper i)) ivs"
    "region_base (regions k' r) = region_base (regions k r)" "region_size (regions k' r) = region_size (regions k r)"
proof -
  note P = proc_okD [OF ok]
  have mok: "map_ok B (vma_map (vm_manager (procs k p)))" using P(4) by (simp add: vm_inv_def)
  note nf = free_for_not_allocated [OF mok v s]
  obtain ivs reg where h: "HeapAllocate (regions k r) sz = Some (ivs, reg)" "ivs_ok ivs"
    "addrs ivs \<subseteq> addrs (free_blocks (regions k r))" "card (addrs ivs) = unat sz"
    "addrs (free_blocks reg) = addrs (free_blocks (regions k r)) - addrs ivs" "region_inv reg"
    "\<And>x y. x \<in> addrs ivs \<Longrightarrow> y \<in> addrs (free_blocks reg) \<Longrightarrow> y < x"
    "region_range reg = region_range (regions k r)" "\<not> is_locked reg"
    by (rule HeapAllocate_cases [OF P(6,7) s]) (use room in auto)
  have pg: "page_ivs ivs" "page_ivs (free_blocks reg)"
    using HeapAllocate_pages [OF h(1) P(6) h(2) P(8) al(2)] by simp_all
  have rb: "region_base reg = region_base (regions k r)" "region_size reg = region_size (regions k r)"
    using h(1) P(7) by (auto simp: HeapAllocate_def split_beta split: if_splits)
  have fits: "unat a < unat (bm_size fc)" if "a \<in> addrs ivs" for a
    using that h(3) region_invD(2) [OF P(6)] by (intro region_in_fcram [OF P(6,9)]) auto
  have "ivs \<noteq> []" using h(4) s by (auto simp: word_less_nat_alt)
  then have ne: "fcram_blocks env ivs \<noteq> []" by (simp add: fcram_blocks_def)
  note E = expand_fcram_blocks [OF f h(2) fits]
  obtain vm' where vm': "map_blocks 0xFFF VMAPermission_ReadWrite st (fcram_blocks env ivs) target (vm_manager (procs k p)) = Some vm'"
    "vm_inv B vm'" "\<not> vm_locked vm'" "vm_view (vma_map vm') =
       mapped_at target (map (host_of fc) (offsets_of ivs)) VMAPermission_ReadWrite st (vm_view (vma_map (vm_manager (procs k p))))"
    using map_blocks_RW [OF fcram_okD(1) [OF f] P(4,5) _ ne fcram_blocks_mappable [OF f h(2) pg(1) fits], of target v st]
      v al(1) E h(4) by (auto simp: free_for_def page_aligned_def)
  let ?k = "upd_limit l (commit_after (sint sz) (limits k l)) (upd_region r reg (host_call (map (\<lambda>i. FillFCRAM (lower i) (upper i)) ivs)
    (upd_proc p (\<lambda>pr. pr\<lparr>vm_manager := vm', holding_memory := insert_all (holding_memory pr) ivs, memory_used := memory_used pr + sz\<rparr>) k)))"
  note I = insert_all_spec [OF P(10) h(2)]
  have run: "Process_HeapAllocate env p target sz VMAPermission_ReadWrite st skip_range_check k = Some (Inr target, ?k)"
    using rng nf(1) P(1,2) h(1) \<open>ivs \<noteq> []\<close> vm'(1) Commit_spec(1) [OF P(3) c] fcram_okD(3) [OF f]
    by (auto simp: Process_HeapAllocate_def)
  have "proc_ok B fc p r l ?k"
    unfolding proc_ok_def Let_def using P h(3,5,6,8,9) pg(2) vm'(2,3) I rb Commit_spec(3) [OF P(3)] region_invD(2) [OF P(6)]
    by (auto simp: upd_defs)
  from that [OF run this h(2,4,3)] show thesis using h(5,7) vm'(4) I rb by (simp add: upd_defs)
qed

lemma success_ok [simp]: "IsSuccess ResultSuccess"
  by (simp add: IsSuccess_def ResultSuccess_def Result_is_error_def bf_Value_def)

lemma success_no_error [simp]: "\<not> IsError ResultSuccess"
  using success_ok IsSuccess_iff by blast

lemma heap_free_ok:
  assumes f: "fcram_ok B fc env" and ok: "proc_ok B fc p r l k" and al: "page_aligned target" "page_aligned sz"
    and s: "0 < sz" and rng: "\<not> outside HEAP_VADDR HEAP_VADDR_END target sz" and fit: "unat target + unat sz \<le> 0x40000000"
    and h: "length offs = unat sz" "distinct offs" "set offs \<subseteq> region_range (regions k r)"
      "set offs \<inter> addrs (free_blocks (regions k r)) = {}"
      "\<And>a. in_range target sz a \<Longrightarrow> vm_host (vma_map (vm_manager (procs k p))) a = Some (host_of fc (offs ! (unat a - unat target)))"
      "\<And>a. in_range target sz a \<Longrightarrow> type_at (vma_map (vm_manager (procs k p))) a \<noteq> Some VMAType_Free"
    and c: "s32_range (m_current_values (limits k l) ! unat RLT_Commit - sint sz)"
  obtains k' where "Process_HeapFree env p target sz k = Some (ResultSuccess, k')"
    "vm_inv B (vm_manager (procs k' p))" "\<not> vm_locked (vm_manager (procs k' p))"
    "vm_view (vma_map (vm_manager (procs k' p))) = (\<lambda>a. if in_range target sz a
       then Some (VMAType_Free, VMAPermission_None, MS_Free, None) else vm_view (vma_map (vm_manager (procs k p))) a)"
    "region_inv (regions k' r)" "addrs (free_blocks (regions k' r)) = addrs (free_blocks (regions k r)) \<union> set offs"
    "region_size (regions k' r) = region_size (regions k r)"
    "addrs (holding_memory (procs k' p)) = addrs (holding_memory (procs k p)) - set offs"
    "memory_used (procs k' p) = memory_used (procs k p) - sz" "limits k' = (limits k)(l := commit_after (- sint sz) (limits k l))"
proof -
  note P = proc_okD [OF ok]
  let ?vm = "vm_manager (procs k p)"
  have mok: "map_ok B (vma_map ?vm)" using P(4) by (simp add: vm_inv_def)
  have te: "unat (target + sz) = unat target + unat sz" using fit by (intro unat_add_nowrap) simp
  have "\<not> (\<exists>a. unat target \<le> unat a \<and> unat a < unat (target + sz) \<and> type_at (vma_map ?vm) a = Some VMAType_Free)"
    using h(6) te by auto
  then obtain bs where bs: "backing_blocks (vma_map ?vm) target (target + sz) [] = Some (Inr bs)"
    "expand bs = map (\<lambda>i. the (vm_host (vma_map ?vm) (target + of_nat i))) [0 ..< unat sz]" "\<forall>b \<in> set bs. 0 < snd b"
    using backing_blocks_spec [OF fcram_okD(1) [OF f] mok, of target "target + sz" "[]"] te fit by (auto split: if_splits)
  have u: "unat (target + of_nat i) = unat target + i" if "i < unat sz" for i
    using that te unat_u32_bound [of "target + sz"] by (subst unat_add_nowrap) (simp_all add: unat_of_nat)
  have ex: "expand bs = map (host_of fc) offs"
    unfolding bs(2) by (rule nth_equalityI) (simp_all add: h(1,5) u)
  obtain reg hold where rel: "release_blocks env bs (regions k r) (holding_memory (procs k p)) = Some (reg, hold)"
    "region_inv reg" "region_size reg = region_size (regions k r)" "addrs (free_blocks reg) = addrs (free_blocks (regions k r)) \<union> set offs"
    "addrs hold = addrs (holding_memory (procs k p)) - set offs"
    using release_blocks_spec [OF f bs(3) ex h(2) P(6,7,9) h(3,4) P(10)] by blast
  obtain vm' where vm': "UnmapRange 0xFFF ?vm target sz = Some (ResultSuccess, vm')" "vm_inv B vm'" "\<not> vm_locked vm'"
    "vm_view (vma_map vm') = (\<lambda>a. if in_range target sz a then Some (VMAType_Free, VMAPermission_None, MS_Free, None)
       else vm_view (vma_map ?vm) a)"
    by (rule UnmapRange_cases [OF fcram_okD(1) [OF f] P(4,5) al(2,1) [unfolded page_aligned_def] s fit]) (use h(6) in blast)+
  let ?k = "upd_limit l (commit_after (- sint sz) (limits k l)) (upd_region r reg
     (upd_proc p (\<lambda>pr. pr\<lparr>vm_manager := vm', holding_memory := hold, memory_used := memory_used pr - sz\<rparr>) k))"
  have run: "Process_HeapFree env p target sz k = Some (ResultSuccess, ?k)"
    using rng s bs(1) P(1,2) rel(1) vm'(1) Commit_spec(2) [OF P(3) c] fcram_okD(3) [OF f]
    by (auto simp: Process_HeapFree_def GetBackingBlocksForRange_def Let_def)
  show thesis by (rule that [OF run]) (use vm'(2-4) rel in \<open>simp_all add: upd_defs\<close>)
qed

lemma mapped_at_host:
  assumes "length hosts = unat sz" "in_range target sz a" "vm_view m = mapped_at target hosts perms st old"
  shows "vm_host m a = Some (hosts ! (unat a - unat target))" "type_at m a = Some VMAType_BackingMemory"
  using assms by (simp_all add: vm_host_def type_at_def mapped_at_def)

lemma commit_back [simp]: "commit_after (- d) (commit_after d rl) = rl"
proof (cases "unat RLT_Commit < length (m_current_values rl)")
  case False
  then show ?thesis by (simp add: commit_after_def list_update_beyond)
next
  case True
  then show ?thesis by (simp add: commit_after_def)
qed

subsection \<open>Properties\<close>

definition demo_env :: MemEnv where
  "demo_env = \<lparr>env_PAGE_SIZE = 0x1000, env_PAGE_MASK = 0xFFF, LINEAR_HEAP_VADDR = 0x14000000, NEW_LINEAR_HEAP_VADDR = 0x30000000,
     TLS_AREA_VADDR = 0x1FF82000, TLS_ENTRY_SIZE = 0x200,
     GetFCRAMRef = (\<lambda>off. Init \<lparr>backing_mem = Some test_mem, ref_offset = ucast off, cptr = 0, csize = 0\<rparr>),
     GetFCRAMOffset = (\<lambda>ptr. ucast (ptr - bm_ptr test_mem))\<rparr>"

definition demo_process :: Process where
  "demo_process = \<lparr>vm_manager = fresh_vm, memory_used = 0, memory_region = Some MR_APPLICATION, holding_memory = [],
     holding_tls_memory = [], tls_slots = [], resource_limit = Some 0, svc_access_mask = replicate 0x80 False, handle_table_size = 0x200,
     address_mappings = [], proc_flags = 0, kernel_version = 0\<rparr>"

definition demo_region :: MemoryRegionInfo where
  "demo_region = \<lparr>region_base = 0, region_size = 0x100000, used = 0, free_blocks = [Interval 0 0x100000], is_locked = False\<rparr>"

definition demo_kernel :: MemKernel where
  "demo_kernel = \<lparr>procs = (\<lambda>_. demo_process), regions = (\<lambda>_. demo_region), limits = (\<lambda>_. RL_Create RLC_Application []), host_calls = []\<rparr>"

lemma demo_env_ok: "fcram_ok {test_mem} test_mem demo_env"
proof -
  have "ucast (ucast off :: u64) = off" for off :: u32
    by (rule ucast_up_ucast_id) (simp add: is_up)
  then show ?thesis
    by (auto simp: fcram_ok_def demo_env_def test_mem_ok mk_MemoryRef_def word_le_nat_alt unat_ucast_u32_u64)
qed

lemma demo_region_card: "card (addrs (free_blocks demo_region)) = 0x100000"
  using card_ivl [of "Interval 0 0x100000"] by (simp add: demo_region_def IntervalSize_def)

lemma demo_kernel_ok: "proc_ok {test_mem} test_mem p MR_APPLICATION 0 demo_kernel"
proof -
  have "region_inv demo_region"
    using demo_region_card by (simp add: region_inv_def demo_region_def region_range_def)
  then show ?thesis
    using vm_reach_inv [OF test_mem_ok fresh_vm_reach]
    by (simp add: proc_ok_def demo_kernel_def demo_process_def demo_region_def page_aligned_def test_mem_def fresh_vm_def)
qed

lemma demo_free: "free_for (vma_map (vm_manager (procs demo_kernel 0))) 0x08000000 0x3000 initial_vma"
  by (simp add: free_for_def demo_kernel_def demo_process_def fresh_vm_def initial_vma_def MAX_ADDRESS_def)

lemmas demo_facts = demo_env_ok demo_kernel_ok [of 0] demo_free

lemma demo_limits: "limits demo_kernel = (\<lambda>_. RL_Create RLC_Application [])"
  by (simp add: demo_kernel_def)

lemma demo_regions: "regions demo_kernel = (\<lambda>_. demo_region)"
  by (simp add: demo_kernel_def)

text \<open>C11: \<open>Process::HeapAllocate\<close> with read and write permission over an unused range of a process whose
  region is unlocked: when the region has too few free bytes the answer is \<open>ResultOutOfHeapMemory\<close> and nothing
  changes.  Otherwise it takes exactly that many bytes of FCRAM, the highest free ones, maps them in
  ascending order over the range with the given state and nothing else, clears them, records them as held by the
  process, charges the process and its commit limit, and leaves the process well formed.\<close>
theorem process_heap_allocate_effect:
  assumes "fcram_ok B fc env" "proc_ok B fc p r l k" "page_aligned target" "page_aligned sz" "0 < sz"
    "unat HEAP_VADDR \<le> unat target" "unat target + unat sz \<le> unat HEAP_VADDR_END"
    "free_for (vma_map (vm_manager (procs k p))) target sz v"
    "s32_range (m_current_values (limits k l) ! unat RLT_Commit + sint sz)"
  shows "if card (addrs (free_blocks (regions k r))) < unat sz
    then Process_HeapAllocate env p target sz VMAPermission_ReadWrite st False k = Some (Inl ResultOutOfHeapMemory, k)
    else \<exists>ivs k'. Process_HeapAllocate env p target sz VMAPermission_ReadWrite st False k = Some (Inr target, k') \<and>
      proc_ok B fc p r l k' \<and> ivs_ok ivs \<and> card (addrs ivs) = unat sz \<and>
      addrs ivs \<subseteq> addrs (free_blocks (regions k r)) \<and>
      addrs (free_blocks (regions k' r)) = addrs (free_blocks (regions k r)) - addrs ivs \<and>
      (\<forall>x \<in> addrs ivs. \<forall>y \<in> addrs (free_blocks (regions k' r)). y < x) \<and>
      vm_view (vma_map (vm_manager (procs k' p))) = mapped_at target (map (host_of fc) (offsets_of ivs)) VMAPermission_ReadWrite st
        (vm_view (vma_map (vm_manager (procs k p)))) \<and>
      addrs (holding_memory (procs k' p)) = addrs (holding_memory (procs k p)) \<union> addrs ivs \<and>
      memory_used (procs k' p) = memory_used (procs k p) + sz \<and>
      limits k' = (limits k)(l := commit_after (sint sz) (limits k l)) \<and>
      host_calls k' = host_calls k @ map (\<lambda>i. FillFCRAM (lower i) (upper i)) ivs"
proof (cases "card (addrs (free_blocks (regions k r))) < unat sz")
  case True
  note P = proc_okD [OF assms(2)]
  have "map_ok B (vma_map (vm_manager (procs k p)))" using P(4) by (simp add: vm_inv_def)
  note nf = free_for_not_allocated [OF this assms(8,5)]
  have "HeapAllocate (regions k r) sz = Some ([], regions k r)"
    by (rule HeapAllocate_cases [OF P(6,7) assms(5)]) (use True in auto)
  then show ?thesis using True nf(1) P(1) heap_range [OF assms(6,7)]
    by (simp add: Process_HeapAllocate_def Let_def upd_region_def)
next
  case False
  then have room: "unat sz \<le> card (addrs (free_blocks (regions k r)))" by simp
  have rng: "False \<or> \<not> outside HEAP_VADDR HEAP_VADDR_END target sz" using heap_range [OF assms(6,7)] by simp
  obtain ivs k' where "Process_HeapAllocate env p target sz VMAPermission_ReadWrite st False k = Some (Inr target, k')"
    "proc_ok B fc p r l k'" "ivs_ok ivs" "card (addrs ivs) = unat sz" "addrs ivs \<subseteq> addrs (free_blocks (regions k r))"
    "\<And>x y. x \<in> addrs ivs \<Longrightarrow> y \<in> addrs (free_blocks (regions k' r)) \<Longrightarrow> y < x"
    "addrs (free_blocks (regions k' r)) = addrs (free_blocks (regions k r)) - addrs ivs"
    "vm_view (vma_map (vm_manager (procs k' p))) =
       mapped_at target (map (host_of fc) (offsets_of ivs)) VMAPermission_ReadWrite st (vm_view (vma_map (vm_manager (procs k p))))"
    "addrs (holding_memory (procs k' p)) = addrs (holding_memory (procs k p)) \<union> addrs ivs"
    "memory_used (procs k' p) = memory_used (procs k p) + sz" "limits k' = (limits k)(l := commit_after (sint sz) (limits k l))"
    "host_calls k' = host_calls k @ map (\<lambda>i. FillFCRAM (lower i) (upper i)) ivs"
    by (rule heap_allocate_ok [OF assms(1-5) rng assms(8,9) room, of st]) blast
  then show ?thesis unfolding if_not_P [OF False] by (intro exI [of _ ivs] exI [of _ k']) auto
qed

theorem process_heap_allocate_effect_witness:
  "\<exists>k'. Process_HeapAllocate demo_env 0 0x08000000 0x3000 VMAPermission_ReadWrite MS_Private False demo_kernel = Some (Inr 0x08000000, k') \<and>
    memory_used (procs k' 0) = 0x3000"
proof -
  have "s32_range (m_current_values (limits demo_kernel 0) ! unat RLT_Commit + sint (0x3000 :: u32))"
    by (simp add: demo_limits RL_Create_def replicate_RLT_Max rlt_defs s32_range_def)
  from process_heap_allocate_effect [OF demo_env_ok demo_kernel_ok [of 0] _ _ _ _ _ demo_free this, of MS_Private]
  show ?thesis
    by (auto simp: demo_regions demo_region_card page_aligned_def HEAP_VADDR_def HEAP_VADDR_END_def demo_kernel_def demo_process_def)
qed

text \<open>\<open>HeapFree\<close> undoes \<open>HeapAllocate\<close>: freeing the range just allocated succeeds, and afterwards the region
  has its free bytes and its \<open>used\<close> counter back, the process holds what it held before, its memory counter and
  every resource limit are as before, and the range is unmapped.\<close>
lemma process_heap_roundtrip:
  assumes "fcram_ok B fc env" "proc_ok B fc p r l k" "page_aligned target" "page_aligned sz" "0 < sz"
    "unat HEAP_VADDR \<le> unat target" "unat target + unat sz \<le> unat HEAP_VADDR_END"
    "free_for (vma_map (vm_manager (procs k p))) target sz v"
    "s32_range (m_current_values (limits k l) ! unat RLT_Commit + sint sz)" "s32_range (m_current_values (limits k l) ! unat RLT_Commit)"
    "unat sz \<le> card (addrs (free_blocks (regions k r)))"
  shows "\<exists>k1 k2. Process_HeapAllocate env p target sz VMAPermission_ReadWrite st False k = Some (Inr target, k1) \<and>
    Process_HeapFree env p target sz k1 = Some (ResultSuccess, k2) \<and>
    addrs (free_blocks (regions k2 r)) = addrs (free_blocks (regions k r)) \<and> used (regions k2 r) = used (regions k r) \<and>
    addrs (holding_memory (procs k2 p)) = addrs (holding_memory (procs k p)) \<and>
    memory_used (procs k2 p) = memory_used (procs k p) \<and> limits k2 = limits k \<and>
    vm_view (vma_map (vm_manager (procs k2 p))) = (\<lambda>a. if in_range target sz a
       then Some (VMAType_Free, VMAPermission_None, MS_Free, None) else vm_view (vma_map (vm_manager (procs k p))) a)"
proof -
  have rng: "\<not> outside HEAP_VADDR HEAP_VADDR_END target sz" by (rule heap_range [OF assms(6,7)])
  have fit: "unat target + unat sz \<le> 0x40000000" using assms(7) by (simp add: HEAP_VADDR_END_def HEAP_VADDR_def)
  obtain ivs k1 where k1: "Process_HeapAllocate env p target sz VMAPermission_ReadWrite st False k = Some (Inr target, k1)"
    "proc_ok B fc p r l k1" "ivs_ok ivs" "card (addrs ivs) = unat sz" "addrs ivs \<subseteq> addrs (free_blocks (regions k r))"
    "addrs (free_blocks (regions k1 r)) = addrs (free_blocks (regions k r)) - addrs ivs"
    "vm_view (vma_map (vm_manager (procs k1 p))) =
       mapped_at target (map (host_of fc) (offsets_of ivs)) VMAPermission_ReadWrite st (vm_view (vma_map (vm_manager (procs k p))))"
    "addrs (holding_memory (procs k1 p)) = addrs (holding_memory (procs k p)) \<union> addrs ivs"
    "memory_used (procs k1 p) = memory_used (procs k p) + sz" "limits k1 = (limits k)(l := commit_after (sint sz) (limits k l))"
    "region_base (regions k1 r) = region_base (regions k r)" "region_size (regions k1 r) = region_size (regions k r)"
    by (rule heap_allocate_ok [OF assms(1-5) disjI2 [OF rng] assms(8,9,11), of st]) blast
  note P = proc_okD [OF assms(2)]
  note F = offsets_of_spec [OF k1(3)]
  have len: "length (map (host_of fc) (offsets_of ivs)) = unat sz" using F k1(4) by simp
  note mh = mapped_at_host [OF len _ k1(7)]
  have c: "s32_range (m_current_values (limits k1 l) ! unat RLT_Commit - sint sz)"
    using assms(10) P(3) by (simp add: k1(10) commit_after_def rl_ok_def rlt_defs RLT_Max_def)
  have rr: "set (offsets_of ivs) \<subseteq> region_range (regions k1 r)" "set (offsets_of ivs) \<inter> addrs (free_blocks (regions k1 r)) = {}"
    using F k1(5,6,11,12) region_invD(2) [OF P(6)] by (auto simp: region_range_def)
  obtain k2 where k2: "Process_HeapFree env p target sz k1 = Some (ResultSuccess, k2)"
    "vm_view (vma_map (vm_manager (procs k2 p))) = (\<lambda>a. if in_range target sz a
       then Some (VMAType_Free, VMAPermission_None, MS_Free, None) else vm_view (vma_map (vm_manager (procs k1 p))) a)"
    "region_inv (regions k2 r)" "addrs (free_blocks (regions k2 r)) = addrs (free_blocks (regions k1 r)) \<union> set (offsets_of ivs)"
    "region_size (regions k2 r) = region_size (regions k1 r)"
    "addrs (holding_memory (procs k2 p)) = addrs (holding_memory (procs k1 p)) - set (offsets_of ivs)"
    "memory_used (procs k2 p) = memory_used (procs k1 p) - sz" "limits k2 = (limits k1)(l := commit_after (- sint sz) (limits k1 l))"
    by (rule heap_free_ok [OF assms(1) k1(2) assms(3-5) rng fit _ distinct_offsets_of [OF k1(3)] rr _ _ c])
      (use F k1(4) mh in auto)
  have fr: "addrs (free_blocks (regions k2 r)) = addrs (free_blocks (regions k r))" using k2(4) k1(5,6) F by auto
  then have "unat (used (regions k2 r)) = unat (used (regions k r))"
    using region_invD(4) [OF k2(3)] region_invD(4) [OF P(6)] k2(5) k1(12) by (metis add_right_cancel)
  moreover have "addrs (holding_memory (procs k2 p)) = addrs (holding_memory (procs k p))"
    using k2(6) k1(5,8) F P(12) by auto
  ultimately show ?thesis using k1(1) k2(1,2,7,8) fr k1(7,9,10) len
    by (intro exI [of _ k1] exI [of _ k2]) (auto simp: fun_eq_iff mapped_at_def)
qed

declare backing_blocks.simps [code]

text \<open>A call of a process whose parts are known, for runs on concrete states.\<close>

definition parts :: "MemKernel \<Rightarrow> nat \<Rightarrow> MemoryRegion \<Rightarrow> nat \<Rightarrow> VMManager \<times> MemoryRegionInfo \<times> ResourceLimit \<times> IntervalSet \<Rightarrow> bool" where
  "parts k p r l = (\<lambda>(vm, reg, lim, hold). memory_region (procs k p) = Some r \<and> resource_limit (procs k p) = Some l \<and>
     vm_manager (procs k p) = vm \<and> regions k r = reg \<and> limits k l = lim \<and> holding_memory (procs k p) = hold)"

lemma heap_allocate_parts:
  assumes "parts k p r l (vm, reg, lim, hold)" "\<not> outside HEAP_VADDR HEAP_VADDR_END target sz"
    "already_allocated (vma_map vm) target sz = Some False" "HeapAllocate reg sz = Some (i # ivs, reg')"
    "map_blocks (env_PAGE_MASK env) perms st (fcram_blocks env (i # ivs)) target vm = Some vm'" "Reserve lim RLT_Commit (sint sz) = Some (b, lim')"
  shows "\<exists>k'. Process_HeapAllocate env p target sz perms st False k = Some (Inr target, k') \<and>
    parts k' p r l (vm', reg', lim', insert_all hold (i # ivs))"
  using assms by (auto simp: Process_HeapAllocate_def parts_def upd_defs Let_def)

lemma heap_free_parts:
  assumes "parts k p r l (vm, reg, lim, hold)" "\<not> outside HEAP_VADDR HEAP_VADDR_END target sz" "sz \<noteq> 0"
    "GetBackingBlocksForRange vm target sz = Some (Inr bs)"
  shows "release_blocks env bs reg hold = Some (reg', hold') \<Longrightarrow> UnmapRange (env_PAGE_MASK env) vm target sz = Some (ResultSuccess, vm') \<Longrightarrow>
      Release lim RLT_Commit (sint sz) = Some (b, lim') \<Longrightarrow>
      \<exists>k'. Process_HeapFree env p target sz k = Some (ResultSuccess, k') \<and> parts k' p r l (vm', reg', lim', hold')"
    "release_blocks env bs reg hold = None \<Longrightarrow> Process_HeapFree env p target sz k = None"
  using assms by (auto simp: Process_HeapFree_def parts_def upd_defs Let_def)

lemma map_parts:
  assumes "parts k p r l (vm, reg, lim, hold)" "\<not> outside HEAP_VADDR HEAP_VADDR_END source sz" "\<not> overlapping target source sz"
    "already_allocated (vma_map vm) target sz = Some False"
    "ChangeMemoryState (env_PAGE_MASK env) vm source sz MS_Private VMAPermission_ReadWrite MS_Aliased VMAPermission_ReadWrite = Some (ResultSuccess, vm1)"
    "GetBackingBlocksForRange vm1 source sz = Some (Inr bs)" "map_blocks (env_PAGE_MASK env) perms MS_Alias bs target vm1 = Some vm2"
  shows "\<exists>k'. Process_Map env p target source sz perms False k = Some (ResultSuccess, k') \<and> parts k' p r l (vm2, reg, lim, hold)"
  using assms by (auto simp: Process_Map_def parts_def upd_defs Let_def)

lemma demo_parts: "parts demo_kernel 0 MR_APPLICATION 0 (fresh_vm, demo_region, RL_Create RLC_Application [], [])"
  by (simp add: parts_def demo_kernel_def demo_process_def)

definition first_vm :: "VAddr \<Rightarrow> VMManager" where
  "first_vm a = the (map_blocks 0xFFF VMAPermission_ReadWrite MS_Private [(GetFCRAMRef demo_env 0xFF000, 0x1000)] a fresh_vm)"

definition first_reg :: MemoryRegionInfo where
  "first_reg = demo_region\<lparr>free_blocks := [Interval 0 0xFF000], used := 0x1000\<rparr>"

definition one_page_commit :: ResourceLimit where
  "one_page_commit = commit_after 0x1000 (RL_Create RLC_Application [])"

definition ram_area :: "VAddr \<Rightarrow> u32 \<Rightarrow> VMAPermission \<Rightarrow> u32 \<Rightarrow> VirtualMemoryArea" where
  "ram_area a sz perms off = \<lparr>vma_base = a, vma_size = sz, vma_type = VMAType_BackingMemory, permissions = perms,
     meminfo_state = MS_Private, backing_memory = GetFCRAMRef demo_env off\<rparr>"

lemma demo_mask [simp]: "env_PAGE_MASK demo_env = 0xFFF"
  by (simp add: demo_env_def)

lemma demo_allocate:
  assumes "map_option (\<lambda>_. ()) (map_blocks 0xFFF VMAPermission_ReadWrite MS_Private [(GetFCRAMRef demo_env 0xFF000, 0x1000)] a fresh_vm) = Some ()"
    "\<not> outside HEAP_VADDR HEAP_VADDR_END a 0x1000" "already_allocated [initial_vma] a 0x1000 = Some False"
  shows "\<exists>k'. Process_HeapAllocate demo_env 0 a 0x1000 VMAPermission_ReadWrite MS_Private False demo_kernel = Some (Inr a, k') \<and>
    parts k' 0 MR_APPLICATION 0 (first_vm a, first_reg, one_page_commit, [Interval 0xFF000 0x100000])"
proof -
  have i: "insert_all [] [Interval 0xFF000 0x100000] = [Interval 0xFF000 0x100000]" by code_simp
  have al: "already_allocated (vma_map fresh_vm) a 0x1000 = Some False" using assms(3) by (simp add: fresh_vm_def)
  have h: "HeapAllocate demo_region 0x1000 = Some ([Interval 0xFF000 0x100000], first_reg)" by code_simp
  have b: "fcram_blocks demo_env [Interval 0xFF000 0x100000] = [(GetFCRAMRef demo_env 0xFF000, 0x1000)]"
    by (simp add: fcram_blocks_def IntervalSize_def)
  have m: "map_blocks (env_PAGE_MASK demo_env) VMAPermission_ReadWrite MS_Private (fcram_blocks demo_env [Interval 0xFF000 0x100000]) a fresh_vm = Some (first_vm a)"
    unfolding b using assms(1) by (auto simp: first_vm_def)
  have r: "Reserve (RL_Create RLC_Application []) RLT_Commit (sint (0x1000 :: u32)) = Some (True, one_page_commit)"
    unfolding one_page_commit_def by code_simp
  show ?thesis using heap_allocate_parts [OF demo_parts assms(2) al h m r] by (simp add: i)
qed


text \<open>\<open>HeapFree\<close> looks at the backing memory of its range only, not at how it came there.  An alias that \<open>Map\<close>
  made inside the heap can be freed: the FCRAM behind it is given back although the source of the alias still maps
  it, and freeing the source afterwards frees the same bytes twice and aborts.\<close>
theorem heap_free_of_alias_aborts_later:
  "\<exists>k1 k2 k3. Process_HeapAllocate demo_env 0 0x08000000 0x1000 VMAPermission_ReadWrite MS_Private False demo_kernel = Some (Inr 0x08000000, k1) \<and>
    Process_Map demo_env 0 0x08010000 0x08000000 0x1000 VMAPermission_ReadWrite False k1 = Some (ResultSuccess, k2) \<and>
    Process_HeapFree demo_env 0 0x08010000 0x1000 k2 = Some (ResultSuccess, k3) \<and>
    vm_host (vma_map (vm_manager (procs k3 0))) 0x08000000 = Some (bm_ptr test_mem + 0xFF000) \<and>
    free_blocks (regions k3 MR_APPLICATION) = [Interval 0 0x100000] \<and>
    Process_HeapFree demo_env 0 0x08000000 0x1000 k3 = None"
proof -
  let ?ref = "GetFCRAMRef demo_env 0xFF000"
  have "map_option (\<lambda>_. ()) (map_blocks 0xFFF VMAPermission_ReadWrite MS_Private [(?ref, 0x1000)] 0x08000000 fresh_vm) = Some ()"
    "\<not> outside HEAP_VADDR HEAP_VADDR_END 0x08000000 0x1000" "already_allocated [initial_vma] 0x08000000 0x1000 = Some False"
    by code_simp+
  note run1 = demo_allocate [OF this]
  obtain k1 where k1: "Process_HeapAllocate demo_env 0 0x08000000 0x1000 VMAPermission_ReadWrite MS_Private False demo_kernel = Some (Inr 0x08000000, k1)"
    "parts k1 0 MR_APPLICATION 0 (first_vm 0x08000000, first_reg, one_page_commit, [Interval 0xFF000 0x100000])"
    using run1 by blast
  define vm1 where "vm1 = snd (the (ChangeMemoryState 0xFFF (first_vm 0x08000000) 0x08000000 0x1000 MS_Private VMAPermission_ReadWrite MS_Aliased VMAPermission_ReadWrite))"
  define vm2 where "vm2 = the (map_blocks 0xFFF VMAPermission_ReadWrite MS_Alias [(?ref, 0x1000)] 0x08010000 vm1)"
  define vm3 where "vm3 = snd (the (UnmapRange 0xFFF vm2 0x08010000 0x1000))"
  have out: "\<not> outside HEAP_VADDR HEAP_VADDR_END 0x08000000 0x1000" "\<not> outside HEAP_VADDR HEAP_VADDR_END 0x08010000 0x1000"
    "\<not> overlapping 0x08010000 0x08000000 0x1000" by code_simp+
  have a: "already_allocated (vma_map (first_vm 0x08000000)) 0x08010000 0x1000 = Some False" by code_simp
  have "map_option fst (ChangeMemoryState 0xFFF (first_vm 0x08000000) 0x08000000 0x1000 MS_Private VMAPermission_ReadWrite MS_Aliased VMAPermission_ReadWrite) =
    Some ResultSuccess" by code_simp
  then have c: "ChangeMemoryState (env_PAGE_MASK demo_env) (first_vm 0x08000000) 0x08000000 0x1000 MS_Private VMAPermission_ReadWrite MS_Aliased VMAPermission_ReadWrite =
    Some (ResultSuccess, vm1)" by (auto simp: vm1_def)
  have g1: "GetBackingBlocksForRange vm1 0x08000000 0x1000 = Some (Inr [(?ref, 0x1000)])" unfolding vm1_def by code_simp
  have "map_option (\<lambda>_. ()) (map_blocks 0xFFF VMAPermission_ReadWrite MS_Alias [(?ref, 0x1000)] 0x08010000 vm1) = Some ()" unfolding vm1_def by code_simp
  then have m: "map_blocks (env_PAGE_MASK demo_env) VMAPermission_ReadWrite MS_Alias [(?ref, 0x1000)] 0x08010000 vm1 = Some vm2" by (auto simp: vm2_def)
  obtain k2 where k2: "Process_Map demo_env 0 0x08010000 0x08000000 0x1000 VMAPermission_ReadWrite False k1 = Some (ResultSuccess, k2)"
    "parts k2 0 MR_APPLICATION 0 (vm2, first_reg, one_page_commit, [Interval 0xFF000 0x100000])"
    using map_parts [OF k1(2) out(1,3) a c g1 m] by blast
  have g2: "GetBackingBlocksForRange vm2 0x08010000 0x1000 = Some (Inr [(?ref, 0x1000)])" unfolding vm2_def vm1_def by code_simp
  have f: "release_blocks demo_env [(?ref, 0x1000)] first_reg [Interval 0xFF000 0x100000] = Some (demo_region, [])" by code_simp
  have "map_option fst (UnmapRange 0xFFF vm2 0x08010000 0x1000) = Some ResultSuccess" unfolding vm2_def vm1_def by code_simp
  then have u: "UnmapRange (env_PAGE_MASK demo_env) vm2 0x08010000 0x1000 = Some (ResultSuccess, vm3)" by (auto simp: vm3_def)
  have r: "Release one_page_commit RLT_Commit (sint (0x1000 :: u32)) = Some (True, RL_Create RLC_Application [])" by code_simp
  have nz: "(0x1000 :: u32) \<noteq> 0" by simp
  obtain k3 where k3: "Process_HeapFree demo_env 0 0x08010000 0x1000 k2 = Some (ResultSuccess, k3)"
    "parts k3 0 MR_APPLICATION 0 (vm3, demo_region, RL_Create RLC_Application [], [])"
    using heap_free_parts(1) [OF k2(2) out(2) nz g2 f u r] by blast
  have m3: "take 2 (vma_map vm3) = [initial_vma\<lparr>vma_size := 0x08000000\<rparr>, (ram_area 0x08000000 0x1000 VMAPermission_ReadWrite 0xFF000)\<lparr>meminfo_state := MS_Aliased\<rparr>]"
    unfolding vm3_def vm2_def vm1_def by code_simp
  have g3: "GetBackingBlocksForRange vm3 0x08000000 0x1000 = Some (Inr [(?ref, 0x1000)])" unfolding vm3_def vm2_def vm1_def by code_simp
  have f3: "release_blocks demo_env [(?ref, 0x1000)] demo_region [] = None" by code_simp
  have split: "vma_map vm3 = take 2 (vma_map vm3) @ drop 2 (vma_map vm3)" by simp
  have v: "vm_host (vma_map vm3) 0x08000000 = Some (bm_ptr test_mem + 0xFF000)"
    by (subst split, subst m3)
      (simp add: vm_host_def ram_area_def initial_vma_def covers_def attr_at_def host_at_def demo_env_def Init_def test_mem_def)
  have "Process_HeapFree demo_env 0 0x08000000 0x1000 k3 = None" by (rule heap_free_parts(2) [OF k3(2) out(1) nz g3 f3])
  then show ?thesis using k1(1) k2(1) k3 v by (auto simp: parts_def demo_region_def)
qed

subsection \<open>Giving everything back\<close>

lemma free_held_eq:
  "free_held ivs reg mu = map_option (\<lambda>reg'. (reg', mu - sum_list (map IntervalSize ivs))) (free_all reg ivs)"
proof (induction ivs arbitrary: reg mu)
  case (Cons i ivs)
  then show ?case by (cases "Free reg (lower i) (IntervalSize i)") (simp_all add: algebra_simps)
qed simp

lemma sum_sizes: "ivs_ok ivs \<Longrightarrow> sum_list (map IntervalSize ivs) = of_nat (card (addrs ivs))"
proof (induction ivs)
  case (Cons i ivs)
  then show ?case using card_addrs_Cons [OF Cons.prems] by (simp del: addrs_simps)
qed simp

lemma commit_after_add: "rl_ok rl \<Longrightarrow> commit_after d (commit_after e rl) = commit_after (e + d) rl"
  by (simp add: commit_after_def rl_ok_def rlt_defs RLT_Max_def algebra_simps)

lemma commit_after_0 [simp]: "commit_after 0 rl = rl"
  by (simp add: commit_after_def)

lemma commit_value: "rl_ok rl \<Longrightarrow> m_current_values (commit_after d rl) ! unat RLT_Commit = m_current_values rl ! unat RLT_Commit + d"
  by (simp add: commit_after_def rl_ok_def rlt_defs RLT_Max_def)

lemma sint_small: "unat w < 2 ^ 31 \<Longrightarrow> sint w = int (unat w)" for w :: u32
proof -
  assume "unat w < 2 ^ 31"
  then have "int (unat w) < int (2 ^ 31)" by (simp only: of_nat_less_iff)
  then have "uint w < 2 ^ 31" by simp
  moreover have "- (2 ^ 31) \<le> uint w" by (rule order_trans [of _ 0]) simp_all
  ultimately have "signed_take_bit 31 (uint w) = uint w" by (intro signed_take_bit_int_eq_self)
  then show ?thesis by (simp add: sint_uint)
qed

lemma release_commit_spec:
  assumes "rl_ok rl" "ivs_ok ivs" "card (addrs ivs) < 2 ^ 31"
    "s32_range (m_current_values rl ! unat RLT_Commit)" "s32_range (m_current_values rl ! unat RLT_Commit - int (card (addrs ivs)))"
  shows "release_commit ivs rl = Some (commit_after (- int (card (addrs ivs))) rl)"
  using assms
proof (induction ivs arbitrary: rl)
  case (Cons i ivs)
  note c = card_addrs_Cons [OF Cons.prems(2)]
  obtain n where n: "unat (IntervalSize i) = n" by blast
  have s: "sint (IntervalSize i) = int n" using sint_small [of "IntervalSize i"] Cons.prems(3) c n by simp
  have "s32_range (m_current_values rl ! unat RLT_Commit - sint (IntervalSize i))"
    using Cons.prems(4,5) unfolding c s n by (simp add: s32_range_def)
  note r = Commit_spec(2) [OF Cons.prems(1) this]
  let ?rl = "commit_after (- sint (IntervalSize i)) rl"
  have "release_commit ivs ?rl = Some (commit_after (- int (card (addrs ivs))) ?rl)"
    using Cons.prems unfolding c s n by (intro Cons.IH) (simp_all add: Commit_spec(3) commit_value s32_range_def)
  then show ?case using r Cons.prems(1) unfolding c s n by (simp add: s commit_after_add algebra_simps)
qed simp

text \<open>C12: \<open>FreeAllMemory\<close> gives everything back: for a well-formed process whose thread-local pages lie in the \<open>BASE\<close>
  region, no \<open>Free\<close> aborts; its region gains exactly the memory it held, \<open>BASE\<close> exactly its thread-local pages, the
  counters fall by the same amounts, and the process holds nothing afterwards.\<close>
theorem free_all_memory_returns_everything:
  assumes "proc_ok B fc p r l k" "r \<noteq> MR_BASE" "region_inv (regions k MR_BASE)" "\<not> is_locked (regions k MR_BASE)"
    "ivs_ok (holding_tls_memory (procs k p))" "addrs (holding_tls_memory (procs k p)) \<subseteq> region_range (regions k MR_BASE)"
    "addrs (holding_tls_memory (procs k p)) \<inter> addrs (free_blocks (regions k MR_BASE)) = {}"
    "card (addrs (holding_memory (procs k p))) < 2 ^ 31" "s32_range (m_current_values (limits k l) ! unat RLT_Commit)"
    "s32_range (m_current_values (limits k l) ! unat RLT_Commit - int (card (addrs (holding_memory (procs k p)))))"
  shows "\<exists>k'. FreeAllMemory p k = Some k' \<and>
    region_inv (regions k' r) \<and> addrs (free_blocks (regions k' r)) = addrs (free_blocks (regions k r)) \<union> addrs (holding_memory (procs k p)) \<and>
    region_inv (regions k' MR_BASE) \<and>
    addrs (free_blocks (regions k' MR_BASE)) = addrs (free_blocks (regions k MR_BASE)) \<union> addrs (holding_tls_memory (procs k p)) \<and>
    limits k' = (limits k)(l := commit_after (- int (card (addrs (holding_memory (procs k p))))) (limits k l)) \<and>
    memory_used (procs k' p) = memory_used (procs k p) - of_nat (card (addrs (holding_memory (procs k p)))) -
      of_nat (card (addrs (holding_tls_memory (procs k p)))) \<and>
    holding_memory (procs k' p) = [] \<and> holding_tls_memory (procs k' p) = [] \<and> tls_slots (procs k' p) = []"
proof -
  note P = proc_okD [OF assms(1)]
  obtain reg where reg: "free_all (regions k r) (holding_memory (procs k p)) = Some reg" "region_inv reg"
    "addrs (free_blocks reg) = addrs (free_blocks (regions k r)) \<union> addrs (holding_memory (procs k p))"
    using free_all_spec [OF P(6,7,10,11,12)] by blast
  obtain base where base: "free_all (regions k MR_BASE) (holding_tls_memory (procs k p)) = Some base" "region_inv base"
    "addrs (free_blocks base) = addrs (free_blocks (regions k MR_BASE)) \<union> addrs (holding_tls_memory (procs k p))"
    using free_all_spec [OF assms(3-7)] by blast
  note rc = release_commit_spec [OF P(3,10) assms(8-10)]
  show ?thesis
    using reg base rc P(1,2) assms(2) sum_sizes [OF P(10)] sum_sizes [OF assms(5)]
    by (simp add: FreeAllMemory_def free_held_eq upd_defs Let_def)
qed

definition held_kernel :: MemKernel where
  "held_kernel = \<lparr>procs = (\<lambda>_. demo_process\<lparr>holding_memory := [Interval 0xFF000 0x100000], holding_tls_memory := [Interval 0 0x1000],
       memory_used := 0x2000\<rparr>),
     regions = (\<lambda>r. if r = MR_BASE then demo_region\<lparr>free_blocks := [Interval 0x1000 0x100000], used := 0x1000\<rparr> else first_reg),
     limits = (\<lambda>_. one_page_commit), host_calls = []\<rparr>"

lemma one_block:
  "card (addrs [Interval 0 0xFF000]) = 0xFF000" "card (addrs [Interval 0x1000 0x100000]) = 0xFF000"
  "card (addrs [Interval 0xFF000 0x100000]) = 0x1000" "card (addrs [Interval 0 0x1000]) = 0x1000"
  using card_ivl [of "Interval 0 0xFF000"] card_ivl [of "Interval 0x1000 0x100000"] card_ivl [of "Interval 0xFF000 0x100000"]
    card_ivl [of "Interval 0 0x1000"] by (simp_all add: IntervalSize_def)

lemma held_regions: "region_inv first_reg" "region_inv (demo_region\<lparr>free_blocks := [Interval 0x1000 0x100000], used := 0x1000\<rparr>)"
  using one_block by (auto simp: region_inv_def region_range_def first_reg_def demo_region_def ivl_def intro: less_le_trans order_trans)

lemma held_commit: "rl_ok one_page_commit" "m_current_values one_page_commit ! unat RLT_Commit = 0x1000"
  by (simp_all add: one_page_commit_def Commit_spec(3) commit_value) (simp add: RL_Create_def replicate_RLT_Max rlt_defs)

lemma held_kernel_ok: "proc_ok {test_mem} test_mem 0 MR_APPLICATION 0 held_kernel"
  using vm_reach_inv [OF test_mem_ok fresh_vm_reach] held_regions(1) held_commit(1)
  by (auto simp: proc_ok_def held_kernel_def demo_process_def first_reg_def demo_region_def page_aligned_def test_mem_def fresh_vm_def
      region_range_def ivl_def intro: less_le_trans order_trans)

theorem free_all_memory_returns_everything_witness:
  "\<exists>k'. FreeAllMemory 0 held_kernel = Some k' \<and> memory_used (procs k' 0) = 0 \<and> holding_memory (procs k' 0) = []"
proof -
  have "ivs_ok (holding_tls_memory (procs held_kernel 0))"
    "addrs (holding_tls_memory (procs held_kernel 0)) \<subseteq> region_range (regions held_kernel MR_BASE)"
    "addrs (holding_tls_memory (procs held_kernel 0)) \<inter> addrs (free_blocks (regions held_kernel MR_BASE)) = {}"
    "region_inv (regions held_kernel MR_BASE)" "\<not> is_locked (regions held_kernel MR_BASE)"
    using held_regions(2) by (auto simp: held_kernel_def demo_process_def demo_region_def region_range_def ivl_def intro: less_le_trans)
  then have "\<exists>k'. FreeAllMemory 0 held_kernel = Some k' \<and> memory_used (procs k' 0) = memory_used (procs held_kernel 0) -
      of_nat (card (addrs (holding_memory (procs held_kernel 0)))) - of_nat (card (addrs (holding_tls_memory (procs held_kernel 0)))) \<and>
      holding_memory (procs k' 0) = []"
    using free_all_memory_returns_everything [OF held_kernel_ok] held_commit(2) one_block(3)
    by (fastforce simp: held_kernel_def demo_process_def s32_range_def)
  moreover have "card (addrs (holding_memory (procs held_kernel 0))) = 0x1000" "card (addrs (holding_tls_memory (procs held_kernel 0))) = 0x1000"
    "memory_used (procs held_kernel 0) = 0x2000"
    using one_block by (simp_all add: held_kernel_def demo_process_def)
  ultimately show ?thesis by auto
qed

subsection \<open>Refused calls\<close>

lemma sum_case_Some:
  "(case r of Inl e \<Rightarrow> f e | Inr x \<Rightarrow> g x) = Some y \<longleftrightarrow> (\<exists>e. r = Inl e \<and> f e = Some y) \<or> (\<exists>x. r = Inr x \<and> g x = Some y)"
  by (cases r) auto

lemma UnmapRange_error: "UnmapRange pm vm target sz = Some (res, vm') \<Longrightarrow> IsError res \<Longrightarrow> vm' = vm"
  by (auto simp: UnmapRange_def bind_eq_Some_iff Let_def sum_case_Some split: if_splits)

lemma heap_loop_Nil: "heap_loop is rest acc = ([], rest') \<Longrightarrow> is = [] \<and> rest' = rest"
  by (induction "is" rest acc rule: heap_loop.induct) (auto simp: insort_insert_key_def insort_not_Nil split: if_splits)

lemma HeapAllocate_empty: "HeapAllocate reg sz = Some ([], reg') \<Longrightarrow> reg' = reg"
  by (auto simp: HeapAllocate_def SubtractIntervals_def dest!: heap_loop_Nil split: if_splits prod.splits)

lemma linear_offset_error: "linear_offset env p target sz k = Some (Inl e, k') \<Longrightarrow> k' = k"
  by (auto simp: linear_offset_def bind_eq_Some_iff Let_def LinearAllocate_def LinearAllocateAt_def upd_region_def
      split: if_splits option.splits)

text \<open>A refused memory call changes nothing: whenever \<open>HeapAllocate\<close>, \<open>HeapFree\<close>, \<open>LinearAllocate\<close> or
  \<open>LinearFree\<close> returns an error, the processes, the regions, the limits and the host memory are what they were.\<close>
theorem refused_memory_calls_change_nothing:
  "(Process_HeapAllocate env p target sz perms st skip k = Some (Inl e, k') \<longrightarrow> k' = k) \<and>
   (Process_HeapFree env p target sz k = Some (res, k') \<and> IsError res \<longrightarrow> k' = k) \<and>
   (Process_LinearAllocate env p target sz perms k = Some (Inl e, k') \<longrightarrow> k' = k) \<and>
   (Process_LinearFree env p target sz k = Some (res, k') \<and> IsError res \<longrightarrow> k' = k)"
proof (intro conjI impI)
  assume "Process_HeapAllocate env p target sz perms st skip k = Some (Inl e, k')"
  then show "k' = k"
    by (auto simp: Process_HeapAllocate_def bind_eq_Some_iff Let_def upd_region_def dest!: HeapAllocate_empty split: if_splits)
next
  assume "Process_HeapFree env p target sz k = Some (res, k') \<and> IsError res"
  then show "k' = k"
    by (auto simp: Process_HeapFree_def bind_eq_Some_iff Let_def sum_case_Some split: if_splits)
next
  assume "Process_LinearAllocate env p target sz perms k = Some (Inl e, k')"
  then show "k' = k"
    by (auto simp: Process_LinearAllocate_def bind_eq_Some_iff Let_def sum_case_Some dest: linear_offset_error)
next
  assume "Process_LinearFree env p target sz k = Some (res, k') \<and> IsError res"
  then show "k' = k"
    by (auto simp: Process_LinearFree_def bind_eq_Some_iff Let_def upd_proc_def dest: UnmapRange_error split: if_splits)
qed

theorem refused_memory_calls_change_nothing_witness:
  "Process_HeapAllocate demo_env 0 0x1000 0x1000 VMAPermission_ReadWrite MS_Private False demo_kernel = Some (Inl ResultInvalidAddress, demo_kernel) \<and>
   (Process_HeapAllocate demo_env 0 0x1000 0x1000 VMAPermission_ReadWrite MS_Private False demo_kernel = Some (Inl ResultInvalidAddress, demo_kernel) \<longrightarrow>
      demo_kernel = demo_kernel)"
  using refused_memory_calls_change_nothing [of demo_env 0 "0x1000" "0x1000" VMAPermission_ReadWrite MS_Private False demo_kernel ResultInvalidAddress demo_kernel]
  by (simp add: Process_HeapAllocate_def outside_def HEAP_VADDR_def)

text \<open>\<open>Unmap\<close> is not like that: it takes the target away before it looks at the source.  With a source that is no
  alias it returns \<open>ResultInvalidAddressState\<close>, yet the target, here an ordinary heap page, is unmapped already; the
  page's memory stays charged to the process.\<close>
theorem refused_unmap_loses_target:
  "\<exists>k1 k2. Process_HeapAllocate demo_env 0 0x08010000 0x1000 VMAPermission_ReadWrite MS_Private False demo_kernel = Some (Inr 0x08010000, k1) \<and>
    Process_Unmap demo_env 0 0x08010000 0x08000000 0x1000 VMAPermission_ReadWrite False k1 = Some (ResultInvalidAddressState, k2) \<and>
    vma_map (vm_manager (procs k2 0)) = [initial_vma] \<and> holding_memory (procs k2 0) = [Interval 0xFF000 0x100000]"
proof -
  let ?vm = "first_vm 0x08010000"
  have "map_option (\<lambda>_. ()) (map_blocks 0xFFF VMAPermission_ReadWrite MS_Private [(GetFCRAMRef demo_env 0xFF000, 0x1000)] 0x08010000 fresh_vm) = Some ()"
    "\<not> outside HEAP_VADDR HEAP_VADDR_END 0x08010000 0x1000" "already_allocated [initial_vma] 0x08010000 0x1000 = Some False"
    by code_simp+
  note run1 = demo_allocate [OF this]
  obtain k1 where k1: "Process_HeapAllocate demo_env 0 0x08010000 0x1000 VMAPermission_ReadWrite MS_Private False demo_kernel = Some (Inr 0x08010000, k1)"
    "parts k1 0 MR_APPLICATION 0 (?vm, first_reg, one_page_commit, [Interval 0xFF000 0x100000])"
    using run1 by blast
  have o: "\<not> outside HEAP_VADDR HEAP_VADDR_END 0x08000000 0x1000" "\<not> overlapping 0x08010000 0x08000000 0x1000" by code_simp+
  define vm2 where "vm2 = snd (the (UnmapRange 0xFFF ?vm 0x08010000 0x1000))"
  have "map_option fst (UnmapRange 0xFFF ?vm 0x08010000 0x1000) = Some ResultSuccess" by code_simp
  then have u: "UnmapRange 0xFFF ?vm 0x08010000 0x1000 = Some (ResultSuccess, vm2)" by (auto simp: vm2_def)
  have m: "vma_map vm2 = [initial_vma]" unfolding vm2_def by code_simp
  have c: "ChangeMemoryState 0xFFF vm2 0x08000000 0x1000 MS_Aliased VMAPermission_None MS_Private VMAPermission_ReadWrite = Some (ResultInvalidAddressState, vm2)"
    unfolding vm2_def by code_simp
  have e: "IsError ResultInvalidAddressState" by code_simp
  show ?thesis using k1 o u c e m by (auto simp: Process_Unmap_def parts_def upd_defs Let_def)
qed

end
