(* ===== verification/Process_Caps.thy ===== *)
theory Process_Caps
  imports Process_Heap
begin

text \<open>
  The kernel capabilities of a process: \<open>ParseKernelCaps\<close> reads the descriptors of an executable header one after the
  other.  The bit loop of a system call mask is shown equal to reading each bit where it stands, and every list of
  descriptors leaves the process well typed.
\<close>

subsection \<open>System call masks\<close>

lemma set_syscalls_spec:
  "length (set_syscalls i bits m) = length m \<and> (\<forall>j < length m. set_syscalls i bits m ! j =
     (if i \<le> j \<and> drop_bit (j - i) bits \<noteq> 0 then bit bits (j - i) else m ! j))"
proof (induction i bits m rule: set_syscalls.induct)
  case (1 i bits m)
  show ?case
  proof (cases "bits \<noteq> 0 \<and> i < length m")
    case False
    then show ?thesis by (subst (1 2) set_syscalls.simps) auto
  next
    case True
    note IH = 1 [OF True]
    have d: "drop_bit (j - (i + 1)) (drop_bit 1 bits) = drop_bit (j - i) bits" "bit (drop_bit 1 bits) (j - (i + 1)) = bit bits (j - i)" if "i < j" for j
    proof -
      have "j - (i + 1) + 1 = j - i" using that by simp
      then show "drop_bit (j - (i + 1)) (drop_bit 1 bits) = drop_bit (j - i) bits" "bit (drop_bit 1 bits) (j - (i + 1)) = bit bits (j - i)"
        by (simp_all only: drop_bit_drop_bit bit_drop_bit_eq o_apply add.commute)
    qed
    have "set_syscalls i bits m = set_syscalls (i + 1) (drop_bit 1 bits) (m[i := bit bits 0])"
      using True by (subst set_syscalls.simps) (simp only: if_True simp_thms)
    moreover have "(if i + 1 \<le> j \<and> drop_bit (j - (i + 1)) (drop_bit 1 bits) \<noteq> 0 then bit (drop_bit 1 bits) (j - (i + 1)) else m[i := bit bits 0] ! j) =
        (if i \<le> j \<and> drop_bit (j - i) bits \<noteq> 0 then bit bits (j - i) else m ! j)" if "j < length m" for j
      using that True d [of j] by (cases i j rule: linorder_cases) (simp_all add: Suc_le_eq del: drop_bit_Suc)
    ultimately show ?thesis using IH by simp
  qed
qed

definition is_syscall :: "u32 \<Rightarrow> bool" where
  "is_syscall d \<longleftrightarrow> drop_bit 20 d AND 0xF80 = 0xF00"

definition syscall_group :: "u32 \<Rightarrow> nat" where
  "syscall_group d = unat (drop_bit 24 d AND 7)"

lemma group_index: "unat ((drop_bit 24 d AND 7) * 24) = syscall_group d * 24" "syscall_group d < 8" for d :: u32
proof -
  have "(drop_bit 24 d AND 7) \<le> 7" by (rule word_and_le1)
  then have le: "unat (drop_bit 24 d AND 7) \<le> 7" by (simp add: word_le_nat_alt)
  then show "syscall_group d < 8" by (simp add: syscall_group_def)
  obtain g where g: "drop_bit 24 d AND 7 = g" by blast
  show "unat ((drop_bit 24 d AND 7) * 24) = syscall_group d * 24"
    using le unfolding syscall_group_def g by (simp add: unat_word_ariths)
qed

lemma bit_low24: "bit (d AND 0xFFFFFF) n \<longleftrightarrow> n < 24 \<and> bit d n" for d :: u32
proof -
  have "d AND 0xFFFFFF = take_bit 24 d" by (simp add: take_bit_eq_mask mask_eq_exp_minus_1)
  then show ?thesis by (simp add: bit_take_bit_iff)
qed

lemma div_24_iff: "j div 24 = g \<longleftrightarrow> g * 24 \<le> j \<and> j - g * 24 < 24" "j div 24 = g \<Longrightarrow> j mod 24 = j - g * 24" for j g :: nat
proof -
  obtain q m where q: "j div 24 = q" "j mod 24 = m" by blast
  have "j = q * 24 + m" using div_mult_mod_eq [of j 24] q by simp
  moreover have "m < 24" using q(2) mod_less_divisor [of 24 j] by simp
  ultimately show "j div 24 = g \<longleftrightarrow> g * 24 \<le> j \<and> j - g * 24 < 24" "j div 24 = g \<Longrightarrow> j mod 24 = j - g * 24"
    unfolding q by arith+
qed

text \<open>A descriptor of a system call mask turns on exactly its bits, in a group that was off.\<close>

lemma syscall_bits:
  assumes "j < length m" "\<And>i. i < length m \<Longrightarrow> i div 24 = syscall_group d \<Longrightarrow> \<not> m ! i"
  shows "set_syscalls (syscall_group d * 24) (d AND 0xFFFFFF) m ! j \<longleftrightarrow> m ! j \<or> (j div 24 = syscall_group d \<and> bit d (j mod 24))"
proof -
  let ?i = "syscall_group d * 24" and ?b = "d AND 0xFFFFFF"
  have dz: "\<not> bit ?b n" if "drop_bit n ?b = 0" for n
  proof -
    have "\<not> bit (drop_bit n ?b) 0" unfolding that by simp
    then show ?thesis by (simp only: bit_drop_bit_eq o_apply add_0_right not_False_eq_True)
  qed
  have hi: "drop_bit n ?b = 0" if "24 \<le> n" for n
  proof (rule bit_eqI)
    fix q
    have "bit (drop_bit n ?b) q = bit ?b (n + q)" by (simp only: bit_drop_bit_eq o_apply)
    then show "bit (drop_bit n ?b) q = bit (0 :: u32) q" using bit_low24 [of d "n + q"] that by simp
  qed
  note place = div_24_iff [of j "syscall_group d"]
  have e: "set_syscalls ?i ?b m ! j = (if ?i \<le> j \<and> drop_bit (j - ?i) ?b \<noteq> 0 then bit ?b (j - ?i) else m ! j)"
    using set_syscalls_spec [of ?i ?b m] assms(1) by blast
  show ?thesis
  proof (cases "j div 24 = syscall_group d")
    case True
    then have k: "?i \<le> j" "j - ?i < 24" "j mod 24 = j - ?i" using place by simp_all
    have off: "\<not> m ! j" by (rule assms(2) [OF assms(1) True])
    have b: "bit ?b (j - ?i) = bit d (j - ?i)" using bit_low24 [of d "j - ?i"] k(2) by blast
    show ?thesis unfolding e b k(3) using True k(1) off dz [of "j - ?i"] b by (simp only: if_bool_eq_conj) blast
  next
    case False
    then have "?i \<le> j \<longrightarrow> 24 \<le> j - ?i" using place(1) by linarith
    then show ?thesis unfolding e using False hi [of "j - ?i"] by (simp only: if_bool_eq_conj) blast
  qed
qed

definition mapping_ok :: "AddressMapping \<Rightarrow> bool" where
  "mapping_ok m \<longleftrightarrow> page_aligned (am_address m) \<and> page_aligned (am_size m)"

definition caps_ok :: "Process \<Rightarrow> bool" where
  "caps_ok pr \<longleftrightarrow> length (svc_access_mask pr) = 0x80 \<and> length (address_mappings pr) \<le> 8 \<and> list_all mapping_ok (address_mappings pr) \<and>
     handle_table_size pr \<le> 0x3FF"

lemma page_push [simp]: "page_aligned (push_bit 12 d)"
  by (simp add: page_aligned_dvd push_bit_eq_mult)

lemma append_mapping_ok:
  "caps_ok pr \<Longrightarrow> mapping_ok m \<Longrightarrow> caps_ok (append_address_mapping m pr)"
  "svc_access_mask (append_address_mapping m pr) = svc_access_mask pr"
  by (auto simp: append_address_mapping_def caps_ok_def)

lemma ParseKernelCaps_syscall:
  assumes "is_syscall d"
  shows "ParseKernelCaps env (d # rest) pr = ParseKernelCaps env rest (pr\<lparr>svc_access_mask :=
    set_syscalls (syscall_group d * 24) (d AND 0xFFFFFF) (svc_access_mask pr)\<rparr>)"
proof -
  obtain t where t: "drop_bit 20 d = t" by blast
  have "d \<noteq> 0xFFFFFFFF" using assms by (auto simp: is_syscall_def)
  moreover have "t AND 0xF00 = (t AND 0xF80) AND 0xF00" by (simp add: and.assoc)
  then have "t AND 0xF00 = 0xF00" using assms by (simp add: is_syscall_def t)
  ultimately show ?thesis using assms by (simp add: is_syscall_def Let_def t group_index)
qed

declare ParseKernelCaps.simps [simp del]

definition quiet_step :: "MemEnv \<Rightarrow> u32 list \<Rightarrow> Process \<Rightarrow> Process \<Rightarrow> bool" where
  "quiet_step env rest pr result \<longleftrightarrow> (\<exists>pr' rest'. result = ParseKernelCaps env rest' pr' \<and> svc_access_mask pr' = svc_access_mask pr \<and>
     (rest' = rest \<or> (\<exists>e. rest = e # rest' \<and> \<not> is_syscall e)) \<and> (caps_ok pr \<longrightarrow> caps_ok pr'))"

lemma quiet_stepI:
  "svc_access_mask pr' = svc_access_mask pr \<Longrightarrow> rest' = rest \<or> (\<exists>e. rest = e # rest' \<and> \<not> is_syscall e) \<Longrightarrow>
   (caps_ok pr \<Longrightarrow> caps_ok pr') \<Longrightarrow> quiet_step env rest pr (ParseKernelCaps env rest' pr')"
  by (auto simp: quiet_step_def)

lemma quiet_if:
  "(c \<Longrightarrow> quiet_step env rest pr x) \<Longrightarrow> (\<not> c \<Longrightarrow> quiet_step env rest pr y) \<Longrightarrow> quiet_step env rest pr (if c then x else y)"
  by simp

lemma range_end_no_syscall: "drop_bit 20 e AND 0xFFE = 0xFF8 \<Longrightarrow> \<not> is_syscall e"
proof -
  assume a: "drop_bit 20 e AND 0xFFE = 0xFF8"
  obtain t where t: "drop_bit 20 e = t" by blast
  have "t AND 0xF80 = (t AND 0xFFE) AND 0xF80" by (simp add: and.assoc)
  then have "t AND 0xF80 = 0xF80" using a by (simp add: t)
  then show ?thesis by (simp add: is_syscall_def t)
qed

lemma ParseKernelCaps_other:
  assumes n: "\<not> is_syscall d" and p: "page_aligned (env_PAGE_SIZE env)"
  shows "quiet_step env rest pr (ParseKernelCaps env (d # rest) pr)"
proof -
  obtain t where t: "drop_bit 20 d = t" by blast
  have n': "t AND 0xF80 \<noteq> 0xF00" using n by (simp add: is_syscall_def t)
  have h: "d AND 0x3FF \<le> 0x3FF" by (rule word_and_le1)
  note same = quiet_stepI [of _ pr rest rest env]
  show ?thesis
    unfolding ParseKernelCaps.simps Let_def t
  proof (intro quiet_if, goal_cases)
    case 3
    then show ?case using n' by blast
  next
    case 6
    show ?case
    proof (cases rest)
      case Nil
      then show ?thesis by (simp only: list.case) (rule quiet_stepI; simp)
    next
      case (Cons e rest')
      let ?m = "\<lparr>am_address = push_bit 12 d, am_size = (if push_bit 12 d < push_bit 12 e then push_bit 12 e - push_bit 12 d else 0),
        am_read_only = bit d 20, am_unk_flag = bit e 20\<rparr>"
      have z: "page_aligned 0" by (simp add: page_aligned_def)
      have m: "mapping_ok ?m" using z page_aligned_diff [OF page_push page_push] by (simp add: mapping_ok_def)
      show ?thesis unfolding Cons list.case
      proof (intro quiet_if, goal_cases)
        case 2
        then have "\<not> is_syscall e" using range_end_no_syscall by simp
        then show ?case by (intro quiet_stepI append_mapping_ok(2) append_mapping_ok(1) [OF _ m]) simp_all
      qed (rule quiet_stepI; simp)
    qed
  next
    case 7
    then show ?case by (intro same) (auto intro: append_mapping_ok simp: append_mapping_ok mapping_ok_def p)
  qed (rule same; use h in \<open>simp add: caps_ok_def\<close>)+
qed

lemma ParseKernelCaps_ok:
  "page_aligned (env_PAGE_SIZE env) \<Longrightarrow> caps_ok pr \<Longrightarrow> caps_ok (ParseKernelCaps env caps pr)"
proof (induction caps arbitrary: pr rule: length_induct)
  case (1 caps)
  show ?case
  proof (cases caps)
    case (Cons d rest)
    show ?thesis
    proof (cases "is_syscall d")
      case True
      then show ?thesis using 1 set_syscalls_spec Cons by (simp add: ParseKernelCaps_syscall caps_ok_def)
    next
      case False
      then obtain pr' rest' where "ParseKernelCaps env caps pr = ParseKernelCaps env rest' pr'" "caps_ok pr'" "length rest' < length caps"
        using ParseKernelCaps_other [OF False 1(2), of rest pr] 1(3) Cons by (auto simp: quiet_step_def)
      then show ?thesis using 1(1,2) by simp
    qed
  qed (use 1 in \<open>simp add: ParseKernelCaps.simps\<close>)
qed

definition group_clear :: "bool list \<Rightarrow> u32 list \<Rightarrow> bool" where
  "group_clear m caps \<longleftrightarrow> (\<forall>d \<in> set caps. is_syscall d \<longrightarrow> (\<forall>j < length m. j div 24 = syscall_group d \<longrightarrow> \<not> m ! j))"

definition grants :: "u32 list \<Rightarrow> nat \<Rightarrow> bool" where
  "grants caps j \<longleftrightarrow> (\<exists>d \<in> set caps. is_syscall d \<and> j div 24 = syscall_group d \<and> bit d (j mod 24))"

lemma syscall_mask_spec:
  assumes "page_aligned (env_PAGE_SIZE env)"
  shows "distinct (map syscall_group (filter is_syscall caps)) \<Longrightarrow> group_clear (svc_access_mask pr) caps \<Longrightarrow> j < length (svc_access_mask pr) \<Longrightarrow>
    svc_access_mask (ParseKernelCaps env caps pr) ! j \<longleftrightarrow> svc_access_mask pr ! j \<or> grants caps j"
proof (induction caps arbitrary: pr rule: length_induct)
  case (1 caps)
  show ?case
  proof (cases caps)
    case (Cons d rest)
    show ?thesis
    proof (cases "is_syscall d")
      case True
      let ?m = "set_syscalls (syscall_group d * 24) (d AND 0xFFFFFF) (svc_access_mask pr)"
      have len: "length ?m = length (svc_access_mask pr)" using set_syscalls_spec by blast
      have off: "\<not> svc_access_mask pr ! i" if "i < length (svc_access_mask pr)" "i div 24 = syscall_group d" for i
        using 1(3) that True by (auto simp: group_clear_def Cons)
      note on = syscall_bits [of _ "svc_access_mask pr" d, OF _ off]
      have dist: "distinct (map syscall_group (filter is_syscall rest))" "syscall_group d \<notin> syscall_group ` {e \<in> set rest. is_syscall e}"
        using 1(2) True by (simp_all add: Cons)
      have other: "syscall_group e \<noteq> syscall_group d" if "e \<in> set rest" "is_syscall e" for e
      proof -
        have "syscall_group e \<in> syscall_group ` {e \<in> set rest. is_syscall e}" using that by (intro imageI) simp
        then show ?thesis using dist(2) by metis
      qed
      have "group_clear ?m rest" using 1(3) other on len by (auto simp: group_clear_def Cons)
      then have "svc_access_mask (ParseKernelCaps env rest (pr\<lparr>svc_access_mask := ?m\<rparr>)) ! j \<longleftrightarrow> ?m ! j \<or> grants rest j"
        using 1(1,4) dist(1) len by (simp add: Cons)
      then show ?thesis using on [OF 1(4)] True by (auto simp: Cons ParseKernelCaps_syscall grants_def)
    next
      case False
      obtain pr' rest' where r: "ParseKernelCaps env caps pr = ParseKernelCaps env rest' pr'" "svc_access_mask pr' = svc_access_mask pr"
        "rest' = rest \<or> (\<exists>e. rest = e # rest' \<and> \<not> is_syscall e)"
        using ParseKernelCaps_other [OF False assms, of rest pr] Cons by (auto simp: quiet_step_def)
      have g: "grants rest' j = grants caps j" "filter is_syscall rest' = filter is_syscall caps" "group_clear (svc_access_mask pr') rest'" "length rest' < length caps"
        using r(2,3) False 1(3) Cons by (auto simp: grants_def group_clear_def)
      then show ?thesis using 1(1,2,4) r(1,2) by simp
    qed
  qed (simp add: ParseKernelCaps.simps grants_def)
qed

text \<open>C14: the system call mask of a process equals its reference reading: when every group of 24 calls is described at
  most once and the mask starts empty, call \<open>j\<close> is allowed after \<open>ParseKernelCaps\<close> exactly when the descriptor of group
  \<open>j div 24\<close> has bit \<open>j mod 24\<close>, whatever other descriptors surround it.\<close>
theorem syscall_mask_reference:
  assumes "page_aligned (env_PAGE_SIZE env)" "svc_access_mask pr = replicate 0x80 False"
    "distinct (map syscall_group (filter is_syscall caps))" "j < 0x80"
  shows "svc_access_mask (ParseKernelCaps env caps pr) ! j \<longleftrightarrow>
    (\<exists>d \<in> set caps. is_syscall d \<and> j div 24 = syscall_group d \<and> bit d (j mod 24))"
  using syscall_mask_spec [OF assms(1,3), of pr j] assms(2,4) by (simp add: group_clear_def grants_def)

definition some_caps :: "u32 list" where
  "some_caps = [0xFFFFFFFF, 0xFF81FF50, 0xFF81FF58, 0xF0000001, 0xF1000002, 0xFE000200]"

lemma some_caps_simps:
  "filter is_syscall some_caps = [0xF0000001, 0xF1000002]" "syscall_group 0xF0000001 = 0" "syscall_group 0xF1000002 = 1"
  by (simp_all add: some_caps_def is_syscall_def syscall_group_def)

theorem syscall_mask_reference_witness:
  "svc_access_mask (ParseKernelCaps demo_env some_caps demo_process) ! 25 \<and> \<not> svc_access_mask (ParseKernelCaps demo_env some_caps demo_process) ! 24"
proof -
  have p: "page_aligned (env_PAGE_SIZE demo_env)" by (simp add: demo_env_def page_aligned_def)
  have m: "svc_access_mask demo_process = replicate 0x80 False" by (simp add: demo_process_def)
  have d: "distinct (map syscall_group (filter is_syscall some_caps))" by (simp add: some_caps_simps)
  have s: "(\<exists>d \<in> set some_caps. is_syscall d \<and> P d) \<longleftrightarrow> P 0xF0000001 \<or> P 0xF1000002" for P
  proof -
    have "{d \<in> set some_caps. is_syscall d} = {0xF0000001, 0xF1000002}"
      using arg_cong [OF some_caps_simps(1), of set] by simp
    moreover have "(\<exists>d \<in> set some_caps. is_syscall d \<and> P d) \<longleftrightarrow> (\<exists>d \<in> {d \<in> set some_caps. is_syscall d}. P d)" by blast
    ultimately show ?thesis by simp
  qed
  show ?thesis
    using syscall_mask_reference [OF p m d, of 25] syscall_mask_reference [OF p m d, of 24]
    unfolding s by (simp add: some_caps_simps)
qed

text \<open>C15: whatever descriptors an executable carries, parsing them leaves the process well typed: the mask keeps its 128 bits,
  there are at most eight address mappings, each starting and ending on a page, and the handle table size fits its field.\<close>
theorem kernel_caps_wellformed:
  assumes "page_aligned (env_PAGE_SIZE env)" "caps_ok pr"
  shows "caps_ok (ParseKernelCaps env caps pr)"
  by (rule ParseKernelCaps_ok [OF assms])

theorem kernel_caps_wellformed_witness: "caps_ok (ParseKernelCaps demo_env some_caps demo_process)"
  by (rule kernel_caps_wellformed) (simp_all add: demo_env_def page_aligned_def caps_ok_def demo_process_def)

end
