(* ===== verification/Process_TLS.thy ===== *)
theory Process_TLS
  imports Process_Heap
begin

text \<open>
  Thread-local storage of a process: pages of eight slots, the first free one in page order, and a new page of the \<open>BASE\<close>
  region when all are in use.
\<close>

subsection \<open>Thread-local storage\<close>

definition tls_ok :: "bool list list \<Rightarrow> bool" where
  "tls_ok slots \<longleftrightarrow> (\<forall>s \<in> set slots. length s = 8)"

definition tls_used :: "bool list list \<Rightarrow> (nat \<times> nat) set" where
  "tls_used slots = {(pg, sl). pg < length slots \<and> sl < length (slots ! pg) \<and> slots ! pg ! sl}"

lemma takeWhile_first: "\<not> list_all id s \<Longrightarrow> length (takeWhile id s) < length s \<and> \<not> s ! length (takeWhile id s) \<and> (\<forall>j < length (takeWhile id s). s ! j)"
  by (induction s) (auto simp: less_Suc_eq_0_disj split: if_splits)

lemma find_tls_spec:
  "case find_tls n slots of
     None \<Rightarrow> (\<forall>s \<in> set slots. list_all id s)
   | Some (pg, sl) \<Rightarrow> n \<le> pg \<and> pg - n < length slots \<and> sl < length (slots ! (pg - n)) \<and> \<not> slots ! (pg - n) ! sl \<and>
       (\<forall>j < sl. slots ! (pg - n) ! j) \<and> (\<forall>i < pg - n. list_all id (slots ! i))"
proof (induction n slots rule: find_tls.induct)
  case (2 n s rest)
  show ?case
  proof (cases "list_all id s")
    case False
    then show ?thesis using takeWhile_first [OF False] by simp
  next
    case True
    note IH = 2 [simplified True, simplified]
    show ?thesis
    proof (cases "find_tls (n + 1) rest")
      case (Some x)
      obtain pg sl where x: "x = (pg, sl)" by fastforce
      have f: "Suc n \<le> pg" "pg - Suc n < length rest" "sl < length (rest ! (pg - Suc n))" "\<not> rest ! (pg - Suc n) ! sl"
        "\<forall>j < sl. rest ! (pg - Suc n) ! j" "\<forall>i < pg - Suc n. list_all id (rest ! i)"
        using IH Some x by simp_all
      have "pg - n = Suc (pg - Suc n)" using f(1) by simp
      then show ?thesis using f True Some x by (auto simp: less_Suc_eq_0_disj)
    qed (use IH True in simp)
  qed
qed simp

lemma mark_tls_used:
  assumes "pg < length slots" "sl < length (slots ! pg)"
  shows "tls_used (mark_tls pg sl slots) = insert (pg, sl) (tls_used slots)"
  using assms by (auto simp: tls_used_def mark_tls_def nth_list_update split: if_splits)

lemma mark_tls_ok: "tls_ok slots \<Longrightarrow> tls_ok (mark_tls pg sl slots)"
  unfolding tls_ok_def mark_tls_def
  by (cases "pg < length slots") (auto simp: list_update_beyond dest!: set_update_subset_insert [THEN subsetD])

lemma tls_used_new_page: "tls_used (slots @ [replicate 8 False]) = tls_used slots"
  by (auto simp: tls_used_def nth_append split: if_splits)

lemma tls_first:
  assumes "tls_ok slots" "find_tls 0 slots = Some (pg, sl)"
  shows "pg < length slots" "sl < length (slots ! pg)" "sl < 8" "(pg, sl) \<notin> tls_used slots"
    "\<And>i j. i < pg \<and> j < 8 \<or> i = pg \<and> j < sl \<Longrightarrow> (i, j) \<in> tls_used slots"
proof -
  have f: "pg < length slots" "sl < length (slots ! pg)" "\<not> slots ! pg ! sl" "\<forall>j < sl. slots ! pg ! j" "\<forall>i < pg. list_all id (slots ! i)"
    using find_tls_spec [where n = 0 and slots = slots] assms(2) by simp_all
  have len: "length (slots ! i) = 8" if "i < length slots" for i using assms(1) that by (simp add: tls_ok_def)
  show "pg < length slots" "sl < length (slots ! pg)" "sl < 8" "(pg, sl) \<notin> tls_used slots" using f len by (auto simp: tls_used_def)
  show "(i, j) \<in> tls_used slots" if "i < pg \<and> j < 8 \<or> i = pg \<and> j < sl" for i j
    using that f len [of i] by (auto simp: tls_used_def list_all_length)
qed

lemma tls_all_used:
  assumes "tls_ok slots" "find_tls 0 slots = None"
  shows "tls_used slots = {(i, j). i < length slots \<and> j < 8}"
  using find_tls_spec [where n = 0 and slots = slots] assms by (auto simp: tls_used_def tls_ok_def list_all_length)

definition tls_page_addr :: "MemEnv \<Rightarrow> bool list list \<Rightarrow> VAddr" where
  "tls_page_addr env slots = TLS_AREA_VADDR env + of_nat (length slots) * 0x1000"

lemma new_tls_page_ok:
  assumes f: "fcram_ok B fc env" and vm: "vm_inv B (vm_manager (procs k p))" "\<not> vm_locked (vm_manager (procs k p))"
    and base: "region_inv (regions k MR_BASE)" "\<not> is_locked (regions k MR_BASE)"
      "unat (region_base (regions k MR_BASE)) + unat (region_size (regions k MR_BASE)) \<le> unat (bm_size fc)"
    and al: "page_aligned (tls_page_addr env (tls_slots (procs k p)))"
    and v: "free_for (vma_map (vm_manager (procs k p))) (tls_page_addr env (tls_slots (procs k p))) 0x1000 v"
  shows "if \<forall>b \<in> set (free_blocks (regions k MR_BASE)). IntervalSize b < 0x1000
    then new_tls_page env p k = Some (Inl ResultOutOfMemory)
    else \<exists>off k1. new_tls_page env p k = Some (Inr k1) \<and>
      vm_view (vma_map (vm_manager (procs k1 p))) = (\<lambda>a. if in_range (tls_page_addr env (tls_slots (procs k p))) 0x1000 a
        then Some (VMAType_BackingMemory, VMAPermission_ReadWrite, MS_Locked,
          Some (host_of fc off + ucast (a - tls_page_addr env (tls_slots (procs k p)))))
        else vm_view (vma_map (vm_manager (procs k p))) a) \<and>
      {off ..< off + 0x1000} \<subseteq> addrs (free_blocks (regions k MR_BASE)) \<and>
      addrs (free_blocks (regions k1 MR_BASE)) = addrs (free_blocks (regions k MR_BASE)) - {off ..< off + 0x1000} \<and>
      holding_tls_memory (procs k1 p) = InsertMerge (holding_tls_memory (procs k p)) (Interval off (off + 0x1000)) \<and>
      memory_used (procs k1 p) = memory_used (procs k p) + 0x1000 \<and>
      tls_slots (procs k1 p) = tls_slots (procs k p) @ [replicate 8 False] \<and> host_calls k1 = host_calls k"
proof -
  let ?t = "tls_page_addr env (tls_slots (procs k p))" and ?vm = "vm_manager (procs k p)"
  have e: "env_PAGE_SIZE env = 0x1000" "env_PAGE_MASK env = 0xFFF" using f by (simp_all add: fcram_ok_def)
  have s: "(0 :: u32) < 0x1000" by simp
  show ?thesis
  proof (rule LinearAllocate_cases [OF base(1,2) s], goal_cases)
    case 1
    then show ?thesis by (simp add: new_tls_page_def e Let_def)
  next
    case (2 off reg)
    note r = free_page_ref [OF f base(1,3) 2(3,4) s]
    obtain pre post where m: "vma_map ?vm = pre @ v # post" using v by (auto simp: free_for_def in_set_conv_decomp)
    have c: "covers v ?t" using v by (simp add: free_for_def covers_def)
    obtain it vm' where vm': "MapBackingMemory 0xFFF ?vm ?t (GetFCRAMRef env off) 0x1000 MS_Locked = Some (Inr it, vm')"
      "\<And>a. vm_view (vma_map vm') a = (if in_range ?t 0x1000 a
         then Some (VMAType_BackingMemory, VMAPermission_ReadWrite, MS_Locked, Some (cptr (GetFCRAMRef env off) + ucast (a - ?t)))
         else vm_view (vma_map ?vm) a)"
      by (rule MapBackingMemory_area [OF fcram_okD(1) [OF f] vm r(1) _ al [unfolded page_aligned_def] s m c, of MS_Locked])
        (use v in \<open>simp_all add: free_for_def\<close>)
    let ?k = "upd_region MR_BASE reg (upd_proc p (\<lambda>pr. pr\<lparr>vm_manager := vm',
        holding_tls_memory := InsertMerge (holding_tls_memory pr) (Interval off (off + 0x1000)),
        memory_used := memory_used pr + 0x1000, tls_slots := tls_slots pr @ [replicate 8 False]\<rparr>) k)"
    have run: "new_tls_page env p k = Some (Inr ?k)"
      using 2(1) vm'(1) by (simp add: new_tls_page_def e Let_def tls_page_addr_def)
    show ?thesis unfolding if_not_P [OF 2(2)]
      by (intro exI [of _ off] exI [of _ ?k] conjI run) (use vm'(2) 2(4,6) r(2) in \<open>simp_all add: upd_defs fun_eq_iff\<close>)
  qed
qed

text \<open>C13: \<open>AllocateThreadLocalStorage\<close> hands out the first unused slot in page order and never one in use.  When every
  slot of every page is used it maps one more page of the \<open>BASE\<close> region behind the others, charges it to the process and
  starts it empty; only when that region has no page left does the call fail, changing nothing.  The slot it returns is
  zeroed, and no other slot changes.\<close>
theorem allocate_tls_takes_first_free_slot:
  assumes "fcram_ok B fc env" "vm_inv B (vm_manager (procs k p))" "\<not> vm_locked (vm_manager (procs k p))"
    "region_inv (regions k MR_BASE)" "\<not> is_locked (regions k MR_BASE)"
    "unat (region_base (regions k MR_BASE)) + unat (region_size (regions k MR_BASE)) \<le> unat (bm_size fc)"
    "page_aligned (tls_page_addr env (tls_slots (procs k p)))"
    "free_for (vma_map (vm_manager (procs k p))) (tls_page_addr env (tls_slots (procs k p))) 0x1000 v" "tls_ok (tls_slots (procs k p))"
  shows "if tls_used (tls_slots (procs k p)) = {(i, j). i < length (tls_slots (procs k p)) \<and> j < 8} \<and>
      (\<forall>b \<in> set (free_blocks (regions k MR_BASE)). IntervalSize b < 0x1000)
    then AllocateThreadLocalStorage env p k = Some (Inl ResultOutOfMemory, k)
    else \<exists>pg sl k'. AllocateThreadLocalStorage env p k = Some (Inr (tls_address env pg sl), k') \<and>
      sl < 8 \<and> (pg, sl) \<notin> tls_used (tls_slots (procs k p)) \<and>
      tls_used (tls_slots (procs k' p)) = insert (pg, sl) (tls_used (tls_slots (procs k p))) \<and>
      (\<forall>i j. i < pg \<and> j < 8 \<or> i = pg \<and> j < sl \<longrightarrow> (i, j) \<in> tls_used (tls_slots (procs k p))) \<and>
      tls_ok (tls_slots (procs k' p)) \<and> host_calls k' = host_calls k @ [ZeroBlock p (tls_address env pg sl) (TLS_ENTRY_SIZE env)] \<and>
      (if pg < length (tls_slots (procs k p))
       then vm_manager (procs k' p) = vm_manager (procs k p) \<and> regions k' = regions k \<and> memory_used (procs k' p) = memory_used (procs k p)
       else memory_used (procs k' p) = memory_used (procs k p) + 0x1000 \<and> (\<exists>off. {off ..< off + 0x1000} \<subseteq> addrs (free_blocks (regions k MR_BASE)) \<and>
         addrs (free_blocks (regions k' MR_BASE)) = addrs (free_blocks (regions k MR_BASE)) - {off ..< off + 0x1000} \<and>
         vm_view (vma_map (vm_manager (procs k' p))) = (\<lambda>a. if in_range (tls_page_addr env (tls_slots (procs k p))) 0x1000 a
           then Some (VMAType_BackingMemory, VMAPermission_ReadWrite, MS_Locked,
             Some (host_of fc off + ucast (a - tls_page_addr env (tls_slots (procs k p)))))
           else vm_view (vma_map (vm_manager (procs k p))) a)))"
proof (cases "find_tls 0 (tls_slots (procs k p))")
  case (Some x)
  obtain pg sl where x: "x = (pg, sl)" by fastforce
  note t = tls_first [OF assms(9) Some [unfolded x]]
  have "(pg, sl) \<in> {(i, j). i < length (tls_slots (procs k p)) \<and> j < 8}" using t(1,3) by simp
  then have ne: "tls_used (tls_slots (procs k p)) \<noteq> {(i, j). i < length (tls_slots (procs k p)) \<and> j < 8}" using t(4) by metis
  let ?k = "host_call [ZeroBlock p (tls_address env pg sl) (TLS_ENTRY_SIZE env)]
    (upd_proc p (\<lambda>pr. pr\<lparr>tls_slots := mark_tls pg sl (tls_slots pr)\<rparr>) k)"
  have run: "AllocateThreadLocalStorage env p k = Some (Inr (tls_address env pg sl), ?k)"
    using Some x by (simp add: AllocateThreadLocalStorage_def Let_def)
  have c: "\<not> (tls_used (tls_slots (procs k p)) = {(i, j). i < length (tls_slots (procs k p)) \<and> j < 8} \<and>
      (\<forall>b \<in> set (free_blocks (regions k MR_BASE)). IntervalSize b < 0x1000))" using ne by blast
  show ?thesis unfolding if_not_P [OF c]
    by (intro exI [of _ pg] exI [of _ sl] exI [of _ ?k] conjI run)
      (use t mark_tls_used [OF t(1,2)] mark_tls_ok [OF assms(9)] in \<open>simp_all add: upd_defs\<close>)
next
  case None
  note all = tls_all_used [OF assms(9) None]
  note np = new_tls_page_ok [OF assms(1-8)]
  show ?thesis
  proof (cases "\<forall>b \<in> set (free_blocks (regions k MR_BASE)). IntervalSize b < 0x1000")
    case True
    then show ?thesis using np None all by (simp add: AllocateThreadLocalStorage_def Let_def)
  next
    case False
    let ?n = "length (tls_slots (procs k p))"
    obtain off k1 where k1: "new_tls_page env p k = Some (Inr k1)"
      "vm_view (vma_map (vm_manager (procs k1 p))) = (\<lambda>a. if in_range (tls_page_addr env (tls_slots (procs k p))) 0x1000 a
        then Some (VMAType_BackingMemory, VMAPermission_ReadWrite, MS_Locked,
          Some (host_of fc off + ucast (a - tls_page_addr env (tls_slots (procs k p)))))
        else vm_view (vma_map (vm_manager (procs k p))) a)"
      "{off ..< off + 0x1000} \<subseteq> addrs (free_blocks (regions k MR_BASE))"
      "addrs (free_blocks (regions k1 MR_BASE)) = addrs (free_blocks (regions k MR_BASE)) - {off ..< off + 0x1000}"
      "memory_used (procs k1 p) = memory_used (procs k p) + 0x1000"
      "tls_slots (procs k1 p) = tls_slots (procs k p) @ [replicate 8 False]" "host_calls k1 = host_calls k"
      using np unfolding if_not_P [OF False] by blast
    let ?k = "host_call [ZeroBlock p (tls_address env ?n 0) (TLS_ENTRY_SIZE env)]
      (upd_proc p (\<lambda>pr. pr\<lparr>tls_slots := mark_tls ?n 0 (tls_slots pr)\<rparr>) k1)"
    have run: "AllocateThreadLocalStorage env p k = Some (Inr (tls_address env ?n 0), ?k)"
      using None k1(1) by (simp add: AllocateThreadLocalStorage_def Let_def)
    have u: "tls_used (mark_tls ?n 0 (tls_slots (procs k1 p))) = insert (?n, 0) (tls_used (tls_slots (procs k p)))"
      unfolding k1(6) by (subst mark_tls_used) (simp_all add: tls_used_new_page)
    have "tls_ok (tls_slots (procs k1 p))" using assms(9) k1(6) by (auto simp: tls_ok_def)
    note ok = mark_tls_ok [OF this, of ?n 0]
    have c: "\<not> (tls_used (tls_slots (procs k p)) = {(i, j). i < ?n \<and> j < 8} \<and> (\<forall>b \<in> set (free_blocks (regions k MR_BASE)). IntervalSize b < 0x1000))"
      using False by blast
    have proj: "tls_slots (procs ?k p) = mark_tls ?n 0 (tls_slots (procs k1 p))" "vm_manager (procs ?k p) = vm_manager (procs k1 p)"
      "regions ?k = regions k1" "memory_used (procs ?k p) = memory_used (procs k1 p)"
      "host_calls ?k = host_calls k @ [ZeroBlock p (tls_address env ?n 0) (TLS_ENTRY_SIZE env)]"
      using k1(7) by (simp_all add: upd_defs)
    have slot: "(?n, 0) \<notin> tls_used (tls_slots (procs k p))"
      "\<forall>i j. i < ?n \<and> j < 8 \<or> i = ?n \<and> j < 0 \<longrightarrow> (i, j) \<in> tls_used (tls_slots (procs k p))"
      by (simp_all add: all)
    have n: "\<not> ?n < ?n" by simp
    show ?thesis unfolding if_not_P [OF c]
      by (intro exI [of _ ?n] exI [of _ "0 :: nat"] exI [of _ ?k] conjI run, unfold if_not_P [OF n] proj)
        (rule zero_less_numeral slot u ok HOL.refl | intro conjI exI [of _ off], (rule k1)+)+
  qed
qed

theorem allocate_tls_takes_first_free_slot_witness:
  "\<exists>pg sl k'. AllocateThreadLocalStorage demo_env 0 demo_kernel = Some (Inr (tls_address demo_env pg sl), k') \<and>
    tls_used (tls_slots (procs k' 0)) = {(pg, sl)}"
proof -
  note P = proc_okD [OF demo_kernel_ok [of 0]]
  have s: "tls_slots (procs demo_kernel 0) = []" by (simp add: demo_kernel_def demo_process_def)
  have b: "region_inv (regions demo_kernel MR_BASE)" "\<not> is_locked (regions demo_kernel MR_BASE)"
    "unat (region_base (regions demo_kernel MR_BASE)) + unat (region_size (regions demo_kernel MR_BASE)) \<le> unat (bm_size test_mem)"
    using P(6,7,9) by (simp_all add: demo_regions)
  have a: "page_aligned (tls_page_addr demo_env (tls_slots (procs demo_kernel 0)))"
    by (simp add: tls_page_addr_def s demo_env_def page_aligned_def)
  have v: "free_for (vma_map (vm_manager (procs demo_kernel 0))) (tls_page_addr demo_env (tls_slots (procs demo_kernel 0))) 0x1000 initial_vma"
    by (simp add: free_for_def tls_page_addr_def s demo_env_def) (simp add: demo_kernel_def demo_process_def fresh_vm_def initial_vma_def MAX_ADDRESS_def)
  have u: "tls_used [] = {}" "tls_ok []" by (simp_all add: tls_used_def tls_ok_def)
  have f: "\<not> (\<forall>b \<in> set (free_blocks (regions demo_kernel MR_BASE)). IntervalSize b < 0x1000)"
    by (simp add: demo_regions demo_region_def IntervalSize_def)
  from allocate_tls_takes_first_free_slot [OF demo_env_ok P(4,5) b a v] f u show ?thesis by (auto simp: s)
qed

end
