(* ===== verification/Shared_Memory.thy ===== *)
theory Shared_Memory
  imports Process_Heap
begin

text \<open>
  Shared memory blocks, \<^verbatim>\<open>src/core/hle/kernel/shared_memory.cpp\<close>, and the supervisor call on memory,
  \<open>ControlMemory\<close> of \<^verbatim>\<open>svc.cpp\<close>, over the processes and regions of \<^verbatim>\<open>Process_Memory\<close>.

  The weak pointer to the owner of a block is its number; whether the owner is still there when the pointer is locked is
  the argument \<open>alive\<close>.  A write through \<open>out_addr\<close> is an optional word of the result.
\<close>

subsection \<open>Blocks\<close>

type_synonym MemoryPermission = u32

definition MP_None :: MemoryPermission where "MP_None = 0"
definition MP_Read :: MemoryPermission where "MP_Read = 1"
definition MP_Write :: MemoryPermission where "MP_Write = 2"
definition MP_ReadWrite :: MemoryPermission where "MP_ReadWrite = 3"
definition MP_Execute :: MemoryPermission where "MP_Execute = 4"
definition MP_ReadExecute :: MemoryPermission where "MP_ReadExecute = 5"
definition MP_WriteExecute :: MemoryPermission where "MP_WriteExecute = 6"
definition MP_ReadWriteExecute :: MemoryPermission where "MP_ReadWriteExecute = 7"
definition MP_DontCare :: MemoryPermission where "MP_DontCare = 0x10000000"

record SharedMemory =
  sm_linear_heap_phys_offset :: u32
  sm_backing_blocks :: "(MemoryRef \<times> u32) list"
  sm_size :: u32
  sm_memory_region :: MemoryRegion
  sm_permissions :: MemoryPermission
  sm_other_permissions :: MemoryPermission
  sm_owner_process :: "nat option"
  sm_base_address :: VAddr
  sm_holding_memory :: IntervalSet

definition ConvertPermissions :: "MemoryPermission \<Rightarrow> VMAPermission" where
  "ConvertPermissions permission = ucast (permission AND MP_ReadWriteExecute)"

definition lock_owner :: "(nat \<Rightarrow> bool) \<Rightarrow> SharedMemory \<Rightarrow> nat option" where
  "lock_owner alive sm = (case sm_owner_process sm of Some p \<Rightarrow> if alive p then Some p else None | None \<Rightarrow> None)"

definition SharedMemory_destroy :: "(nat \<Rightarrow> bool) \<Rightarrow> MemEnv \<Rightarrow> SharedMemory \<Rightarrow> MemKernel \<Rightarrow> MemKernel option" where
  "SharedMemory_destroy alive env sm k = do {
     (reg, _) \<leftarrow> free_held (sm_holding_memory sm) (regions k (sm_memory_region sm)) 0;
     let k1 = upd_region (sm_memory_region sm) reg k;
     (case lock_owner alive sm of
        None \<Rightarrow> Some k1
      | Some p \<Rightarrow> do {
          l \<leftarrow> resource_limit (procs k1 p);
          (_, lim) \<leftarrow> Release (limits k1 l) RLT_SharedMemory 1;
          let k2 = upd_limit l lim k1;
          if sm_base_address sm \<noteq> 0
          then do {
            (_, vm) \<leftarrow> ChangeMemoryState (env_PAGE_MASK env) (vm_manager (procs k2 p)) (sm_base_address sm) (sm_size sm) MS_Locked VMAPermission_None
              MS_Private VMAPermission_ReadWrite;
            Some (set_vm p vm k2)
          }
          else Some (upd_proc p (\<lambda>pr. pr\<lparr>memory_used := memory_used pr - sm_size sm\<rparr>) k2)
        })
   }"

text \<open>A creation that fails drops the block it had begun to fill in, and its destructor runs: the owner and the size are set,
  the base address is still zero.\<close>

definition CreateSharedMemory ::
  "MemEnv \<Rightarrow> nat option \<Rightarrow> u32 \<Rightarrow> MemoryPermission \<Rightarrow> MemoryPermission \<Rightarrow> VAddr \<Rightarrow> MemoryRegion \<Rightarrow> MemKernel \<Rightarrow>
     (SharedMemory ResultVal \<times> MemKernel) option" where
  "CreateSharedMemory env owner_process sz perms other_perms address region k =
     (if address = 0
      then do {
        (offset, reg) \<leftarrow> LinearAllocate (regions k region) sz;
        off \<leftarrow> offset;
        let k1 = host_call [FillFCRAM off (off + sz)] (upd_region region reg k);
        let k2 = (case owner_process of Some p \<Rightarrow> upd_proc p (\<lambda>pr. pr\<lparr>memory_used := memory_used pr + sz\<rparr>) k1 | None \<Rightarrow> k1);
        Some (Inr \<lparr>sm_linear_heap_phys_offset = off, sm_backing_blocks = [(GetFCRAMRef env off, sz)], sm_size = sz,
          sm_memory_region = region, sm_permissions = perms, sm_other_permissions = other_perms, sm_owner_process = owner_process,
          sm_base_address = address, sm_holding_memory = InsertMerge [] (Interval off (off + sz))\<rparr>, k2)
      }
      else do {
        p \<leftarrow> owner_process;
        (r, vm) \<leftarrow> ChangeMemoryState (env_PAGE_MASK env) (vm_manager (procs k p)) address sz MS_Private VMAPermission_ReadWrite
          MS_Locked (ConvertPermissions perms);
        if IsError r
        then do {
          k1 \<leftarrow> SharedMemory_destroy (\<lambda>_. True) env \<lparr>sm_linear_heap_phys_offset = 0, sm_backing_blocks = [], sm_size = sz, sm_memory_region = region,
            sm_permissions = perms, sm_other_permissions = other_perms, sm_owner_process = owner_process, sm_base_address = 0,
            sm_holding_memory = []\<rparr> (set_vm p vm k);
          Some (Inl r, k1)
        }
        else do {
          blocks \<leftarrow> GetBackingBlocksForRange vm address sz;
          (case blocks of
             Inl e \<Rightarrow> None
           | Inr bs \<Rightarrow> Some (Inr \<lparr>sm_linear_heap_phys_offset = 0, sm_backing_blocks = bs, sm_size = sz, sm_memory_region = region,
               sm_permissions = perms, sm_other_permissions = other_perms, sm_owner_process = owner_process,
               sm_base_address = address, sm_holding_memory = []\<rparr>, set_vm p vm k))
        }
      })"

definition CreateSharedMemoryForApplet ::
  "MemEnv \<Rightarrow> u32 \<Rightarrow> u32 \<Rightarrow> MemoryPermission \<Rightarrow> MemoryPermission \<Rightarrow> MemKernel \<Rightarrow> (SharedMemory \<times> MemKernel) option" where
  "CreateSharedMemoryForApplet env offset sz perms other_perms k = do {
     (backing, reg) \<leftarrow> HeapAllocate (regions k MR_SYSTEM) sz;
     _ \<leftarrow> ASSERT (backing \<noteq> []);
     Some (\<lparr>sm_linear_heap_phys_offset = 0, sm_backing_blocks = fcram_blocks env backing, sm_size = sz, sm_memory_region = MR_SYSTEM,
        sm_permissions = perms, sm_other_permissions = other_perms, sm_owner_process = None,
        sm_base_address = HEAP_VADDR + offset, sm_holding_memory = backing\<rparr>,
       host_call (map (\<lambda>i. FillFCRAM (lower i) (upper i)) backing) (upd_region MR_SYSTEM reg k))
   }"

definition SharedMemory_Map ::
  "(nat \<Rightarrow> bool) \<Rightarrow> MemEnv \<Rightarrow> SharedMemory \<Rightarrow> nat \<Rightarrow> VAddr \<Rightarrow> MemoryPermission \<Rightarrow> MemoryPermission \<Rightarrow> MemKernel \<Rightarrow> (Result \<times> MemKernel) option" where
  "SharedMemory_Map alive env sm target_process address perms other_perms k =
     (let own_other_permissions = (if Some target_process = lock_owner alive sm then sm_permissions sm else sm_other_permissions sm) in
      if sm_base_address sm = 0 \<and> other_perms \<noteq> MP_DontCare then Some (ResultInvalidCombination, k)
      else if perms AND NOT own_other_permissions \<noteq> 0 then Some (ResultInvalidCombination, k)
      else if sm_base_address sm \<noteq> 0 \<and> other_perms = MP_DontCare then Some (ResultInvalidCombination, k)
      else if other_perms \<noteq> MP_DontCare \<and> sm_permissions sm AND NOT other_perms \<noteq> 0 then Some (ResultWrongPermission, k)
      else if address \<noteq> 0 \<and> (address < HEAP_VADDR \<or> address + sm_size sm \<ge> SHARED_MEMORY_VADDR_END) then Some (ResultInvalidAddress, k)
      else do {
        let target_address = (if sm_base_address sm = 0 \<and> address = 0 then sm_linear_heap_phys_offset sm + LINEAR_HEAP_VADDR env else address);
        busy \<leftarrow> already_allocated (vma_map (vm_manager (procs k target_process))) target_address (sm_size sm);
        if busy then Some (ResultInvalidAddressState, k)
        else do {
          vm \<leftarrow> map_blocks (env_PAGE_MASK env) (ConvertPermissions perms) MS_Shared (sm_backing_blocks sm) target_address
            (vm_manager (procs k target_process));
          Some (ResultSuccess, set_vm target_process vm k)
        }
      })"

definition SharedMemory_Unmap :: "MemEnv \<Rightarrow> SharedMemory \<Rightarrow> nat \<Rightarrow> VAddr \<Rightarrow> MemKernel \<Rightarrow> (Result \<times> MemKernel) option" where
  "SharedMemory_Unmap env sm target_process address k = do {
     (r, vm) \<leftarrow> UnmapRange (env_PAGE_MASK env) (vm_manager (procs k target_process)) address (sm_size sm);
     Some (r, set_vm target_process vm k)
   }"

subsection \<open>The supervisor call\<close>

definition MEMOP_FREE :: u32 where "MEMOP_FREE = 1"
definition MEMOP_COMMIT :: u32 where "MEMOP_COMMIT = 3"
definition MEMOP_MAP :: u32 where "MEMOP_MAP = 4"
definition MEMOP_UNMAP :: u32 where "MEMOP_UNMAP = 5"
definition MEMOP_PROTECT :: u32 where "MEMOP_PROTECT = 6"
definition MEMOP_OPERATION_MASK :: u32 where "MEMOP_OPERATION_MASK = 0xFF"
definition MEMOP_REGION_MASK :: u32 where "MEMOP_REGION_MASK = 0xF00"
definition MEMOP_LINEAR :: u32 where "MEMOP_LINEAR = 0x10000"

lemmas memop_defs = MEMOP_FREE_def MEMOP_COMMIT_def MEMOP_MAP_def MEMOP_UNMAP_def MEMOP_PROTECT_def MEMOP_OPERATION_MASK_def
  MEMOP_REGION_MASK_def MEMOP_LINEAR_def

type_synonym SvcMemory = "((Result \<times> VAddr option) \<times> MemKernel) option"

definition with_out :: "(VAddr ResultVal \<times> MemKernel) option \<Rightarrow> SvcMemory" where
  "with_out m = do { (r, k) \<leftarrow> m; Some (case r of Inl e \<Rightarrow> ((e, None), k) | Inr a \<Rightarrow> ((ResultSuccess, Some a), k)) }"

definition without_out :: "(Result \<times> MemKernel) option \<Rightarrow> SvcMemory" where
  "without_out m = do { (r, k) \<leftarrow> m; Some ((r, None), k) }"

definition memop_free :: "MemEnv \<Rightarrow> nat \<Rightarrow> u32 \<Rightarrow> u32 \<Rightarrow> MemKernel \<Rightarrow> SvcMemory" where
  "memop_free env p addr0 sz k = do {
     (r, k1) \<leftarrow> (if addr0 \<ge> HEAP_VADDR \<and> addr0 < HEAP_VADDR_END then Process_HeapFree env p addr0 sz k
       else do {
         base \<leftarrow> GetLinearHeapBase env k (procs k p);
         limit \<leftarrow> GetLinearHeapLimit env k (procs k p);
         if addr0 \<ge> base \<and> addr0 < limit then Process_LinearFree env p addr0 sz k else Some (ResultInvalidAddress, k)
       });
     Some (if IsError r then ((r, None), k1) else ((ResultSuccess, Some addr0), k1))
   }"

definition svc_ControlMemory :: "MemEnv \<Rightarrow> nat \<Rightarrow> u32 \<Rightarrow> u32 \<Rightarrow> u32 \<Rightarrow> u32 \<Rightarrow> u32 \<Rightarrow> MemKernel \<Rightarrow> SvcMemory" where
  "svc_ControlMemory env p addr0 addr1 sz operation perms k =
     (if addr0 AND env_PAGE_MASK env \<noteq> 0 then Some ((ResultMisalignedAddress, None), k)
      else if addr1 AND env_PAGE_MASK env \<noteq> 0 then Some ((ResultMisalignedAddress, None), k)
      else if sz AND env_PAGE_MASK env \<noteq> 0 then Some ((ResultMisalignedSize, None), k)
      else
        let operation1 = operation AND NOT MEMOP_REGION_MASK; vma_permissions = ucast perms; op = operation1 AND MEMOP_OPERATION_MASK in
        if perms AND MP_ReadWrite \<noteq> perms then Some ((ResultInvalidCombination, None), k)
        else if op = MEMOP_FREE then memop_free env p addr0 sz k
        else if op = MEMOP_COMMIT
        then if operation1 AND MEMOP_LINEAR \<noteq> 0 then with_out (Process_LinearAllocate env p addr0 sz vma_permissions k)
             else with_out (Process_HeapAllocate env p addr0 sz vma_permissions MS_Private False k)
        else if op = MEMOP_MAP then without_out (Process_Map env p addr0 addr1 sz vma_permissions False k)
        else if op = MEMOP_UNMAP then without_out (Process_Unmap env p addr0 addr1 sz vma_permissions False k)
        else if op = MEMOP_PROTECT
        then without_out (do {
          (r, vm) \<leftarrow> ReprotectRange (env_PAGE_MASK env) (vm_manager (procs k p)) addr0 sz vma_permissions;
          Some (r, set_vm p vm k) })
        else Some ((ResultInvalidCombination, None), k))"

subsection \<open>Facts\<close>

lemma InsertMerge_Nil [simp]: "InsertMerge [] i = [i]"
  by (simp add: InsertMerge_def lower_bound_def insort_insert_key_def)

lemma Convert_ReadWrite [simp]: "ConvertPermissions MP_ReadWrite = VMAPermission_ReadWrite"
  by (simp add: ConvertPermissions_def MP_ReadWrite_def MP_ReadWriteExecute_def VMAPermission_ReadWrite_def)

definition count_after :: "int \<Rightarrow> ResourceLimit \<Rightarrow> ResourceLimit" where
  "count_after d rl = rl\<lparr>m_current_values := (m_current_values rl)[unat RLT_SharedMemory := m_current_values rl ! unat RLT_SharedMemory + d]\<rparr>"

lemma Release_count:
  "rl_ok rl \<Longrightarrow> s32_range (m_current_values rl ! unat RLT_SharedMemory - 1) \<Longrightarrow> Release rl RLT_SharedMemory 1 = Some (True, count_after (- 1) rl)"
  using Release_spec [of rl RLT_SharedMemory 1] by (simp add: count_after_def rlt_defs RLT_Max_def)

definition block_ready :: "BackingMem set \<Rightarrow> BackingMem \<Rightarrow> MemEnv \<Rightarrow> nat \<Rightarrow> nat \<Rightarrow> nat \<Rightarrow> MemoryRegion \<Rightarrow> VAddr \<Rightarrow> u32 \<Rightarrow> MemKernel \<Rightarrow> bool" where
  "block_ready B fc env p l q r address sz k \<longleftrightarrow> fcram_ok B fc env \<and>
     region_inv (regions k r) \<and> \<not> is_locked (regions k r) \<and> unat (region_base (regions k r)) + unat (region_size (regions k r)) \<le> unat (bm_size fc) \<and>
     \<not> (\<forall>b \<in> set (free_blocks (regions k r)). IntervalSize b < sz) \<and> page_aligned sz \<and> 0 < sz \<and>
     resource_limit (procs k p) = Some l \<and> rl_ok (limits k l) \<and> s32_range (m_current_values (limits k l) ! unat RLT_SharedMemory - 1) \<and>
     vm_inv B (vm_manager (procs k q)) \<and> \<not> vm_locked (vm_manager (procs k q)) \<and>
     page_aligned address \<and> unat HEAP_VADDR \<le> unat address \<and> unat address + unat sz < unat SHARED_MEMORY_VADDR_END \<and>
     (\<exists>v. free_for (vma_map (vm_manager (procs k q))) address sz v)"

lemma block_readyD:
  assumes "block_ready B fc env p l q r address sz k"
  shows "fcram_ok B fc env" "region_inv (regions k r)" "\<not> is_locked (regions k r)"
    "unat (region_base (regions k r)) + unat (region_size (regions k r)) \<le> unat (bm_size fc)"
    "\<not> (\<forall>b \<in> set (free_blocks (regions k r)). IntervalSize b < sz)" "page_aligned sz" "0 < sz"
    "resource_limit (procs k p) = Some l" "rl_ok (limits k l)" "s32_range (m_current_values (limits k l) ! unat RLT_SharedMemory - 1)"
    "vm_inv B (vm_manager (procs k q))" "\<not> vm_locked (vm_manager (procs k q))"
    "page_aligned address" "unat HEAP_VADDR \<le> unat address" "unat address + unat sz < unat SHARED_MEMORY_VADDR_END"
    "\<exists>v. free_for (vma_map (vm_manager (procs k q))) address sz v"
  using assms by (simp_all add: block_ready_def)

lemma shared_block_mapped:
  assumes ready: "block_ready B fc env p l q r address sz k" and perms: "MP_ReadWrite AND NOT pm = 0" "MP_ReadWrite AND NOT om = 0"
  obtains sm off k1 k2 where "CreateSharedMemory env (Some p) sz pm om 0 r k = Some (Inr sm, k1)"
    "SharedMemory_Map alive env sm q address MP_ReadWrite MP_DontCare k1 = Some (ResultSuccess, k2)"
    "sm_size sm = sz" "sm_base_address sm = 0" "sm_holding_memory sm = [Interval off (off + sz)]" "sm_memory_region sm = r" "sm_owner_process sm = Some p"
    "off < off + sz" "{off ..< off + sz} \<subseteq> addrs (free_blocks (regions k r))" "region_inv (regions k2 r)" "\<not> is_locked (regions k2 r)"
    "region_range (regions k2 r) = region_range (regions k r)" "region_size (regions k2 r) = region_size (regions k r)"
    "addrs (free_blocks (regions k2 r)) = addrs (free_blocks (regions k r)) - {off ..< off + sz}" "limits k2 = limits k"
    "resource_limit (procs k2 p) = Some l" "memory_used (procs k2 p) = memory_used (procs k p) + sz"
    "vm_inv B (vm_manager (procs k2 q))" "\<not> vm_locked (vm_manager (procs k2 q))"
    "vm_view (vma_map (vm_manager (procs k2 q))) = mapped_at address (map (\<lambda>i. host_of fc off + of_nat i) [0 ..< unat sz])
       VMAPermission_ReadWrite MS_Shared (vm_view (vma_map (vm_manager (procs k q))))"
proof -
  note R = block_readyD [OF ready]
  obtain off reg where o: "LinearAllocate (regions k r) sz = Some (Some off, reg)" "off \<le> off + sz" "{off ..< off + sz} \<subseteq> addrs (free_blocks (regions k r))"
    "addrs (free_blocks reg) = addrs (free_blocks (regions k r)) - {off ..< off + sz}" "region_inv reg"
    "region_range reg = region_range (regions k r)" "\<not> is_locked reg"
    by (rule LinearAllocate_cases [OF R(2,3,7)]) (use R(5) in blast)+
  have us: "0 < unat sz" using R(7) by (simp add: word_less_nat_alt)
  have "off < off + sz" using unat_add_le [OF o(2)] us by (simp add: word_less_nat_alt)
  have rs: "region_size reg = region_size (regions k r)"
    using o(1) R(3) by (auto simp: LinearAllocate_def Let_def split: option.splits)
  note ref = free_page_ref [OF R(1,2,4) o(2,3) R(7)]
  obtain v where v: "free_for (vma_map (vm_manager (procs k q))) address sz v" using R(16) by blast
  have mok: "map_ok B (vma_map (vm_manager (procs k q)))" using R(11) by (simp add: vm_inv_def)
  note nf = free_for_not_allocated [OF mok v R(7)]
  let ?bs = "[(GetFCRAMRef env off, sz)]"
  have "\<exists>vm'. map_blocks 0xFFF VMAPermission_ReadWrite MS_Shared ?bs address (vm_manager (procs k q)) = Some vm' \<and> vm_inv B vm' \<and> \<not> vm_locked vm' \<and>
      vm_view (vma_map vm') = mapped_at address (expand ?bs) VMAPermission_ReadWrite MS_Shared (vm_view (vma_map (vm_manager (procs k q))))"
    using v R(6,7,13) ref(1)
    by (intro map_blocks_RW [OF fcram_okD(1) [OF R(1)] R(11,12), where v = v]) (auto simp: page_aligned_def free_for_def)
  then obtain vm' where vm': "map_blocks 0xFFF VMAPermission_ReadWrite MS_Shared ?bs address (vm_manager (procs k q)) = Some vm'" "vm_inv B vm'" "\<not> vm_locked vm'"
    "vm_view (vma_map vm') = mapped_at address (expand ?bs) VMAPermission_ReadWrite MS_Shared (vm_view (vma_map (vm_manager (procs k q))))" by blast
  let ?sm = "\<lparr>sm_linear_heap_phys_offset = off, sm_backing_blocks = ?bs, sm_size = sz, sm_memory_region = r, sm_permissions = pm,
    sm_other_permissions = om, sm_owner_process = Some p, sm_base_address = 0, sm_holding_memory = [Interval off (off + sz)]\<rparr>"
  let ?k1 = "upd_proc p (\<lambda>pr. pr\<lparr>memory_used := memory_used pr + sz\<rparr>) (host_call [FillFCRAM off (off + sz)] (upd_region r reg k))"
  have c: "CreateSharedMemory env (Some p) sz pm om 0 r k = Some (Inr ?sm, ?k1)" using o(1) by (simp add: CreateSharedMemory_def Let_def)
  have same: "vm_manager (procs ?k1 q) = vm_manager (procs k q)" by (simp add: upd_defs)
  have nz: "address \<noteq> 0" using R(14) by (auto simp: HEAP_VADDR_def)
  have ea: "unat (address + sz) = unat address + unat sz" using nf(2) by (intro unat_add_nowrap) simp
  have rng: "\<not> address < HEAP_VADDR" "\<not> SHARED_MEMORY_VADDR_END \<le> address + sz" using R(14,15) ea by (simp_all add: word_less_nat_alt word_le_nat_alt)
  have m: "SharedMemory_Map alive env ?sm q address MP_ReadWrite MP_DontCare ?k1 = Some (ResultSuccess, set_vm q vm' ?k1)"
    using perms nf(1) vm'(1) nz rng fcram_okD(3) [OF R(1)] by (simp add: SharedMemory_Map_def same Let_def)
  show thesis
    by (rule that [OF c m, of off])
      (use o rs R(8) vm'(2-4) ref(2) \<open>off < off + sz\<close> in \<open>auto simp: upd_defs expand_Cons expand_def\<close>)
qed

lemma destroy_linear_block:
  assumes "sm_size sm = sz" "sm_base_address sm = 0" "sm_holding_memory sm = [Interval off (off + sz)]" "sm_memory_region sm = r" "sm_owner_process sm = Some p"
    "off < off + sz" "region_inv (regions k r)" "\<not> is_locked (regions k r)" "{off ..< off + sz} \<subseteq> region_range (regions k r)"
    "{off ..< off + sz} \<inter> addrs (free_blocks (regions k r)) = {}" "resource_limit (procs k p) = Some l" "rl_ok (limits k l)"
    "s32_range (m_current_values (limits k l) ! unat RLT_SharedMemory - 1)" "alive p"
  obtains k' where "SharedMemory_destroy alive env sm k = Some k'"
    "addrs (free_blocks (regions k' r)) = addrs (free_blocks (regions k r)) \<union> {off ..< off + sz}" "region_inv (regions k' r)"
    "region_size (regions k' r) = region_size (regions k r)" "limits k' = (limits k)(l := count_after (- 1) (limits k l))"
    "memory_used (procs k' p) = memory_used (procs k p) - sz" "\<And>q. vm_manager (procs k' q) = vm_manager (procs k q)"
proof -
  let ?i = "[Interval off (off + sz)]"
  have "ivs_ok ?i" "addrs ?i \<subseteq> region_range (regions k r)" "addrs ?i \<inter> addrs (free_blocks (regions k r)) = {}"
    using assms(6,9,10) by (simp_all add: ivl_def)
  from free_all_spec [OF assms(7,8) this] obtain reg where reg: "free_all (regions k r) ?i = Some reg" "region_inv reg"
    "addrs (free_blocks reg) = addrs (free_blocks (regions k r)) \<union> {off ..< off + sz}" "region_size reg = region_size (regions k r)"
    by (auto simp: ivl_def)
  let ?k = "upd_proc p (\<lambda>pr. pr\<lparr>memory_used := memory_used pr - sz\<rparr>) (upd_limit l (count_after (- 1) (limits k l)) (upd_region r reg k))"
  have lo: "lock_owner alive sm = Some p" using assms(5,14) by (simp add: lock_owner_def)
  have fh: "free_held (sm_holding_memory sm) (regions k r) 0 = Some (reg, 0 - IntervalSize (Interval off (off + sz)))"
    by (simp add: assms(3) free_held_eq reg(1) del: free_all.simps)
  have "SharedMemory_destroy alive env sm k = Some ?k"
    using assms(1,2,4,11) fh lo Release_count [OF assms(12,13)]
    by (simp add: SharedMemory_destroy_def Let_def upd_region_def)
  then show thesis by (rule that) (use reg in \<open>simp_all add: upd_defs\<close>)
qed

subsection \<open>Properties\<close>

lemma demo_block_ready: "block_ready {test_mem} test_mem demo_env 0 0 1 MR_BASE 0x08000000 0x3000 demo_kernel"
proof -
  note P = proc_okD [OF demo_kernel_ok [of 1]]
  have "region_inv demo_region" "\<not> is_locked demo_region" "unat (region_base demo_region) + unat (region_size demo_region) \<le> unat (bm_size test_mem)"
    using P(6,7,9) by (simp_all add: demo_regions)
  moreover have "\<not> (\<forall>b \<in> set (free_blocks demo_region). IntervalSize b < 0x3000)" by (simp add: demo_region_def IntervalSize_def)
  moreover have "resource_limit (procs demo_kernel 0) = Some 0" by (simp add: demo_kernel_def demo_process_def)
  moreover have "s32_range (m_current_values (RL_Create RLC_Application []) ! unat RLT_SharedMemory - 1)"
    by (simp add: RL_Create_def replicate_RLT_Max rlt_defs s32_range_def)
  moreover have "free_for (vma_map (vm_manager (procs demo_kernel 1))) 0x08000000 0x3000 initial_vma"
    by (simp add: free_for_def demo_kernel_def demo_process_def fresh_vm_def initial_vma_def MAX_ADDRESS_def)
  ultimately show ?thesis using demo_env_ok P(4,5)
    by (auto simp: block_ready_def demo_regions demo_limits page_aligned_def HEAP_VADDR_def SHARED_MEMORY_VADDR_END_def)
qed

text \<open>C10: the life of a block allocated by the kernel: created for one process, mapped read-write into another (or the same),
  unmapped and destroyed, it leaves nothing behind.  While it is mapped, the range shows exactly the block's bytes in
  order; at the end the region has its free memory and its counter back, the owner's memory counter is as before, the range
  is unmapped and one shared memory object less is counted.\<close>
theorem shared_memory_lifecycle:
  assumes "block_ready B fc env p l q r address sz k" "MP_ReadWrite AND NOT pm = 0" "MP_ReadWrite AND NOT om = 0" "alive p"
  shows "\<exists>sm off k1 k2 k3 k4. CreateSharedMemory env (Some p) sz pm om 0 r k = Some (Inr sm, k1) \<and>
    SharedMemory_Map alive env sm q address MP_ReadWrite MP_DontCare k1 = Some (ResultSuccess, k2) \<and>
    vm_view (vma_map (vm_manager (procs k2 q))) = mapped_at address (map (\<lambda>i. host_of fc off + of_nat i) [0 ..< unat sz])
      VMAPermission_ReadWrite MS_Shared (vm_view (vma_map (vm_manager (procs k q)))) \<and>
    SharedMemory_Unmap env sm q address k2 = Some (ResultSuccess, k3) \<and> SharedMemory_destroy alive env sm k3 = Some k4 \<and>
    addrs (free_blocks (regions k4 r)) = addrs (free_blocks (regions k r)) \<and> used (regions k4 r) = used (regions k r) \<and>
    memory_used (procs k4 p) = memory_used (procs k p) \<and> limits k4 = (limits k)(l := count_after (- 1) (limits k l)) \<and>
    vm_view (vma_map (vm_manager (procs k4 q))) = (\<lambda>a. if in_range address sz a
      then Some (VMAType_Free, VMAPermission_None, MS_Free, None) else vm_view (vma_map (vm_manager (procs k q))) a)"
proof -
  note R = block_readyD [OF assms(1)]
  obtain sm off k1 k2 where m: "CreateSharedMemory env (Some p) sz pm om 0 r k = Some (Inr sm, k1)"
    "SharedMemory_Map alive env sm q address MP_ReadWrite MP_DontCare k1 = Some (ResultSuccess, k2)"
    "sm_size sm = sz" "sm_base_address sm = 0" "sm_holding_memory sm = [Interval off (off + sz)]" "sm_memory_region sm = r" "sm_owner_process sm = Some p"
    "off < off + sz" "{off ..< off + sz} \<subseteq> addrs (free_blocks (regions k r))" "region_inv (regions k2 r)" "\<not> is_locked (regions k2 r)"
    "region_range (regions k2 r) = region_range (regions k r)" "region_size (regions k2 r) = region_size (regions k r)"
    "addrs (free_blocks (regions k2 r)) = addrs (free_blocks (regions k r)) - {off ..< off + sz}" "limits k2 = limits k"
    "resource_limit (procs k2 p) = Some l" "memory_used (procs k2 p) = memory_used (procs k p) + sz"
    "vm_inv B (vm_manager (procs k2 q))" "\<not> vm_locked (vm_manager (procs k2 q))"
    "vm_view (vma_map (vm_manager (procs k2 q))) = mapped_at address (map (\<lambda>i. host_of fc off + of_nat i) [0 ..< unat sz])
       VMAPermission_ReadWrite MS_Shared (vm_view (vma_map (vm_manager (procs k q))))"
    by (rule shared_block_mapped [OF assms(1-3), of alive]) blast
  have fit: "unat address + unat sz \<le> 0x40000000" using R(15) by (simp add: SHARED_MEMORY_VADDR_END_def)
  have len: "length (map (\<lambda>i. host_of fc off + of_nat i) [0 ..< unat sz]) = unat sz" by simp
  note mh = mapped_at_host(2) [OF len _ m(20)]
  obtain vm' where u: "UnmapRange 0xFFF (vm_manager (procs k2 q)) address sz = Some (ResultSuccess, vm')"
    "vm_view (vma_map vm') = (\<lambda>a. if in_range address sz a then Some (VMAType_Free, VMAPermission_None, MS_Free, None)
       else vm_view (vma_map (vm_manager (procs k2 q))) a)"
    by (rule UnmapRange_cases [OF fcram_okD(1) [OF R(1)] m(18,19) R(6,13) [unfolded page_aligned_def] R(7) fit]) (use mh in auto)
  let ?k3 = "set_vm q vm' k2"
  have un: "SharedMemory_Unmap env sm q address k2 = Some (ResultSuccess, ?k3)"
    using u(1) m(3) fcram_okD(3) [OF R(1)] by (simp add: SharedMemory_Unmap_def)
  have k3: "regions ?k3 = regions k2" "limits ?k3 = limits k" "resource_limit (procs ?k3 p) = Some l" "memory_used (procs ?k3 p) = memory_used (procs k2 p)"
    "vm_manager (procs ?k3 q) = vm'" using m(15,16) by (auto simp: upd_defs)
  have rr: "{off ..< off + sz} \<subseteq> region_range (regions k2 r)" "{off ..< off + sz} \<inter> addrs (free_blocks (regions k2 r)) = {}"
    using m(9,12,14) region_invD(2) [OF R(2)] by auto
  have pre: "region_inv (regions ?k3 r)" "\<not> is_locked (regions ?k3 r)" "{off ..< off + sz} \<subseteq> region_range (regions ?k3 r)"
    "{off ..< off + sz} \<inter> addrs (free_blocks (regions ?k3 r)) = {}" "rl_ok (limits ?k3 l)"
    "s32_range (m_current_values (limits ?k3 l) ! unat RLT_SharedMemory - 1)"
    unfolding k3 by (fact m rr R)+
  obtain k4 where k4': "SharedMemory_destroy alive env sm ?k3 = Some k4"
    "addrs (free_blocks (regions k4 r)) = addrs (free_blocks (regions ?k3 r)) \<union> {off ..< off + sz}" "region_inv (regions k4 r)"
    "region_size (regions k4 r) = region_size (regions ?k3 r)" "limits k4 = (limits ?k3)(l := count_after (- 1) (limits ?k3 l))"
    "memory_used (procs k4 p) = memory_used (procs ?k3 p) - sz" "\<And>q. vm_manager (procs k4 q) = vm_manager (procs ?k3 q)"
    by (rule destroy_linear_block [where alive = alive and env = env, OF m(3-8) pre(1-4) k3(3) pre(5,6) assms(4)]) blast
  note k4 = k4'(1-6) k4'(7) [of q]
  note k4 = k4 [unfolded k3]
  have fr: "addrs (free_blocks (regions k4 r)) = addrs (free_blocks (regions k r))" using k4(2) m(9,14) by auto
  then have "unat (used (regions k4 r)) = unat (used (regions k r))"
    using region_invD(4) [OF k4(3)] region_invD(4) [OF R(2)] k4(4) m(13) by (metis add_right_cancel)
  then show ?thesis using m(1,2,17,20) un k4 fr u(2)
    by (intro exI [of _ sm] exI [of _ off] exI [of _ k1] exI [of _ k2] exI [of _ ?k3] exI [of _ k4]) (auto simp: fun_eq_iff mapped_at_def)
qed

theorem shared_memory_lifecycle_witness:
  "\<exists>sm k1 k2 k3 k4. CreateSharedMemory demo_env (Some 0) 0x3000 MP_ReadWrite MP_ReadWrite 0 MR_BASE demo_kernel = Some (Inr sm, k1) \<and>
    SharedMemory_Map (\<lambda>_. True) demo_env sm 1 0x08000000 MP_ReadWrite MP_DontCare k1 = Some (ResultSuccess, k2) \<and>
    SharedMemory_Unmap demo_env sm 1 0x08000000 k2 = Some (ResultSuccess, k3) \<and> SharedMemory_destroy (\<lambda>_. True) demo_env sm k3 = Some k4 \<and>
    used (regions k4 MR_BASE) = used (regions demo_kernel MR_BASE)"
  using shared_memory_lifecycle [OF demo_block_ready, of MP_ReadWrite MP_ReadWrite "\<lambda>_. True"] by auto



text \<open>a block over memory that its owner does not have in private use is refused, but the refusal costs the owner: the
  half-made block is destroyed with its base address still zero, so the size is taken off the owner's memory counter although
  nothing was ever added to it, and the counter wraps below zero.\<close>
theorem refused_shared_memory_miscounts:
  assumes "address \<noteq> 0" "ChangeMemoryState (env_PAGE_MASK env) (vm_manager (procs k p)) address sz MS_Private VMAPermission_ReadWrite
      MS_Locked (ConvertPermissions pm) = Some (e, vm)" "IsError e"
    "resource_limit (procs k p) = Some l" "rl_ok (limits k l)" "s32_range (m_current_values (limits k l) ! unat RLT_SharedMemory - 1)"
  shows "\<exists>k'. CreateSharedMemory env (Some p) sz pm om address r k = Some (Inl e, k') \<and>
    memory_used (procs k' p) = memory_used (procs k p) - sz \<and> limits k' = (limits k)(l := count_after (- 1) (limits k l))"
  using assms(1-4) Release_count [OF assms(5,6)]
  by (simp add: CreateSharedMemory_def SharedMemory_destroy_def lock_owner_def upd_defs Let_def)

theorem refused_shared_memory_miscounts_witness:
  "\<exists>k'. CreateSharedMemory demo_env (Some 0) 0x1000 MP_ReadWrite MP_ReadWrite 0x08000000 MR_BASE demo_kernel = Some (Inl ResultInvalidAddressState, k') \<and>
    memory_used (procs k' 0) = 0xFFFFF000"
proof -
  have "ChangeMemoryState 0xFFF fresh_vm 0x08000000 0x1000 MS_Private VMAPermission_ReadWrite MS_Locked (ConvertPermissions MP_ReadWrite) =
    Some (ResultInvalidAddressState, fresh_vm)" by code_simp
  then have c: "ChangeMemoryState (env_PAGE_MASK demo_env) (vm_manager (procs demo_kernel 0)) 0x08000000 0x1000 MS_Private VMAPermission_ReadWrite MS_Locked
      (ConvertPermissions MP_ReadWrite) = Some (ResultInvalidAddressState, fresh_vm)"
    by (simp add: demo_kernel_def demo_process_def)
  have e: "IsError ResultInvalidAddressState" by code_simp
  note R = block_readyD [OF demo_block_ready]
  have "(0x08000000 :: u32) \<noteq> 0" by simp
  from refused_shared_memory_miscounts [OF this c e R(8-10), of MP_ReadWrite MR_BASE] show ?thesis
    by (auto simp: demo_kernel_def demo_process_def)
qed

text \<open>C9: \<open>ControlMemory\<close> to commit heap memory and then to free it: both calls succeed and report the address, and everything
  the first one took is back: the free memory of the region and its counter, the memory the process holds and its counter, the
  commit limit; the range is unmapped.\<close>
theorem control_memory_commit_then_free:
  assumes "fcram_ok B fc env" "proc_ok B fc p r l k" "page_aligned target" "page_aligned sz" "0 < sz"
    "unat HEAP_VADDR \<le> unat target" "unat target + unat sz \<le> unat HEAP_VADDR_END"
    "free_for (vma_map (vm_manager (procs k p))) target sz v"
    "s32_range (m_current_values (limits k l) ! unat RLT_Commit + sint sz)" "s32_range (m_current_values (limits k l) ! unat RLT_Commit)"
    "unat sz \<le> card (addrs (free_blocks (regions k r)))"
  shows "\<exists>k1 k2. svc_ControlMemory env p target 0 sz MEMOP_COMMIT MP_ReadWrite k = Some ((ResultSuccess, Some target), k1) \<and>
    svc_ControlMemory env p target 0 sz MEMOP_FREE MP_ReadWrite k1 = Some ((ResultSuccess, Some target), k2) \<and>
    addrs (free_blocks (regions k2 r)) = addrs (free_blocks (regions k r)) \<and> used (regions k2 r) = used (regions k r) \<and>
    addrs (holding_memory (procs k2 p)) = addrs (holding_memory (procs k p)) \<and>
    memory_used (procs k2 p) = memory_used (procs k p) \<and> limits k2 = limits k \<and>
    vm_view (vma_map (vm_manager (procs k2 p))) = (\<lambda>a. if in_range target sz a
       then Some (VMAType_Free, VMAPermission_None, MS_Free, None) else vm_view (vma_map (vm_manager (procs k p))) a)"
proof -
  have al: "target AND env_PAGE_MASK env = 0" "sz AND env_PAGE_MASK env = 0"
    using assms(3,4) fcram_okD(3) [OF assms(1)] by (simp_all add: page_aligned_def)
  have "0 < unat sz" using assms(5) by (simp add: word_less_nat_alt)
  then have rng: "HEAP_VADDR \<le> target" "target < HEAP_VADDR_END" using assms(6,7) by (simp_all add: word_le_nat_alt word_less_nat_alt)
  have commit: "svc_ControlMemory env p target 0 sz MEMOP_COMMIT MP_ReadWrite k =
      with_out (Process_HeapAllocate env p target sz VMAPermission_ReadWrite MS_Private False k)"
    using al by (simp add: svc_ControlMemory_def memop_defs MP_ReadWrite_def VMAPermission_ReadWrite_def)
  have free: "svc_ControlMemory env p target 0 sz MEMOP_FREE MP_ReadWrite k1 = memop_free env p target sz k1" for k1
    using al by (simp add: svc_ControlMemory_def memop_defs MP_ReadWrite_def)
  obtain k1 k2 where k: "Process_HeapAllocate env p target sz VMAPermission_ReadWrite MS_Private False k = Some (Inr target, k1)"
    "Process_HeapFree env p target sz k1 = Some (ResultSuccess, k2)"
    and rest: "addrs (free_blocks (regions k2 r)) = addrs (free_blocks (regions k r)) \<and> used (regions k2 r) = used (regions k r) \<and>
      addrs (holding_memory (procs k2 p)) = addrs (holding_memory (procs k p)) \<and>
      memory_used (procs k2 p) = memory_used (procs k p) \<and> limits k2 = limits k \<and>
      vm_view (vma_map (vm_manager (procs k2 p))) = (\<lambda>a. if in_range target sz a
         then Some (VMAType_Free, VMAPermission_None, MS_Free, None) else vm_view (vma_map (vm_manager (procs k p))) a)"
    using process_heap_roundtrip [OF assms, of MS_Private] by blast
  have "svc_ControlMemory env p target 0 sz MEMOP_COMMIT MP_ReadWrite k = Some ((ResultSuccess, Some target), k1)"
    unfolding commit by (simp add: k(1) with_out_def)
  moreover have "svc_ControlMemory env p target 0 sz MEMOP_FREE MP_ReadWrite k1 = Some ((ResultSuccess, Some target), k2)"
    unfolding free using rng by (simp add: memop_free_def k(2))
  ultimately show ?thesis using rest by blast
qed

theorem control_memory_commit_then_free_witness:
  "\<exists>k1 k2. svc_ControlMemory demo_env 0 0x08000000 0 0x3000 MEMOP_COMMIT MP_ReadWrite demo_kernel = Some ((ResultSuccess, Some 0x08000000), k1) \<and>
    svc_ControlMemory demo_env 0 0x08000000 0 0x3000 MEMOP_FREE MP_ReadWrite k1 = Some ((ResultSuccess, Some 0x08000000), k2) \<and>
    limits k2 = limits demo_kernel"
proof -
  have c: "s32_range (m_current_values (limits demo_kernel 0) ! unat RLT_Commit + sint (0x3000 :: u32))"
    "s32_range (m_current_values (limits demo_kernel 0) ! unat RLT_Commit)"
    by (simp_all add: demo_limits RL_Create_def replicate_RLT_Max rlt_defs s32_range_def)
  from control_memory_commit_then_free [OF demo_env_ok demo_kernel_ok [of 0] _ _ _ _ _ demo_free c]
  show ?thesis
    by (auto simp: demo_regions demo_region_card page_aligned_def HEAP_VADDR_def HEAP_VADDR_END_def)
qed

text \<open>C37: neither \<open>ControlMemory\<close> with the map operation nor the mapping of a shared block keeps its target inside the address
  space.  A target at or above \<open>MAX_ADDRESS\<close> reaches the search for an area, finds the end of the area map and reads the
  area there: the run aborts instead of returning an error.  The shared block passes its range check because the sum of
  address and size wraps.\<close>
theorem map_targets_read_past_the_areas:
  assumes "0x40000000 \<le> unat target" "target AND env_PAGE_MASK env = 0" "source AND env_PAGE_MASK env = 0" "sz AND env_PAGE_MASK env = 0"
    "\<not> outside HEAP_VADDR HEAP_VADDR_END source sz" "\<not> overlapping target source sz"
    "sm_base_address sm = 0" "MP_Read AND NOT (sm_other_permissions sm) = 0" "lock_owner alive sm = None" "target + sm_size sm < SHARED_MEMORY_VADDR_END"
  shows "svc_ControlMemory env p target source sz MEMOP_MAP MP_ReadWrite k = None \<and>
    SharedMemory_Map alive env sm p target MP_Read MP_DontCare k = None"
proof
  have b: "already_allocated m target n = None" for m n
    using FindVMA_end [OF assms(1)] by (simp add: already_allocated_def)
  show "svc_ControlMemory env p target source sz MEMOP_MAP MP_ReadWrite k = None"
    using assms(2-6) b by (simp add: svc_ControlMemory_def memop_defs MP_ReadWrite_def Process_Map_def without_out_def Let_def)
  have "\<not> target < HEAP_VADDR" using assms(1) by (simp add: word_less_nat_alt HEAP_VADDR_def)
  moreover have "target \<noteq> 0" using assms(1) by auto
  ultimately show "SharedMemory_Map alive env sm p target MP_Read MP_DontCare k = None"
    using assms(7-10) b by (simp add: SharedMemory_Map_def Let_def)
qed

theorem map_targets_read_past_the_areas_witness:
  "svc_ControlMemory demo_env 0 0xFFFFF000 0x08000000 0x1000 MEMOP_MAP MP_ReadWrite demo_kernel = None \<and>
   SharedMemory_Map (\<lambda>_. True) demo_env \<lparr>sm_linear_heap_phys_offset = 0, sm_backing_blocks = [], sm_size = 0x2000, sm_memory_region = MR_BASE,
     sm_permissions = MP_Read, sm_other_permissions = MP_Read, sm_owner_process = None, sm_base_address = 0, sm_holding_memory = []\<rparr>
     0 0xFFFFF000 MP_Read MP_DontCare demo_kernel = None"
  by (rule map_targets_read_past_the_areas)
    (simp_all add: outside_def overlapping_def HEAP_VADDR_def HEAP_VADDR_END_def SHARED_MEMORY_VADDR_END_def lock_owner_def MP_Read_def)

end
