(* ===== verification/Arm_Support.thy ===== *)
theory Arm_Support
  imports Prelude
begin

text \<open>
  The arithmetic helpers of the ARM interpreter, \<^verbatim>\<open>src/core/arm/skyeye_common/armsupp.cpp\<close>
  and the bit-field macros of \<^verbatim>\<open>armsupp.h\<close>: addition with carry and overflow, the
  overflow predicates, the saturating 8 and 16 bit lanes, and saturation to a bit width.
  C++ \<open>bool*\<close> outputs are further components of the returned tuple; an \<open>s32\<close> is the same
  word read by \<open>sint\<close>.  Each helper is shown to compute the exact integer operation that it
  stands for, wrapped or clamped.
\<close>

subsection \<open>The macros\<close>

text \<open>\<open>BITS(s, a, b)\<close> on a 32-bit operand: two shifts.  A shift by 32 or more is undefined in
  C++; every use has \<open>a \<le> b \<le> 31\<close> (and \<open>(a, b) \<noteq> (0, 31)\<close> gives shifts below 32, where the
  push and drop of the library agree with the language).\<close>

definition BITS :: "u32 \<Rightarrow> nat \<Rightarrow> nat \<Rightarrow> u32" where
  "BITS s a b = drop_bit (32 - b + a - 1) (push_bit (31 - b) s)"

definition BIT :: "u32 \<Rightarrow> nat \<Rightarrow> u32" where
  "BIT s n = drop_bit n s AND 1"

definition POS :: "u32 \<Rightarrow> u32" where
  "POS i = drop_bit 31 (NOT i)"

definition NEG :: "u32 \<Rightarrow> u32" where
  "NEG i = drop_bit 31 i"

subsection \<open>Sums, overflow\<close>

definition ARMul_UnsignedAbsoluteDifference :: "u8 \<Rightarrow> u8 \<Rightarrow> u8" where
  "ARMul_UnsignedAbsoluteDifference left right =
     (if left > right then left - right else right - left)"

text \<open>The result, the carry out and the signed overflow.\<close>

definition AddWithCarry :: "u32 \<Rightarrow> u32 \<Rightarrow> u32 \<Rightarrow> u32 \<times> bool \<times> bool" where
  "AddWithCarry left right carry_in =
     (let unsigned_sum = ucast left + ucast right + ucast carry_in :: u64;
          signed_sum = scast left + scast right + ucast carry_in :: u64;
          result = unsigned_sum AND 0xFFFFFFFF
      in (ucast result, result \<noteq> unsigned_sum,
          (scast (ucast result :: u32) :: u64) \<noteq> signed_sum))"

definition AddOverflow :: "u32 \<Rightarrow> u32 \<Rightarrow> u32 \<Rightarrow> bool" where
  "AddOverflow a b result =
     ((NEG a \<noteq> 0 \<and> NEG b \<noteq> 0 \<and> POS result \<noteq> 0) \<or> (POS a \<noteq> 0 \<and> POS b \<noteq> 0 \<and> NEG result \<noteq> 0))"

definition SubOverflow :: "u32 \<Rightarrow> u32 \<Rightarrow> u32 \<Rightarrow> bool" where
  "SubOverflow a b result =
     ((NEG a \<noteq> 0 \<and> POS b \<noteq> 0 \<and> POS result \<noteq> 0) \<or> (POS a \<noteq> 0 \<and> NEG b \<noteq> 0 \<and> NEG result \<noteq> 0))"

definition ARMul_AddOverflowQ :: "u32 \<Rightarrow> u32 \<Rightarrow> bool" where
  "ARMul_AddOverflowQ a b =
     (let result = a + b
      in (result XOR a) AND 0x80000000 \<noteq> 0 \<and> (a XOR b) AND 0x80000000 = 0)"

subsection \<open>Saturating lanes\<close>

definition ARMul_SignedSaturatedAdd8 :: "u8 \<Rightarrow> u8 \<Rightarrow> u8" where
  "ARMul_SignedSaturatedAdd8 left right =
     (let result = left + right
      in if (result XOR left) AND 0x80 \<noteq> 0 \<and> (left XOR right) AND 0x80 = 0
         then (if left AND 0x80 \<noteq> 0 then 0x80 else 0x7F) else result)"

definition ARMul_SignedSaturatedSub8 :: "u8 \<Rightarrow> u8 \<Rightarrow> u8" where
  "ARMul_SignedSaturatedSub8 left right =
     (let result = left - right
      in if (result XOR left) AND 0x80 \<noteq> 0 \<and> (left XOR right) AND 0x80 \<noteq> 0
         then (if left AND 0x80 \<noteq> 0 then 0x80 else 0x7F) else result)"

definition ARMul_SignedSaturatedAdd16 :: "u16 \<Rightarrow> u16 \<Rightarrow> u16" where
  "ARMul_SignedSaturatedAdd16 left right =
     (let result = left + right
      in if (result XOR left) AND 0x8000 \<noteq> 0 \<and> (left XOR right) AND 0x8000 = 0
         then (if left AND 0x8000 \<noteq> 0 then 0x8000 else 0x7FFF) else result)"

definition ARMul_SignedSaturatedSub16 :: "u16 \<Rightarrow> u16 \<Rightarrow> u16" where
  "ARMul_SignedSaturatedSub16 left right =
     (let result = left - right
      in if (result XOR left) AND 0x8000 \<noteq> 0 \<and> (left XOR right) AND 0x8000 \<noteq> 0
         then (if left AND 0x8000 \<noteq> 0 then 0x8000 else 0x7FFF) else result)"

definition ARMul_UnsignedSaturatedAdd8 :: "u8 \<Rightarrow> u8 \<Rightarrow> u8" where
  "ARMul_UnsignedSaturatedAdd8 left right =
     (let result = left + right in if result < left then 0xFF else result)"

definition ARMul_UnsignedSaturatedAdd16 :: "u16 \<Rightarrow> u16 \<Rightarrow> u16" where
  "ARMul_UnsignedSaturatedAdd16 left right =
     (let result = left + right in if result < left then 0xFFFF else result)"

definition ARMul_UnsignedSaturatedSub8 :: "u8 \<Rightarrow> u8 \<Rightarrow> u8" where
  "ARMul_UnsignedSaturatedSub8 left right = (if left \<le> right then 0 else left - right)"

definition ARMul_UnsignedSaturatedSub16 :: "u16 \<Rightarrow> u16 \<Rightarrow> u16" where
  "ARMul_UnsignedSaturatedSub16 left right = (if left \<le> right then 0 else left - right)"

subsection \<open>Saturation to a width\<close>

text \<open>\<open>(1 << shift) - 1\<close> is computed in \<open>int\<close>: with \<open>shift = 31\<close> the subtraction overflows and
  with a larger count the shift does, both undefined; \<open>None\<close> is that case.\<close>

definition sat_max :: "u8 \<Rightarrow> u32 option" where
  "sat_max shift = (if shift < 31 then Some (push_bit (unat shift) 1 - 1) else None)"

definition ARMul_SignedSatQ :: "u32 \<Rightarrow> u8 \<Rightarrow> (u32 \<times> bool) option" where
  "ARMul_SignedSatQ val shift = do {
     mx \<leftarrow> sat_max shift;
     (let top = signed_drop_bit (unat shift) val
      in if 0 <s top then Some (mx, True)
         else if top <s - 1 then Some (NOT mx, True)
         else Some (val, False)) }"

definition ARMul_UnsignedSatQ :: "u32 \<Rightarrow> u8 \<Rightarrow> (u32 \<times> bool) option" where
  "ARMul_UnsignedSatQ val shift = do {
     mx \<leftarrow> sat_max shift;
     (if val <s 0 then Some (0, True)
      else if val > mx then Some (mx, True)
      else Some (val, False)) }"

subsection \<open>Reference arithmetic\<close>

definition clamp :: "int \<Rightarrow> int \<Rightarrow> int \<Rightarrow> int" where
  "clamp lo hi k = max lo (min hi k)"

lemma signed_wrap:
  fixes k :: int
  assumes "- (2 * 2 ^ n) \<le> k" and "k < 2 * 2 ^ n"
  shows "signed_take_bit n k =
    (if k < - (2 ^ n) then k + 2 * 2 ^ n else if k < 2 ^ n then k else k - 2 * 2 ^ n)"
proof -
  have shift: "signed_take_bit n k = (k + 2 ^ n) mod (2 * 2 ^ n) - 2 ^ n"
    by (simp add: signed_take_bit_eq_take_bit_shift take_bit_eq_mod)
  consider (low) "k < - (2 ^ n)" | (mid) "- (2 ^ n) \<le> k" "k < 2 ^ n" | (high) "2 ^ n \<le> k" by linarith
  then show ?thesis
  proof cases
    case low
    have "(k + 2 ^ n) mod (2 * 2 ^ n) = (k + 2 ^ n + 2 * 2 ^ n) mod (2 * 2 ^ n)"
      by (simp only: mod_add_self2)
    also have "\<dots> = k + 2 ^ n + 2 * 2 ^ n" using low assms by (intro mod_pos_pos_trivial) auto
    finally show ?thesis using low by (simp add: shift)
  next
    case mid
    then have "(k + 2 ^ n) mod (2 * 2 ^ n) = k + 2 ^ n" by (intro mod_pos_pos_trivial) auto
    with mid show ?thesis by (simp add: shift)
  next
    case high
    have "(k + 2 ^ n) mod (2 * 2 ^ n) = (k + 2 ^ n - 2 * 2 ^ n) mod (2 * 2 ^ n)"
      by (metis minus_mod_self2)
    also have "\<dots> = k + 2 ^ n - 2 * 2 ^ n" using high assms by (intro mod_pos_pos_trivial) auto
    finally have "signed_take_bit n k = k - 2 * 2 ^ n" by (simp add: shift)
    moreover have "\<not> k < - (2 ^ n)" using high zero_less_power [of "2 :: int" n] by linarith
    ultimately show ?thesis using high by simp
  qed
qed

lemma sint_range: "- (2 ^ (LENGTH('a) - 1)) \<le> sint (w :: 'a::len word) \<and> sint w < 2 ^ (LENGTH('a) - 1)"
  using sint_greater_eq [of w] sint_less [of w] by simp

lemma sint_add_wrap:
  fixes a b :: "'a::len word"
  shows "sint (a + b) = (let k = sint a + sint b; n = LENGTH('a) - 1 in
    if k < - (2 ^ n) then k + 2 * 2 ^ n else if k < 2 ^ n then k else k - 2 * 2 ^ n)"
  using sint_range [of a] sint_range [of b]
  by (simp only: sint_word_ariths Let_def) (rule signed_wrap; linarith)

lemma sint_sub_wrap:
  fixes a b :: "'a::len word"
  shows "sint (a - b) = (let k = sint a - sint b; n = LENGTH('a) - 1 in
    if k < - (2 ^ n) then k + 2 * 2 ^ n else if k < 2 ^ n then k else k - 2 * 2 ^ n)"
  using sint_range [of a] sint_range [of b]
  by (simp only: sint_word_ariths Let_def) (rule signed_wrap; linarith)

lemma sign_bit_and: "w AND push_bit n 1 \<noteq> 0 \<longleftrightarrow> bit w n" for w :: "'a::len word"
  by (simp add: and_exp_eq_0_iff_not_bit push_bit_of_1)

lemma sign_bit_sint: "bit w (LENGTH('a) - 1) \<longleftrightarrow> sint w < 0" for w :: "'a::len word"
  by (simp add: bit_last_iff)

lemma signed_take_bit_fits_iff: "signed_take_bit n k = k \<longleftrightarrow> - (2 ^ n) \<le> k \<and> k < 2 ^ n" for k :: int
  by (metis signed_take_bit_int_eq_self signed_take_bit_int_greater_eq_minus_exp
      signed_take_bit_int_less_exp)

lemma uint_sum3:
  fixes l r c :: u32
  shows "uint (ucast l + ucast r + ucast c :: u64) = uint l + uint r + uint c"
proof -
  have "uint l + uint r + uint c < 2 ^ 64"
    using uint_lt2p [of l] uint_lt2p [of r] uint_lt2p [of c] by simp
  moreover have "take_bit 64 (uint x) = uint x" for x :: u32
    using uint_lt2p [of x] by (simp add: take_bit_int_eq_self_iff)
  ultimately show ?thesis
    by (simp add: uint_word_ariths unsigned_ucast_eq mod_add_left_eq)
qed

lemma sint_sum3:
  fixes l r c :: u32
  shows "sint (scast l + scast r + ucast c :: u64) = sint l + sint r + uint c"
proof -
  have b: "- 0x100000000 \<le> sint l + sint r" "sint l + sint r < 0x100000000"
    "uint c < 0x100000000"
    using sint_range [of l] sint_range [of r] uint_lt2p [of c] by simp_all
  have low: "- (2 ^ 63) \<le> sint l + sint r + uint c"
  proof -
    have "- (2 ^ 63) \<le> sint l + sint r" using b(1) by simp
    then show ?thesis using uint_ge_0 [of c] by linarith
  qed
  have high: "sint l + sint r + uint c < 2 ^ 63" using b(2,3) by simp
  have "(scast l + scast r + ucast c :: u64) = word_of_int (sint l + sint r + uint c)"
    by simp
  moreover have "signed_take_bit 63 (sint l + sint r + uint c) = sint l + sint r + uint c"
    by (rule signed_take_bit_int_eq_self [OF low high])
  ultimately show ?thesis by (simp only: sint_sbintrunc') simp
qed

lemma low_half: "ucast (w AND 0xFFFFFFFF :: u64) = (ucast w :: u32)"
proof -
  have "w AND 0xFFFFFFFF = take_bit 32 w" by (simp add: take_bit_eq_mask mask_eq_exp_minus_1)
  then show ?thesis by (simp only:) (transfer, simp)
qed

lemma low_half_eq: "w AND 0xFFFFFFFF = w \<longleftrightarrow> uint w < 0x100000000" for w :: u64
proof -
  have "w AND 0xFFFFFFFF = take_bit 32 w" by (simp add: take_bit_eq_mask mask_eq_exp_minus_1)
  moreover have "take_bit 32 w = w \<longleftrightarrow> take_bit 32 (uint w) = uint w"
    by (metis unsigned_take_bit_eq word_uint_eq_iff)
  ultimately show ?thesis by (simp add: take_bit_int_eq_self_iff)
qed

subsection \<open>What the helpers compute\<close>

lemma AddWithCarry_sum:
  "AddWithCarry l r c =
     (word_of_int (uint l + uint r + uint c),
      2 ^ 32 \<le> uint l + uint r + uint c,
      \<not> (- (2 ^ 31) \<le> sint l + sint r + uint c \<and> sint l + sint r + uint c < 2 ^ 31))"
proof -
  define u where "u = (ucast l + ucast r + ucast c :: u64)"
  have u: "uint u = uint l + uint r + uint c" unfolding u_def by (rule uint_sum3)
  have res: "ucast u = (word_of_int (uint l + uint r + uint c) :: u32)"
    by (metis u word_of_int_uint ucast_eq)
  have s: "word_of_int (uint l + uint r + uint c) = (word_of_int (sint l + sint r + uint c) :: u32)"
    by simp
  have "(scast (word_of_int (uint l + uint r + uint c) :: u32) = (scast l + scast r + ucast c :: u64))
      \<longleftrightarrow> sint (scast (word_of_int (uint l + uint r + uint c) :: u32) :: u64)
        = sint (scast l + scast r + ucast c :: u64)"
    by (metis signed_word_eqI)
  also have "sint (scast (w :: u32) :: u64) = sint w" for w
    using sint_range [of w] by (simp add: signed_scast_eq signed_take_bit_int_eq_self_iff)
  also have "sint (word_of_int (uint l + uint r + uint c) :: u32) = signed_take_bit 31 (sint l + sint r + uint c)"
    unfolding s by (simp only: sint_sbintrunc') simp
  finally show ?thesis
    unfolding AddWithCarry_def Let_def u_def [symmetric] low_half res low_half_eq u sint_sum3
    by (simp add: low_half_eq u signed_take_bit_fits_iff not_less)
qed

text \<open>C23: \<open>AddWithCarry\<close> returns the sum of its three operands modulo 2 to the 32; the carry
  output is set exactly when the unsigned sum does not fit in 32 bits and the overflow output
  exactly when the signed sum does not fit in 32 bits, for all operands.\<close>

theorem AddWithCarry_exact:
  "AddWithCarry l r c =
     (word_of_int (uint l + uint r + uint c),
      2 ^ 32 \<le> uint l + uint r + uint c,
      \<not> (- (2 ^ 31) \<le> sint l + sint r + uint c \<and> sint l + sint r + uint c < 2 ^ 31))"
  by (rule AddWithCarry_sum)

lemma sign8: "w AND 0x80 = 0 \<longleftrightarrow> 0 \<le> sint w" for w :: u8
  using sign_bit_and [of w 7] sign_bit_sint [of w] by (simp add: not_less) (metis not_less)

lemma sign16: "w AND 0x8000 = 0 \<longleftrightarrow> 0 \<le> sint w" for w :: u16
  using sign_bit_and [of w 15] sign_bit_sint [of w] by (simp add: not_less) (metis not_less)

lemma sign32: "w AND 0x80000000 = 0 \<longleftrightarrow> 0 \<le> sint w" for w :: u32
  using sign_bit_and [of w 31] sign_bit_sint [of w] by (simp add: not_less) (metis not_less)

lemma sign_xor: "0 \<le> sint (a XOR b) \<longleftrightarrow> (0 \<le> sint a \<longleftrightarrow> 0 \<le> sint b)" for a b :: "'a::len word"
  using sign_bit_sint [of "a XOR b"] sign_bit_sint [of a] sign_bit_sint [of b]
  by (auto simp: bit_xor_iff)

lemma sign_bit_drop: "drop_bit 31 w = of_bool (bit w 31)" for w :: u32
proof (rule bit_word_eqI)
  fix n
  show "bit (drop_bit 31 w) n = bit (of_bool (bit w 31) :: u32) n"
    by (cases n) (auto simp: bit_drop_bit_eq bit_1_iff dest: bit_imp_le_length)
qed

lemma NEG_sint: "NEG w \<noteq> 0 \<longleftrightarrow> sint w < 0"
  using sign_bit_sint [of w] by (simp add: NEG_def sign_bit_drop)

lemma POS_sint: "POS w \<noteq> 0 \<longleftrightarrow> 0 \<le> sint w"
  using sign_bit_sint [of w] by (simp add: POS_def sign_bit_drop bit_not_iff not_less)

lemmas signed_range8 = sint_range [where 'a = 8, simplified]
lemmas signed_range16 = sint_range [where 'a = 16, simplified]
lemmas signed_range32 = sint_range [where 'a = 32, simplified]

text \<open>the overflow predicates decide signed overflow: \<open>AddOverflow\<close> and \<open>SubOverflow\<close> on the
  wrapped result, and \<open>ARMul_AddOverflowQ\<close>, are true exactly when the exact signed result is
  outside the range of a 32-bit integer.\<close>

theorem overflow_predicates_exact:
  "(AddOverflow a b (a + b) \<longleftrightarrow> clamp (- (2 ^ 31)) (2 ^ 31 - 1) (sint a + sint b) \<noteq> sint a + sint b)
   \<and> (SubOverflow a b (a - b) \<longleftrightarrow> clamp (- (2 ^ 31)) (2 ^ 31 - 1) (sint a - sint b) \<noteq> sint a - sint b)
   \<and> (ARMul_AddOverflowQ a b \<longleftrightarrow> clamp (- (2 ^ 31)) (2 ^ 31 - 1) (sint a + sint b) \<noteq> sint a + sint b)"
  using signed_range32 [of a] signed_range32 [of b]
  unfolding AddOverflow_def SubOverflow_def ARMul_AddOverflowQ_def NEG_sint POS_sint sign32
    sign_xor Let_def clamp_def sint_add_wrap sint_sub_wrap
  by simp linarith

lemma signed_lanes:
  "sint (ARMul_SignedSaturatedAdd8 a b) = clamp (- 128) 127 (sint a + sint b)"
  "sint (ARMul_SignedSaturatedSub8 a b) = clamp (- 128) 127 (sint a - sint b)"
  using signed_range8 [of a] signed_range8 [of b]
  unfolding ARMul_SignedSaturatedAdd8_def ARMul_SignedSaturatedSub8_def sign8 sign_xor Let_def clamp_def
  by (simp_all add: sint_add_wrap sint_sub_wrap Let_def max_def min_def) linarith+

lemma signed_halfword_lanes:
  "sint (ARMul_SignedSaturatedAdd16 c d) = clamp (- 32768) 32767 (sint c + sint d)"
  "sint (ARMul_SignedSaturatedSub16 c d) = clamp (- 32768) 32767 (sint c - sint d)"
  using signed_range16 [of c] signed_range16 [of d]
  unfolding ARMul_SignedSaturatedAdd16_def ARMul_SignedSaturatedSub16_def sign16 sign_xor Let_def clamp_def
  by (simp_all add: sint_add_wrap sint_sub_wrap Let_def max_def min_def) linarith+

lemma uint_saturated_add:
  fixes a b :: "'a::len word"
  shows "uint (if a + b < a then - 1 else a + b) = clamp 0 (2 ^ LENGTH('a) - 1) (uint a + uint b)"
proof (cases "uint a + uint b < 2 ^ LENGTH('a)")
  case True
  then have "uint (a + b) = uint a + uint b" by (simp add: uint_plus_if_size word_size)
  with True show ?thesis by (simp add: word_less_def clamp_def)
next
  case False
  then have "uint (a + b) = uint a + uint b - 2 ^ LENGTH('a)" by (simp add: uint_plus_if_size word_size)
  moreover have "uint b < 2 ^ LENGTH('a)" by (rule uint_lt2p)
  ultimately have "a + b < a" by (simp add: word_less_def)
  with False show ?thesis by (simp add: clamp_def unsigned_minus_1_eq_mask mask_eq_exp_minus_1)
qed

lemma uint_saturated_sub:
  fixes a b :: "'a::len word"
  shows "uint (if a \<le> b then 0 else a - b) = clamp 0 (2 ^ LENGTH('a) - 1) (uint a - uint b)"
proof (cases "a \<le> b")
  case True
  then show ?thesis by (simp add: word_le_def clamp_def)
next
  case False
  then have "b \<le> a" by simp
  then have "uint (a - b) = uint a - uint b" by (simp add: word_le_def uint_sub_lem [symmetric])
  moreover have "uint a < 2 ^ LENGTH('a)" by (rule uint_lt2p)
  moreover have "uint b \<le> uint a" using \<open>b \<le> a\<close> by (simp add: word_le_def)
  ultimately show ?thesis using False uint_ge_0 [of b] by (simp add: clamp_def del: uint_ge_0)
qed

lemma unsigned_lanes:
  "uint (ARMul_UnsignedSaturatedAdd8 a b) = clamp 0 255 (uint a + uint b)"
  "uint (ARMul_UnsignedSaturatedSub8 a b) = clamp 0 255 (uint a - uint b)"
  "uint (ARMul_UnsignedSaturatedAdd16 c d) = clamp 0 65535 (uint c + uint d)"
  "uint (ARMul_UnsignedSaturatedSub16 c d) = clamp 0 65535 (uint c - uint d)"
proof -
  have ones: "(0xFF :: u8) = - 1" "(0xFFFF :: u16) = - 1" by simp_all
  show "uint (ARMul_UnsignedSaturatedAdd8 a b) = clamp 0 255 (uint a + uint b)"
    unfolding ARMul_UnsignedSaturatedAdd8_def Let_def ones uint_saturated_add by simp
  show "uint (ARMul_UnsignedSaturatedAdd16 c d) = clamp 0 65535 (uint c + uint d)"
    unfolding ARMul_UnsignedSaturatedAdd16_def Let_def ones uint_saturated_add by simp
  show "uint (ARMul_UnsignedSaturatedSub8 a b) = clamp 0 255 (uint a - uint b)"
    unfolding ARMul_UnsignedSaturatedSub8_def uint_saturated_sub by simp
  show "uint (ARMul_UnsignedSaturatedSub16 c d) = clamp 0 65535 (uint c - uint d)"
    unfolding ARMul_UnsignedSaturatedSub16_def uint_saturated_sub by simp
qed

text \<open>the four signed saturating lane operations return the exact signed result clamped to
  the range of the lane, the four unsigned ones the exact unsigned result clamped to the range
  of the lane.\<close>

theorem saturating_lanes_clamp:
  "sint (ARMul_SignedSaturatedAdd8 a b) = clamp (- (2 ^ 7)) (2 ^ 7 - 1) (sint a + sint b)
   \<and> sint (ARMul_SignedSaturatedSub8 a b) = clamp (- (2 ^ 7)) (2 ^ 7 - 1) (sint a - sint b)
   \<and> sint (ARMul_SignedSaturatedAdd16 c d) = clamp (- (2 ^ 15)) (2 ^ 15 - 1) (sint c + sint d)
   \<and> sint (ARMul_SignedSaturatedSub16 c d) = clamp (- (2 ^ 15)) (2 ^ 15 - 1) (sint c - sint d)
   \<and> uint (ARMul_UnsignedSaturatedAdd8 a b) = clamp 0 (2 ^ 8 - 1) (uint a + uint b)
   \<and> uint (ARMul_UnsignedSaturatedSub8 a b) = clamp 0 (2 ^ 8 - 1) (uint a - uint b)
   \<and> uint (ARMul_UnsignedSaturatedAdd16 c d) = clamp 0 (2 ^ 16 - 1) (uint c + uint d)
   \<and> uint (ARMul_UnsignedSaturatedSub16 c d) = clamp 0 (2 ^ 16 - 1) (uint c - uint d)"
  by (simp add: signed_lanes signed_halfword_lanes unsigned_lanes)

lemma int_less_div_iff: "k div q < m \<longleftrightarrow> k < m * q" if "0 < q" for k m q :: int
proof
  assume "k div q < m"
  then have "(k div q + 1) * q \<le> m * q" using that by (intro mult_right_mono) auto
  moreover have "k mod q < q" "k = k div q * q + k mod q" using that by simp_all
  ultimately show "k < m * q" by (simp only: distrib_right mult_1)
next
  assume "k < m * q"
  moreover have "0 \<le> k mod q" "k = k div q * q + k mod q" using that by simp_all
  ultimately have "k div q * q < m * q" by linarith
  then show "k div q < m" using that by simp
qed

lemma saturation_cases:
  fixes v :: u32
  assumes "m < 31"
  shows "0 <s signed_drop_bit m v \<longleftrightarrow> 2 ^ m \<le> sint v"
    and "signed_drop_bit m v <s - 1 \<longleftrightarrow> sint v < - (2 ^ m)"
    and "v <s 0 \<longleftrightarrow> sint v < 0"
    and "0 \<le> sint v \<Longrightarrow> 2 ^ m - 1 < v \<longleftrightarrow> 2 ^ m - 1 < sint v"
proof -
  show "0 <s signed_drop_bit m v \<longleftrightarrow> 2 ^ m \<le> sint v"
    using int_less_div_iff [of "2 ^ m" "sint v" 1]
    by (simp add: word_sless_alt sint_signed_drop_bit_eq drop_bit_eq_div) linarith
  show "signed_drop_bit m v <s - 1 \<longleftrightarrow> sint v < - (2 ^ m)"
    using int_less_div_iff [of "2 ^ m" "sint v" "- 1"]
    by (simp add: word_sless_alt sint_signed_drop_bit_eq drop_bit_eq_div)
  show "v <s 0 \<longleftrightarrow> sint v < 0" by (simp add: word_sless_alt)
  assume "0 \<le> sint v"
  then have "sint v = uint v"
    using signed_range32 [of v] by (simp add: uint_sint take_bit_int_eq_self)
  moreover have "uint (2 ^ m - 1 :: u32) = 2 ^ m - 1"
  proof -
    have "(2 :: int) ^ m < 2 ^ 32" using assms by (intro power_strict_increasing) simp_all
    then have "uint (word_of_int (2 ^ m - 1) :: u32) = 2 ^ m - 1"
      by (simp only: unsigned_of_int) (simp add: take_bit_int_eq_self)
    then show ?thesis by simp
  qed
  ultimately show "2 ^ m - 1 < v \<longleftrightarrow> 2 ^ m - 1 < sint v" by (simp add: word_less_def)
qed

text \<open>\<open>ARMul_SignedSatQ\<close> with a shift below 31 returns its argument clamped to the signed
  range of \<open>shift + 1\<close> bits and \<open>ARMul_UnsignedSatQ\<close> to the unsigned range of \<open>shift\<close> bits; the
  flag is set exactly when the clamping changed the value.  From a shift of 31 on both compute
  an undefined \<open>(1 << shift) - 1\<close>.\<close>

theorem saturation_to_width:
  "ARMul_SignedSatQ v n =
     (if n < 31
      then let k = clamp (- (2 ^ unat n)) (2 ^ unat n - 1) (sint v)
           in Some (word_of_int k, k \<noteq> sint v)
      else None)
   \<and> ARMul_UnsignedSatQ v n =
     (if n < 31
      then let k = clamp 0 (2 ^ unat n - 1) (sint v) in Some (word_of_int k, k \<noteq> sint v)
      else None)"
proof (cases "n < 31")
  case False
  then show ?thesis by (simp add: ARMul_SignedSatQ_def ARMul_UnsignedSatQ_def sat_max_def)
next
  case True
  define m where "m = unat n"
  have m: "m < 31" using True unfolding m_def by (simp add: word_less_nat_alt)
  define M where "M = (2 :: int) ^ m"
  define mx where "mx = (2 ^ m - 1 :: u32)"
  have words: "mx = word_of_int (M - 1)" "NOT mx = word_of_int (- M)"
    by (simp_all add: mx_def M_def not_eq_complement)
  have pos: "1 \<le> M" by (simp add: M_def)
  note test = saturation_cases [OF m, of v, folded M_def mx_def]
  have "ARMul_SignedSatQ v n = (if M \<le> sint v then Some (word_of_int (M - 1), True)
      else if sint v < - M then Some (word_of_int (- M), True) else Some (word_of_int (sint v), False))"
    using True unfolding ARMul_SignedSatQ_def sat_max_def m_def [symmetric] push_bit_of_1 mx_def [symmetric]
    by (simp add: Let_def test words not_eq_complement)
  moreover have "ARMul_UnsignedSatQ v n = (if sint v < 0 then Some (word_of_int 0, True)
      else if M - 1 < sint v then Some (word_of_int (M - 1), True) else Some (word_of_int (sint v), False))"
    using True unfolding ARMul_UnsignedSatQ_def sat_max_def m_def [symmetric] push_bit_of_1 mx_def [symmetric]
      words(1) [symmetric]
    by (cases "sint v < 0") (simp_all add: test not_less)
  ultimately show ?thesis
    using True pos by (simp add: clamp_def Let_def m_def [symmetric] M_def [symmetric] max_def min_def)
qed

end
