(* ===== verification/Arm_State.thy ===== *)
theory Arm_State
  imports Arm_Support
begin

text \<open>
  The state of an emulated ARM11 core, \<^verbatim>\<open>src/core/arm/skyeye_common/armstate.h\<close> and
  \<^verbatim>\<open>armstate.cpp\<close>, over the flat memory of \<^verbatim>\<open>src/common/compat/core/memory.h\<close> that these
  files include: privilege modes and their register banks, the flags, the exclusive monitor,
  the CP15 registers and memory access.  The debugger stub of \<^verbatim>\<open>src/common/compat\<close> never
  breaks, so breakpoints do not appear.

  \<open>None\<close> is an undefined step of the C++ program: an access outside \<open>ram\<close>, or a call of one
  of the byte-swapping functions, whose bodies in \<^verbatim>\<open>src/common/compat/common/swap.h\<close> are
  empty.  \<open>memcpy\<close> of a scalar is read little-endian, as on every host of the program.
\<close>

subsection \<open>Constants\<close>

abbreviation (input) "USER32MODE \<equiv> 16 :: u32"
abbreviation (input) "FIQ32MODE \<equiv> 17 :: u32"
abbreviation (input) "IRQ32MODE \<equiv> 18 :: u32"
abbreviation (input) "SVC32MODE \<equiv> 19 :: u32"
abbreviation (input) "ABORT32MODE \<equiv> 23 :: u32"
abbreviation (input) "UNDEF32MODE \<equiv> 27 :: u32"
abbreviation (input) "SYSTEM32MODE \<equiv> 31 :: u32"

abbreviation (input) "USERBANK \<equiv> 0 :: u32"
abbreviation (input) "FIQBANK \<equiv> 1 :: u32"
abbreviation (input) "IRQBANK \<equiv> 2 :: u32"
abbreviation (input) "SVCBANK \<equiv> 3 :: u32"
abbreviation (input) "ABORTBANK \<equiv> 4 :: u32"
abbreviation (input) "UNDEFBANK \<equiv> 5 :: u32"
abbreviation (input) "SYSTEMBANK \<equiv> 7 :: u32"

text \<open>The registers of the system control coprocessor are the indices of an array; an enumerator
  after an alias continues from the alias.\<close>

abbreviation (input) "CP15_MAIN_ID \<equiv> 0 :: nat"
abbreviation (input) "CP15_CACHE_TYPE \<equiv> 1 :: nat"
abbreviation (input) "CP15_TCM_STATUS \<equiv> 2 :: nat"
abbreviation (input) "CP15_TLB_TYPE \<equiv> 3 :: nat"
abbreviation (input) "CP15_CPU_ID \<equiv> 4 :: nat"
abbreviation (input) "CP15_PROCESSOR_FEATURE_0 \<equiv> 5 :: nat"
abbreviation (input) "CP15_PROCESSOR_FEATURE_1 \<equiv> 6 :: nat"
abbreviation (input) "CP15_DEBUG_FEATURE_0 \<equiv> 7 :: nat"
abbreviation (input) "CP15_AUXILIARY_FEATURE_0 \<equiv> 8 :: nat"
abbreviation (input) "CP15_MEMORY_MODEL_FEATURE_0 \<equiv> 9 :: nat"
abbreviation (input) "CP15_MEMORY_MODEL_FEATURE_1 \<equiv> 10 :: nat"
abbreviation (input) "CP15_MEMORY_MODEL_FEATURE_2 \<equiv> 11 :: nat"
abbreviation (input) "CP15_MEMORY_MODEL_FEATURE_3 \<equiv> 12 :: nat"
abbreviation (input) "CP15_ISA_FEATURE_0 \<equiv> 13 :: nat"
abbreviation (input) "CP15_ISA_FEATURE_1 \<equiv> 14 :: nat"
abbreviation (input) "CP15_ISA_FEATURE_2 \<equiv> 15 :: nat"
abbreviation (input) "CP15_ISA_FEATURE_3 \<equiv> 16 :: nat"
abbreviation (input) "CP15_ISA_FEATURE_4 \<equiv> 17 :: nat"
abbreviation (input) "CP15_CONTROL \<equiv> 18 :: nat"
abbreviation (input) "CP15_AUXILIARY_CONTROL \<equiv> 19 :: nat"
abbreviation (input) "CP15_COPROCESSOR_ACCESS_CONTROL \<equiv> 20 :: nat"
abbreviation (input) "CP15_TRANSLATION_BASE_TABLE_0 \<equiv> 21 :: nat"
abbreviation (input) "CP15_TRANSLATION_BASE_TABLE_1 \<equiv> 22 :: nat"
abbreviation (input) "CP15_TRANSLATION_BASE_CONTROL \<equiv> 23 :: nat"
abbreviation (input) "CP15_DOMAIN_ACCESS_CONTROL \<equiv> 24 :: nat"
abbreviation (input) "CP15_RESERVED \<equiv> 25 :: nat"
abbreviation (input) "CP15_FAULT_STATUS \<equiv> 26 :: nat"
abbreviation (input) "CP15_INSTR_FAULT_STATUS \<equiv> 27 :: nat"
abbreviation (input) "CP15_COMBINED_DATA_FSR \<equiv> 26 :: nat"
abbreviation (input) "CP15_INST_FSR \<equiv> 27 :: nat"
abbreviation (input) "CP15_FAULT_ADDRESS \<equiv> 28 :: nat"
abbreviation (input) "CP15_COMBINED_DATA_FAR \<equiv> 28 :: nat"
abbreviation (input) "CP15_WFAR \<equiv> 29 :: nat"
abbreviation (input) "CP15_IFAR \<equiv> 30 :: nat"
abbreviation (input) "CP15_WAIT_FOR_INTERRUPT \<equiv> 31 :: nat"
abbreviation (input) "CP15_PHYS_ADDRESS \<equiv> 32 :: nat"
abbreviation (input) "CP15_INVALIDATE_INSTR_CACHE \<equiv> 33 :: nat"
abbreviation (input) "CP15_INVALIDATE_INSTR_CACHE_USING_MVA \<equiv> 34 :: nat"
abbreviation (input) "CP15_INVALIDATE_INSTR_CACHE_USING_INDEX \<equiv> 35 :: nat"
abbreviation (input) "CP15_FLUSH_PREFETCH_BUFFER \<equiv> 36 :: nat"
abbreviation (input) "CP15_FLUSH_BRANCH_TARGET_CACHE \<equiv> 37 :: nat"
abbreviation (input) "CP15_FLUSH_BRANCH_TARGET_CACHE_ENTRY \<equiv> 38 :: nat"
abbreviation (input) "CP15_INVALIDATE_DATA_CACHE \<equiv> 39 :: nat"
abbreviation (input) "CP15_INVALIDATE_DATA_CACHE_LINE_USING_MVA \<equiv> 40 :: nat"
abbreviation (input) "CP15_INVALIDATE_DATA_CACHE_LINE_USING_INDEX \<equiv> 41 :: nat"
abbreviation (input) "CP15_INVALIDATE_DATA_AND_INSTR_CACHE \<equiv> 42 :: nat"
abbreviation (input) "CP15_CLEAN_DATA_CACHE \<equiv> 43 :: nat"
abbreviation (input) "CP15_CLEAN_DATA_CACHE_LINE_USING_MVA \<equiv> 44 :: nat"
abbreviation (input) "CP15_CLEAN_DATA_CACHE_LINE_USING_INDEX \<equiv> 45 :: nat"
abbreviation (input) "CP15_DATA_SYNC_BARRIER \<equiv> 46 :: nat"
abbreviation (input) "CP15_DATA_MEMORY_BARRIER \<equiv> 47 :: nat"
abbreviation (input) "CP15_CLEAN_AND_INVALIDATE_DATA_CACHE \<equiv> 48 :: nat"
abbreviation (input) "CP15_CLEAN_AND_INVALIDATE_DATA_CACHE_LINE_USING_MVA \<equiv> 49 :: nat"
abbreviation (input) "CP15_CLEAN_AND_INVALIDATE_DATA_CACHE_LINE_USING_INDEX \<equiv> 50 :: nat"
abbreviation (input) "CP15_INVALIDATE_ITLB \<equiv> 51 :: nat"
abbreviation (input) "CP15_INVALIDATE_ITLB_SINGLE_ENTRY \<equiv> 52 :: nat"
abbreviation (input) "CP15_INVALIDATE_ITLB_ENTRY_ON_ASID_MATCH \<equiv> 53 :: nat"
abbreviation (input) "CP15_INVALIDATE_ITLB_ENTRY_ON_MVA \<equiv> 54 :: nat"
abbreviation (input) "CP15_INVALIDATE_DTLB \<equiv> 55 :: nat"
abbreviation (input) "CP15_INVALIDATE_DTLB_SINGLE_ENTRY \<equiv> 56 :: nat"
abbreviation (input) "CP15_INVALIDATE_DTLB_ENTRY_ON_ASID_MATCH \<equiv> 57 :: nat"
abbreviation (input) "CP15_INVALIDATE_DTLB_ENTRY_ON_MVA \<equiv> 58 :: nat"
abbreviation (input) "CP15_INVALIDATE_UTLB \<equiv> 59 :: nat"
abbreviation (input) "CP15_INVALIDATE_UTLB_SINGLE_ENTRY \<equiv> 60 :: nat"
abbreviation (input) "CP15_INVALIDATE_UTLB_ENTRY_ON_ASID_MATCH \<equiv> 61 :: nat"
abbreviation (input) "CP15_INVALIDATE_UTLB_ENTRY_ON_MVA \<equiv> 62 :: nat"
abbreviation (input) "CP15_DATA_CACHE_LOCKDOWN \<equiv> 63 :: nat"
abbreviation (input) "CP15_TLB_LOCKDOWN \<equiv> 64 :: nat"
abbreviation (input) "CP15_PRIMARY_REGION_REMAP \<equiv> 65 :: nat"
abbreviation (input) "CP15_NORMAL_REGION_REMAP \<equiv> 66 :: nat"
abbreviation (input) "CP15_PID \<equiv> 67 :: nat"
abbreviation (input) "CP15_CONTEXT_ID \<equiv> 68 :: nat"
abbreviation (input) "CP15_THREAD_UPRW \<equiv> 69 :: nat"
abbreviation (input) "CP15_THREAD_URO \<equiv> 70 :: nat"
abbreviation (input) "CP15_THREAD_PRW \<equiv> 71 :: nat"
abbreviation (input) "CP15_PERFORMANCE_MONITOR_CONTROL \<equiv> 72 :: nat"
abbreviation (input) "CP15_CYCLE_COUNTER \<equiv> 73 :: nat"
abbreviation (input) "CP15_COUNT_0 \<equiv> 74 :: nat"
abbreviation (input) "CP15_COUNT_1 \<equiv> 75 :: nat"
abbreviation (input) "CP15_READ_MAIN_TLB_LOCKDOWN_ENTRY \<equiv> 76 :: nat"
abbreviation (input) "CP15_WRITE_MAIN_TLB_LOCKDOWN_ENTRY \<equiv> 77 :: nat"
abbreviation (input) "CP15_MAIN_TLB_LOCKDOWN_VIRT_ADDRESS \<equiv> 78 :: nat"
abbreviation (input) "CP15_MAIN_TLB_LOCKDOWN_PHYS_ADDRESS \<equiv> 79 :: nat"
abbreviation (input) "CP15_MAIN_TLB_LOCKDOWN_ATTRIBUTE \<equiv> 80 :: nat"
abbreviation (input) "CP15_TLB_DEBUG_CONTROL \<equiv> 81 :: nat"
abbreviation (input) "CP15_TLB_FAULT_ADDR \<equiv> 82 :: nat"
abbreviation (input) "CP15_TLB_FAULT_STATUS \<equiv> 83 :: nat"
abbreviation (input) "CP15_REGISTER_COUNT \<equiv> 84 :: nat"

subsection \<open>State\<close>

record ARMul_State =
  Reg :: "u32 list"
  Reg_usr :: "u32 list"
  Reg_svc :: "u32 list"
  Reg_abort :: "u32 list"
  Reg_undef :: "u32 list"
  Reg_irq :: "u32 list"
  Reg_firq :: "u32 list"
  Spsr :: "u32 list"
  CP15 :: "u32 list"
  VFP :: "u32 list"
  ExtReg :: "u32 list"
  Cpsr :: u32
  Spsr_copy :: u32
  Mode :: u32
  Bank :: u32
  NFlag :: u32
  ZFlag :: u32
  CFlag :: u32
  VFlag :: u32
  shifter_carry_out :: u32
  TFlag :: u32
  NumInstrs :: u64
  NumInstrsToExecute :: u64
  NirqSig :: u32
  exclusive_tag :: u32
  exclusive_state :: bool
  ram :: "u8 list"

text \<open>The sizes of the \<open>std::array\<close> members.\<close>

definition arm_wf :: "ARMul_State \<Rightarrow> bool" where
  "arm_wf s = (length (Reg s) = 16 \<and> length (Reg_usr s) = 2 \<and> length (Reg_svc s) = 2
     \<and> length (Reg_abort s) = 2 \<and> length (Reg_undef s) = 2 \<and> length (Reg_irq s) = 2
     \<and> length (Reg_firq s) = 7 \<and> length (Spsr s) = 7 \<and> length (VFP s) = 7
     \<and> length (ExtReg s) = 64 \<and> length (CP15 s) = CP15_REGISTER_COUNT)"

definition GetInstructionSize :: "ARMul_State \<Rightarrow> u32" where
  "GetInstructionSize s = (if TFlag s \<noteq> 0 then 2 else 4)"

definition InBigEndianMode :: "ARMul_State \<Rightarrow> bool" where
  "InBigEndianMode s = (Cpsr s AND push_bit 9 1 \<noteq> 0)"

definition InAPrivilegedMode :: "ARMul_State \<Rightarrow> bool" where
  "InAPrivilegedMode s = (Mode s \<noteq> USER32MODE)"

definition CurrentModeHasSPSR :: "ARMul_State \<Rightarrow> bool" where
  "CurrentModeHasSPSR s = (Mode s \<noteq> SYSTEM32MODE \<and> InAPrivilegedMode s)"

subsection \<open>Privilege modes\<close>

text \<open>The first switch of \<open>ChangePrivilegeMode\<close> saves the registers of the current mode, the
  second loads those of the new one.\<close>

definition save_bank :: "ARMul_State \<Rightarrow> ARMul_State" where
  "save_bank s =
    (if Mode s = SYSTEM32MODE \<or> Mode s = USER32MODE
     then s\<lparr>Reg_usr := (Reg_usr s)[0 := Reg s ! 13, 1 := Reg s ! 14]\<rparr>
     else if Mode s = IRQ32MODE
     then s\<lparr>Reg_irq := (Reg_irq s)[0 := Reg s ! 13, 1 := Reg s ! 14],
            Spsr := (Spsr s)[unat IRQBANK := Spsr_copy s]\<rparr>
     else if Mode s = SVC32MODE
     then s\<lparr>Reg_svc := (Reg_svc s)[0 := Reg s ! 13, 1 := Reg s ! 14],
            Spsr := (Spsr s)[unat SVCBANK := Spsr_copy s]\<rparr>
     else if Mode s = ABORT32MODE
     then s\<lparr>Reg_abort := (Reg_abort s)[0 := Reg s ! 13, 1 := Reg s ! 14],
            Spsr := (Spsr s)[unat ABORTBANK := Spsr_copy s]\<rparr>
     else if Mode s = UNDEF32MODE
     then s\<lparr>Reg_undef := (Reg_undef s)[0 := Reg s ! 13, 1 := Reg s ! 14],
            Spsr := (Spsr s)[unat UNDEFBANK := Spsr_copy s]\<rparr>
     else if Mode s = FIQ32MODE
     then s\<lparr>Reg_firq := take 7 (drop 8 (Reg s)),
            Spsr := (Spsr s)[unat FIQBANK := Spsr_copy s]\<rparr>
     else s)"

definition load_bank :: "u32 \<Rightarrow> ARMul_State \<Rightarrow> ARMul_State" where
  "load_bank new_mode s =
    (if new_mode = USER32MODE
     then s\<lparr>Reg := (Reg s)[13 := Reg_usr s ! 0, 14 := Reg_usr s ! 1], Bank := USERBANK\<rparr>
     else if new_mode = IRQ32MODE
     then s\<lparr>Reg := (Reg s)[13 := Reg_irq s ! 0, 14 := Reg_irq s ! 1],
            Spsr_copy := Spsr s ! unat IRQBANK, Bank := IRQBANK\<rparr>
     else if new_mode = SVC32MODE
     then s\<lparr>Reg := (Reg s)[13 := Reg_svc s ! 0, 14 := Reg_svc s ! 1],
            Spsr_copy := Spsr s ! unat SVCBANK, Bank := SVCBANK\<rparr>
     else if new_mode = ABORT32MODE
     then s\<lparr>Reg := (Reg s)[13 := Reg_abort s ! 0, 14 := Reg_abort s ! 1],
            Spsr_copy := Spsr s ! unat ABORTBANK, Bank := ABORTBANK\<rparr>
     else if new_mode = UNDEF32MODE
     then s\<lparr>Reg := (Reg s)[13 := Reg_undef s ! 0, 14 := Reg_undef s ! 1],
            Spsr_copy := Spsr s ! unat UNDEFBANK, Bank := UNDEFBANK\<rparr>
     else if new_mode = FIQ32MODE
     then s\<lparr>Reg := take 8 (Reg s) @ Reg_firq s @ drop 15 (Reg s),
            Spsr_copy := Spsr s ! unat FIQBANK, Bank := FIQBANK\<rparr>
     else if new_mode = SYSTEM32MODE
     then s\<lparr>Reg := (Reg s)[13 := Reg_usr s ! 0, 14 := Reg_usr s ! 1], Bank := SYSTEMBANK\<rparr>
     else s)"

definition ChangePrivilegeMode :: "u32 \<Rightarrow> ARMul_State \<Rightarrow> ARMul_State" where
  "ChangePrivilegeMode new_mode s =
    (if Mode s = new_mode then s
     else if new_mode \<noteq> USERBANK
     then let s = load_bank new_mode (save_bank s)
          in s\<lparr>Cpsr := (Cpsr s AND NOT (Mode s)) OR new_mode, Mode := new_mode\<rparr>
     else s)"

subsection \<open>Reset\<close>

definition VFPInit :: "ARMul_State \<Rightarrow> ARMul_State" where
  "VFPInit s = s\<lparr>VFP := (VFP s)
     [0 := push_bit 24 0x41 OR push_bit 23 0 OR push_bit 16 0x1 OR push_bit 8 0x20
           OR push_bit 4 0xB OR 0x4,
      2 := 0, 1 := 0, 3 := 0xEE000A00, 4 := 0, 5 := 0x11111111, 6 := 0]\<rparr>"

definition ResetMPCoreCP15Registers :: "ARMul_State \<Rightarrow> ARMul_State" where
  "ResetMPCoreCP15Registers s = s\<lparr>CP15 := (CP15 s)
     [CP15_MAIN_ID := 0x410FB024,
      CP15_TLB_TYPE := 0x00000800,
      CP15_PROCESSOR_FEATURE_0 := 0x00000111,
      CP15_PROCESSOR_FEATURE_1 := 0x00000001,
      CP15_DEBUG_FEATURE_0 := 0x00000002,
      CP15_MEMORY_MODEL_FEATURE_0 := 0x01100103,
      CP15_MEMORY_MODEL_FEATURE_1 := 0x10020302,
      CP15_MEMORY_MODEL_FEATURE_2 := 0x01222000,
      CP15_MEMORY_MODEL_FEATURE_3 := 0x00000000,
      CP15_ISA_FEATURE_0 := 0x00100011,
      CP15_ISA_FEATURE_1 := 0x12002111,
      CP15_ISA_FEATURE_2 := 0x11221011,
      CP15_ISA_FEATURE_3 := 0x01102131,
      CP15_ISA_FEATURE_4 := 0x00000141,
      CP15_CONTROL := 0x00054078,
      CP15_AUXILIARY_CONTROL := 0x0000000F,
      CP15_COPROCESSOR_ACCESS_CONTROL := 0x00000000,
      CP15_TRANSLATION_BASE_TABLE_0 := 0x00000000,
      CP15_TRANSLATION_BASE_TABLE_1 := 0x00000000,
      CP15_TRANSLATION_BASE_CONTROL := 0x00000000,
      CP15_DOMAIN_ACCESS_CONTROL := 0x00000000,
      CP15_PHYS_ADDRESS := 0x00000000,
      CP15_DATA_CACHE_LOCKDOWN := 0xFFFFFFF0,
      CP15_TLB_LOCKDOWN := 0x00000000,
      CP15_PRIMARY_REGION_REMAP := 0x00098AA4,
      CP15_NORMAL_REGION_REMAP := 0x44E048E0,
      CP15_PID := 0x00000000,
      CP15_CONTEXT_ID := 0x00000000,
      CP15_THREAD_UPRW := 0x00000000,
      CP15_THREAD_URO := 0x00000000,
      CP15_THREAD_PRW := 0x00000000,
      CP15_PERFORMANCE_MONITOR_CONTROL := 0x00000000,
      CP15_MAIN_TLB_LOCKDOWN_VIRT_ADDRESS := 0x00000000,
      CP15_MAIN_TLB_LOCKDOWN_PHYS_ADDRESS := 0x00000000,
      CP15_MAIN_TLB_LOCKDOWN_ATTRIBUTE := 0x00000000,
      CP15_TLB_DEBUG_CONTROL := 0x00000000]\<rparr>"

text \<open>The members \<open>NresetSig\<close>, \<open>NfiqSig\<close>, \<open>NtransSig\<close>, \<open>abortSig\<close> and \<open>Emulate\<close>, which
  \<open>Reset\<close> also sets, are read by no modelled operation and are not in the record.\<close>

definition Reset :: "ARMul_State \<Rightarrow> ARMul_State" where
  "Reset s =
    (let s = VFPInit s;
         s = s\<lparr>Reg := (Reg s)[13 := 0x10000000, 15 := 0],
               Cpsr := 0x1C0 OR SVC32MODE, Mode := SVC32MODE, Bank := SVCBANK\<rparr>;
         s = ResetMPCoreCP15Registers s
     in s\<lparr>NirqSig := 1, NumInstrs := 0\<rparr>)"

text \<open>The constructor, on uninitialised members \<open>s\<close>.\<close>

definition ARMul_State_new :: "ARMul_State \<Rightarrow> u32 \<Rightarrow> ARMul_State" where
  "ARMul_State_new s initial_mode = ChangePrivilegeMode initial_mode (Reset s)"

subsection \<open>Memory\<close>

text \<open>The guards compare \<open>addr + k\<close>, computed in 32 bits, with the size of \<open>ram\<close>.\<close>

definition mem_bytes :: "u8 list \<Rightarrow> u32 \<Rightarrow> nat \<Rightarrow> u8 list option" where
  "mem_bytes m addr n = (if unat addr + n \<le> length m then Some (take n (drop (unat addr) m)) else None)"

definition mem_store :: "u8 list \<Rightarrow> u32 \<Rightarrow> u8 list \<Rightarrow> u8 list option" where
  "mem_store m addr bs = (if unat addr + length bs \<le> length m
     then Some (take (unat addr) m @ bs @ drop (unat addr + length bs) m) else None)"

definition le16 :: "u8 list \<Rightarrow> u16" where
  "le16 bs = ucast (bs ! 0) OR push_bit 8 (ucast (bs ! 1))"

definition le32 :: "u8 list \<Rightarrow> u32" where
  "le32 bs = ucast (bs ! 0) OR push_bit 8 (ucast (bs ! 1))
     OR push_bit 16 (ucast (bs ! 2)) OR push_bit 24 (ucast (bs ! 3))"

definition le64 :: "u8 list \<Rightarrow> u64" where
  "le64 bs = ucast (le32 bs) OR push_bit 32 (ucast (le32 (drop 4 bs)))"

definition bytes16 :: "u16 \<Rightarrow> u8 list" where
  "bytes16 w = [ucast w, ucast (drop_bit 8 w)]"

definition bytes32 :: "u32 \<Rightarrow> u8 list" where
  "bytes32 w = [ucast w, ucast (drop_bit 8 w), ucast (drop_bit 16 w), ucast (drop_bit 24 w)]"

definition bytes64 :: "u64 \<Rightarrow> u8 list" where
  "bytes64 w = bytes32 (ucast w) @ bytes32 (ucast (drop_bit 32 w))"

definition Read8 :: "u8 list \<Rightarrow> u32 \<Rightarrow> u8 option" where
  "Read8 m addr = (if unat addr < length m then Some (m ! unat addr) else Some 0)"

definition Write8 :: "u8 list \<Rightarrow> u32 \<Rightarrow> u8 \<Rightarrow> u8 list option" where
  "Write8 m addr val = (if unat addr < length m then Some (m[unat addr := val]) else Some m)"

definition Read16 :: "u8 list \<Rightarrow> u32 \<Rightarrow> u16 option" where
  "Read16 m addr = (if unat (addr + 1) < length m then map_option le16 (mem_bytes m addr 2) else Some 0)"

definition Write16 :: "u8 list \<Rightarrow> u32 \<Rightarrow> u16 \<Rightarrow> u8 list option" where
  "Write16 m addr val = (if unat (addr + 1) < length m then mem_store m addr (bytes16 val) else Some m)"

definition Read32 :: "u8 list \<Rightarrow> u32 \<Rightarrow> u32 option" where
  "Read32 m addr = (if unat (addr + 3) < length m then map_option le32 (mem_bytes m addr 4) else Some 0)"

definition Write32 :: "u8 list \<Rightarrow> u32 \<Rightarrow> u32 \<Rightarrow> u8 list option" where
  "Write32 m addr val = (if unat (addr + 3) < length m then mem_store m addr (bytes32 val) else Some m)"

definition Read64 :: "u8 list \<Rightarrow> u32 \<Rightarrow> u64 option" where
  "Read64 m addr = (if unat (addr + 7) < length m then map_option le64 (mem_bytes m addr 8) else Some 0)"

definition Write64 :: "u8 list \<Rightarrow> u32 \<Rightarrow> u64 \<Rightarrow> u8 list option" where
  "Write64 m addr val = (if unat (addr + 7) < length m then mem_store m addr (bytes64 val) else Some m)"

text \<open>\<open>Common::swap16\<close>, \<open>swap32\<close>, \<open>swap64\<close>: control flows off the end of a function that has
  a result, which is undefined.\<close>

definition swap_bytes :: "'a \<Rightarrow> 'a option" where
  "swap_bytes v = None"

definition ReadMemory8 :: "ARMul_State \<Rightarrow> u32 \<Rightarrow> u8 option" where
  "ReadMemory8 s address = Read8 (ram s) address"

definition ReadMemory16 :: "ARMul_State \<Rightarrow> u32 \<Rightarrow> u16 option" where
  "ReadMemory16 s address = do {
     d \<leftarrow> Read16 (ram s) address; (if InBigEndianMode s then swap_bytes d else Some d) }"

definition ReadMemory32 :: "ARMul_State \<Rightarrow> u32 \<Rightarrow> u32 option" where
  "ReadMemory32 s address = do {
     d \<leftarrow> Read32 (ram s) address; (if InBigEndianMode s then swap_bytes d else Some d) }"

definition ReadMemory64 :: "ARMul_State \<Rightarrow> u32 \<Rightarrow> u64 option" where
  "ReadMemory64 s address = do {
     d \<leftarrow> Read64 (ram s) address; (if InBigEndianMode s then swap_bytes d else Some d) }"

definition WriteMemory8 :: "u32 \<Rightarrow> u8 \<Rightarrow> ARMul_State \<Rightarrow> ARMul_State option" where
  "WriteMemory8 address d s = do { m \<leftarrow> Write8 (ram s) address d; Some (s\<lparr>ram := m\<rparr>) }"

definition WriteMemory16 :: "u32 \<Rightarrow> u16 \<Rightarrow> ARMul_State \<Rightarrow> ARMul_State option" where
  "WriteMemory16 address d s = do {
     d \<leftarrow> (if InBigEndianMode s then swap_bytes d else Some d);
     m \<leftarrow> Write16 (ram s) address d; Some (s\<lparr>ram := m\<rparr>) }"

definition WriteMemory32 :: "u32 \<Rightarrow> u32 \<Rightarrow> ARMul_State \<Rightarrow> ARMul_State option" where
  "WriteMemory32 address d s = do {
     d \<leftarrow> (if InBigEndianMode s then swap_bytes d else Some d);
     m \<leftarrow> Write32 (ram s) address d; Some (s\<lparr>ram := m\<rparr>) }"

definition WriteMemory64 :: "u32 \<Rightarrow> u64 \<Rightarrow> ARMul_State \<Rightarrow> ARMul_State option" where
  "WriteMemory64 address d s = do {
     d \<leftarrow> (if InBigEndianMode s then swap_bytes d else Some d);
     m \<leftarrow> Write64 (ram s) address d; Some (s\<lparr>ram := m\<rparr>) }"

subsection \<open>The exclusive monitor\<close>

definition RESERVATION_GRANULE_MASK :: u32 where
  "RESERVATION_GRANULE_MASK = 0xFFFFFFF8"

definition IsExclusiveMemoryAccess :: "ARMul_State \<Rightarrow> u32 \<Rightarrow> bool" where
  "IsExclusiveMemoryAccess s address =
     (exclusive_state s \<and> exclusive_tag s = address AND RESERVATION_GRANULE_MASK)"

definition SetExclusiveMemoryAddress :: "u32 \<Rightarrow> ARMul_State \<Rightarrow> ARMul_State" where
  "SetExclusiveMemoryAddress address s =
     s\<lparr>exclusive_tag := address AND RESERVATION_GRANULE_MASK, exclusive_state := True\<rparr>"

definition UnsetExclusiveMemoryAddress :: "ARMul_State \<Rightarrow> ARMul_State" where
  "UnsetExclusiveMemoryAddress s = s\<lparr>exclusive_tag := 0xFFFFFFFF, exclusive_state := False\<rparr>"

subsection \<open>CP15\<close>

definition cp15_privileged_read :: "u32 \<Rightarrow> u32 \<Rightarrow> u32 \<Rightarrow> u32 \<Rightarrow> nat option" where
  "cp15_privileged_read crn opcode_1 crm opcode_2 =
    (if crn = 0 \<and> opcode_1 = 0 \<and> crm = 0 \<and> opcode_2 = 0 then Some CP15_MAIN_ID
     else if crn = 0 \<and> opcode_1 = 0 \<and> crm = 0 \<and> opcode_2 = 1 then Some CP15_CACHE_TYPE
     else if crn = 0 \<and> opcode_1 = 0 \<and> crm = 0 \<and> opcode_2 = 3 then Some CP15_TLB_TYPE
     else if crn = 0 \<and> opcode_1 = 0 \<and> crm = 0 \<and> opcode_2 = 5 then Some CP15_CPU_ID
     else if crn = 0 \<and> opcode_1 = 0 \<and> crm = 1 \<and> opcode_2 = 0 then Some CP15_PROCESSOR_FEATURE_0
     else if crn = 0 \<and> opcode_1 = 0 \<and> crm = 1 \<and> opcode_2 = 1 then Some CP15_PROCESSOR_FEATURE_1
     else if crn = 0 \<and> opcode_1 = 0 \<and> crm = 1 \<and> opcode_2 = 2 then Some CP15_DEBUG_FEATURE_0
     else if crn = 0 \<and> opcode_1 = 0 \<and> crm = 1 \<and> opcode_2 = 4 then Some CP15_MEMORY_MODEL_FEATURE_0
     else if crn = 0 \<and> opcode_1 = 0 \<and> crm = 1 \<and> opcode_2 = 5 then Some CP15_MEMORY_MODEL_FEATURE_1
     else if crn = 0 \<and> opcode_1 = 0 \<and> crm = 1 \<and> opcode_2 = 6 then Some CP15_MEMORY_MODEL_FEATURE_2
     else if crn = 0 \<and> opcode_1 = 0 \<and> crm = 1 \<and> opcode_2 = 7 then Some CP15_MEMORY_MODEL_FEATURE_3
     else if crn = 0 \<and> opcode_1 = 0 \<and> crm = 2 \<and> opcode_2 = 0 then Some CP15_ISA_FEATURE_0
     else if crn = 0 \<and> opcode_1 = 0 \<and> crm = 2 \<and> opcode_2 = 1 then Some CP15_ISA_FEATURE_1
     else if crn = 0 \<and> opcode_1 = 0 \<and> crm = 2 \<and> opcode_2 = 2 then Some CP15_ISA_FEATURE_2
     else if crn = 0 \<and> opcode_1 = 0 \<and> crm = 2 \<and> opcode_2 = 3 then Some CP15_ISA_FEATURE_3
     else if crn = 0 \<and> opcode_1 = 0 \<and> crm = 2 \<and> opcode_2 = 4 then Some CP15_ISA_FEATURE_4
     else if crn = 1 \<and> opcode_1 = 0 \<and> crm = 0 \<and> opcode_2 = 0 then Some CP15_CONTROL
     else if crn = 1 \<and> opcode_1 = 0 \<and> crm = 0 \<and> opcode_2 = 1 then Some CP15_AUXILIARY_CONTROL
     else if crn = 1 \<and> opcode_1 = 0 \<and> crm = 0 \<and> opcode_2 = 2 then Some CP15_COPROCESSOR_ACCESS_CONTROL
     else if crn = 2 \<and> opcode_1 = 0 \<and> crm = 0 \<and> opcode_2 = 0 then Some CP15_TRANSLATION_BASE_TABLE_0
     else if crn = 2 \<and> opcode_1 = 0 \<and> crm = 0 \<and> opcode_2 = 1 then Some CP15_TRANSLATION_BASE_TABLE_1
     else if crn = 2 \<and> opcode_1 = 0 \<and> crm = 0 \<and> opcode_2 = 2 then Some CP15_TRANSLATION_BASE_CONTROL
     else if crn = 3 \<and> opcode_1 = 0 \<and> crm = 0 \<and> opcode_2 = 0 then Some CP15_DOMAIN_ACCESS_CONTROL
     else if crn = 5 \<and> opcode_1 = 0 \<and> crm = 0 \<and> opcode_2 = 0 then Some CP15_FAULT_STATUS
     else if crn = 5 \<and> opcode_1 = 0 \<and> crm = 0 \<and> opcode_2 = 1 then Some CP15_INSTR_FAULT_STATUS
     else if crn = 6 \<and> opcode_1 = 0 \<and> crm = 0 \<and> opcode_2 = 0 then Some CP15_FAULT_ADDRESS
     else if crn = 6 \<and> opcode_1 = 0 \<and> crm = 0 \<and> opcode_2 = 1 then Some CP15_WFAR
     else if crn = 7 \<and> opcode_1 = 0 \<and> crm = 4 \<and> opcode_2 = 0 then Some CP15_PHYS_ADDRESS
     else if crn = 9 \<and> opcode_1 = 0 \<and> crm = 0 \<and> opcode_2 = 0 then Some CP15_DATA_CACHE_LOCKDOWN
     else if crn = 10 \<and> opcode_1 = 0 \<and> crm = 0 \<and> opcode_2 = 0 then Some CP15_TLB_LOCKDOWN
     else if crn = 10 \<and> opcode_1 = 0 \<and> crm = 2 \<and> opcode_2 = 0 then Some CP15_PRIMARY_REGION_REMAP
     else if crn = 10 \<and> opcode_1 = 0 \<and> crm = 2 \<and> opcode_2 = 1 then Some CP15_NORMAL_REGION_REMAP
     else if crn = 13 \<and> crm = 0 \<and> opcode_2 = 0 then Some CP15_PID
     else if crn = 13 \<and> crm = 0 \<and> opcode_2 = 1 then Some CP15_CONTEXT_ID
     else if crn = 13 \<and> crm = 0 \<and> opcode_2 = 4 then Some CP15_THREAD_PRW
     else if crn = 15 \<and> opcode_1 = 0 \<and> crm = 12 \<and> opcode_2 = 0 then Some CP15_PERFORMANCE_MONITOR_CONTROL
     else if crn = 15 \<and> opcode_1 = 0 \<and> crm = 12 \<and> opcode_2 = 1 then Some CP15_CYCLE_COUNTER
     else if crn = 15 \<and> opcode_1 = 0 \<and> crm = 12 \<and> opcode_2 = 2 then Some CP15_COUNT_0
     else if crn = 15 \<and> opcode_1 = 0 \<and> crm = 12 \<and> opcode_2 = 3 then Some CP15_COUNT_1
     else if crn = 15 \<and> opcode_1 = 5 \<and> opcode_2 = 2 \<and> crm = 5 then Some CP15_MAIN_TLB_LOCKDOWN_VIRT_ADDRESS
     else if crn = 15 \<and> opcode_1 = 5 \<and> opcode_2 = 2 \<and> crm = 6 then Some CP15_MAIN_TLB_LOCKDOWN_PHYS_ADDRESS
     else if crn = 15 \<and> opcode_1 = 5 \<and> opcode_2 = 2 \<and> crm = 7 then Some CP15_MAIN_TLB_LOCKDOWN_ATTRIBUTE
     else if crn = 15 \<and> opcode_1 = 7 \<and> crm = 1 \<and> opcode_2 = 0 then Some CP15_TLB_DEBUG_CONTROL
     else None)"

definition ReadCP15Register :: "ARMul_State \<Rightarrow> u32 \<Rightarrow> u32 \<Rightarrow> u32 \<Rightarrow> u32 \<Rightarrow> u32" where
  "ReadCP15Register s crn opcode_1 crm opcode_2 =
    (if crn = 13 \<and> opcode_1 = 0 \<and> crm = 0 \<and> opcode_2 = 2 then CP15 s ! CP15_THREAD_UPRW
     else if crn = 13 \<and> opcode_1 = 0 \<and> crm = 0 \<and> opcode_2 = 3 then CP15 s ! CP15_THREAD_URO
     else if InAPrivilegedMode s
     then (case cp15_privileged_read crn opcode_1 crm opcode_2 of Some r \<Rightarrow> CP15 s ! r | None \<Rightarrow> 0)
     else 0)"

definition cp15_c7_write :: "u32 \<Rightarrow> u32 \<Rightarrow> nat option" where
  "cp15_c7_write crm opcode_2 =
    (if crm = 0 \<and> opcode_2 = 4 then Some CP15_WAIT_FOR_INTERRUPT
     else if crm = 4 \<and> opcode_2 = 0 then None
     else if crm = 5 then
       (if opcode_2 = 0 then Some CP15_INVALIDATE_INSTR_CACHE
        else if opcode_2 = 1 then Some CP15_INVALIDATE_INSTR_CACHE_USING_MVA
        else if opcode_2 = 2 then Some CP15_INVALIDATE_INSTR_CACHE_USING_INDEX
        else if opcode_2 = 6 then Some CP15_FLUSH_BRANCH_TARGET_CACHE
        else if opcode_2 = 7 then Some CP15_FLUSH_BRANCH_TARGET_CACHE_ENTRY
        else None)
     else if crm = 6 then
       (if opcode_2 = 0 then Some CP15_INVALIDATE_DATA_CACHE
        else if opcode_2 = 1 then Some CP15_INVALIDATE_DATA_CACHE_LINE_USING_MVA
        else if opcode_2 = 2 then Some CP15_INVALIDATE_DATA_CACHE_LINE_USING_INDEX
        else None)
     else if crm = 7 \<and> opcode_2 = 0 then Some CP15_INVALIDATE_DATA_AND_INSTR_CACHE
     else if crm = 10 then
       (if opcode_2 = 0 then Some CP15_CLEAN_DATA_CACHE
        else if opcode_2 = 1 then Some CP15_CLEAN_DATA_CACHE_LINE_USING_MVA
        else if opcode_2 = 2 then Some CP15_CLEAN_DATA_CACHE_LINE_USING_INDEX
        else None)
     else if crm = 14 then
       (if opcode_2 = 0 then Some CP15_CLEAN_AND_INVALIDATE_DATA_CACHE
        else if opcode_2 = 1 then Some CP15_CLEAN_AND_INVALIDATE_DATA_CACHE_LINE_USING_MVA
        else if opcode_2 = 2 then Some CP15_CLEAN_AND_INVALIDATE_DATA_CACHE_LINE_USING_INDEX
        else None)
     else None)"

definition cp15_c8_write :: "u32 \<Rightarrow> u32 \<Rightarrow> nat option" where
  "cp15_c8_write crm opcode_2 =
    (if crm = 5 then
       (if opcode_2 = 0 then Some CP15_INVALIDATE_ITLB
        else if opcode_2 = 1 then Some CP15_INVALIDATE_ITLB_SINGLE_ENTRY
        else if opcode_2 = 2 then Some CP15_INVALIDATE_ITLB_ENTRY_ON_ASID_MATCH
        else if opcode_2 = 3 then Some CP15_INVALIDATE_ITLB_ENTRY_ON_MVA
        else None)
     else if crm = 6 then
       (if opcode_2 = 0 then Some CP15_INVALIDATE_DTLB
        else if opcode_2 = 1 then Some CP15_INVALIDATE_DTLB_SINGLE_ENTRY
        else if opcode_2 = 2 then Some CP15_INVALIDATE_DTLB_ENTRY_ON_ASID_MATCH
        else if opcode_2 = 3 then Some CP15_INVALIDATE_DTLB_ENTRY_ON_MVA
        else None)
     else if crm = 7 then
       (if opcode_2 = 0 then Some CP15_INVALIDATE_UTLB
        else if opcode_2 = 1 then Some CP15_INVALIDATE_UTLB_SINGLE_ENTRY
        else if opcode_2 = 2 then Some CP15_INVALIDATE_UTLB_ENTRY_ON_ASID_MATCH
        else if opcode_2 = 3 then Some CP15_INVALIDATE_UTLB_ENTRY_ON_MVA
        else None)
     else None)"

definition cp15_c15_write :: "u32 \<Rightarrow> u32 \<Rightarrow> u32 \<Rightarrow> nat option" where
  "cp15_c15_write opcode_1 crm opcode_2 =
    (if opcode_1 = 0 \<and> crm = 12 then
       (if opcode_2 = 0 then Some CP15_PERFORMANCE_MONITOR_CONTROL
        else if opcode_2 = 1 then Some CP15_CYCLE_COUNTER
        else if opcode_2 = 2 then Some CP15_COUNT_0
        else if opcode_2 = 3 then Some CP15_COUNT_1
        else None)
     else if opcode_1 = 5 then
       (if crm = 4 then
          (if opcode_2 = 2 then Some CP15_READ_MAIN_TLB_LOCKDOWN_ENTRY
           else if opcode_2 = 4 then Some CP15_WRITE_MAIN_TLB_LOCKDOWN_ENTRY
           else None)
        else if crm = 5 \<and> opcode_2 = 2 then Some CP15_MAIN_TLB_LOCKDOWN_VIRT_ADDRESS
        else if crm = 6 \<and> opcode_2 = 2 then Some CP15_MAIN_TLB_LOCKDOWN_PHYS_ADDRESS
        else if crm = 7 \<and> opcode_2 = 2 then Some CP15_MAIN_TLB_LOCKDOWN_ATTRIBUTE
        else None)
     else if opcode_1 = 7 \<and> crm = 1 \<and> opcode_2 = 0 then Some CP15_TLB_DEBUG_CONTROL
     else None)"

definition cp15_privileged_write :: "u32 \<Rightarrow> u32 \<Rightarrow> u32 \<Rightarrow> u32 \<Rightarrow> nat option" where
  "cp15_privileged_write crn opcode_1 crm opcode_2 =
    (if crn = 1 \<and> opcode_1 = 0 \<and> crm = 0 then
       (if opcode_2 = 0 then Some CP15_CONTROL
        else if opcode_2 = 1 then Some CP15_AUXILIARY_CONTROL
        else if opcode_2 = 2 then Some CP15_COPROCESSOR_ACCESS_CONTROL
        else None)
     else if crn = 2 \<and> opcode_1 = 0 \<and> crm = 0 then
       (if opcode_2 = 0 then Some CP15_TRANSLATION_BASE_TABLE_0
        else if opcode_2 = 1 then Some CP15_TRANSLATION_BASE_TABLE_1
        else if opcode_2 = 2 then Some CP15_TRANSLATION_BASE_CONTROL
        else None)
     else if crn = 3 \<and> opcode_1 = 0 \<and> crm = 0 \<and> opcode_2 = 0 then Some CP15_DOMAIN_ACCESS_CONTROL
     else if crn = 5 \<and> opcode_1 = 0 \<and> crm = 0 then
       (if opcode_2 = 0 then Some CP15_FAULT_STATUS
        else if opcode_2 = 1 then Some CP15_INSTR_FAULT_STATUS
        else None)
     else if crn = 6 \<and> opcode_1 = 0 \<and> crm = 0 then
       (if opcode_2 = 0 then Some CP15_FAULT_ADDRESS
        else if opcode_2 = 1 then Some CP15_WFAR
        else None)
     else if crn = 7 \<and> opcode_1 = 0 then cp15_c7_write crm opcode_2
     else if crn = 8 \<and> opcode_1 = 0 then cp15_c8_write crm opcode_2
     else if crn = 9 \<and> opcode_1 = 0 \<and> crm = 0 \<and> opcode_2 = 0 then Some CP15_DATA_CACHE_LOCKDOWN
     else if crn = 10 \<and> opcode_1 = 0 then
       (if crm = 0 \<and> opcode_2 = 0 then Some CP15_TLB_LOCKDOWN
        else if crm = 2 then
          (if opcode_2 = 0 then Some CP15_PRIMARY_REGION_REMAP
           else if opcode_2 = 1 then Some CP15_NORMAL_REGION_REMAP
           else None)
        else None)
     else if crn = 13 \<and> opcode_1 = 0 \<and> crm = 0 then
       (if opcode_2 = 0 then Some CP15_PID
        else if opcode_2 = 1 then Some CP15_CONTEXT_ID
        else if opcode_2 = 3 then Some CP15_THREAD_URO
        else if opcode_2 = 4 then Some CP15_THREAD_PRW
        else None)
     else if crn = 15 then cp15_c15_write opcode_1 crm opcode_2
     else None)"

definition cp15_unprivileged_write :: "u32 \<Rightarrow> u32 \<Rightarrow> u32 \<Rightarrow> u32 \<Rightarrow> nat option" where
  "cp15_unprivileged_write crn opcode_1 crm opcode_2 =
    (if crn = 7 \<and> opcode_1 = 0 \<and> crm = 5 \<and> opcode_2 = 4 then Some CP15_FLUSH_PREFETCH_BUFFER
     else if crn = 7 \<and> opcode_1 = 0 \<and> crm = 10 then
       (if opcode_2 = 4 then Some CP15_DATA_SYNC_BARRIER
        else if opcode_2 = 5 then Some CP15_DATA_MEMORY_BARRIER
        else None)
     else if crn = 13 \<and> opcode_1 = 0 \<and> crm = 0 \<and> opcode_2 = 2 then Some CP15_THREAD_UPRW
     else None)"

definition cp15_set :: "u32 \<Rightarrow> nat option \<Rightarrow> ARMul_State \<Rightarrow> ARMul_State" where
  "cp15_set v r s = (case r of Some r \<Rightarrow> s\<lparr>CP15 := (CP15 s)[r := v]\<rparr> | None \<Rightarrow> s)"

definition WriteCP15Register :: "u32 \<Rightarrow> u32 \<Rightarrow> u32 \<Rightarrow> u32 \<Rightarrow> u32 \<Rightarrow> ARMul_State \<Rightarrow> ARMul_State" where
  "WriteCP15Register v crn opcode_1 crm opcode_2 s =
    (let s = (if InAPrivilegedMode s
              then cp15_set v (cp15_privileged_write crn opcode_1 crm opcode_2) s else s)
     in cp15_set v (cp15_unprivileged_write crn opcode_1 crm opcode_2) s)"

subsection \<open>The flags\<close>

text \<open>The macros of \<^verbatim>\<open>arm_dyncom_interpreter.cpp\<close> that move the flags between \<open>Cpsr\<close> and their
  separate members, and set them from a result.\<close>

definition SAVE_NZCVT :: "ARMul_State \<Rightarrow> ARMul_State" where
  "SAVE_NZCVT s = s\<lparr>Cpsr := (Cpsr s AND 0x0fffffdf) OR push_bit 31 (NFlag s) OR push_bit 30 (ZFlag s)
     OR push_bit 29 (CFlag s) OR push_bit 28 (VFlag s) OR push_bit 5 (TFlag s)\<rparr>"

definition LOAD_NZCVT :: "ARMul_State \<Rightarrow> ARMul_State" where
  "LOAD_NZCVT s = s\<lparr>NFlag := drop_bit 31 (Cpsr s), ZFlag := drop_bit 30 (Cpsr s) AND 1,
     CFlag := drop_bit 29 (Cpsr s) AND 1, VFlag := drop_bit 28 (Cpsr s) AND 1,
     TFlag := drop_bit 5 (Cpsr s) AND 1\<rparr>"

subsection \<open>Register banks\<close>

definition arm_modes :: "u32 list" where
  "arm_modes = [USER32MODE, FIQ32MODE, IRQ32MODE, SVC32MODE, ABORT32MODE, UNDEF32MODE, SYSTEM32MODE]"

text \<open>The registers \<open>r13\<close> and \<open>r14\<close> as code running in mode \<open>m\<close> sees them: the live ones when the
  current mode shares them, the saved bank otherwise; and the saved status of a mode.\<close>

definition same_bank :: "u32 \<Rightarrow> u32 \<Rightarrow> bool" where
  "same_bank m m' = (m = m' \<or> (m \<in> {USER32MODE, SYSTEM32MODE} \<and> m' \<in> {USER32MODE, SYSTEM32MODE}))"

definition stored_bank :: "u32 \<Rightarrow> ARMul_State \<Rightarrow> u32 list" where
  "stored_bank m s =
    (if m = USER32MODE \<or> m = SYSTEM32MODE then Reg_usr s
     else if m = IRQ32MODE then Reg_irq s
     else if m = SVC32MODE then Reg_svc s
     else if m = ABORT32MODE then Reg_abort s
     else if m = UNDEF32MODE then Reg_undef s
     else drop 5 (Reg_firq s))"

definition stored_spsr :: "u32 \<Rightarrow> ARMul_State \<Rightarrow> u32" where
  "stored_spsr m s =
    (if m = IRQ32MODE then Spsr s ! 2 else if m = SVC32MODE then Spsr s ! 3
     else if m = ABORT32MODE then Spsr s ! 4 else if m = UNDEF32MODE then Spsr s ! 5
     else Spsr s ! 1)"

definition banked_sp_lr :: "u32 \<Rightarrow> ARMul_State \<Rightarrow> u32 list" where
  "banked_sp_lr m s = (if same_bank (Mode s) m then [Reg s ! 13, Reg s ! 14] else stored_bank m s)"

definition banked_spsr :: "u32 \<Rightarrow> ARMul_State \<Rightarrow> u32" where
  "banked_spsr m s = (if Mode s = m then Spsr_copy s else stored_spsr m s)"

lemma length2_upd: "length xs = 2 \<Longrightarrow> xs[0 := a, Suc 0 := b] = [a, b]"
  by (cases xs; cases "tl xs") auto

lemma save_bank_frame [simp]:
  "Reg (save_bank s) = Reg s" "Mode (save_bank s) = Mode s" "Cpsr (save_bank s) = Cpsr s"
  by (simp_all add: save_bank_def)

lemma drop5_take7: "length xs = 16 \<Longrightarrow> drop 5 (take 7 (drop 8 xs)) = [xs ! 13, xs ! 14]"
  by (rule nth_equalityI) (auto simp: less_Suc_eq numeral_2_eq_2)

lemma stored_bank_save:
  assumes "arm_wf s" "Mode s \<in> set arm_modes" "m \<in> set arm_modes"
  shows "stored_bank m (save_bank s) = banked_sp_lr m s"
  using assms
  by (auto simp: save_bank_def stored_bank_def banked_sp_lr_def same_bank_def arm_modes_def arm_wf_def
      length2_upd drop5_take7)

lemma stored_spsr_save:
  assumes "arm_wf s" "Mode s \<in> set arm_modes" "m \<in> set arm_modes" "m \<noteq> USER32MODE" "m \<noteq> SYSTEM32MODE"
  shows "stored_spsr m (save_bank s) = banked_spsr m s"
  using assms
  by (auto simp: save_bank_def stored_spsr_def banked_spsr_def arm_modes_def arm_wf_def)

lemma load_bank_frame:
  "stored_bank m (load_bank m' s) = stored_bank m s" "stored_spsr m (load_bank m' s) = stored_spsr m s"
  by (simp_all add: stored_bank_def stored_spsr_def load_bank_def)

lemma nth_pair: "length xs = 2 \<Longrightarrow> [xs ! 0, xs ! Suc 0] = xs"
  by (cases xs; cases "tl xs") auto

lemma load_bank_live:
  assumes "arm_wf s" "m \<in> set arm_modes"
  shows "[Reg (load_bank m s) ! 13, Reg (load_bank m s) ! 14] = stored_bank m s"
    and "m \<noteq> USER32MODE \<Longrightarrow> m \<noteq> SYSTEM32MODE \<Longrightarrow> Spsr_copy (load_bank m s) = stored_spsr m s"
proof -
  have fiq: "[Reg_firq s ! 5, Reg_firq s ! 6] = drop 5 (Reg_firq s)"
    using assms(1) by (intro nth_equalityI) (auto simp: arm_wf_def less_Suc_eq numeral_2_eq_2)
  then show "[Reg (load_bank m s) ! 13, Reg (load_bank m s) ! 14] = stored_bank m s"
    using assms by (auto simp: load_bank_def stored_bank_def arm_modes_def arm_wf_def nth_append nth_pair)
  show "Spsr_copy (load_bank m s) = stored_spsr m s" if "m \<noteq> USER32MODE" "m \<noteq> SYSTEM32MODE"
    using that assms(2) by (auto simp: load_bank_def stored_spsr_def arm_modes_def)
qed

lemma arm_wf_save [simp]: "arm_wf s \<Longrightarrow> arm_wf (save_bank s)"
  by (auto simp: arm_wf_def save_bank_def)

lemma arm_wf_load [simp]: "arm_wf s \<Longrightarrow> arm_wf (load_bank m s)"
  by (auto simp: arm_wf_def load_bank_def)

lemma arm_wf_ChangePrivilegeMode [inv_intros]: "arm_wf s \<Longrightarrow> arm_wf (ChangePrivilegeMode m s)"
  using arm_wf_load [OF arm_wf_save, of s m]
  by (simp add: ChangePrivilegeMode_def Let_def arm_wf_def)

lemma ChangePrivilegeMode_Mode: "m \<noteq> 0 \<Longrightarrow> Mode (ChangePrivilegeMode m s) = m"
  by (simp add: ChangePrivilegeMode_def Let_def)

lemma arm_modes_nonzero: "m \<in> set arm_modes \<Longrightarrow> m \<noteq> 0"
  by (auto simp: arm_modes_def)

lemma load_bank_low:
  assumes "arm_wf s"
  shows "i < 8 \<or> i = 15 \<or> m \<noteq> FIQ32MODE \<and> i < 13 \<Longrightarrow> Reg (load_bank m s) ! i = Reg s ! i"
  using assms by (auto simp: load_bank_def arm_wf_def nth_append)

lemma view_after_switch:
  assumes "same_bank m' m" "m \<in> set arm_modes" "m' \<in> set arm_modes"
  shows "stored_bank m' s = stored_bank m s"
  using assms by (auto simp: same_bank_def stored_bank_def)

lemma mode_bits_replaced: "((c AND NOT (c AND 31)) OR m) AND 31 = m AND 31" for c m :: u32
  by (rule bit_eqI) (auto simp: bit_simps)

lemma arm_mode_bits: "m \<in> set arm_modes \<Longrightarrow> m AND 31 = m"
  by (auto simp: arm_modes_def)

lemma ChangePrivilegeMode_cases:
  assumes "m \<noteq> 0" "m \<noteq> Mode s"
  shows "ChangePrivilegeMode m s = (load_bank m (save_bank s))
    \<lparr>Cpsr := (Cpsr s AND NOT (Mode s)) OR m, Mode := m\<rparr>"
proof -
  have "Cpsr (load_bank m (save_bank s)) = Cpsr s" "Mode (load_bank m (save_bank s)) = Mode s"
    by (simp_all add: load_bank_def)
  then show ?thesis using assms by (simp add: ChangePrivilegeMode_def Let_def)
qed

lemma stored_frame:
  "stored_bank m (t\<lparr>Cpsr := c, Mode := k\<rparr>) = stored_bank m t"
  "stored_spsr m (t\<lparr>Cpsr := c, Mode := k\<rparr>) = stored_spsr m t"
  by (simp_all add: stored_bank_def stored_spsr_def)

lemma ChangePrivilegeMode_banked:
  assumes "arm_wf s" "Mode s \<in> set arm_modes" "m' \<in> set arm_modes" "m \<in> set arm_modes" "m' \<noteq> Mode s"
  shows "banked_sp_lr m (ChangePrivilegeMode m' s) = banked_sp_lr m s"
    and "m \<noteq> USER32MODE \<Longrightarrow> m \<noteq> SYSTEM32MODE \<Longrightarrow>
      banked_spsr m (ChangePrivilegeMode m' s) = banked_spsr m s"
proof -
  let ?t = "load_bank m' (save_bank s)"
  have eq: "ChangePrivilegeMode m' s = ?t\<lparr>Cpsr := (Cpsr s AND NOT (Mode s)) OR m', Mode := m'\<rparr>"
    by (rule ChangePrivilegeMode_cases [OF arm_modes_nonzero [OF assms(3)] assms(5)])
  have "[Reg ?t ! 13, Reg ?t ! 14] = stored_bank m s'" if "same_bank m' m" "s' = save_bank s" for s'
    using load_bank_live(1) [OF arm_wf_save [OF assms(1)] assms(3)]
      view_after_switch [OF that(1) assms(4,3)] that(2) by simp
  moreover have "banked_sp_lr m (ChangePrivilegeMode m' s)
      = (if same_bank m' m then [Reg ?t ! 13, Reg ?t ! 14] else stored_bank m ?t)"
    by (simp add: eq banked_sp_lr_def stored_frame)
  ultimately show "banked_sp_lr m (ChangePrivilegeMode m' s) = banked_sp_lr m s"
    using stored_bank_save [OF assms(1,2,4)] load_bank_frame(1) [of m m' "save_bank s"] by simp
  show "banked_spsr m (ChangePrivilegeMode m' s) = banked_spsr m s"
    if "m \<noteq> USER32MODE" "m \<noteq> SYSTEM32MODE"
  proof -
    have "banked_spsr m (ChangePrivilegeMode m' s) = (if m' = m then Spsr_copy ?t else stored_spsr m ?t)"
      by (simp add: eq banked_spsr_def stored_frame)
    moreover have "m' = m \<Longrightarrow> Spsr_copy ?t = stored_spsr m (save_bank s)"
      using load_bank_live(2) [OF arm_wf_save [OF assms(1)] assms(4) that] by simp
    ultimately show ?thesis
      using stored_spsr_save [OF assms(1,2,4) that] load_bank_frame(2) [of m m' "save_bank s"] by simp
  qed
qed

text \<open>C21: switching between any two of the seven privilege modes loses no banked register:
  for every mode, \<open>r13\<close> and \<open>r14\<close> as that mode sees them and its saved status register are the
  same before and after, \<open>r0\<close> to \<open>r7\<close> and the program counter are untouched, \<open>r8\<close> to \<open>r12\<close> are
  untouched unless the new mode is FIQ, and the mode bits of the status register become the
  new mode.\<close>

theorem mode_switch_keeps_banks:
  assumes "arm_wf s" "Mode s \<in> set arm_modes" "m' \<in> set arm_modes" "Cpsr s AND 0x1F = Mode s"
  shows "(\<forall>m. m \<in> set arm_modes \<longrightarrow>
          banked_sp_lr m (ChangePrivilegeMode m' s) = banked_sp_lr m s
          \<and> (m \<noteq> USER32MODE \<and> m \<noteq> SYSTEM32MODE \<longrightarrow>
             banked_spsr m (ChangePrivilegeMode m' s) = banked_spsr m s))
     \<and> (\<forall>i. i < 8 \<or> i = 15 \<or> m' \<noteq> FIQ32MODE \<and> i < 13 \<longrightarrow>
          Reg (ChangePrivilegeMode m' s) ! i = Reg s ! i)
     \<and> Mode (ChangePrivilegeMode m' s) = m'
     \<and> Cpsr (ChangePrivilegeMode m' s) AND 0x1F = m'
     \<and> arm_wf (ChangePrivilegeMode m' s)"
proof (cases "m' = Mode s")
  case True
  then show ?thesis using assms by (simp add: ChangePrivilegeMode_def)
next
  case False
  note eq = ChangePrivilegeMode_cases [OF arm_modes_nonzero [OF assms(3)] False]
  have "Reg (ChangePrivilegeMode m' s) ! i = Reg s ! i" if "i < 8 \<or> i = 15 \<or> m' \<noteq> FIQ32MODE \<and> i < 13" for i
    using load_bank_low [OF arm_wf_save [OF assms(1)] that] by (simp add: eq)
  moreover have "Cpsr (ChangePrivilegeMode m' s) AND 0x1F = m'"
    using mode_bits_replaced [of "Cpsr s" m'] arm_mode_bits [OF assms(3)]
    by (simp add: eq assms(4))
  ultimately show ?thesis
    using ChangePrivilegeMode_banked [OF assms(1-3) _ False] assms(1) arm_modes_nonzero [OF assms(3)]
    by (simp add: arm_wf_ChangePrivilegeMode ChangePrivilegeMode_Mode)
qed

definition arm_zero :: ARMul_State where
  "arm_zero = \<lparr>Reg = replicate 16 0, Reg_usr = replicate 2 0, Reg_svc = replicate 2 0,
     Reg_abort = replicate 2 0, Reg_undef = replicate 2 0, Reg_irq = replicate 2 0,
     Reg_firq = replicate 7 0, Spsr = replicate 7 0, CP15 = replicate CP15_REGISTER_COUNT 0,
     VFP = replicate 7 0, ExtReg = replicate 64 0, Cpsr = 16, Spsr_copy = 0, Mode = 16, Bank = 0,
     NFlag = 0, ZFlag = 0, CFlag = 0, VFlag = 0, shifter_carry_out = 0, TFlag = 0, NumInstrs = 0,
     NumInstrsToExecute = 0, NirqSig = 1, exclusive_tag = 0, exclusive_state = False, ram = []\<rparr>"

text \<open>A core in user mode whose registers hold 0 to 15 and whose FIQ bank holds 100 to 106.\<close>

definition arm_demo :: ARMul_State where
  "arm_demo = arm_zero\<lparr>Reg := [0, 1, 2, 3, 4, 5, 6, 7, 8, 9, 10, 11, 12, 13, 14, 15],
     Reg_firq := [100, 101, 102, 103, 104, 105, 106]\<rparr>"

lemma arm_demo_wf [simp]: "arm_wf arm_demo" "Mode arm_demo = USER32MODE" "Cpsr arm_demo = 16"
  by (simp_all add: arm_demo_def arm_zero_def arm_wf_def)

theorem mode_switch_keeps_banks_witness:
  "banked_sp_lr USER32MODE (ChangePrivilegeMode SVC32MODE arm_demo) = [13, 14]
   \<and> Mode (ChangePrivilegeMode SVC32MODE arm_demo) = SVC32MODE"
proof -
  have "banked_sp_lr USER32MODE arm_demo = [13, 14]"
    by (simp add: banked_sp_lr_def same_bank_def arm_demo_def arm_zero_def)
  then show ?thesis
    using mode_switch_keeps_banks [of arm_demo SVC32MODE] by (simp add: arm_modes_def)
qed

text \<open>C38: entering FIQ mode and returning to user mode leaves \<open>r8\<close> to \<open>r12\<close> with the FIQ bank's
  values: the user values of these registers are not saved anywhere.\<close>

theorem fiq_round_trip_loses_registers:
  assumes "arm_wf s" "Mode s = USER32MODE" "8 \<le> i" "i < 13"
  shows "Reg (ChangePrivilegeMode USER32MODE (ChangePrivilegeMode FIQ32MODE s)) ! i = Reg_firq s ! (i - 8)"
proof -
  have "i - 8 < 7" using assms by simp
  then show ?thesis
    using assms by (simp add: ChangePrivilegeMode_def save_bank_def load_bank_def Let_def arm_wf_def nth_append)
qed

theorem fiq_round_trip_loses_registers_witness:
  "Reg (ChangePrivilegeMode USER32MODE (ChangePrivilegeMode FIQ32MODE arm_demo)) ! 8 = 100
   \<and> Reg arm_demo ! 8 = 8"
proof -
  have "Reg_firq arm_demo ! 0 = 100" "Reg arm_demo ! 8 = 8" by (simp_all add: arm_demo_def arm_zero_def)
  then show ?thesis using fiq_round_trip_loses_registers [of arm_demo 8] by simp
qed

subsection \<open>Memory\<close>

lemma le16_bytes16 [simp]: "le16 (bytes16 w) = w"
  by (rule bit_eqI) (auto simp: le16_def bytes16_def bit_simps)

lemma le32_bytes32_append: "le32 (bytes32 w @ ys) = w"
proof (rule bit_eqI)
  show "bit (le32 (bytes32 w @ ys)) n = bit w n" if "possible_bit TYPE(u32) n" for n
    by (cases "n < 16"; cases "n < 24") (use that in \<open>auto simp: le32_def bytes32_def bit_simps\<close>)
qed

lemma le32_bytes32 [simp]: "le32 (bytes32 w) = w"
  using le32_bytes32_append [of w "[]"] by simp

lemma length_bytes [simp]: "length (bytes16 h) = 2" "length (bytes32 w) = 4" "length (bytes64 d) = 8"
  by (simp_all add: bytes16_def bytes32_def bytes64_def)

lemma le64_bytes64 [simp]: "le64 (bytes64 w) = w"
proof -
  have "le32 (bytes64 w) = ucast w" "le32 (drop 4 (bytes64 w)) = ucast (drop_bit 32 w)"
    by (simp_all add: bytes64_def le32_bytes32_append)
  moreover have "(ucast (ucast w :: u32) :: u64) OR push_bit 32 (ucast (ucast (drop_bit 32 w) :: u32)) = w"
    by (rule bit_eqI) (auto simp: bit_simps)
  ultimately show ?thesis by (simp add: le64_def)
qed

lemma mem_bytes_store:
  assumes "mem_store m a bs = Some m'"
  shows "mem_bytes m' a (length bs) = Some bs" and "length m' = length m"
    and "\<And>i. i < unat a \<or> unat a + length bs \<le> i \<Longrightarrow> m' ! i = m ! i"
  using assms
  by (auto simp: mem_store_def mem_bytes_def nth_append split: if_splits)

lemma word_add_no_wrap: "unat (a + k) = unat a + unat k" if "unat a + unat k < 0x100000000" for a k :: u32
  using that by (intro unat_add_nowrap) simp

text \<open>on a memory of at most 4 GiB minus eight bytes, a 32-bit access at an address that does not
  wrap is safe: a write inside the memory is read back, changes only its four bytes and keeps
  the size; outside the memory a write does nothing and a read gives zero.\<close>

theorem memory_word_roundtrip:
  assumes "unat a + 3 < 0x100000000"
  shows "(unat a + 3 < length m \<longrightarrow>
            (\<exists>m'. Write32 m a w = Some m' \<and> Read32 m' a = Some w \<and> length m' = length m
               \<and> (\<forall>i. i < unat a \<or> unat a + 4 \<le> i \<longrightarrow> m' ! i = m ! i)))
         \<and> (length m \<le> unat a + 3 \<longrightarrow> Write32 m a w = Some m \<and> Read32 m a = Some 0)"
proof -
  have sum: "unat (a + 3) = unat a + 3" using assms word_add_no_wrap [of a 3] by simp
  show ?thesis
  proof (cases "unat a + 3 < length m")
    case True
    then obtain m' where st: "mem_store m a (bytes32 w) = Some m'" by (simp add: mem_store_def)
    note facts = mem_bytes_store [OF st]
    from True st facts show ?thesis
      by (simp add: Write32_def Read32_def sum)
  next
    case False
    then show ?thesis by (simp add: Write32_def Read32_def sum)
  qed
qed

theorem memory_word_roundtrip_witness:
  "\<exists>m'. Write32 (replicate 8 0) 4 0xDEADBEEF = Some m' \<and> Read32 m' 4 = Some 0xDEADBEEF"
  using memory_word_roundtrip [where a = 4 and m = "replicate 8 0" and w = "0xDEADBEEF"] by auto



subsection \<open>CP15\<close>

text \<open>C22: in user mode the coprocessor shows only the two user-readable thread registers: reads in
  two user-mode states that agree on these registers are equal, and a write changes at most the
  prefetch, barrier and user thread registers.\<close>

theorem cp15_user_isolation:
  assumes "Mode s = USER32MODE" "Mode t = USER32MODE"
    "CP15 s ! CP15_THREAD_UPRW = CP15 t ! CP15_THREAD_UPRW"
    "CP15 s ! CP15_THREAD_URO = CP15 t ! CP15_THREAD_URO"
    "r \<notin> {CP15_FLUSH_PREFETCH_BUFFER, CP15_DATA_SYNC_BARRIER, CP15_DATA_MEMORY_BARRIER, CP15_THREAD_UPRW}"
  shows "ReadCP15Register s crn op1 crm op2 = ReadCP15Register t crn op1 crm op2
    \<and> CP15 (WriteCP15Register v crn op1 crm op2 s) ! r = CP15 s ! r"
  using assms
  by (simp add: ReadCP15Register_def WriteCP15Register_def cp15_unprivileged_write_def cp15_set_def
      InAPrivilegedMode_def split: option.split)

theorem cp15_user_isolation_witness:
  "CP15 (WriteCP15Register 5 1 0 0 0 arm_demo) ! CP15_CONTROL = CP15 arm_demo ! CP15_CONTROL"
  using cp15_user_isolation [where s = arm_demo and t = arm_demo and r = CP15_CONTROL and crn = 1 and ?op1.0 = 0 and crm = 0
      and ?op2.0 = 0 and v = 5] by simp

lemma cp15_write_target_readable:
  assumes "cp15_privileged_write crn op1 crm op2 = Some r" "cp15_privileged_read crn op1 crm op2 = Some r'"
  shows "r = r'"
  using assms(1)
  unfolding cp15_privileged_write_def cp15_c7_write_def cp15_c8_write_def cp15_c15_write_def
  by (simp split: if_split_asm) (use assms(2) in \<open>simp_all add: cp15_privileged_read_def\<close>)

lemma cp15_write_target:
  assumes "cp15_privileged_write crn op1 crm op2 = Some r"
  shows "r < CP15_REGISTER_COUNT \<and> cp15_unprivileged_write crn op1 crm op2 = None \<and> (crn, op2) \<noteq> (13, 2)"
  using assms
  unfolding cp15_privileged_write_def cp15_c7_write_def cp15_c8_write_def cp15_c15_write_def
  by (simp split: if_split_asm) (simp_all add: cp15_unprivileged_write_def)

text \<open>in a privileged mode, a coprocessor register that can be written and read at the same
  coordinates reads back the value that was written last.\<close>

theorem cp15_write_then_read:
  assumes "arm_wf s" "Mode s \<noteq> USER32MODE"
    "cp15_privileged_write crn op1 crm op2 \<noteq> None" "cp15_privileged_read crn op1 crm op2 \<noteq> None"
  shows "ReadCP15Register (WriteCP15Register v crn op1 crm op2 s) crn op1 crm op2 = v"
proof -
  obtain r where w: "cp15_privileged_write crn op1 crm op2 = Some r" using assms(3) by blast
  then have r: "cp15_privileged_read crn op1 crm op2 = Some r"
    using assms(4) cp15_write_target_readable [OF w] by force
  have "WriteCP15Register v crn op1 crm op2 s = s\<lparr>CP15 := (CP15 s)[r := v]\<rparr>"
    using assms(2) w cp15_write_target [OF w]
    by (simp add: WriteCP15Register_def InAPrivilegedMode_def cp15_set_def)
  moreover have "\<not> (crn = 13 \<and> op1 = 0 \<and> crm = 0 \<and> op2 = 3)"
    using r by (auto simp: cp15_privileged_read_def)
  ultimately show ?thesis
    using assms(1,2) r cp15_write_target [OF w]
    by (auto simp: ReadCP15Register_def InAPrivilegedMode_def arm_wf_def)
qed

theorem cp15_write_then_read_witness:
  "ReadCP15Register (WriteCP15Register 0x1234 13 0 0 4 (arm_demo\<lparr>Mode := SVC32MODE\<rparr>)) 13 0 0 4 = 0x1234"
proof -
  have "arm_wf (arm_demo\<lparr>Mode := SVC32MODE\<rparr>)" using arm_demo_wf(1) by (simp add: arm_wf_def)
  then show ?thesis
    by (rule cp15_write_then_read) (simp_all add: cp15_privileged_write_def cp15_privileged_read_def)
qed

end
