(* ===== verification/Arm_Operands.thy ===== *)
theory Arm_Operands
  imports Arm_State
begin

text \<open>
  The operands of the interpreter: the condition test, the eleven forms of the shifter operand of
  data processing instructions and their selection, and \<open>clz\<close>, from
  \<^verbatim>\<open>src/core/arm/dyncom/arm_dyncom_interpreter.cpp\<close>, with the program counter reads of
  \<^verbatim>\<open>arm_dyncom_run.h\<close>.  A function pointer is the name of the function; \<open>nullptr\<close> is \<open>None\<close>.

  \<open>ROTATE_RIGHT_32(n, 0)\<close> evaluates \<open>n << 32\<close>, which C++ leaves undefined and whose value
  depends on the host.  The value is the parameter \<open>h n\<close> of every definition that can reach it;
  the theorems assume that \<open>h n\<close> is \<open>n\<close> (a host that masks the shift count) or \<open>0\<close> (a host that
  shifts everything out).
\<close>

subsection \<open>Condition codes and register reads\<close>

definition CondPassed :: "ARMul_State \<Rightarrow> u32 \<Rightarrow> bool" where
  "CondPassed cpu cond =
    (let n_flag = NFlag cpu \<noteq> 0; z_flag = ZFlag cpu \<noteq> 0;
         c_flag = CFlag cpu \<noteq> 0; v_flag = VFlag cpu \<noteq> 0
     in if cond = 0 then z_flag
        else if cond = 1 then \<not> z_flag
        else if cond = 2 then c_flag
        else if cond = 3 then \<not> c_flag
        else if cond = 4 then n_flag
        else if cond = 5 then \<not> n_flag
        else if cond = 6 then v_flag
        else if cond = 7 then \<not> v_flag
        else if cond = 8 then c_flag \<and> \<not> z_flag
        else if cond = 9 then \<not> c_flag \<or> z_flag
        else if cond = 10 then n_flag = v_flag
        else if cond = 11 then n_flag \<noteq> v_flag
        else if cond = 12 then \<not> z_flag \<and> n_flag = v_flag
        else if cond = 13 then z_flag \<or> n_flag \<noteq> v_flag
        else if cond = 14 \<or> cond = 15 then True
        else False)"

definition CHECK_READ_REG15_WA :: "ARMul_State \<Rightarrow> u32 \<Rightarrow> u32" where
  "CHECK_READ_REG15_WA cpu Rn =
     (if Rn = 15 then (Reg cpu ! 15 AND NOT 0x3) + GetInstructionSize cpu * 2 else Reg cpu ! unat Rn)"

definition CHECK_READ_REG15 :: "ARMul_State \<Rightarrow> u32 \<Rightarrow> u32" where
  "CHECK_READ_REG15 cpu Rn =
     (if Rn = 15 then (Reg cpu ! 15 AND NOT 0x1) + GetInstructionSize cpu * 2 else Reg cpu ! unat Rn)"

subsection \<open>Shifter operands\<close>

definition ROTATE_RIGHT_32 :: "(u32 \<Rightarrow> u32) \<Rightarrow> u32 \<Rightarrow> nat \<Rightarrow> u32" where
  "ROTATE_RIGHT_32 h n i = (if i = 0 then h n else push_bit (32 - i) n) OR drop_bit i n"

definition DataProcessingOperandsImmediate :: "(u32 \<Rightarrow> u32) \<Rightarrow> u32 \<Rightarrow> ARMul_State \<Rightarrow> u32 \<times> ARMul_State" where
  "DataProcessingOperandsImmediate h sht_oper cpu =
    (let immed_8 = BITS sht_oper 0 7;
         rotate_imm = BITS sht_oper 8 11;
         shifter_operand = ROTATE_RIGHT_32 h immed_8 (unat (rotate_imm * 2))
     in (shifter_operand,
         if rotate_imm = 0 then cpu\<lparr>shifter_carry_out := CFlag cpu\<rparr>
         else cpu\<lparr>shifter_carry_out := BIT shifter_operand 31\<rparr>))"

definition DataProcessingOperandsRegister :: "u32 \<Rightarrow> ARMul_State \<Rightarrow> u32 \<times> ARMul_State" where
  "DataProcessingOperandsRegister sht_oper cpu =
    (let rm = CHECK_READ_REG15 cpu (BITS sht_oper 0 3)
     in (rm, cpu\<lparr>shifter_carry_out := CFlag cpu\<rparr>))"

definition DataProcessingOperandsLogicalShiftLeftByImmediate :: "u32 \<Rightarrow> ARMul_State \<Rightarrow> u32 \<times> ARMul_State" where
  "DataProcessingOperandsLogicalShiftLeftByImmediate sht_oper cpu =
    (let shift_imm = unat (BITS sht_oper 7 11);
         rm = CHECK_READ_REG15 cpu (BITS sht_oper 0 3)
     in if shift_imm = 0 then (rm, cpu\<lparr>shifter_carry_out := CFlag cpu\<rparr>)
        else (push_bit shift_imm rm, cpu\<lparr>shifter_carry_out := BIT rm (32 - shift_imm)\<rparr>))"

definition DataProcessingOperandsLogicalShiftLeftByRegister :: "u32 \<Rightarrow> ARMul_State \<Rightarrow> u32 \<times> ARMul_State" where
  "DataProcessingOperandsLogicalShiftLeftByRegister sht_oper cpu =
    (let rm = CHECK_READ_REG15 cpu (BITS sht_oper 0 3);
         rs = CHECK_READ_REG15 cpu (BITS sht_oper 8 11);
         amount = unat (BITS rs 0 7)
     in if amount = 0 then (rm, cpu\<lparr>shifter_carry_out := CFlag cpu\<rparr>)
        else if amount < 32 then (push_bit amount rm, cpu\<lparr>shifter_carry_out := BIT rm (32 - amount)\<rparr>)
        else if amount = 32 then (0, cpu\<lparr>shifter_carry_out := BIT rm 0\<rparr>)
        else (0, cpu\<lparr>shifter_carry_out := 0\<rparr>))"

definition DataProcessingOperandsLogicalShiftRightByImmediate :: "u32 \<Rightarrow> ARMul_State \<Rightarrow> u32 \<times> ARMul_State" where
  "DataProcessingOperandsLogicalShiftRightByImmediate sht_oper cpu =
    (let rm = CHECK_READ_REG15 cpu (BITS sht_oper 0 3);
         shift_imm = unat (BITS sht_oper 7 11)
     in if shift_imm = 0 then (0, cpu\<lparr>shifter_carry_out := BIT rm 31\<rparr>)
        else (drop_bit shift_imm rm, cpu\<lparr>shifter_carry_out := BIT rm (shift_imm - 1)\<rparr>))"

definition DataProcessingOperandsLogicalShiftRightByRegister :: "u32 \<Rightarrow> ARMul_State \<Rightarrow> u32 \<times> ARMul_State" where
  "DataProcessingOperandsLogicalShiftRightByRegister sht_oper cpu =
    (let rs = CHECK_READ_REG15 cpu (BITS sht_oper 8 11);
         rm = CHECK_READ_REG15 cpu (BITS sht_oper 0 3);
         amount = unat (BITS rs 0 7)
     in if amount = 0 then (rm, cpu\<lparr>shifter_carry_out := CFlag cpu\<rparr>)
        else if amount < 32 then (drop_bit amount rm, cpu\<lparr>shifter_carry_out := BIT rm (amount - 1)\<rparr>)
        else if amount = 32 then (0, cpu\<lparr>shifter_carry_out := BIT rm 31\<rparr>)
        else (0, cpu\<lparr>shifter_carry_out := 0\<rparr>))"

definition DataProcessingOperandsArithmeticShiftRightByImmediate :: "u32 \<Rightarrow> ARMul_State \<Rightarrow> u32 \<times> ARMul_State" where
  "DataProcessingOperandsArithmeticShiftRightByImmediate sht_oper cpu =
    (let rm = CHECK_READ_REG15 cpu (BITS sht_oper 0 3);
         shift_imm = unat (BITS sht_oper 7 11)
     in if shift_imm = 0
        then ((if BIT rm 31 = 0 then 0 else 0xFFFFFFFF), cpu\<lparr>shifter_carry_out := BIT rm 31\<rparr>)
        else (signed_drop_bit shift_imm rm, cpu\<lparr>shifter_carry_out := BIT rm (shift_imm - 1)\<rparr>))"

definition DataProcessingOperandsArithmeticShiftRightByRegister :: "u32 \<Rightarrow> ARMul_State \<Rightarrow> u32 \<times> ARMul_State" where
  "DataProcessingOperandsArithmeticShiftRightByRegister sht_oper cpu =
    (let rs = CHECK_READ_REG15 cpu (BITS sht_oper 8 11);
         rm = CHECK_READ_REG15 cpu (BITS sht_oper 0 3);
         amount = unat (BITS rs 0 7)
     in if amount = 0 then (rm, cpu\<lparr>shifter_carry_out := CFlag cpu\<rparr>)
        else if amount < 32 then (signed_drop_bit amount rm, cpu\<lparr>shifter_carry_out := BIT rm (amount - 1)\<rparr>)
        else ((if BIT rm 31 = 0 then 0 else 0xffffffff), cpu\<lparr>shifter_carry_out := BIT rm 31\<rparr>))"

definition DataProcessingOperandsRotateRightByImmediate :: "(u32 \<Rightarrow> u32) \<Rightarrow> u32 \<Rightarrow> ARMul_State \<Rightarrow> u32 \<times> ARMul_State" where
  "DataProcessingOperandsRotateRightByImmediate h sht_oper cpu =
    (let rm = CHECK_READ_REG15 cpu (BITS sht_oper 0 3);
         shift_imm = unat (BITS sht_oper 7 11)
     in if shift_imm = 0
        then (push_bit 31 (CFlag cpu) OR drop_bit 1 rm, cpu\<lparr>shifter_carry_out := BIT rm 0\<rparr>)
        else (ROTATE_RIGHT_32 h rm shift_imm, cpu\<lparr>shifter_carry_out := BIT rm (shift_imm - 1)\<rparr>))"

definition DataProcessingOperandsRotateRightByRegister :: "(u32 \<Rightarrow> u32) \<Rightarrow> u32 \<Rightarrow> ARMul_State \<Rightarrow> u32 \<times> ARMul_State" where
  "DataProcessingOperandsRotateRightByRegister h sht_oper cpu =
    (let rm = CHECK_READ_REG15 cpu (BITS sht_oper 0 3);
         rs = CHECK_READ_REG15 cpu (BITS sht_oper 8 11)
     in if BITS rs 0 7 = 0 then (rm, cpu\<lparr>shifter_carry_out := CFlag cpu\<rparr>)
        else if BITS rs 0 4 = 0 then (rm, cpu\<lparr>shifter_carry_out := BIT rm 31\<rparr>)
        else (ROTATE_RIGHT_32 h rm (unat (BITS rs 0 4)),
              cpu\<lparr>shifter_carry_out := BIT rm (unat (BITS rs 0 4) - 1)\<rparr>))"

datatype shtop_fp =
    DPO_Immediate | DPO_Register
  | DPO_LogicalShiftLeftByImmediate | DPO_LogicalShiftLeftByRegister
  | DPO_LogicalShiftRightByImmediate | DPO_LogicalShiftRightByRegister
  | DPO_ArithmeticShiftRightByImmediate | DPO_ArithmeticShiftRightByRegister
  | DPO_RotateRightByImmediate | DPO_RotateRightByRegister

text \<open>The call through the function pointer.\<close>

fun DPO :: "(u32 \<Rightarrow> u32) \<Rightarrow> shtop_fp \<Rightarrow> u32 \<Rightarrow> ARMul_State \<Rightarrow> u32 \<times> ARMul_State" where
  "DPO h DPO_Immediate = DataProcessingOperandsImmediate h"
| "DPO h DPO_Register = DataProcessingOperandsRegister"
| "DPO h DPO_LogicalShiftLeftByImmediate = DataProcessingOperandsLogicalShiftLeftByImmediate"
| "DPO h DPO_LogicalShiftLeftByRegister = DataProcessingOperandsLogicalShiftLeftByRegister"
| "DPO h DPO_LogicalShiftRightByImmediate = DataProcessingOperandsLogicalShiftRightByImmediate"
| "DPO h DPO_LogicalShiftRightByRegister = DataProcessingOperandsLogicalShiftRightByRegister"
| "DPO h DPO_ArithmeticShiftRightByImmediate = DataProcessingOperandsArithmeticShiftRightByImmediate"
| "DPO h DPO_ArithmeticShiftRightByRegister = DataProcessingOperandsArithmeticShiftRightByRegister"
| "DPO h DPO_RotateRightByImmediate = DataProcessingOperandsRotateRightByImmediate h"
| "DPO h DPO_RotateRightByRegister = DataProcessingOperandsRotateRightByRegister h"

definition GetShifterOp :: "u32 \<Rightarrow> shtop_fp option" where
  "GetShifterOp inst =
    (if BIT inst 25 \<noteq> 0 then Some DPO_Immediate
     else if BITS inst 4 11 = 0 then Some DPO_Register
     else if BITS inst 4 6 = 0 then Some DPO_LogicalShiftLeftByImmediate
     else if BITS inst 4 7 = 1 then Some DPO_LogicalShiftLeftByRegister
     else if BITS inst 4 6 = 2 then Some DPO_LogicalShiftRightByImmediate
     else if BITS inst 4 7 = 3 then Some DPO_LogicalShiftRightByRegister
     else if BITS inst 4 6 = 4 then Some DPO_ArithmeticShiftRightByImmediate
     else if BITS inst 4 7 = 5 then Some DPO_ArithmeticShiftRightByRegister
     else if BITS inst 4 6 = 6 then Some DPO_RotateRightByImmediate
     else if BITS inst 4 7 = 7 then Some DPO_RotateRightByRegister
     else None)"

subsection \<open>Counting leading zeros\<close>

definition clz :: "u32 \<Rightarrow> nat" where
  "clz x =
    (if x = 0 then 32
     else let n = 1;
              (n, x) = (if drop_bit 16 x = 0 then (n + 16, push_bit 16 x) else (n, x));
              (n, x) = (if drop_bit 24 x = 0 then (n + 8, push_bit 8 x) else (n, x));
              (n, x) = (if drop_bit 28 x = 0 then (n + 4, push_bit 4 x) else (n, x));
              (n, x) = (if drop_bit 30 x = 0 then (n + 2, push_bit 2 x) else (n, x))
          in n - unat (drop_bit 31 x))"

subsection \<open>Bit fields\<close>

lemma BITS_eq: "a \<le> b \<Longrightarrow> b < 32 \<Longrightarrow> BITS s a b = take_bit (Suc b - a) (drop_bit a s)"
  by (rule bit_word_eqI) (auto simp: BITS_def bit_simps intro!: arg_cong [where f = "bit s"])

lemma BIT_eq: "BIT s n = of_bool (bit s n)"
  by (rule bit_word_eqI) (auto simp: BIT_def bit_simps)

lemma BITS_less: "a \<le> b \<Longrightarrow> b < 32 \<Longrightarrow> unat (BITS s a b) < 2 ^ (Suc b - a)"
  by (simp add: BITS_eq unsigned_take_bit_eq)

subsection \<open>The architecture's shifts\<close>

text \<open>Shift with carry out as the ARM architecture defines it, on integers: the operand is shifted in
  unbounded precision and the carry is the last bit shifted out.\<close>

datatype SRType = SRType_LSL | SRType_LSR | SRType_ASR | SRType_ROR | SRType_RRX

fun Shift_C :: "SRType \<Rightarrow> nat \<Rightarrow> bool \<Rightarrow> u32 \<Rightarrow> u32 \<times> bool" where
  "Shift_C SRType_LSL n c x =
     (if n = 0 then (x, c) else (word_of_int (uint x * 2 ^ n), odd (uint x * 2 ^ n div 2 ^ 32)))"
| "Shift_C SRType_LSR n c x =
     (if n = 0 then (x, c) else (word_of_int (uint x div 2 ^ n), odd (uint x div 2 ^ (n - 1))))"
| "Shift_C SRType_ASR n c x =
     (if n = 0 then (x, c) else (word_of_int (sint x div 2 ^ n), odd (sint x div 2 ^ (n - 1))))"
| "Shift_C SRType_ROR n c x =
     (if n = 0 then (x, c) else (word_rotr n x, bit (word_rotr n x) 31))"
| "Shift_C SRType_RRX n c x = (push_bit 31 (of_bool c) OR drop_bit 1 x, bit x 0)"

definition DecodeImmShift :: "nat \<Rightarrow> nat \<Rightarrow> SRType \<times> nat" where
  "DecodeImmShift ty imm5 =
    (if ty = 0 then (SRType_LSL, imm5)
     else if ty = 1 then (SRType_LSR, if imm5 = 0 then 32 else imm5)
     else if ty = 2 then (SRType_ASR, if imm5 = 0 then 32 else imm5)
     else if imm5 = 0 then (SRType_RRX, 1) else (SRType_ROR, imm5))"

definition DecodeRegShift :: "nat \<Rightarrow> SRType" where
  "DecodeRegShift ty =
    (if ty = 0 then SRType_LSL else if ty = 1 then SRType_LSR else if ty = 2 then SRType_ASR else SRType_ROR)"

text \<open>The second operand of a data processing instruction: a rotated byte, a register shifted by an
  immediate, or a register shifted by the low byte of a register.\<close>

definition operand2 :: "u32 \<Rightarrow> ARMul_State \<Rightarrow> u32 \<times> bool" where
  "operand2 inst s =
    (let c = CFlag s \<noteq> 0; rm = CHECK_READ_REG15 s (BITS inst 0 3); ty = unat (BITS inst 5 6)
     in if bit inst 25 then Shift_C SRType_ROR (2 * unat (BITS inst 8 11)) c (BITS inst 0 7)
        else if \<not> bit inst 4
        then (case DecodeImmShift ty (unat (BITS inst 7 11)) of (t, n) \<Rightarrow> Shift_C t n c rm)
        else Shift_C (DecodeRegShift ty) (unat (BITS (CHECK_READ_REG15 s (BITS inst 8 11)) 0 7)) c rm)"

lemma LSL_push: "word_of_int (uint x * 2 ^ n) = push_bit n x" for x :: u32
  by (simp add: push_bit_eq_mult)

lemma bit32_less: "bit x n \<Longrightarrow> n < 32" for x :: u32
  using bit_imp_le_length [of x n] by simp

lemma LSL_carry: "odd (uint x * 2 ^ n div 2 ^ 32) \<longleftrightarrow> n \<le> 32 \<and> bit x (32 - n)" for x :: u32
proof -
  have "odd (uint x * 2 ^ n div 2 ^ 32) \<longleftrightarrow> bit (push_bit n (uint x)) 32"
    by (simp add: bit_iff_odd push_bit_eq_mult)
  then show ?thesis using bit32_less [of x "32 - n"] by (auto simp: bit_push_bit_iff bit_uint_iff)
qed

lemma LSR_drop: "word_of_int (uint x div 2 ^ n) = drop_bit n x" for x :: u32
  by (rule bit_word_eqI)
    (auto simp: bit_word_of_int_iff bit_drop_bit_eq bit_uint_iff dest: bit32_less simp flip: drop_bit_eq_div)

lemma LSR_carry: "odd (uint x div 2 ^ n) \<longleftrightarrow> bit x n" for x :: u32
  using bit32_less [of x n] by (auto simp: bit_uint_iff simp flip: bit_iff_odd)

lemma ASR_drop: "word_of_int (sint x div 2 ^ n) = signed_drop_bit n x" for x :: u32
proof -
  have "sint x div 2 ^ n = sint (signed_drop_bit n x)"
    by (simp add: sint_signed_drop_bit_eq drop_bit_eq_div)
  then show ?thesis by (simp only: of_int_sint) simp
qed

lemma ASR_carry: "odd (sint x div 2 ^ n) \<longleftrightarrow> bit x (min 31 n)" for x :: u32
proof -
  consider "n < 31" | "n = 31" | "31 < n" by linarith
  then have "bit (sint x) n = bit x (min 31 n)"
    using bit32_less [of x n] by cases (auto simp: bit_sint_iff)
  then show ?thesis by (simp only: bit_iff_odd)
qed

lemma ROTATE_RIGHT_32_rotr:
  assumes "0 < i" "i < 32"
  shows "ROTATE_RIGHT_32 h n i = word_rotr i n"
proof (rule bit_word_eqI)
  fix k
  assume "k < LENGTH(32)"
  then have k: "k < 32" by simp
  have "(k + i) mod 32 = (if k + i < 32 then k + i else k + i - 32)"
    using k assms by (simp add: le_mod_geq)
  moreover have "\<not> bit n (i + k)" if "32 \<le> k + i" using that bit32_less [of n "i + k"] by linarith
  ultimately show "bit (ROTATE_RIGHT_32 h n i) k = bit (word_rotr i n) k"
    using k assms
    by (auto simp: ROTATE_RIGHT_32_def bit_or_iff bit_push_bit_iff bit_drop_bit_eq bit_word_rotr_iff add.commute)
qed

lemma rotr_top: "0 < i \<Longrightarrow> i < 32 \<Longrightarrow> bit (word_rotr i x) 31 = bit x (i - 1)" for x :: u32
  by (simp add: bit_word_rotr_iff le_mod_geq)

lemma BITS_nested: "a \<le> b \<Longrightarrow> b \<le> d \<Longrightarrow> d < 32 \<Longrightarrow> BITS (BITS w 0 d) a b = BITS w a b"
  by (rule bit_word_eqI) (auto simp: BITS_eq bit_take_bit_iff bit_drop_bit_eq)

lemma shift_type_fields:
  "BITS w 5 6 = of_bool (bit w 5) OR push_bit 1 (of_bool (bit w 6))"
  "BITS w 4 6 = of_bool (bit w 4) OR push_bit 1 (of_bool (bit w 5)) OR push_bit 2 (of_bool (bit w 6))"
  "BITS w 4 7 = of_bool (bit w 4) OR push_bit 1 (of_bool (bit w 5)) OR push_bit 2 (of_bool (bit w 6))
     OR push_bit 3 (of_bool (bit w 7))"
  by (rule bit_word_eqI; auto simp: BITS_eq bit_simps less_Suc_eq numeral_eq_Suc)+

lemma BITS_zero_iff:
  assumes "a \<le> b" "b < 32"
  shows "BITS w a b = 0 \<longleftrightarrow> (\<forall>i. a \<le> i \<and> i \<le> b \<longrightarrow> \<not> bit w i)"
proof -
  have "BITS w a b = 0 \<longleftrightarrow> (\<forall>k < Suc b - a. \<not> bit w (a + k))"
    using assms by (simp add: BITS_eq bit_eq_iff [of _ "0 :: u32"] bit_take_bit_iff bit_drop_bit_eq) (metis bit32_less le_add2 le_trans not_less)
  then show ?thesis
    by (metis Suc_diff_le assms(1) le_add_diff_inverse le_add1 less_Suc_eq_le less_diff_conv nat_add_left_cancel_le add_diff_cancel_left' diff_le_mono)
qed

lemma BITS_4_11_zero: "BITS w 4 11 = 0 \<longleftrightarrow> \<not> bit w 4 \<and> \<not> bit w 5 \<and> \<not> bit w 6 \<and> BITS w 7 11 = 0"
proof -
  have "4 \<le> i \<and> i \<le> 11 \<longleftrightarrow> i = 4 \<or> i = 5 \<or> i = 6 \<or> 7 \<le> i \<and> i \<le> (11 :: nat)" for i by auto
  then show ?thesis by (auto simp: BITS_zero_iff)
qed

lemma GetShifterOp_form:
  assumes "GetShifterOp w = Some f"
  shows "f = DPO_Immediate \<and> bit w 25
    \<or> \<not> bit w 25 \<and> \<not> bit w 4 \<and>
      (f = DPO_Register \<and> BITS w 5 6 = 0 \<and> BITS w 7 11 = 0
       \<or> f = DPO_LogicalShiftLeftByImmediate \<and> BITS w 5 6 = 0
       \<or> f = DPO_LogicalShiftRightByImmediate \<and> BITS w 5 6 = 1
       \<or> f = DPO_ArithmeticShiftRightByImmediate \<and> BITS w 5 6 = 2
       \<or> f = DPO_RotateRightByImmediate \<and> BITS w 5 6 = 3)
    \<or> \<not> bit w 25 \<and> bit w 4 \<and>
      (f = DPO_LogicalShiftLeftByRegister \<and> BITS w 5 6 = 0
       \<or> f = DPO_LogicalShiftRightByRegister \<and> BITS w 5 6 = 1
       \<or> f = DPO_ArithmeticShiftRightByRegister \<and> BITS w 5 6 = 2
       \<or> f = DPO_RotateRightByRegister \<and> BITS w 5 6 = 3)"
  using assms unfolding GetShifterOp_def BIT_eq BITS_4_11_zero shift_type_fields
  by (cases "bit w 4"; cases "bit w 5"; cases "bit w 6"; cases "bit w 7") (auto split: if_splits)

lemma BIT_32_minus: "0 < n \<Longrightarrow> n \<le> 32 \<Longrightarrow> odd (uint x * 2 ^ n div 2 ^ 32) = bit x (32 - n)" for x :: u32
  using LSL_carry [of x n] by simp

lemma push_bit_big: "32 \<le> n \<Longrightarrow> push_bit n x = 0" for x :: u32
  by (rule bit_word_eqI) (simp add: bit_push_bit_iff)

lemma drop_bit_big: "32 \<le> n \<Longrightarrow> drop_bit n x = 0" for x :: u32
  by (rule bit_word_eqI) (auto simp: bit_drop_bit_eq dest: bit32_less)

lemma signed_drop_bit_big: "32 \<le> n \<Longrightarrow> signed_drop_bit n x = (if bit x 31 then - 1 else 0)" for x :: u32
  by (rule bit_word_eqI) (auto simp: bit_signed_drop_bit_iff)

text \<open>How the helper's output reads: the operand, and the carry left in \<open>shifter_carry_out\<close>.\<close>

definition shifter_result :: "ARMul_State \<Rightarrow> u32 \<times> bool \<Rightarrow> u32 \<times> ARMul_State" where
  "shifter_result s rc = (fst rc, s\<lparr>shifter_carry_out := of_bool (snd rc)\<rparr>)"

lemma Shift_C_forms:
  "0 < n \<Longrightarrow> Shift_C SRType_LSL n c x = (push_bit n x, n \<le> 32 \<and> bit x (32 - n))"
  "0 < n \<Longrightarrow> Shift_C SRType_LSR n c x = (drop_bit n x, bit x (n - 1))"
  "0 < n \<Longrightarrow> Shift_C SRType_ASR n c x = (signed_drop_bit n x, bit x (min 31 (n - 1)))"
  "0 < n \<Longrightarrow> Shift_C SRType_ROR n c x = (word_rotr n x, bit (word_rotr n x) 31)"
  "t \<noteq> SRType_RRX \<Longrightarrow> Shift_C t 0 c x = (x, c)"
  by (simp_all only: Shift_C.simps LSL_push LSR_drop ASR_drop LSL_carry LSR_carry ASR_carry if_False)
    (cases t; simp)+

declare Shift_C.simps [simp del]

lemma DPO_register_forms:
  assumes "CFlag s \<in> {0, 1}"
  shows "DataProcessingOperandsLogicalShiftLeftByRegister w s = shifter_result s
      (Shift_C SRType_LSL (unat (BITS (CHECK_READ_REG15 s (BITS w 8 11)) 0 7)) (CFlag s \<noteq> 0) (CHECK_READ_REG15 s (BITS w 0 3)))"
    and "DataProcessingOperandsLogicalShiftRightByRegister w s = shifter_result s
      (Shift_C SRType_LSR (unat (BITS (CHECK_READ_REG15 s (BITS w 8 11)) 0 7)) (CFlag s \<noteq> 0) (CHECK_READ_REG15 s (BITS w 0 3)))"
    and "DataProcessingOperandsArithmeticShiftRightByRegister w s = shifter_result s
      (Shift_C SRType_ASR (unat (BITS (CHECK_READ_REG15 s (BITS w 8 11)) 0 7)) (CFlag s \<noteq> 0) (CHECK_READ_REG15 s (BITS w 0 3)))"
proof -
  have c: "of_bool (CFlag s \<noteq> 0) = CFlag s" using assms by auto
  obtain n where n: "unat (BITS (CHECK_READ_REG15 s (BITS w 8 11)) 0 7) = n" by blast
  obtain x where x: "CHECK_READ_REG15 s (BITS w 0 3) = x" by blast
  show "DataProcessingOperandsLogicalShiftLeftByRegister w s = shifter_result s
      (Shift_C SRType_LSL (unat (BITS (CHECK_READ_REG15 s (BITS w 8 11)) 0 7)) (CFlag s \<noteq> 0) (CHECK_READ_REG15 s (BITS w 0 3)))"
    unfolding DataProcessingOperandsLogicalShiftLeftByRegister_def Let_def n x
    by (cases "n = 0") (auto simp: shifter_result_def Shift_C_forms BIT_eq c push_bit_big)
  show "DataProcessingOperandsLogicalShiftRightByRegister w s = shifter_result s
      (Shift_C SRType_LSR (unat (BITS (CHECK_READ_REG15 s (BITS w 8 11)) 0 7)) (CFlag s \<noteq> 0) (CHECK_READ_REG15 s (BITS w 0 3)))"
    unfolding DataProcessingOperandsLogicalShiftRightByRegister_def Let_def n x
    using bit32_less [of x "n - 1"]
    by (cases "n = 0") (auto simp: shifter_result_def Shift_C_forms BIT_eq c drop_bit_big)
  show "DataProcessingOperandsArithmeticShiftRightByRegister w s = shifter_result s
      (Shift_C SRType_ASR (unat (BITS (CHECK_READ_REG15 s (BITS w 8 11)) 0 7)) (CFlag s \<noteq> 0) (CHECK_READ_REG15 s (BITS w 0 3)))"
    unfolding DataProcessingOperandsArithmeticShiftRightByRegister_def Let_def n x
    by (cases "n = 0") (auto simp: shifter_result_def Shift_C_forms BIT_eq c signed_drop_bit_big min_def)
qed

lemma BITS_imm5: "unat (BITS w 7 11) < 32"
  using BITS_less [of 7 11 w] by simp

lemma DPO_immediate_forms:
  fixes w :: u32
  assumes "CFlag s \<in> {0, 1}"
  defines "x \<equiv> CHECK_READ_REG15 s (BITS w 0 3)" and "n \<equiv> unat (BITS w 7 11)" and "c \<equiv> CFlag s \<noteq> 0"
  shows "n = 0 \<Longrightarrow> DataProcessingOperandsRegister w s = shifter_result s (Shift_C SRType_LSL n c x)"
    and "DataProcessingOperandsLogicalShiftLeftByImmediate w s = shifter_result s (Shift_C SRType_LSL n c x)"
    and "DataProcessingOperandsLogicalShiftRightByImmediate w s
      = shifter_result s (Shift_C SRType_LSR (if n = 0 then 32 else n) c x)"
    and "DataProcessingOperandsArithmeticShiftRightByImmediate w s
      = shifter_result s (Shift_C SRType_ASR (if n = 0 then 32 else n) c x)"
    and "DataProcessingOperandsRotateRightByImmediate h w s = shifter_result s
      (if n = 0 then Shift_C SRType_RRX 1 c x else Shift_C SRType_ROR n c x)"
proof -
  have c: "of_bool (CFlag s \<noteq> 0) = CFlag s" using assms(1) by auto
  have n: "n < 32" unfolding n_def by (rule BITS_imm5)
  show "DataProcessingOperandsRegister w s = shifter_result s (Shift_C SRType_LSL n c x)" if "n = 0"
    using that by (simp add: DataProcessingOperandsRegister_def Let_def x_def shifter_result_def Shift_C_forms c_def c)
  show "DataProcessingOperandsLogicalShiftLeftByImmediate w s = shifter_result s (Shift_C SRType_LSL n c x)"
    using n unfolding DataProcessingOperandsLogicalShiftLeftByImmediate_def Let_def x_def [symmetric] n_def [symmetric] c_def
    by (cases "n = 0") (auto simp: shifter_result_def Shift_C_forms BIT_eq c)
  show "DataProcessingOperandsLogicalShiftRightByImmediate w s
      = shifter_result s (Shift_C SRType_LSR (if n = 0 then 32 else n) c x)"
    using n unfolding DataProcessingOperandsLogicalShiftRightByImmediate_def Let_def x_def [symmetric] n_def [symmetric] c_def
    by (cases "n = 0") (auto simp: shifter_result_def Shift_C_forms BIT_eq c drop_bit_big)
  show "DataProcessingOperandsArithmeticShiftRightByImmediate w s
      = shifter_result s (Shift_C SRType_ASR (if n = 0 then 32 else n) c x)"
    using n unfolding DataProcessingOperandsArithmeticShiftRightByImmediate_def Let_def x_def [symmetric] n_def [symmetric] c_def
    by (cases "n = 0") (auto simp: shifter_result_def Shift_C_forms BIT_eq c signed_drop_bit_big)
  show "DataProcessingOperandsRotateRightByImmediate h w s = shifter_result s
      (if n = 0 then Shift_C SRType_RRX 1 c x else Shift_C SRType_ROR n c x)"
    using n unfolding DataProcessingOperandsRotateRightByImmediate_def Let_def x_def [symmetric] n_def [symmetric] c_def
    by (cases "n = 0")
      (auto simp: shifter_result_def Shift_C_forms Shift_C.simps BIT_eq c ROTATE_RIGHT_32_rotr rotr_top)
qed

lemma rotr_mod_32: "word_rotr n x = word_rotr (n mod 32) x" for x :: u32
  by (rule bit_word_eqI) (simp add: bit_word_rotr_iff mod_simps)

lemma BITS_low5: "unat (BITS x 0 4) = unat (BITS x 0 7) mod 32"
proof -
  have "BITS x 0 4 = take_bit 5 (BITS x 0 7)"
    by (rule bit_word_eqI) (auto simp: BITS_eq bit_take_bit_iff)
  then show ?thesis by (simp add: take_bit_eq_mod unat_mod)
qed

lemma DPO_rotate_by_register:
  assumes "CFlag s \<in> {0, 1}"
  shows "DataProcessingOperandsRotateRightByRegister h w s = shifter_result s
      (Shift_C SRType_ROR (unat (BITS (CHECK_READ_REG15 s (BITS w 8 11)) 0 7)) (CFlag s \<noteq> 0) (CHECK_READ_REG15 s (BITS w 0 3)))"
proof -
  have c: "of_bool (CFlag s \<noteq> 0) = CFlag s" using assms by auto
  obtain y where y: "CHECK_READ_REG15 s (BITS w 8 11) = y" by blast
  obtain x where x: "CHECK_READ_REG15 s (BITS w 0 3) = x" by blast
  obtain n where n: "unat (BITS y 0 7) = n" by blast
  have zero: "BITS y 0 7 = 0 \<longleftrightarrow> n = 0" "BITS y 0 4 = 0 \<longleftrightarrow> n mod 32 = 0"
    using n BITS_low5 [of y] by (metis unat_eq_zero)+
  have low: "unat (BITS y 0 4) = n mod 32" using BITS_low5 [of y] n by simp
  have rot: "Shift_C SRType_ROR n k x
      = (if n = 0 then (x, k) else (word_rotr (n mod 32) x, bit (word_rotr (n mod 32) x) 31))" for k
    by (simp add: Shift_C_forms rotr_mod_32 [symmetric])
  have m: "n mod 32 < 32" by simp
  have zero_rot: "word_rotr 0 x = x" by (rule bit_word_eqI) (simp add: bit_word_rotr_iff)
  have goal: "(if n = 0 then (x, s\<lparr>shifter_carry_out := CFlag s\<rparr>)
        else if m = 0 then (x, s\<lparr>shifter_carry_out := BIT x 31\<rparr>)
        else (ROTATE_RIGHT_32 h x m, s\<lparr>shifter_carry_out := BIT x (m - 1)\<rparr>))
      = shifter_result s (if n = 0 then (x, CFlag s \<noteq> 0) else (word_rotr m x, bit (word_rotr m x) 31))"
    if "m < 32" for m
    using that by (simp add: shifter_result_def BIT_eq c ROTATE_RIGHT_32_rotr rotr_top zero_rot)
  show ?thesis
    unfolding DataProcessingOperandsRotateRightByRegister_def Let_def x y n zero low rot
    by (rule goal [OF m])
qed

lemma DPO_rotated_immediate:
  assumes "CFlag s \<in> {0, 1}" "\<And>n. h n = n \<or> h n = 0"
  shows "DataProcessingOperandsImmediate h w s = shifter_result s
      (Shift_C SRType_ROR (2 * unat (BITS w 8 11)) (CFlag s \<noteq> 0) (BITS w 0 7))"
proof -
  have c: "of_bool (CFlag s \<noteq> 0) = CFlag s" using assms by auto
  have r: "unat (BITS w 8 11) < 16" using BITS_less [of 8 11 w] by simp
  then have twice: "unat (BITS w 8 11 * 2) = 2 * unat (BITS w 8 11)" by (simp add: unat_mult_lem [THEN iffD1])
  obtain n where n: "unat (BITS w 8 11) = n" by blast
  have zero: "BITS w 8 11 = 0 \<longleftrightarrow> n = 0" using n by (metis unat_eq_zero)
  have "h i OR i = i" for i using assms(2) [of i] by auto
  then show ?thesis
    using r unfolding DataProcessingOperandsImmediate_def Let_def twice zero n
    by (cases "n = 0") (auto simp: shifter_result_def Shift_C_forms BIT_eq c ROTATE_RIGHT_32_rotr ROTATE_RIGHT_32_def [of h _ 0])
qed

lemma DPO_operand2:
  assumes "GetShifterOp inst = Some f" "CFlag s \<in> {0, 1}" "\<And>n. h n = n \<or> h n = 0"
  shows "DPO h f (BITS inst 0 11) s =
    (fst (operand2 inst s), s\<lparr>shifter_carry_out := of_bool (snd (operand2 inst s))\<rparr>)"
proof -
  have nest: "BITS (BITS inst 0 11) 0 3 = BITS inst 0 3" "BITS (BITS inst 0 11) 8 11 = BITS inst 8 11"
    "BITS (BITS inst 0 11) 7 11 = BITS inst 7 11" "BITS (BITS inst 0 11) 0 7 = BITS inst 0 7"
    by (simp_all add: BITS_nested)
  note forms = DPO_immediate_forms [OF assms(2), where w = "BITS inst 0 11", unfolded nest]
    DPO_register_forms [OF assms(2), where w = "BITS inst 0 11", unfolded nest]
    DPO_rotate_by_register [OF assms(2), where w = "BITS inst 0 11", unfolded nest]
    DPO_rotated_immediate [OF assms(2,3), where w = "BITS inst 0 11", unfolded nest]
  have "DPO h f (BITS inst 0 11) s = shifter_result s (operand2 inst s)"
    using GetShifterOp_form [OF assms(1)]
    by (elim disjE conjE) (simp_all add: forms operand2_def DecodeImmShift_def DecodeRegShift_def Let_def)
  then show ?thesis by (simp add: shifter_result_def)
qed

text \<open>C18: on a host where \<open>n << 32\<close> is \<open>n\<close> or 0, the shifter operand that the selected function
  computes from the low twelve bits of an instruction, and the carry it leaves, are those of the
  architecture's shift with carry for every encoding that has one; nothing else of the state
  changes.\<close>

theorem shifter_operand_is_architectural:
  assumes "GetShifterOp inst = Some f" "CFlag s \<in> {0, 1}" "\<And>n. h n = n \<or> h n = 0"
  shows "DPO h f (BITS inst 0 11) s =
    (fst (operand2 inst s), s\<lparr>shifter_carry_out := of_bool (snd (operand2 inst s))\<rparr>)"
  by (rule DPO_operand2) (fact assms)+

theorem shifter_operand_is_architectural_witness:
  "DPO (\<lambda>n. n) DPO_LogicalShiftRightByImmediate (BITS 0xE1A000A3 0 11) arm_demo
     = (1, arm_demo\<lparr>shifter_carry_out := 1\<rparr>)"
proof -
  have sel: "GetShifterOp 0xE1A000A3 = Some DPO_LogicalShiftRightByImmediate"
    by (simp add: GetShifterOp_def BIT_def BITS_def)
  have regs: "CHECK_READ_REG15 arm_demo 3 = 3" "CFlag arm_demo = 0"
    by (simp_all add: CHECK_READ_REG15_def arm_demo_def arm_zero_def)
  then have op: "operand2 0xE1A000A3 arm_demo = (1, True)"
    by (simp add: operand2_def DecodeImmShift_def BITS_def Shift_C_forms)
  show ?thesis
    using shifter_operand_is_architectural [OF sel, where s = arm_demo and h = "\<lambda>n. n"] op regs by simp
qed

subsection \<open>Counting leading zeros, conditions\<close>

lemma drop_bit_zero_iff: "drop_bit n w = 0 \<longleftrightarrow> unat w < 2 ^ n" for w :: u32
  by (metis div_eq_0_iff drop_bit_eq_div unat_drop_bit_eq unat_eq_0 power_not_zero zero_neq_numeral)

lemma clz_step:
  assumes "unat y = X * 2 ^ k" "2 ^ (32 - 2 * j) \<le> unat y" "j \<le> 16"
  defines "y' \<equiv> if drop_bit (32 - j) y = 0 then push_bit j y else y"
    and "k' \<equiv> if drop_bit (32 - j) y = 0 then k + j else k"
  shows "unat (y' :: u32) = X * 2 ^ k'" and "2 ^ (32 - j) \<le> unat y'"
proof -
  have zero: "drop_bit (32 - j) y = 0 \<longleftrightarrow> unat y < 2 ^ (32 - j)"
    by (rule drop_bit_zero_iff)
  have shift: "unat (push_bit j y) = unat y * 2 ^ j" if "unat y < 2 ^ (32 - j)"
  proof -
    have "unat y * 2 ^ j < 2 ^ (32 - j) * 2 ^ j" using that by simp
    also have "\<dots> = 2 ^ 32" using assms(3) by (simp flip: power_add)
    finally show ?thesis
      by (simp only: unsigned_push_bit_eq) (simp add: push_bit_eq_mult take_bit_nat_eq_self)
  qed
  show "unat y' = X * 2 ^ k'"
    using assms(1) shift by (simp add: y'_def k'_def zero power_add)
  have "(2 :: nat) ^ (32 - 2 * j) * 2 ^ j = 2 ^ (32 - j)"
    using assms(3) by (simp flip: power_add)
  then show "2 ^ (32 - j) \<le> unat y'"
    using assms(2) shift mult_le_mono1 [OF assms(2), of "2 ^ j"] by (auto simp: y'_def zero)
qed

lemma scaled_bracket:
  assumes "2 ^ a \<le> X * 2 ^ k" "X * 2 ^ k < 2 ^ b" "k \<le> a" "k \<le> b"
  shows "2 ^ (a - k) \<le> X \<and> X < (2 :: nat) ^ (b - k)"
proof -
  have "(2 :: nat) ^ a = 2 ^ (a - k) * 2 ^ k" "(2 :: nat) ^ b = 2 ^ (b - k) * 2 ^ k"
    using assms(3,4) by (simp_all flip: power_add)
  with assms(1,2) show ?thesis by simp
qed

lemma clz_bracket:
  assumes "x \<noteq> 0"
  shows "\<exists>c. clz x = c \<and> c < 32 \<and> 2 ^ (31 - c) \<le> unat x \<and> unat x < 2 ^ (32 - c)"
proof -
  define y1 k1 where "y1 = (if drop_bit 16 x = 0 then push_bit 16 x else x)"
    and "k1 = (if drop_bit 16 x = 0 then 0 + 16 else 0 :: nat)"
  define y2 k2 where "y2 = (if drop_bit 24 y1 = 0 then push_bit 8 y1 else y1)"
    and "k2 = (if drop_bit 24 y1 = 0 then k1 + 8 else k1)"
  define y3 k3 where "y3 = (if drop_bit 28 y2 = 0 then push_bit 4 y2 else y2)"
    and "k3 = (if drop_bit 28 y2 = 0 then k2 + 4 else k2)"
  define y4 k4 where "y4 = (if drop_bit 30 y3 = 0 then push_bit 2 y3 else y3)"
    and "k4 = (if drop_bit 30 y3 = 0 then k3 + 2 else k3)"
  have pos: "1 \<le> unat x" using assms by (metis less_one not_le unat_eq_0)
  have s1: "unat y1 = unat x * 2 ^ k1" "2 ^ 16 \<le> unat y1"
    using clz_step [of x "unat x" 0 16] pos by (simp_all add: y1_def k1_def)
  have s2: "unat y2 = unat x * 2 ^ k2" "2 ^ 24 \<le> unat y2"
    using clz_step [of y1 "unat x" k1 8] s1 by (simp_all add: y2_def k2_def)
  have s3: "unat y3 = unat x * 2 ^ k3" "2 ^ 28 \<le> unat y3"
    using clz_step [of y2 "unat x" k2 4] s2 by (simp_all add: y3_def k3_def)
  have s4: "unat y4 = unat x * 2 ^ k4" "2 ^ 30 \<le> unat y4"
    using clz_step [of y3 "unat x" k3 2] s3 by (simp_all add: y4_def k4_def)
  have k4: "k4 \<le> 30" by (simp add: k1_def k2_def k3_def k4_def)
  have clz: "clz x = 1 + k4 - unat (drop_bit 31 y4)"
  proof -
    have st: "(if drop_bit 16 x = 0 then (1 + 16, push_bit 16 x) else (1, x)) = (1 + k1, y1)"
      "(if drop_bit 24 y1 = 0 then (1 + k1 + 8, push_bit 8 y1) else (1 + k1, y1)) = (1 + k2, y2)"
      "(if drop_bit 28 y2 = 0 then (1 + k2 + 4, push_bit 4 y2) else (1 + k2, y2)) = (1 + k3, y3)"
      "(if drop_bit 30 y3 = 0 then (1 + k3 + 2, push_bit 2 y3) else (1 + k3, y3)) = (1 + k4, y4)"
      by (simp_all add: y4_def k4_def y3_def k3_def y2_def k2_def y1_def k1_def)
    show ?thesis using assms by (simp only: clz_def Let_def st case_prod_conv if_False)
  qed
  have top: "unat (drop_bit 31 y4) = of_bool (bit y4 31)" by (simp add: sign_bit_drop)
  have high: "bit y4 31 \<longleftrightarrow> 2 ^ 31 \<le> unat y4"
    using drop_bit_zero_iff [of 31 y4] sign_bit_drop [of y4] by (auto simp: not_less)
  have bound: "unat y4 < 2 ^ 32" using unat_u32_bound [of y4] by simp
  show ?thesis
  proof (cases "bit y4 31")
    case True
    then have "2 ^ (31 - k4) \<le> unat x \<and> unat x < 2 ^ (32 - k4)"
      using scaled_bracket [of 31 "unat x" k4 32] high s4 bound k4 by simp
    with True k4 show ?thesis by (auto simp: clz top)
  next
    case False
    then have "2 ^ (30 - k4) \<le> unat x \<and> unat x < 2 ^ (31 - k4)"
      using scaled_bracket [of 30 "unat x" k4 31] high s4 k4 by simp
    with False k4 show ?thesis by (auto simp: clz top)
  qed
qed

text \<open>\<open>clz\<close> counts leading zeros: 32 for zero, and otherwise the number of places that
  brackets the argument between two consecutive powers of two.\<close>

theorem clz_counts_leading_zeros:
  "if x = 0 then clz x = 32
   else clz x < 32 \<and> 2 ^ (31 - clz x) \<le> unat x \<and> unat x < 2 ^ (32 - clz x)"
proof (cases "x = 0")
  case True
  then show ?thesis by (simp add: clz_def)
next
  case False
  then show ?thesis using clz_bracket [of x] by auto
qed

text \<open>a condition code and the code with the lowest bit flipped are complementary for the
  fourteen codes that test flags, and the last two always pass.\<close>

theorem condition_codes_complement:
  assumes "cond < 14"
  shows "CondPassed s (cond XOR 1) = (\<not> CondPassed s cond) \<and> CondPassed s 14 \<and> CondPassed s 15"
proof -
  have "list_all (\<lambda>n. CondPassed s (word_of_nat n XOR 1) = (\<not> CondPassed s (word_of_nat n))) [0..<14]"
    by (simp add: upt_conv_Cons) (auto simp: CondPassed_def Let_def)
  then have "\<forall>n\<in>set [0..<14]. CondPassed s (word_of_nat n XOR 1) = (\<not> CondPassed s (word_of_nat n))"
    unfolding list_all_iff .
  from bspec [OF this, of "unat cond"] have "CondPassed s (cond XOR 1) = (\<not> CondPassed s cond)"
    using assms by (simp add: word_less_nat_alt)
  then show ?thesis by (simp add: CondPassed_def)
qed

theorem condition_codes_complement_witness: "CondPassed arm_demo 0 = (\<not> CondPassed arm_demo 1)"
  using condition_codes_complement [of 1 arm_demo] by simp

end
