(* ===== verification/Arm_Addressing.thy ===== *)
theory Arm_Addressing
  imports Arm_Operands
begin

text \<open>
  The addressing modes of loads and stores in
  \<^verbatim>\<open>src/core/arm/dyncom/arm_dyncom_interpreter.cpp\<close>: word and byte transfers (\<open>LnSWoUB\<close>), halfword
  and doubleword transfers (\<open>MLnS\<close>) and transfers of register lists (\<open>LdnStM\<close>).  A mode takes the
  instruction and the core and returns the address and the core after write-back.  The lemmas
  compare each mode with the address and write-back the architecture gives the encoding.
\<close>

definition U_BIT :: "u32 \<Rightarrow> bool" where "U_BIT inst = (BIT inst 23 \<noteq> 0)"

definition OFFSET_12 :: "u32 \<Rightarrow> u32" where "OFFSET_12 inst = BITS inst 0 11"

definition set_reg :: "u32 \<Rightarrow> u32 \<Rightarrow> ARMul_State \<Rightarrow> ARMul_State" where
  "set_reg r v s = s\<lparr>Reg := (Reg s)[unat r := v]\<rparr>"

subsection \<open>Words and bytes\<close>

definition LnSWoUBImmediateOffset :: "u32 \<Rightarrow> ARMul_State \<Rightarrow> u32 \<times> ARMul_State" where
  "LnSWoUBImmediateOffset inst cpu =
    (let Rn = BITS inst 16 19;
         addr = (if U_BIT inst then CHECK_READ_REG15_WA cpu Rn + OFFSET_12 inst
                 else CHECK_READ_REG15_WA cpu Rn - OFFSET_12 inst)
     in (addr, cpu))"

definition LnSWoUBRegisterOffset :: "u32 \<Rightarrow> ARMul_State \<Rightarrow> u32 \<times> ARMul_State" where
  "LnSWoUBRegisterOffset inst cpu =
    (let rn = CHECK_READ_REG15_WA cpu (BITS inst 16 19);
         rm = CHECK_READ_REG15_WA cpu (BITS inst 0 3)
     in (if U_BIT inst then rn + rm else rn - rm, cpu))"

definition LnSWoUBImmediatePostIndexed :: "u32 \<Rightarrow> ARMul_State \<Rightarrow> u32 \<times> ARMul_State" where
  "LnSWoUBImmediatePostIndexed inst cpu =
    (let Rn = BITS inst 16 19;
         addr = CHECK_READ_REG15_WA cpu Rn
     in (addr, set_reg Rn (if U_BIT inst then Reg cpu ! unat Rn + OFFSET_12 inst
                           else Reg cpu ! unat Rn - OFFSET_12 inst) cpu))"

definition LnSWoUBImmediatePreIndexed :: "u32 \<Rightarrow> ARMul_State \<Rightarrow> u32 \<times> ARMul_State" where
  "LnSWoUBImmediatePreIndexed inst cpu =
    (let Rn = BITS inst 16 19;
         addr = (if U_BIT inst then CHECK_READ_REG15_WA cpu Rn + OFFSET_12 inst
                 else CHECK_READ_REG15_WA cpu Rn - OFFSET_12 inst)
     in (addr, if CondPassed cpu (BITS inst 28 31) then set_reg Rn addr cpu else cpu))"

definition MLnSRegisterPreIndexed :: "u32 \<Rightarrow> ARMul_State \<Rightarrow> u32 \<times> ARMul_State" where
  "MLnSRegisterPreIndexed inst cpu =
    (let Rn = BITS inst 16 19;
         rn = CHECK_READ_REG15_WA cpu Rn;
         rm = CHECK_READ_REG15_WA cpu (BITS inst 0 3);
         addr = (if U_BIT inst then rn + rm else rn - rm)
     in (addr, if CondPassed cpu (BITS inst 28 31) then set_reg Rn addr cpu else cpu))"

definition LnSWoUBRegisterPreIndexed :: "u32 \<Rightarrow> ARMul_State \<Rightarrow> u32 \<times> ARMul_State" where
  "LnSWoUBRegisterPreIndexed inst cpu =
    (let Rn = BITS inst 16 19;
         rn = CHECK_READ_REG15_WA cpu Rn;
         rm = CHECK_READ_REG15_WA cpu (BITS inst 0 3);
         addr = (if U_BIT inst then rn + rm else rn - rm)
     in (addr, if CondPassed cpu (BITS inst 28 31) then set_reg Rn addr cpu else cpu))"

text \<open>The switch on the shift that the three scaled modes repeat.  The rotation has a nonzero
  count, so the host parameter of \<open>ROTATE_RIGHT_32\<close> is not reached.\<close>

definition scaled_index :: "u32 \<Rightarrow> u32 \<Rightarrow> ARMul_State \<Rightarrow> u32" where
  "scaled_index inst rm cpu =
    (let shift = BITS inst 5 6;
         shift_imm = unat (BITS inst 7 11)
     in if shift = 0 then push_bit shift_imm rm
        else if shift = 1 then (if shift_imm = 0 then 0 else drop_bit shift_imm rm)
        else if shift = 2 then
          (if shift_imm = 0 then (if BIT rm 31 = 1 then 0xFFFFFFFF else 0)
           else signed_drop_bit shift_imm rm)
        else if shift = 3 then
          (if shift_imm = 0 then push_bit 31 (CFlag cpu) OR drop_bit 1 rm
           else ROTATE_RIGHT_32 (\<lambda>_. 0) rm shift_imm)
        else 0)"

definition LnSWoUBScaledRegisterPreIndexed :: "u32 \<Rightarrow> ARMul_State \<Rightarrow> u32 \<times> ARMul_State" where
  "LnSWoUBScaledRegisterPreIndexed inst cpu =
    (let Rn = BITS inst 16 19;
         rm = CHECK_READ_REG15_WA cpu (BITS inst 0 3);
         rn = CHECK_READ_REG15_WA cpu Rn;
         index = scaled_index inst rm cpu;
         addr = (if U_BIT inst then rn + index else rn - index)
     in (addr, if CondPassed cpu (BITS inst 28 31) then set_reg Rn addr cpu else cpu))"

definition LnSWoUBScaledRegisterPostIndexed :: "u32 \<Rightarrow> ARMul_State \<Rightarrow> u32 \<times> ARMul_State" where
  "LnSWoUBScaledRegisterPostIndexed inst cpu =
    (let Rn = BITS inst 16 19;
         addr = CHECK_READ_REG15_WA cpu Rn;
         rm = CHECK_READ_REG15_WA cpu (BITS inst 0 3);
         index = scaled_index inst rm cpu
     in (addr, if CondPassed cpu (BITS inst 28 31)
               then set_reg Rn (if U_BIT inst then Reg cpu ! unat Rn + index
                                else Reg cpu ! unat Rn - index) cpu
               else cpu))"

definition LnSWoUBRegisterPostIndexed :: "u32 \<Rightarrow> ARMul_State \<Rightarrow> u32 \<times> ARMul_State" where
  "LnSWoUBRegisterPostIndexed inst cpu =
    (let Rn = BITS inst 16 19;
         rm = CHECK_READ_REG15_WA cpu (BITS inst 0 3)
     in (CHECK_READ_REG15_WA cpu Rn,
         if CondPassed cpu (BITS inst 28 31)
         then set_reg Rn (if U_BIT inst then Reg cpu ! unat Rn + rm else Reg cpu ! unat Rn - rm) cpu
         else cpu))"

definition LnSWoUBScaledRegisterOffset :: "u32 \<Rightarrow> ARMul_State \<Rightarrow> u32 \<times> ARMul_State" where
  "LnSWoUBScaledRegisterOffset inst cpu =
    (let rm = CHECK_READ_REG15_WA cpu (BITS inst 0 3);
         rn = CHECK_READ_REG15_WA cpu (BITS inst 16 19);
         index = scaled_index inst rm cpu
     in (if U_BIT inst then rn + index else rn - index, cpu))"

subsection \<open>Halfwords and doublewords\<close>

definition offset_8 :: "u32 \<Rightarrow> u32" where
  "offset_8 inst = push_bit 4 (BITS inst 8 11) OR BITS inst 0 3"

definition MLnSImmediateOffset :: "u32 \<Rightarrow> ARMul_State \<Rightarrow> u32 \<times> ARMul_State" where
  "MLnSImmediateOffset inst cpu =
    (let Rn = BITS inst 16 19
     in (if U_BIT inst then CHECK_READ_REG15_WA cpu Rn + offset_8 inst
         else CHECK_READ_REG15_WA cpu Rn - offset_8 inst, cpu))"

definition MLnSRegisterOffset :: "u32 \<Rightarrow> ARMul_State \<Rightarrow> u32 \<times> ARMul_State" where
  "MLnSRegisterOffset inst cpu =
    (let rn = CHECK_READ_REG15_WA cpu (BITS inst 16 19);
         rm = CHECK_READ_REG15_WA cpu (BITS inst 0 3)
     in (if U_BIT inst then rn + rm else rn - rm, cpu))"

definition MLnSImmediatePreIndexed :: "u32 \<Rightarrow> ARMul_State \<Rightarrow> u32 \<times> ARMul_State" where
  "MLnSImmediatePreIndexed inst cpu =
    (let Rn = BITS inst 16 19;
         rn = CHECK_READ_REG15_WA cpu Rn;
         addr = (if U_BIT inst then rn + offset_8 inst else rn - offset_8 inst)
     in (addr, if CondPassed cpu (BITS inst 28 31) then set_reg Rn addr cpu else cpu))"

definition MLnSImmediatePostIndexed :: "u32 \<Rightarrow> ARMul_State \<Rightarrow> u32 \<times> ARMul_State" where
  "MLnSImmediatePostIndexed inst cpu =
    (let Rn = BITS inst 16 19;
         rn = CHECK_READ_REG15_WA cpu Rn
     in (rn, if CondPassed cpu (BITS inst 28 31)
             then set_reg Rn (if U_BIT inst then rn + offset_8 inst else rn - offset_8 inst) cpu
             else cpu))"

definition MLnSRegisterPostIndexed :: "u32 \<Rightarrow> ARMul_State \<Rightarrow> u32 \<times> ARMul_State" where
  "MLnSRegisterPostIndexed inst cpu =
    (let Rn = BITS inst 16 19;
         rm = CHECK_READ_REG15_WA cpu (BITS inst 0 3)
     in (CHECK_READ_REG15_WA cpu Rn,
         if CondPassed cpu (BITS inst 28 31)
         then set_reg Rn (if U_BIT inst then Reg cpu ! unat Rn + rm else Reg cpu ! unat Rn - rm) cpu
         else cpu))"

subsection \<open>Register lists\<close>

text \<open>The loop that counts the registers of a list.\<close>

lemma drop_bit_1_less: "i \<noteq> 0 \<Longrightarrow> unat (drop_bit (Suc 0) i) < unat i" for i :: u32
proof -
  assume "i \<noteq> 0"
  then have "0 < unat i" by (simp add: unat_gt_0)
  moreover have "unat (drop_bit (Suc 0) i) = unat i div 2"
    by (simp add: drop_bit_eq_div unat_div)
  ultimately show ?thesis by simp
qed

function count_registers :: "u32 \<Rightarrow> int \<Rightarrow> int" where
  "count_registers i count =
    (if i \<noteq> 0
     then count_registers (drop_bit 1 i) (if i AND 1 \<noteq> 0 then count + 1 else count)
     else count)"
  by pat_completeness auto

termination count_registers
  by (relation "measure (\<lambda>(i, count). unat i)") (simp_all add: drop_bit_1_less)

declare count_registers.simps [simp del]

definition LdnStMDecrementBefore :: "u32 \<Rightarrow> ARMul_State \<Rightarrow> u32 \<times> ARMul_State" where
  "LdnStMDecrementBefore inst cpu =
    (let Rn = BITS inst 16 19;
         count = word_of_int (count_registers (BITS inst 0 15) 0)
     in (CHECK_READ_REG15_WA cpu Rn - count * 4,
         if CondPassed cpu (BITS inst 28 31) \<and> BIT inst 21 \<noteq> 0
         then set_reg Rn (Reg cpu ! unat Rn - count * 4) cpu else cpu))"

definition LdnStMIncrementBefore :: "u32 \<Rightarrow> ARMul_State \<Rightarrow> u32 \<times> ARMul_State" where
  "LdnStMIncrementBefore inst cpu =
    (let Rn = BITS inst 16 19;
         count = word_of_int (count_registers (BITS inst 0 15) 0)
     in (CHECK_READ_REG15_WA cpu Rn + 4,
         if CondPassed cpu (BITS inst 28 31) \<and> BIT inst 21 \<noteq> 0
         then set_reg Rn (Reg cpu ! unat Rn + count * 4) cpu else cpu))"

definition LdnStMIncrementAfter :: "u32 \<Rightarrow> ARMul_State \<Rightarrow> u32 \<times> ARMul_State" where
  "LdnStMIncrementAfter inst cpu =
    (let Rn = BITS inst 16 19;
         count = word_of_int (count_registers (BITS inst 0 15) 0)
     in (CHECK_READ_REG15_WA cpu Rn,
         if CondPassed cpu (BITS inst 28 31) \<and> BIT inst 21 \<noteq> 0
         then set_reg Rn (Reg cpu ! unat Rn + count * 4) cpu else cpu))"

definition LdnStMDecrementAfter :: "u32 \<Rightarrow> ARMul_State \<Rightarrow> u32 \<times> ARMul_State" where
  "LdnStMDecrementAfter inst cpu =
    (let Rn = BITS inst 16 19;
         count = word_of_int (count_registers (BITS inst 0 15) 0);
         rn = CHECK_READ_REG15_WA cpu Rn
     in (rn - count * 4 + 4,
         if CondPassed cpu (BITS inst 28 31) \<and> BIT inst 21 \<noteq> 0
         then set_reg Rn (Reg cpu ! unat Rn - count * 4) cpu else cpu))"

subsection \<open>Selection\<close>

datatype get_addr_fp =
    LnSWoUB_ImmediateOffset | LnSWoUB_RegisterOffset | LnSWoUB_ScaledRegisterOffset
  | LnSWoUB_ImmediatePreIndexed | LnSWoUB_RegisterPreIndexed | LnSWoUB_ScaledRegisterPreIndexed
  | LnSWoUB_ImmediatePostIndexed | LnSWoUB_RegisterPostIndexed | LnSWoUB_ScaledRegisterPostIndexed
  | MLnS_ImmediateOffset | MLnS_RegisterOffset | MLnS_ImmediatePreIndexed | MLnS_RegisterPreIndexed
  | MLnS_ImmediatePostIndexed | MLnS_RegisterPostIndexed
  | LdnStM_IncrementAfter | LdnStM_IncrementBefore | LdnStM_DecrementAfter | LdnStM_DecrementBefore

fun get_addr :: "get_addr_fp \<Rightarrow> u32 \<Rightarrow> ARMul_State \<Rightarrow> u32 \<times> ARMul_State" where
  "get_addr LnSWoUB_ImmediateOffset = LnSWoUBImmediateOffset"
| "get_addr LnSWoUB_RegisterOffset = LnSWoUBRegisterOffset"
| "get_addr LnSWoUB_ScaledRegisterOffset = LnSWoUBScaledRegisterOffset"
| "get_addr LnSWoUB_ImmediatePreIndexed = LnSWoUBImmediatePreIndexed"
| "get_addr LnSWoUB_RegisterPreIndexed = LnSWoUBRegisterPreIndexed"
| "get_addr LnSWoUB_ScaledRegisterPreIndexed = LnSWoUBScaledRegisterPreIndexed"
| "get_addr LnSWoUB_ImmediatePostIndexed = LnSWoUBImmediatePostIndexed"
| "get_addr LnSWoUB_RegisterPostIndexed = LnSWoUBRegisterPostIndexed"
| "get_addr LnSWoUB_ScaledRegisterPostIndexed = LnSWoUBScaledRegisterPostIndexed"
| "get_addr MLnS_ImmediateOffset = MLnSImmediateOffset"
| "get_addr MLnS_RegisterOffset = MLnSRegisterOffset"
| "get_addr MLnS_ImmediatePreIndexed = MLnSImmediatePreIndexed"
| "get_addr MLnS_RegisterPreIndexed = MLnSRegisterPreIndexed"
| "get_addr MLnS_ImmediatePostIndexed = MLnSImmediatePostIndexed"
| "get_addr MLnS_RegisterPostIndexed = MLnSRegisterPostIndexed"
| "get_addr LdnStM_IncrementAfter = LdnStMIncrementAfter"
| "get_addr LdnStM_IncrementBefore = LdnStMIncrementBefore"
| "get_addr LdnStM_DecrementAfter = LdnStMDecrementAfter"
| "get_addr LdnStM_DecrementBefore = LdnStMDecrementBefore"

definition GetAddressingOp :: "u32 \<Rightarrow> get_addr_fp option" where
  "GetAddressingOp inst =
    (if BITS inst 24 27 = 5 \<and> BIT inst 21 = 0 then Some LnSWoUB_ImmediateOffset
     else if BITS inst 24 27 = 7 \<and> BIT inst 21 = 0 \<and> BITS inst 4 11 = 0 then Some LnSWoUB_RegisterOffset
     else if BITS inst 24 27 = 7 \<and> BIT inst 21 = 0 \<and> BIT inst 4 = 0 then Some LnSWoUB_ScaledRegisterOffset
     else if BITS inst 24 27 = 5 \<and> BIT inst 21 = 1 then Some LnSWoUB_ImmediatePreIndexed
     else if BITS inst 24 27 = 7 \<and> BIT inst 21 = 1 \<and> BITS inst 4 11 = 0 then Some LnSWoUB_RegisterPreIndexed
     else if BITS inst 24 27 = 7 \<and> BIT inst 21 = 1 \<and> BIT inst 4 = 0 then Some LnSWoUB_ScaledRegisterPreIndexed
     else if BITS inst 24 27 = 4 \<and> BIT inst 21 = 0 then Some LnSWoUB_ImmediatePostIndexed
     else if BITS inst 24 27 = 6 \<and> BIT inst 21 = 0 \<and> BITS inst 4 11 = 0 then Some LnSWoUB_RegisterPostIndexed
     else if BITS inst 24 27 = 6 \<and> BIT inst 21 = 0 \<and> BIT inst 4 = 0 then Some LnSWoUB_ScaledRegisterPostIndexed
     else if BITS inst 24 27 = 1 \<and> BITS inst 21 22 = 2 \<and> BIT inst 7 = 1 \<and> BIT inst 4 = 1 then Some MLnS_ImmediateOffset
     else if BITS inst 24 27 = 1 \<and> BITS inst 21 22 = 0 \<and> BIT inst 7 = 1 \<and> BIT inst 4 = 1 then Some MLnS_RegisterOffset
     else if BITS inst 24 27 = 1 \<and> BITS inst 21 22 = 3 \<and> BIT inst 7 = 1 \<and> BIT inst 4 = 1 then Some MLnS_ImmediatePreIndexed
     else if BITS inst 24 27 = 1 \<and> BITS inst 21 22 = 1 \<and> BIT inst 7 = 1 \<and> BIT inst 4 = 1 then Some MLnS_RegisterPreIndexed
     else if BITS inst 24 27 = 0 \<and> BITS inst 21 22 = 2 \<and> BIT inst 7 = 1 \<and> BIT inst 4 = 1 then Some MLnS_ImmediatePostIndexed
     else if BITS inst 24 27 = 0 \<and> BITS inst 21 22 = 0 \<and> BIT inst 7 = 1 \<and> BIT inst 4 = 1 then Some MLnS_RegisterPostIndexed
     else if BITS inst 23 27 = 0x11 then Some LdnStM_IncrementAfter
     else if BITS inst 23 27 = 0x13 then Some LdnStM_IncrementBefore
     else if BITS inst 23 27 = 0x10 then Some LdnStM_DecrementAfter
     else if BITS inst 23 27 = 0x12 then Some LdnStM_DecrementBefore
     else None)"

definition GetAddressingOpLoadStoreT :: "u32 \<Rightarrow> get_addr_fp option" where
  "GetAddressingOpLoadStoreT inst =
    (if BITS inst 25 27 = 2 then Some LnSWoUB_ImmediatePostIndexed
     else if BITS inst 25 27 = 3 then Some LnSWoUB_ScaledRegisterPostIndexed
     else None)"

subsection \<open>The architecture's addressing\<close>

text \<open>Base, offset, pre or post indexing (bit 24), direction (bit 23), write-back (bit 21).\<close>

definition indexed_transfer :: "u32 \<Rightarrow> u32 \<Rightarrow> ARMul_State \<Rightarrow> u32 \<times> ARMul_State" where
  "indexed_transfer offset inst s =
    (let rn = CHECK_READ_REG15_WA s (BITS inst 16 19);
         offset_addr = (if bit inst 23 then rn + offset else rn - offset)
     in (if bit inst 24 then offset_addr else rn,
         if \<not> bit inst 24 \<or> bit inst 21 then set_reg (BITS inst 16 19) offset_addr s else s))"

definition word_offset :: "u32 \<Rightarrow> ARMul_State \<Rightarrow> u32" where
  "word_offset inst s =
    (if bit inst 25
     then case DecodeImmShift (unat (BITS inst 5 6)) (unat (BITS inst 7 11)) of
            (t, n) \<Rightarrow> fst (Shift_C t n (CFlag s \<noteq> 0) (CHECK_READ_REG15_WA s (BITS inst 0 3)))
     else BITS inst 0 11)"

definition halfword_offset :: "u32 \<Rightarrow> ARMul_State \<Rightarrow> u32" where
  "halfword_offset inst s =
    (if bit inst 22 then BITS inst 8 11 * 16 + BITS inst 0 3 else CHECK_READ_REG15_WA s (BITS inst 0 3))"

definition writes_base :: "u32 \<Rightarrow> bool" where
  "writes_base inst = (\<not> bit inst 24 \<or> bit inst 21)"

lemma BITS2: "Suc a < 32 \<Longrightarrow> BITS w a (Suc a) = of_bool (bit w a) OR push_bit 1 (of_bool (bit w (Suc a)))"
  by (rule bit_word_eqI) (auto simp: BITS_eq bit_simps less_Suc_eq numeral_2_eq_2)

lemma offset_nibble: "take_bit 4 v = of_bool (bit v 0) OR push_bit 1 (of_bool (bit v 1))
    OR push_bit 2 (of_bool (bit v 2)) OR push_bit 3 (of_bool (bit v 3))" for v :: u32
proof (rule bit_word_eqI)
  fix k :: nat
  have "k = 0 \<or> k = 1 \<or> k = 2 \<or> k = 3 \<or> 4 \<le> k" by linarith
  then show "bit (take_bit 4 v) k = bit (of_bool (bit v 0) OR push_bit 1 (of_bool (bit v 1))
      OR push_bit 2 (of_bool (bit v 2)) OR push_bit 3 (of_bool (bit v 3)) :: u32) k"
    by (elim disjE) (auto simp: bit_simps)
qed

lemma BITS4: "a + 3 < 32 \<Longrightarrow> BITS w a (a + 3) =
    of_bool (bit w a) OR push_bit 1 (of_bool (bit w (a + 1)))
    OR push_bit 2 (of_bool (bit w (a + 2))) OR push_bit 3 (of_bool (bit w (a + 3)))"
  using offset_nibble [of "drop_bit a w"] by (simp add: BITS_eq bit_drop_bit_eq)

lemmas opcode_fields = BITS4 [where a = 24, simplified] BITS2 [where a = 21, simplified] BITS2 [where a = 26, simplified]

lemma scaled_index_ref:
  assumes "CFlag s \<in> {0, 1}"
  shows "scaled_index inst rm s =
    (case DecodeImmShift (unat (BITS inst 5 6)) (unat (BITS inst 7 11)) of
       (t, n) \<Rightarrow> fst (Shift_C t n (CFlag s \<noteq> 0) rm))"
proof -
  have c: "of_bool (CFlag s \<noteq> 0) = CFlag s" using assms by auto
  obtain n where n: "unat (BITS inst 7 11) = n" and "n < 32" using BITS_imm5 by blast
  obtain t where t: "BITS inst 5 6 = t" "t = 0 \<or> t = 1 \<or> t = 2 \<or> t = 3"
    unfolding shift_type_fields(1) by (cases "bit inst 5"; cases "bit inst 6") auto
  from t(2) \<open>n < 32\<close> show ?thesis
    unfolding scaled_index_def Let_def n t(1)
    by (elim disjE; cases "n = 0")
      (simp_all add: DecodeImmShift_def Shift_C_forms Shift_C.simps(5) BIT_eq drop_bit_big
        signed_drop_bit_big ROTATE_RIGHT_32_rotr c)
qed

lemma rm_unshifted:
  assumes "BITS inst 4 11 = 0"
  shows "DecodeImmShift (unat (BITS inst 5 6)) (unat (BITS inst 7 11)) = (SRType_LSL, 0)"
  using assms unfolding BITS_4_11_zero by (simp add: shift_type_fields DecodeImmShift_def)

lemma base_read: "BITS inst 16 19 \<noteq> 15 \<Longrightarrow> CHECK_READ_REG15_WA s (BITS inst 16 19) = Reg s ! unat (BITS inst 16 19)"
  by (simp add: CHECK_READ_REG15_WA_def)

lemma BITS_23_27_bit: "BITS w 23 27 = k \<Longrightarrow> bit w 27 = bit k 4"
  using bit_take_bit_iff [of 5 "drop_bit 23 w" 4] by (auto simp: BITS_eq bit_drop_bit_eq)

lemma GetAddressingOp_word:
  assumes "GetAddressingOp w = Some f" "bit w 26" "\<not> bit w 27"
  shows "\<not> bit w 25 \<and> (f = LnSWoUB_ImmediateOffset \<and> bit w 24 \<and> \<not> bit w 21
      \<or> f = LnSWoUB_ImmediatePreIndexed \<and> bit w 24 \<and> bit w 21
      \<or> f = LnSWoUB_ImmediatePostIndexed \<and> \<not> bit w 24 \<and> \<not> bit w 21)
    \<or> bit w 25 \<and> BITS w 4 11 = 0 \<and> (f = LnSWoUB_RegisterOffset \<and> bit w 24 \<and> \<not> bit w 21
      \<or> f = LnSWoUB_RegisterPreIndexed \<and> bit w 24 \<and> bit w 21
      \<or> f = LnSWoUB_RegisterPostIndexed \<and> \<not> bit w 24 \<and> \<not> bit w 21)
    \<or> bit w 25 \<and> (f = LnSWoUB_ScaledRegisterOffset \<and> bit w 24 \<and> \<not> bit w 21
      \<or> f = LnSWoUB_ScaledRegisterPreIndexed \<and> bit w 24 \<and> bit w 21
      \<or> f = LnSWoUB_ScaledRegisterPostIndexed \<and> \<not> bit w 24 \<and> \<not> bit w 21)"
proof -
  have "BITS w 23 27 \<noteq> 0x10" "BITS w 23 27 \<noteq> 0x11" "BITS w 23 27 \<noteq> 0x12" "BITS w 23 27 \<noteq> 0x13"
    using assms(3) by (auto dest: BITS_23_27_bit)
  with assms show ?thesis
    unfolding GetAddressingOp_def opcode_fields BIT_eq
    by (cases "bit w 24"; cases "bit w 25"; cases "bit w 21") (simp_all split: if_split_asm)
qed

text \<open>C19: for a word or byte transfer whose condition holds and that does not write back to the
  program counter, the selected addressing mode yields the address and the base register that the
  architecture defines: offset from an immediate or a shifted register, added or subtracted,
  before or after the access, with or without write-back.\<close>

theorem word_addressing_is_architectural:
  assumes "GetAddressingOp inst = Some f" "BITS inst 26 27 = 1" "CFlag s \<in> {0, 1}"
    "CondPassed s (BITS inst 28 31)" "writes_base inst \<longrightarrow> BITS inst 16 19 \<noteq> 15"
  shows "get_addr f inst s = indexed_transfer (word_offset inst s) inst s"
proof -
  have b: "bit inst 26" "\<not> bit inst 27"
    using assms(2) unfolding opcode_fields by (cases "bit inst 26"; cases "bit inst 27"; simp)+
  have base: "writes_base inst \<Longrightarrow> CHECK_READ_REG15_WA s (BITS inst 16 19) = Reg s ! unat (BITS inst 16 19)"
    using base_read assms(5) by blast
  note defs = indexed_transfer_def word_offset_def U_BIT_def OFFSET_12_def BIT_eq Let_def writes_base_def
    LnSWoUBImmediateOffset_def LnSWoUBRegisterOffset_def LnSWoUBScaledRegisterOffset_def
    LnSWoUBImmediatePreIndexed_def LnSWoUBRegisterPreIndexed_def LnSWoUBScaledRegisterPreIndexed_def
    LnSWoUBImmediatePostIndexed_def LnSWoUBRegisterPostIndexed_def LnSWoUBScaledRegisterPostIndexed_def
  from GetAddressingOp_word [OF assms(1) b] show ?thesis
    using assms(4) base
    by (elim disjE conjE) (simp_all add: defs rm_unshifted Shift_C_forms scaled_index_ref [OF assms(3)])
qed

theorem word_addressing_is_architectural_witness:
  "get_addr LnSWoUB_ImmediatePostIndexed 0xE4910004 arm_demo = (1, set_reg 1 5 arm_demo)"
proof -
  have f: "GetAddressingOp 0xE4910004 = Some LnSWoUB_ImmediatePostIndexed"
    by (simp add: GetAddressingOp_def BIT_def BITS_def)
  have fields: "BITS 0xE4910004 26 27 = 1" "BITS 0xE4910004 28 31 = 14" "BITS 0xE4910004 16 19 = 1"
    "BITS 0xE4910004 0 11 = 4" by (simp_all add: BITS_def)
  have s: "CFlag arm_demo = 0" "CondPassed arm_demo 14" "CHECK_READ_REG15_WA arm_demo 1 = 1"
    by (simp_all add: arm_demo_def arm_zero_def CondPassed_def CHECK_READ_REG15_WA_def)
  have "indexed_transfer (word_offset 0xE4910004 arm_demo) 0xE4910004 arm_demo = (1, set_reg 1 5 arm_demo)"
    by (simp add: indexed_transfer_def word_offset_def fields s)
  then show ?thesis
    using word_addressing_is_architectural [OF f fields(1), of arm_demo] s fields by simp
qed

lemma GetAddressingOp_halfword:
  assumes "GetAddressingOp w = Some f" "\<not> bit w 25" "\<not> bit w 26" "\<not> bit w 27"
  shows "bit w 22 \<and> (f = MLnS_ImmediateOffset \<and> bit w 24 \<and> \<not> bit w 21
      \<or> f = MLnS_ImmediatePreIndexed \<and> bit w 24 \<and> bit w 21
      \<or> f = MLnS_ImmediatePostIndexed \<and> \<not> bit w 24 \<and> \<not> bit w 21)
    \<or> \<not> bit w 22 \<and> (f = MLnS_RegisterOffset \<and> bit w 24 \<and> \<not> bit w 21
      \<or> f = MLnS_RegisterPreIndexed \<and> bit w 24 \<and> bit w 21
      \<or> f = MLnS_RegisterPostIndexed \<and> \<not> bit w 24 \<and> \<not> bit w 21)"
proof -
  have "BITS w 23 27 \<noteq> 0x10" "BITS w 23 27 \<noteq> 0x11" "BITS w 23 27 \<noteq> 0x12" "BITS w 23 27 \<noteq> 0x13"
    using assms(4) by (auto dest: BITS_23_27_bit)
  with assms show ?thesis
    unfolding GetAddressingOp_def opcode_fields BIT_eq
    by (cases "bit w 24"; cases "bit w 22"; cases "bit w 21") (simp_all split: if_split_asm)
qed

lemma offset_8_sum: "offset_8 inst = BITS inst 8 11 * 16 + BITS inst 0 3"
proof -
  have "push_bit 4 (BITS inst 8 11) AND BITS inst 0 3 = 0"
    by (rule bit_word_eqI) (auto simp: BITS_eq bit_simps)
  then have "push_bit 4 (BITS inst 8 11) OR BITS inst 0 3 = push_bit 4 (BITS inst 8 11) + BITS inst 0 3"
    by (rule disjunctive_add_eq_or [symmetric])
  then show ?thesis by (simp add: offset_8_def push_bit_eq_mult)
qed

text \<open>for a halfword, signed byte or doubleword transfer the selected mode likewise yields the
  architecture's address and base register, with the split 8-bit offset or the plain register.\<close>

theorem halfword_addressing_is_architectural:
  assumes "GetAddressingOp inst = Some f" "\<not> bit inst 25" "BITS inst 26 27 = 0"
    "CondPassed s (BITS inst 28 31)" "writes_base inst \<longrightarrow> BITS inst 16 19 \<noteq> 15"
  shows "get_addr f inst s = indexed_transfer (halfword_offset inst s) inst s"
proof -
  have b: "\<not> bit inst 26" "\<not> bit inst 27"
    using assms(3) unfolding opcode_fields by (cases "bit inst 26"; cases "bit inst 27"; simp)+
  have base: "writes_base inst \<Longrightarrow> CHECK_READ_REG15_WA s (BITS inst 16 19) = Reg s ! unat (BITS inst 16 19)"
    using base_read assms(5) by blast
  note defs = indexed_transfer_def halfword_offset_def U_BIT_def BIT_eq Let_def writes_base_def offset_8_sum
    MLnSImmediateOffset_def MLnSRegisterOffset_def MLnSImmediatePreIndexed_def MLnSRegisterPreIndexed_def
    MLnSImmediatePostIndexed_def MLnSRegisterPostIndexed_def
  from GetAddressingOp_halfword [OF assms(1,2) b] show ?thesis
    using assms(4) base by (elim disjE conjE) (simp_all add: defs)
qed

subsection \<open>Register lists\<close>

definition register_list :: "u32 \<Rightarrow> nat list" where
  "register_list inst = filter (bit inst) [0..<16]"

lemma count_registers_bits:
  "(\<forall>k. n \<le> k \<longrightarrow> \<not> bit i k) \<Longrightarrow> count_registers i c = c + int (length (filter (bit i) [0..<n]))"
proof (induction n arbitrary: i c)
  case 0
  then have "i = 0" by (auto intro: bit_eqI)
  then show ?case by (simp add: count_registers.simps)
next
  case (Suc n)
  have shift: "filter (bit i) [0..<Suc n] = (if bit i 0 then [0] else []) @ map Suc (filter (\<lambda>k. bit i (Suc k)) [0..<n])"
    by (simp add: upt_conv_Cons map_Suc_upt [symmetric] filter_map o_def del: upt_Suc)
  have rest: "bit (drop_bit 1 i) = (\<lambda>k. bit i (Suc k))" by (simp add: bit_drop_bit_eq fun_eq_iff)
  have odd: "i AND 1 \<noteq> 0 \<longleftrightarrow> bit i 0" by (simp add: and_one_eq odd_iff_mod_2_eq_one bit_0)
  have IH: "count_registers (drop_bit 1 i) d = d + int (length (filter (bit (drop_bit 1 i)) [0..<n]))" for d
    using Suc.prems by (intro Suc.IH) (simp add: bit_drop_bit_eq)
  show ?case
  proof (cases "i = 0")
    case True
    then show ?thesis by (simp add: count_registers.simps)
  next
    case False
    then have "count_registers i c = count_registers (drop_bit 1 i) (if bit i 0 then c + 1 else c)"
      by (subst count_registers.simps) (simp only: odd simp_thms if_True)
    then show ?thesis unfolding IH shift rest by simp
  qed
qed

lemma count_registers_list: "count_registers (BITS inst 0 15) 0 = int (length (register_list inst))"
proof -
  have bits: "bit (BITS inst 0 15) k \<longleftrightarrow> k < 16 \<and> bit inst k" for k
    by (auto simp: BITS_eq bit_take_bit_iff)
  have "count_registers (BITS inst 0 15) 0 = int (length (filter (bit (BITS inst 0 15)) [0..<16]))"
    using count_registers_bits [of 16 "BITS inst 0 15" 0] bits by simp
  moreover have "filter (bit (BITS inst 0 15)) [0..<16] = register_list inst"
    unfolding register_list_def by (rule filter_cong) (auto simp: bits)
  ultimately show ?thesis by simp
qed

text \<open>The block of words a list of \<open>n\<close> registers occupies: upwards or downwards (bit 23) from the
  base, excluding or including it (bit 24); write-back moves the base past the block.\<close>

definition block_transfer :: "u32 \<Rightarrow> ARMul_State \<Rightarrow> u32 \<times> ARMul_State" where
  "block_transfer inst s =
    (let rn = Reg s ! unat (BITS inst 16 19);
         bytes = 4 * word_of_nat (length (register_list inst))
     in ((if bit inst 23 then rn else rn - bytes) + (if bit inst 23 = bit inst 24 then 4 else 0),
         if bit inst 21 then set_reg (BITS inst 16 19) (if bit inst 23 then rn + bytes else rn - bytes) s
         else s))"

lemma BITS_block: "bit w 27 \<Longrightarrow> \<not> bit w 26 \<Longrightarrow> \<not> bit w 25 \<Longrightarrow>
    BITS w 23 27 = 0x10 OR push_bit 1 (of_bool (bit w 24)) OR of_bool (bit w 23)"
proof (rule bit_word_eqI)
  fix k :: nat
  assume b: "bit w 27" "\<not> bit w 26" "\<not> bit w 25"
  have "k = 0 \<or> k = 1 \<or> k = 2 \<or> k = 3 \<or> k = 4 \<or> 5 \<le> k" by linarith
  moreover have "bit (0x10 :: u32) k \<longleftrightarrow> k = 4"
    using bit_exp_iff [of 4 k, where 'a = u32] by auto
  ultimately show "bit (BITS w 23 27) k = bit (0x10 OR push_bit 1 (of_bool (bit w 24)) OR of_bool (bit w 23) :: u32) k"
    using b by (elim disjE) (auto simp: BITS_eq bit_simps)
qed

text \<open>C20: for a load or store of a register list whose condition holds and whose base is not the
  program counter, the selected mode yields the lowest address of the block of the listed
  registers, and with write-back the base register after the transfer.\<close>

theorem block_addressing_is_architectural:
  assumes "GetAddressingOp inst = Some f" "BITS inst 26 27 = 2" "\<not> bit inst 25"
    "CondPassed s (BITS inst 28 31)" "BITS inst 16 19 \<noteq> 15"
  shows "get_addr f inst s = block_transfer inst s"
proof -
  have b: "\<not> bit inst 26" "bit inst 27"
    using assms(2) unfolding opcode_fields by (cases "bit inst 26"; cases "bit inst 27"; simp)+
  have count: "word_of_int (count_registers (BITS inst 0 15) 0) = (word_of_nat (length (register_list inst)) :: u32)"
    by (simp add: count_registers_list)
  have "BITS inst 24 27 \<noteq> 0" "BITS inst 24 27 \<noteq> 1" "BITS inst 24 27 \<noteq> 4" "BITS inst 24 27 \<noteq> 5"
    "BITS inst 24 27 \<noteq> 6" "BITS inst 24 27 \<noteq> 7"
    unfolding opcode_fields using b assms(3) by (cases "bit inst 24"; simp)+
  then have f: "f = (if bit inst 24 then (if bit inst 23 then LdnStM_IncrementBefore else LdnStM_DecrementBefore)
      else (if bit inst 23 then LdnStM_IncrementAfter else LdnStM_DecrementAfter))"
    using assms(1) unfolding GetAddressingOp_def BITS_block [OF b(2,1) assms(3)]
    by (cases "bit inst 24"; cases "bit inst 23") simp_all
  show ?thesis
    using assms(4) base_read [OF assms(5), of s]
    by (cases "bit inst 24"; cases "bit inst 23")
      (simp_all add: f block_transfer_def Let_def count BIT_eq LdnStMIncrementBefore_def LdnStMIncrementAfter_def
        LdnStMDecrementBefore_def LdnStMDecrementAfter_def mult.commute)
qed

theorem block_addressing_is_architectural_witness:
  "get_addr LdnStM_DecrementBefore 0xE92D4010 arm_demo = (5, set_reg 13 5 arm_demo)"
proof -
  have f: "GetAddressingOp 0xE92D4010 = Some LdnStM_DecrementBefore"
    by (simp add: GetAddressingOp_def BIT_def BITS_def)
  have fields: "BITS 0xE92D4010 26 27 = 2" "BITS 0xE92D4010 28 31 = 14" "BITS 0xE92D4010 16 19 = 13"
    by (simp_all add: BITS_def)
  have s: "CondPassed arm_demo 14" "Reg arm_demo ! 13 = 13"
    by (simp_all add: arm_demo_def arm_zero_def CondPassed_def)
  have "register_list 0xE92D4010 = [4, 14]" by (simp add: register_list_def upt_rec)
  then have "block_transfer 0xE92D4010 arm_demo = (5, set_reg 13 5 arm_demo)"
    by (simp add: block_transfer_def fields s)
  then show ?thesis
    using block_addressing_is_architectural [OF f fields(1), of arm_demo] s fields by simp
qed

end
