(* ===== verification/Arm_Decode.thy ===== *)
theory Arm_Decode
  imports Arm_Support
begin

text \<open>
  The ARM instruction decoder, \<^verbatim>\<open>src/core/arm/dyncom/arm_dyncom_dec.cpp\<close>: the table of
  encodings, the table of exclusions and the search for the first encoding that matches and is
  not excluded.  An item is its name, the number of its conditions, the architecture version and
  the conditions as triples of low bit, high bit and value; the part of
  the zero-filled tail of \<open>content\<close> that the loop cannot reach is left out.  The index the decoder writes to \<open>*idx\<close> is the result; \<open>FAILURE\<close>, with \<open>*idx\<close> unwritten,
  is \<open>None\<close>.
\<close>

type_synonym InstructionSetEncodingItem = "string \<times> nat \<times> nat \<times> nat list"

abbreviation (input) "INVALID \<equiv> 0 :: nat"
abbreviation (input) "ARMALL \<equiv> 1 :: nat"
abbreviation (input) "ARMV6 \<equiv> 7 :: nat"
abbreviation (input) "ARMVFP2 \<equiv> 9 :: nat"
abbreviation (input) "ARMVFP3 \<equiv> 10 :: nat"
abbreviation (input) "ARMV6K \<equiv> 11 :: nat"

definition arm_instruction :: "InstructionSetEncodingItem list" where
  "arm_instruction = [
    (''vmla'', 5, ARMVFP2, [23, 27, 28, 20, 21, 0, 9, 11, 5, 6, 6, 0, 4, 4, 0]),
    (''vmls'', 5, ARMVFP2, [23, 27, 28, 20, 21, 0, 9, 11, 5, 6, 6, 1, 4, 4, 0]),
    (''vnmla'', 5, ARMVFP2, [23, 27, 28, 20, 21, 1, 9, 11, 5, 6, 6, 1, 4, 4, 0]),
    (''vnmls'', 5, ARMVFP2, [23, 27, 28, 20, 21, 1, 9, 11, 5, 6, 6, 0, 4, 4, 0]),
    (''vnmul'', 5, ARMVFP2, [23, 27, 28, 20, 21, 2, 9, 11, 5, 6, 6, 1, 4, 4, 0]),
    (''vmul'', 5, ARMVFP2, [23, 27, 28, 20, 21, 2, 9, 11, 5, 6, 6, 0, 4, 4, 0]),
    (''vadd'', 5, ARMVFP2, [23, 27, 28, 20, 21, 3, 9, 11, 5, 6, 6, 0, 4, 4, 0]),
    (''vsub'', 5, ARMVFP2, [23, 27, 28, 20, 21, 3, 9, 11, 5, 6, 6, 1, 4, 4, 0]),
    (''vdiv'', 5, ARMVFP2, [23, 27, 29, 20, 21, 0, 9, 11, 5, 6, 6, 0, 4, 4, 0]),
    (''vmov(i)'', 4, ARMVFP3, [23, 27, 29, 20, 21, 3, 9, 11, 5, 4, 7, 0]),
    (''vmov(r)'', 5, ARMVFP3, [23, 27, 29, 16, 21, 0x30, 9, 11, 5, 6, 7, 1, 4, 4, 0]),
    (''vabs'', 5, ARMVFP2, [23, 27, 29, 16, 21, 0x30, 9, 11, 5, 6, 7, 3, 4, 4, 0]),
    (''vneg'', 5, ARMVFP2, [23, 27, 29, 17, 21, 24, 9, 11, 5, 6, 7, 1, 4, 4, 0]),
    (''vsqrt'', 5, ARMVFP2, [23, 27, 29, 16, 21, 0x31, 9, 11, 5, 6, 7, 3, 4, 4, 0]),
    (''vcmp'', 5, ARMVFP2, [23, 27, 29, 16, 21, 0x34, 9, 11, 5, 6, 6, 1, 4, 4, 0]),
    (''vcmp2'', 5, ARMVFP2, [23, 27, 29, 16, 21, 0x35, 9, 11, 5, 0, 6, 0x40, 0, 0, 0]),
    (''vcvt(bds)'', 5, ARMVFP2, [23, 27, 29, 16, 21, 0x37, 9, 11, 5, 6, 7, 3, 4, 4, 0]),
    (''vcvt(bff)'', 6, ARMVFP3, [23, 27, 29, 19, 21, 7, 17, 17, 1, 9, 11, 5, 6, 6, 1, 0, 0, 0]),
    (''vcvt(bfi)'', 5, ARMVFP2, [23, 27, 29, 19, 21, 7, 9, 11, 5, 6, 6, 1, 4, 4, 0]),
    (''vmovbrs'', 3, ARMVFP2, [21, 27, 0x70, 8, 11, 10, 0, 6, 16]),
    (''vmsr'', 2, ARMVFP2, [20, 27, 0xEE, 0, 11, 0xA10]),
    (''vmovbrc'', 4, ARMVFP2, [23, 27, 28, 20, 20, 0, 8, 11, 11, 0, 4, 16]),
    (''vmrs'', 2, ARMVFP2, [20, 27, 0xEF, 0, 11, 0xA10]),
    (''vmovbcr'', 4, ARMVFP2, [24, 27, 14, 20, 20, 1, 8, 11, 11, 0, 4, 16]),
    (''vmovbrrss'', 3, ARMVFP2, [21, 27, 0x62, 8, 11, 10, 4, 4, 1]),
    (''vmovbrrd'', 3, ARMVFP2, [21, 27, 0x62, 6, 11, 0x2C, 4, 4, 1]),
    (''vstr'', 3, ARMVFP2, [24, 27, 13, 20, 21, 0, 9, 11, 5]),
    (''vpush'', 3, ARMVFP2, [23, 27, 26, 16, 21, 0x2D, 9, 11, 5]),
    (''vstm'', 3, ARMVFP2, [25, 27, 6, 20, 20, 0, 9, 11, 5]),
    (''vpop'', 3, ARMVFP2, [23, 27, 25, 16, 21, 0x3D, 9, 11, 5]),
    (''vldr'', 3, ARMVFP2, [24, 27, 13, 20, 21, 1, 9, 11, 5]),
    (''vldm'', 3, ARMVFP2, [25, 27, 6, 20, 20, 1, 9, 11, 5]),
    (''srs'', 4, 6, [25, 31, 0x7C, 22, 22, 1, 16, 20, 13, 8, 11, 5]),
    (''rfe'', 4, 6, [25, 31, 0x7C, 22, 22, 0, 20, 20, 1, 8, 11, 10]),
    (''bkpt'', 2, 3, [20, 27, 18, 4, 7, 7]),
    (''blx'', 1, 3, [25, 31, 0x7D]),
    (''cps'', 3, 6, [20, 31, 0xF10, 16, 16, 0, 5, 5, 0]),
    (''pld'', 4, 4, [26, 31, 0x3D, 24, 24, 1, 20, 22, 5, 12, 15, 15]),
    (''setend'', 2, 6, [16, 31, 0xF101, 4, 7, 0]),
    (''clrex'', 1, 6, [0, 31, 0xF57FF01F]),
    (''rev16'', 2, 6, [16, 27, 0x6BF, 4, 11, 0xFB]),
    (''usad8'', 3, 6, [20, 27, 0x78, 12, 15, 15, 4, 7, 1]),
    (''sxtb'', 2, 6, [16, 27, 0x6AF, 4, 7, 7]),
    (''uxtb'', 2, 6, [16, 27, 0x6EF, 4, 7, 7]),
    (''sxth'', 2, 6, [16, 27, 0x6BF, 4, 7, 7]),
    (''sxtb16'', 2, 6, [16, 27, 0x68F, 4, 7, 7]),
    (''uxth'', 2, 6, [16, 27, 0x6FF, 4, 7, 7]),
    (''uxtb16'', 2, 6, [16, 27, 0x6CF, 4, 7, 7]),
    (''cpy'', 2, 6, [20, 27, 26, 4, 11, 0]),
    (''uxtab'', 2, 6, [20, 27, 0x6E, 4, 9, 7]),
    (''ssub8'', 2, 6, [20, 27, 0x61, 4, 7, 15]),
    (''shsub8'', 2, 6, [20, 27, 0x63, 4, 7, 15]),
    (''ssubaddx'', 2, 6, [20, 27, 0x61, 4, 7, 5]),
    (''strex'', 2, 6, [20, 27, 24, 4, 7, 9]),
    (''strexb'', 2, 7, [20, 27, 28, 4, 7, 9]),
    (''swp'', 2, 0, [20, 27, 16, 4, 7, 9]),
    (''swpb'', 2, 0, [20, 27, 20, 4, 7, 9]),
    (''ssub16'', 2, 6, [20, 27, 0x61, 4, 7, 7]),
    (''ssat16'', 2, 6, [20, 27, 0x6A, 4, 7, 3]),
    (''shsubaddx'', 2, 6, [20, 27, 0x63, 4, 7, 5]),
    (''qsubaddx'', 2, 6, [20, 27, 0x62, 4, 7, 5]),
    (''shaddsubx'', 2, 6, [20, 27, 0x63, 4, 7, 3]),
    (''shadd8'', 2, 6, [20, 27, 0x63, 4, 7, 9]),
    (''shadd16'', 2, 6, [20, 27, 0x63, 4, 7, 1]),
    (''sel'', 2, 6, [20, 27, 0x68, 4, 7, 11]),
    (''saddsubx'', 2, 6, [20, 27, 0x61, 4, 7, 3]),
    (''sadd8'', 2, 6, [20, 27, 0x61, 4, 7, 9]),
    (''sadd16'', 2, 6, [20, 27, 0x61, 4, 7, 1]),
    (''shsub16'', 2, 6, [20, 27, 0x63, 4, 7, 7]),
    (''umaal'', 2, 6, [20, 27, 4, 4, 7, 9]),
    (''uxtab16'', 2, 6, [20, 27, 0x6C, 4, 7, 7]),
    (''usubaddx'', 2, 6, [20, 27, 0x65, 4, 7, 5]),
    (''usub8'', 2, 6, [20, 27, 0x65, 4, 7, 15]),
    (''usub16'', 2, 6, [20, 27, 0x65, 4, 7, 7]),
    (''usat16'', 2, 6, [20, 27, 0x6E, 4, 7, 3]),
    (''usada8'', 2, 6, [20, 27, 0x78, 4, 7, 1]),
    (''uqsubaddx'', 2, 6, [20, 27, 0x66, 4, 7, 5]),
    (''uqsub8'', 2, 6, [20, 27, 0x66, 4, 7, 15]),
    (''uqsub16'', 2, 6, [20, 27, 0x66, 4, 7, 7]),
    (''uqaddsubx'', 2, 6, [20, 27, 0x66, 4, 7, 3]),
    (''uqadd8'', 2, 6, [20, 27, 0x66, 4, 7, 9]),
    (''uqadd16'', 2, 6, [20, 27, 0x66, 4, 7, 1]),
    (''sxtab'', 2, 6, [20, 27, 0x6A, 4, 7, 7]),
    (''uhsubaddx'', 2, 6, [20, 27, 0x67, 4, 7, 5]),
    (''uhsub8'', 2, 6, [20, 27, 0x67, 4, 7, 15]),
    (''uhsub16'', 2, 6, [20, 27, 0x67, 4, 7, 7]),
    (''uhaddsubx'', 2, 6, [20, 27, 0x67, 4, 7, 3]),
    (''uhadd8'', 2, 6, [20, 27, 0x67, 4, 7, 9]),
    (''uhadd16'', 2, 6, [20, 27, 0x67, 4, 7, 1]),
    (''uaddsubx'', 2, 6, [20, 27, 0x65, 4, 7, 3]),
    (''uadd8'', 2, 6, [20, 27, 0x65, 4, 7, 9]),
    (''uadd16'', 2, 6, [20, 27, 0x65, 4, 7, 1]),
    (''sxtah'', 2, 6, [20, 27, 0x6B, 4, 7, 7]),
    (''sxtab16'', 2, 6, [20, 27, 0x68, 4, 7, 7]),
    (''qadd8'', 2, 6, [20, 27, 0x62, 4, 7, 9]),
    (''bxj'', 2, 5, [20, 27, 18, 4, 7, 2]),
    (''clz'', 2, 3, [20, 27, 22, 4, 7, 1]),
    (''uxtah'', 2, 6, [20, 27, 0x6F, 4, 7, 7]),
    (''bx'', 2, 2, [20, 27, 18, 4, 7, 1]),
    (''rev'', 2, 6, [20, 27, 0x6B, 4, 7, 3]),
    (''blx'', 2, 3, [20, 27, 18, 4, 7, 3]),
    (''revsh'', 2, 6, [20, 27, 0x6F, 4, 7, 11]),
    (''qadd'', 2, 4, [20, 27, 16, 4, 7, 5]),
    (''qadd16'', 2, 6, [20, 27, 0x62, 4, 7, 1]),
    (''qaddsubx'', 2, 6, [20, 27, 0x62, 4, 7, 3]),
    (''ldrex'', 2, 0, [20, 27, 25, 4, 7, 9]),
    (''qdadd'', 2, 4, [20, 27, 20, 4, 7, 5]),
    (''qdsub'', 2, 4, [20, 27, 22, 4, 7, 5]),
    (''qsub'', 2, 4, [20, 27, 18, 4, 7, 5]),
    (''ldrexb'', 2, 7, [20, 27, 29, 4, 7, 9]),
    (''qsub8'', 2, 6, [20, 27, 0x62, 4, 7, 15]),
    (''qsub16'', 2, 6, [20, 27, 0x62, 4, 7, 7]),
    (''smuad'', 4, 6, [20, 27, 0x70, 12, 15, 15, 6, 7, 0, 4, 4, 1]),
    (''smmul'', 4, 6, [20, 27, 0x75, 12, 15, 15, 6, 7, 0, 4, 4, 1]),
    (''smusd'', 4, 6, [20, 27, 0x70, 12, 15, 15, 6, 7, 1, 4, 4, 1]),
    (''smlsd'', 3, 6, [20, 27, 0x70, 6, 7, 1, 4, 4, 1]),
    (''smlsld'', 3, 6, [20, 27, 0x74, 6, 7, 1, 4, 4, 1]),
    (''smmla'', 3, 6, [20, 27, 0x75, 6, 7, 0, 4, 4, 1]),
    (''smmls'', 3, 6, [20, 27, 0x75, 6, 7, 3, 4, 4, 1]),
    (''smlald'', 3, 6, [20, 27, 0x74, 6, 7, 0, 4, 4, 1]),
    (''smlad'', 3, 6, [20, 27, 0x70, 6, 7, 0, 4, 4, 1]),
    (''smlaw'', 3, 4, [20, 27, 18, 7, 7, 1, 4, 5, 0]),
    (''smulw'', 3, 4, [20, 27, 18, 7, 7, 1, 4, 5, 2]),
    (''pkhtb'', 2, 6, [20, 27, 0x68, 4, 6, 5]),
    (''pkhbt'', 2, 6, [20, 27, 0x68, 4, 6, 1]),
    (''smul'', 3, 4, [20, 27, 22, 7, 7, 1, 4, 4, 0]),
    (''smlalxy'', 3, 4, [20, 27, 20, 7, 7, 1, 4, 4, 0]),
    (''smla'', 3, 4, [20, 27, 16, 7, 7, 1, 4, 4, 0]),
    (''mcrr'', 1, 6, [20, 27, 0xC4]),
    (''mrrc'', 1, 6, [20, 27, 0xC5]),
    (''cmp'', 2, 0, [26, 27, 0, 20, 24, 21]),
    (''tst'', 2, 0, [26, 27, 0, 20, 24, 17]),
    (''teq'', 2, 0, [26, 27, 0, 20, 24, 19]),
    (''cmn'', 2, 0, [26, 27, 0, 20, 24, 23]),
    (''smull'', 2, 0, [21, 27, 6, 4, 7, 9]),
    (''umull'', 2, 0, [21, 27, 4, 4, 7, 9]),
    (''umlal'', 2, 0, [21, 27, 5, 4, 7, 9]),
    (''smlal'', 2, 0, [21, 27, 7, 4, 7, 9]),
    (''mul'', 2, 0, [21, 27, 0, 4, 7, 9]),
    (''mla'', 2, 0, [21, 27, 1, 4, 7, 9]),
    (''ssat'', 2, 6, [21, 27, 0x35, 4, 5, 1]),
    (''usat'', 2, 6, [21, 27, 0x37, 4, 5, 1]),
    (''mrs'', 4, 0, [23, 27, 2, 20, 21, 0, 16, 19, 15, 0, 11, 0]),
    (''msr'', 3, 0, [23, 27, 2, 20, 21, 2, 4, 7, 0]),
    (''and'', 2, 0, [26, 27, 0, 21, 24, 0]),
    (''bic'', 2, 0, [26, 27, 0, 21, 24, 14]),
    (''ldm'', 3, 0, [25, 27, 4, 20, 22, 5, 15, 15, 0]),
    (''eor'', 2, 0, [26, 27, 0, 21, 24, 1]),
    (''add'', 2, 0, [26, 27, 0, 21, 24, 4]),
    (''rsb'', 2, 0, [26, 27, 0, 21, 24, 3]),
    (''rsc'', 2, 0, [26, 27, 0, 21, 24, 7]),
    (''sbc'', 2, 0, [26, 27, 0, 21, 24, 6]),
    (''adc'', 2, 0, [26, 27, 0, 21, 24, 5]),
    (''sub'', 2, 0, [26, 27, 0, 21, 24, 2]),
    (''orr'', 2, 0, [26, 27, 0, 21, 24, 12]),
    (''mvn'', 2, 0, [26, 27, 0, 21, 24, 15]),
    (''mov'', 2, 0, [26, 27, 0, 21, 24, 13]),
    (''stm'', 2, 0, [25, 27, 4, 20, 22, 4]),
    (''ldm'', 4, 0, [25, 27, 4, 22, 22, 1, 20, 20, 1, 15, 15, 1]),
    (''ldrsh'', 3, 2, [25, 27, 0, 20, 20, 1, 4, 7, 15]),
    (''stm'', 3, 0, [25, 27, 4, 22, 22, 0, 20, 20, 0]),
    (''ldm'', 3, 0, [25, 27, 4, 22, 22, 0, 20, 20, 1]),
    (''ldrsb'', 3, 2, [25, 27, 0, 20, 20, 1, 4, 7, 13]),
    (''strd'', 3, 4, [25, 27, 0, 20, 20, 0, 4, 7, 15]),
    (''ldrh'', 3, 0, [25, 27, 0, 20, 20, 1, 4, 7, 11]),
    (''strh'', 3, 0, [25, 27, 0, 20, 20, 0, 4, 7, 11]),
    (''ldrd'', 3, 4, [25, 27, 0, 20, 20, 0, 4, 7, 13]),
    (''strt'', 3, 0, [26, 27, 1, 24, 24, 0, 20, 22, 2]),
    (''strbt'', 3, 0, [26, 27, 1, 24, 24, 0, 20, 22, 6]),
    (''ldrbt'', 3, 0, [26, 27, 1, 24, 24, 0, 20, 22, 7]),
    (''ldrt'', 3, 0, [26, 27, 1, 24, 24, 0, 20, 22, 3]),
    (''mrc'', 3, 6, [24, 27, 14, 20, 20, 1, 4, 4, 1]),
    (''mcr'', 3, 0, [24, 27, 14, 20, 20, 0, 4, 4, 1]),
    (''msr'', 3, 0, [23, 27, 6, 20, 21, 2, 22, 22, 1]),
    (''msr'', 4, 0, [23, 27, 6, 20, 21, 2, 22, 22, 0, 16, 19, 4]),
    (''msr'', 5, 0, [23, 27, 6, 20, 21, 2, 22, 22, 0, 19, 19, 1, 16, 17, 0]),
    (''msr'', 4, 0, [23, 27, 6, 20, 21, 2, 22, 22, 0, 16, 17, 1]),
    (''msr'', 4, 0, [23, 27, 6, 20, 21, 2, 22, 22, 0, 17, 17, 1]),
    (''ldrb'', 3, 0, [26, 27, 1, 22, 22, 1, 20, 20, 1]),
    (''strb'', 3, 0, [26, 27, 1, 22, 22, 1, 20, 20, 0]),
    (''ldr'', 4, 0, [28, 31, 14, 26, 27, 1, 22, 22, 0, 20, 20, 1]),
    (''ldrcond'', 3, 0, [26, 27, 1, 22, 22, 0, 20, 20, 1]),
    (''str'', 3, 0, [26, 27, 1, 22, 22, 0, 20, 20, 0]),
    (''cdp'', 2, 0, [24, 27, 14, 4, 4, 0]),
    (''stc'', 2, 0, [25, 27, 6, 20, 20, 0]),
    (''ldc'', 2, 0, [25, 27, 6, 20, 20, 1]),
    (''ldrexd'', 2, ARMV6K, [20, 27, 27, 4, 7, 9]),
    (''strexd'', 2, ARMV6K, [20, 27, 26, 4, 7, 9]),
    (''ldrexh'', 2, ARMV6K, [20, 27, 31, 4, 7, 9]),
    (''strexh'', 2, ARMV6K, [20, 27, 30, 4, 7, 9]),
    (''nop'', 5, ARMV6K, [23, 27, 6, 22, 22, 0, 20, 21, 2, 16, 19, 0, 0, 7, 0]),
    (''yield'', 5, ARMV6K, [23, 27, 6, 22, 22, 0, 20, 21, 2, 16, 19, 0, 0, 7, 1]),
    (''wfe'', 5, ARMV6K, [23, 27, 6, 22, 22, 0, 20, 21, 2, 16, 19, 0, 0, 7, 2]),
    (''wfi'', 5, ARMV6K, [23, 27, 6, 22, 22, 0, 20, 21, 2, 16, 19, 0, 0, 7, 3]),
    (''sev'', 5, ARMV6K, [23, 27, 6, 22, 22, 0, 20, 21, 2, 16, 19, 0, 0, 7, 4]),
    (''swi'', 1, 0, [24, 27, 15]),
    (''bbl'', 1, 0, [25, 27, 5])]"

definition arm_exclusion_code :: "InstructionSetEncodingItem list" where
  "arm_exclusion_code = [
    (''vmla'', 0, ARMVFP2, [0]),
    (''vmls'', 0, ARMVFP2, [0]),
    (''vnmla'', 0, ARMVFP2, [0]),
    (''vnmls'', 0, ARMVFP2, [0]),
    (''vnmul'', 0, ARMVFP2, [0]),
    (''vmul'', 0, ARMVFP2, [0]),
    (''vadd'', 0, ARMVFP2, [0]),
    (''vsub'', 0, ARMVFP2, [0]),
    (''vdiv'', 0, ARMVFP2, [0]),
    (''vmov(i)'', 0, ARMVFP3, [0]),
    (''vmov(r)'', 0, ARMVFP3, [0]),
    (''vabs'', 0, ARMVFP2, [0]),
    (''vneg'', 0, ARMVFP2, [0]),
    (''vsqrt'', 0, ARMVFP2, [0]),
    (''vcmp'', 0, ARMVFP2, [0]),
    (''vcmp2'', 0, ARMVFP2, [0]),
    (''vcvt(bff)'', 0, ARMVFP3, [4, 4, 1]),
    (''vcvt(bds)'', 0, ARMVFP2, [0]),
    (''vcvt(bfi)'', 0, ARMVFP2, [0]),
    (''vmovbrs'', 0, ARMVFP2, [0]),
    (''vmsr'', 0, ARMVFP2, [0]),
    (''vmovbrc'', 0, ARMVFP2, [0]),
    (''vmrs'', 0, ARMVFP2, [0]),
    (''vmovbcr'', 0, ARMVFP2, [0]),
    (''vmovbrrss'', 0, ARMVFP2, [0]),
    (''vmovbrrd'', 0, ARMVFP2, [0]),
    (''vstr'', 0, ARMVFP2, [0]),
    (''vpush'', 0, ARMVFP2, [0]),
    (''vstm'', 0, ARMVFP2, [0]),
    (''vpop'', 0, ARMVFP2, [0]),
    (''vldr'', 0, ARMVFP2, [0]),
    (''vldm'', 0, ARMVFP2, [0]),
    (''srs'', 0, 6, [0]),
    (''rfe'', 0, 6, [0]),
    (''bkpt'', 0, 3, [0]),
    (''blx'', 0, 3, [0]),
    (''cps'', 0, 6, [0]),
    (''pld'', 0, 4, [0]),
    (''setend'', 0, 6, [0]),
    (''clrex'', 0, 6, [0]),
    (''rev16'', 0, 6, [0]),
    (''usad8'', 0, 6, [0]),
    (''sxtb'', 0, 6, [0]),
    (''uxtb'', 0, 6, [0]),
    (''sxth'', 0, 6, [0]),
    (''sxtb16'', 0, 6, [0]),
    (''uxth'', 0, 6, [0]),
    (''uxtb16'', 0, 6, [0]),
    (''cpy'', 0, 6, [0]),
    (''uxtab'', 0, 6, [0]),
    (''ssub8'', 0, 6, [0]),
    (''shsub8'', 0, 6, [0]),
    (''ssubaddx'', 0, 6, [0]),
    (''strex'', 0, 6, [0]),
    (''strexb'', 0, 7, [0]),
    (''swp'', 0, 0, [0]),
    (''swpb'', 0, 0, [0]),
    (''ssub16'', 0, 6, [0]),
    (''ssat16'', 0, 6, [0]),
    (''shsubaddx'', 0, 6, [0]),
    (''qsubaddx'', 0, 6, [0]),
    (''shaddsubx'', 0, 6, [0]),
    (''shadd8'', 0, 6, [0]),
    (''shadd16'', 0, 6, [0]),
    (''sel'', 0, 6, [0]),
    (''saddsubx'', 0, 6, [0]),
    (''sadd8'', 0, 6, [0]),
    (''sadd16'', 0, 6, [0]),
    (''shsub16'', 0, 6, [0]),
    (''umaal'', 0, 6, [0]),
    (''uxtab16'', 0, 6, [0]),
    (''usubaddx'', 0, 6, [0]),
    (''usub8'', 0, 6, [0]),
    (''usub16'', 0, 6, [0]),
    (''usat16'', 0, 6, [0]),
    (''usada8'', 0, 6, [0]),
    (''uqsubaddx'', 0, 6, [0]),
    (''uqsub8'', 0, 6, [0]),
    (''uqsub16'', 0, 6, [0]),
    (''uqaddsubx'', 0, 6, [0]),
    (''uqadd8'', 0, 6, [0]),
    (''uqadd16'', 0, 6, [0]),
    (''sxtab'', 0, 6, [0]),
    (''uhsubaddx'', 0, 6, [0]),
    (''uhsub8'', 0, 6, [0]),
    (''uhsub16'', 0, 6, [0]),
    (''uhaddsubx'', 0, 6, [0]),
    (''uhadd8'', 0, 6, [0]),
    (''uhadd16'', 0, 6, [0]),
    (''uaddsubx'', 0, 6, [0]),
    (''uadd8'', 0, 6, [0]),
    (''uadd16'', 0, 6, [0]),
    (''sxtah'', 0, 6, [0]),
    (''sxtab16'', 0, 6, [0]),
    (''qadd8'', 0, 6, [0]),
    (''bxj'', 0, 5, [0]),
    (''clz'', 0, 3, [0]),
    (''uxtah'', 0, 6, [0]),
    (''bx'', 0, 2, [0]),
    (''rev'', 0, 6, [0]),
    (''blx'', 0, 3, [0]),
    (''revsh'', 0, 6, [0]),
    (''qadd'', 0, 4, [0]),
    (''qadd16'', 0, 6, [0]),
    (''qaddsubx'', 0, 6, [0]),
    (''ldrex'', 0, 0, [0]),
    (''qdadd'', 0, 4, [0]),
    (''qdsub'', 0, 4, [0]),
    (''qsub'', 0, 4, [0]),
    (''ldrexb'', 0, 7, [0]),
    (''qsub8'', 0, 6, [0]),
    (''qsub16'', 0, 6, [0]),
    (''smuad'', 0, 6, [0]),
    (''smmul'', 0, 6, [0]),
    (''smusd'', 0, 6, [0]),
    (''smlsd'', 0, 6, [0]),
    (''smlsld'', 0, 6, [0]),
    (''smmla'', 0, 6, [0]),
    (''smmls'', 0, 6, [0]),
    (''smlald'', 0, 6, [0]),
    (''smlad'', 0, 6, [0]),
    (''smlaw'', 0, 4, [0]),
    (''smulw'', 0, 4, [0]),
    (''pkhtb'', 0, 6, [0]),
    (''pkhbt'', 0, 6, [0]),
    (''smul'', 0, 4, [0]),
    (''smlal'', 0, 4, [0]),
    (''smla'', 0, 4, [0]),
    (''mcrr'', 0, 6, [0]),
    (''mrrc'', 0, 6, [0]),
    (''cmp'', 3, 0, [4, 4, 1, 7, 7, 1, 25, 25, 0]),
    (''tst'', 3, 0, [4, 4, 1, 7, 7, 1, 25, 25, 0]),
    (''teq'', 3, 0, [4, 4, 1, 7, 7, 1, 25, 25, 0]),
    (''cmn'', 3, 0, [4, 4, 1, 7, 7, 1, 25, 25, 0]),
    (''smull'', 0, 0, [0]),
    (''umull'', 0, 0, [0]),
    (''umlal'', 0, 0, [0]),
    (''smlal'', 0, 0, [0]),
    (''mul'', 0, 0, [0]),
    (''mla'', 0, 0, [0]),
    (''ssat'', 0, 6, [0]),
    (''usat'', 0, 6, [0]),
    (''mrs'', 0, 0, [0]),
    (''msr'', 0, 0, [0]),
    (''and'', 3, 0, [4, 4, 1, 7, 7, 1, 25, 25, 0]),
    (''bic'', 3, 0, [4, 4, 1, 7, 7, 1, 25, 25, 0]),
    (''ldm'', 0, 0, [0]),
    (''eor'', 3, 0, [4, 4, 1, 7, 7, 1, 25, 25, 0]),
    (''add'', 3, 0, [4, 4, 1, 7, 7, 1, 25, 25, 0]),
    (''rsb'', 3, 0, [4, 4, 1, 7, 7, 1, 25, 25, 0]),
    (''rsc'', 3, 0, [4, 4, 1, 7, 7, 1, 25, 25, 0]),
    (''sbc'', 3, 0, [4, 4, 1, 7, 7, 1, 25, 25, 0]),
    (''adc'', 3, 0, [4, 4, 1, 7, 7, 1, 25, 25, 0]),
    (''sub'', 3, 0, [4, 4, 1, 7, 7, 1, 25, 25, 0]),
    (''orr'', 3, 0, [4, 4, 1, 7, 7, 1, 25, 25, 0]),
    (''mvn'', 3, 0, [4, 4, 1, 7, 7, 1, 25, 25, 0]),
    (''mov'', 3, 0, [4, 4, 1, 7, 7, 1, 25, 25, 0]),
    (''stm'', 0, 0, [0]),
    (''ldm'', 0, 0, [0]),
    (''ldrsh'', 0, 2, [0]),
    (''stm'', 0, 0, [0]),
    (''ldm'', 0, 0, [0]),
    (''ldrsb'', 0, 2, [0]),
    (''strd'', 0, 4, [0]),
    (''ldrh'', 0, 0, [0]),
    (''strh'', 0, 0, [0]),
    (''ldrd'', 0, 4, [0]),
    (''strt'', 0, 0, [0]),
    (''strbt'', 0, 0, [0]),
    (''ldrbt'', 0, 0, [0]),
    (''ldrt'', 0, 0, [0]),
    (''mrc'', 0, 6, [0]),
    (''mcr'', 0, 0, [0]),
    (''msr'', 0, 0, [0]),
    (''msr'', 0, 0, [0]),
    (''msr'', 0, 0, [0]),
    (''msr'', 0, 0, [0]),
    (''msr'', 0, 0, [0]),
    (''ldrb'', 0, 0, [0]),
    (''strb'', 0, 0, [0]),
    (''ldr'', 0, 0, [0]),
    (''ldrcond'', 1, 0, [28, 31, 14]),
    (''str'', 0, 0, [0]),
    (''cdp'', 0, 0, [0]),
    (''stc'', 0, 0, [0]),
    (''ldc'', 0, 0, [0]),
    (''ldrexd'', 0, ARMV6K, [0]),
    (''strexd'', 0, ARMV6K, [0]),
    (''ldrexh'', 0, ARMV6K, [0]),
    (''strexh'', 0, ARMV6K, [0]),
    (''nop'', 0, ARMV6K, [0]),
    (''yield'', 0, ARMV6K, [0]),
    (''wfe'', 0, ARMV6K, [0]),
    (''wfi'', 0, ARMV6K, [0]),
    (''sev'', 0, ARMV6K, [0]),
    (''swi'', 0, 0, [0]),
    (''bbl'', 0, 0, [0]),
    (''bl_1_thumb'', 0, INVALID, [0]),
    (''bl_2_thumb'', 0, INVALID, [0]),
    (''blx_1_thumb'', 0, INVALID, [0]),
    (''invalid'', 0, INVALID, [0])]"

subsection \<open>The search\<close>

text \<open>The loop over the conditions of an item, returning the number of conditions left: zero when
  all hold.  A condition on bits 0 to 31 compares the whole word.\<close>

fun conditions_left :: "u32 \<Rightarrow> nat list \<Rightarrow> nat \<Rightarrow> nat \<Rightarrow> nat" where
  "conditions_left instr content 0 base = 0"
| "conditions_left instr content (Suc n) base =
    (if content ! (base + 1) = 31 \<and> content ! base = 0
     then (if instr \<noteq> word_of_nat (content ! (base + 2)) then Suc n
           else conditions_left instr content n (base + 3))
     else if BITS instr (content ! base) (content ! (base + 1)) \<noteq> word_of_nat (content ! (base + 2))
     then Suc n
     else conditions_left instr content n (base + 3))"

text \<open>The loop over the conditions of an exclusion.\<close>

fun exclusions_left :: "u32 \<Rightarrow> nat list \<Rightarrow> nat \<Rightarrow> nat \<Rightarrow> nat" where
  "exclusions_left instr content 0 base = 0"
| "exclusions_left instr content (Suc n) base =
    (if BITS instr (content ! base) (content ! (base + 1)) \<noteq> word_of_nat (content ! (base + 2))
     then Suc n
     else exclusions_left instr content n (base + 3))"

text \<open>The outer loop over the slots from \<open>i\<close>.\<close>

fun decode_slots :: "u32 \<Rightarrow> nat \<Rightarrow> InstructionSetEncodingItem list \<Rightarrow> InstructionSetEncodingItem list \<Rightarrow> nat option" where
  "decode_slots instr i [] excl = None"
| "decode_slots instr i ((name, n, version, content) # items) excl =
    (if version = ARMVFP3 then decode_slots instr (Suc i) items (tl excl)
     else let success = (conditions_left instr content n 0 = 0);
              (xname, xn, xversion, xcontent) = hd excl;
              success = (if success \<and> xn \<noteq> 0 \<and> exclusions_left instr xcontent xn 0 = 0 then False else success)
          in if success then Some i else decode_slots instr (Suc i) items (tl excl))"

definition DecodeARMInstruction :: "u32 \<Rightarrow> nat option" where
  "DecodeARMInstruction instr = decode_slots instr 0 arm_instruction arm_exclusion_code"

end
