(* ===== verification/Arm_Encodings.thy ===== *)
theory Arm_Encodings
  imports Arm_Decode Arm_Operands
begin

text \<open>
  What the table of \<^verbatim>\<open>src/core/arm/dyncom/arm_dyncom_dec.cpp\<close> decodes to, for whole
  classes of instruction words.  The conditions and exclusions of both tables are compiled to
  patterns of known bits; a class of words (an encoding diagram with its operand bits unknown) is
  matched against the patterns, and the match is proved sound for the decoder.  The diagrams of the
  ARMv6 instructions are then decoded, one evaluation of the compiled table for each.
\<close>

subsection \<open>Decoding a class of words\<close>

text \<open>A class of instruction words is a list of 32 bits, highest first, some of them unknown.\<close>

type_synonym word_class = "bool option list"

definition in_class :: "word_class \<Rightarrow> u32 \<Rightarrow> bool" where
  "in_class cls w = (length cls = 32 \<and> (\<forall>i < 32. \<forall>b. cls ! i = Some b \<longrightarrow> bit w (31 - i) = b))"

fun bits_of :: "nat \<Rightarrow> nat \<Rightarrow> bool list" where
  "bits_of n k = (if n = 0 then [] else odd (k div 2 ^ (n - 1)) # bits_of (n - 1) k)"

declare bits_of.simps [simp del]

fun disagrees :: "word_class \<Rightarrow> word_class \<Rightarrow> bool" where
  "disagrees (Some b # ts) (Some c # cs) = (b \<noteq> c \<or> disagrees ts cs)"
| "disagrees (None # ts) (c # cs) = disagrees ts cs"
| "disagrees (t # ts) (None # cs) = disagrees ts cs"
| "disagrees ts cs = False"

fun determines :: "word_class \<Rightarrow> word_class \<Rightarrow> bool" where
  "determines ts [] = True"
| "determines (t # ts) (None # cs) = determines ts cs"
| "determines (Some b # ts) (Some c # cs) = (b = c \<and> determines ts cs)"
| "determines ts cs = False"

text \<open>A condition of the table as the class of the words that meet it, and a row of the two tables
  with its conditions and its exclusions compiled; \<open>None\<close> is a condition that is no bit field.\<close>

fun any_bits :: "nat \<Rightarrow> word_class \<Rightarrow> word_class" where
  "any_bits a cls = (if a = 0 then cls else None # any_bits (a - 1) cls)"

declare any_bits.simps [simp del]

definition field_class :: "nat \<Rightarrow> nat \<Rightarrow> nat \<Rightarrow> word_class" where
  "field_class a b k = any_bits (31 - b) (map Some (bits_of (Suc b - a) k))"

fun compile_conditions :: "nat \<Rightarrow> nat list \<Rightarrow> word_class list option" where
  "compile_conditions n (a # b # k # rest) =
     (if n = 0 then Some []
      else if a \<le> b \<and> b < 32 \<and> k < 2 ^ (Suc b - a)
      then map_option (\<lambda>cs. field_class a b k # cs) (compile_conditions (n - 1) rest)
      else None)"
| "compile_conditions n c = (if n = 0 then Some [] else None)"

fun compile_table :: "InstructionSetEncodingItem list \<Rightarrow> InstructionSetEncodingItem list
    \<Rightarrow> (bool \<times> word_class list option \<times> word_class list option) list" where
  "compile_table ((name, n, version, content) # items) ((xname, xn, xversion, xcontent) # excl) =
     (version = ARMVFP3, compile_conditions n content, compile_conditions xn xcontent) # compile_table items excl"
| "compile_table items excl = []"

fun some_excluded :: "word_class \<Rightarrow> word_class list \<Rightarrow> bool" where
  "some_excluded cls [] = False"
| "some_excluded cls (c # cs) = (disagrees cls c \<or> some_excluded cls cs)"

fun all_implied :: "word_class \<Rightarrow> word_class list \<Rightarrow> bool" where
  "all_implied cls [] = True"
| "all_implied cls (c # cs) = (determines cls c \<and> all_implied cls cs)"

text \<open>The slot that every word of a class decodes to, when the table's conditions settle it.\<close>

fun class_slot :: "word_class \<Rightarrow> nat \<Rightarrow> (bool \<times> word_class list option \<times> word_class list option) list \<Rightarrow> nat option" where
  "class_slot cls i ((skip, Some cs, Some xs) # rows) =
    (if skip \<or> some_excluded cls cs \<or> xs \<noteq> [] \<and> all_implied cls xs then class_slot cls (Suc i) rows
     else if all_implied cls cs \<and> (xs = [] \<or> some_excluded cls xs) then Some i
     else None)"
| "class_slot cls i ((skip, cs, xs) # rows) = (if skip then class_slot cls (Suc i) rows else None)"
| "class_slot cls i [] = None"

lemma bits_of_nth: "j < n \<Longrightarrow> bits_of n k ! j = bit k (n - Suc j)"
proof (induction n arbitrary: j)
  case (Suc n)
  then show ?case by (subst bits_of.simps) (cases j; simp add: bit_iff_odd)
qed simp

lemma bits_of_length [simp]: "length (bits_of n k) = n"
  by (induction n) (subst bits_of.simps; simp)+

lemma disagrees_nth:
  "disagrees ts cs \<Longrightarrow> \<exists>j b. j < length ts \<and> j < length cs \<and> ts ! j = Some (\<not> b) \<and> cs ! j = Some b"
proof (induction ts cs rule: disagrees.induct)
  case (1 b ts c cs)
  show ?case
  proof (cases "b = c")
    case True
    then have "disagrees ts cs" using 1(2) by simp
    then obtain j b where "j < length ts" "j < length cs" "ts ! j = Some (\<not> b)" "cs ! j = Some b" using 1(1) by blast
    then show ?thesis by (intro exI [of _ "Suc j"] exI [of _ b]) simp
  next
    case False
    then show ?thesis by (intro exI [of _ 0] exI [of _ c]) auto
  qed
next
  case (2 ts c cs)
  then obtain j b where "j < length ts" "j < length cs" "ts ! j = Some (\<not> b)" "cs ! j = Some b" by auto
  then show ?case by (intro exI [of _ "Suc j"] exI [of _ b]) simp
next
  case (3 t ts cs)
  then obtain j b where "j < length ts" "j < length cs" "ts ! j = Some (\<not> b)" "cs ! j = Some b" by auto
  then show ?case by (intro exI [of _ "Suc j"] exI [of _ b]) simp
qed auto

lemma determines_nth:
  "determines ts cs \<Longrightarrow> j < length cs \<Longrightarrow> cs ! j = Some b \<Longrightarrow> j < length ts \<and> ts ! j = Some b"
proof (induction ts cs arbitrary: j rule: determines.induct)
  case (2 t ts cs)
  then show ?case by (cases j) auto
next
  case (3 b ts c cs)
  then show ?case by (cases j) auto
qed auto

lemma any_bits_eq: "any_bits a cls = replicate a None @ cls"
  by (induction a) (subst any_bits.simps; simp)+

lemma field_class_nth:
  assumes "a \<le> b" "b < 32"
  shows "j < 32 - a \<Longrightarrow> field_class a b k ! j = Some v \<longleftrightarrow> 31 - b \<le> j \<and> v = bit k (31 - j - a)"
    and "length (field_class a b k) = 32 - a"
proof -
  assume j: "j < 32 - a"
  have "Suc b - a - Suc (j - (31 - b)) = 31 - j - a" if "31 - b \<le> j" using that assms by linarith
  then show "field_class a b k ! j = Some v \<longleftrightarrow> 31 - b \<le> j \<and> v = bit k (31 - j - a)"
    using assms j by (auto simp: field_class_def any_bits_eq nth_append bits_of_nth)
next
  show "length (field_class a b k) = 32 - a" using assms by (simp add: field_class_def any_bits_eq)
qed

lemma bit_of_nat_word: "j < 32 \<Longrightarrow> bit (word_of_nat k :: u32) j = bit k j"
  by (transfer fixing: k j) (simp add: bit_take_bit_iff bit_of_nat_iff_bit)

lemma bit_BITS: "a \<le> b \<Longrightarrow> b < 32 \<Longrightarrow> j < Suc b - a \<Longrightarrow> bit (BITS w a b) j = bit w (a + j)"
  by (simp add: BITS_eq bit_take_bit_iff bit_drop_bit_eq)

lemma field_excluded_sound:
  assumes "disagrees cls (field_class a b k)" "a \<le> b" "b < 32" "in_class cls w"
  shows "BITS w a b \<noteq> word_of_nat k"
proof
  assume eq: "BITS w a b = word_of_nat k"
  from disagrees_nth [OF assms(1)] obtain j v where v: "j < length cls" "j < length (field_class a b k)"
    "cls ! j = Some (\<not> v)" "field_class a b k ! j = Some v" by blast
  then have j: "j < 32 - a" "31 - b \<le> j" "v = bit k (31 - j - a)"
    by (simp_all only: field_class_nth [OF assms(2,3)])
  have "bit w (31 - j) = (\<not> v)" using assms(4) v(3) j(1) by (auto simp: in_class_def)
  moreover have "bit (BITS w a b) (31 - j - a) = bit w (31 - j)"
    using j(1,2) assms(2,3) by (subst bit_BITS) auto
  moreover have "bit (BITS w a b) (31 - j - a) = v" unfolding eq j(3) by (rule bit_of_nat_word) linarith
  ultimately show False by simp
qed

lemma field_implied_sound:
  assumes "determines cls (field_class a b k)" "a \<le> b" "b < 32" "k < 2 ^ (Suc b - a)" "in_class cls w"
  shows "BITS w a b = word_of_nat k"
proof (rule bit_word_eqI)
  fix i
  assume "i < LENGTH(32)"
  then have i32: "i < 32" by simp
  show "bit (BITS w a b) i = bit (word_of_nat k :: u32) i"
  proof (cases "i < Suc b - a")
    case True
    define j where "j = 31 - (a + i)"
    have j: "j < 32 - a" "31 - b \<le> j" "31 - j = a + i" using True assms(2,3) by (auto simp: j_def)
    then have "field_class a b k ! j = Some (bit k i)"
      by (subst field_class_nth(1) [OF assms(2,3)]) simp_all
    then have "cls ! j = Some (bit k i)"
      using determines_nth [OF assms(1), of j] j(1) by (simp add: field_class_nth(2) [OF assms(2,3)])
    moreover have "j < 32" using j(1) by simp
    ultimately have "bit w (31 - j) = bit k i" using assms(5) unfolding in_class_def by blast
    then have "bit w (a + i) = bit k i" unfolding j(3) .
    with True assms(2,3) i32 show ?thesis by (simp add: bit_BITS bit_of_nat_word)
  next
    case False
    then have "(2 :: nat) ^ (Suc b - a) \<le> 2 ^ i" by (intro power_increasing) simp_all
    with assms(4) have "k < 2 ^ i" by (rule order_less_le_trans)
    then have "\<not> bit k i" by (simp add: bit_iff_odd)
    with False assms(2,3) i32 show ?thesis by (simp add: BITS_eq bit_take_bit_iff bit_of_nat_word)
  qed
qed

lemma drop_three:
  assumes "drop base c = a # b # k # rest"
  shows "c ! base = a" "c ! (base + 1) = b" "c ! (base + 2) = k" "drop (base + 3) c = rest"
proof -
  obtain p where c: "c = p @ a # b # k # rest" and p: "length p = base"
  proof
    show "c = take base c @ a # b # k # rest" using assms by (metis append_take_drop_id)
    have "base < length c" using assms by (metis drop_all list.distinct(1) not_le)
    then show "length (take base c) = base" by simp
  qed
  from p show "c ! base = a" "c ! (base + 1) = b" "c ! (base + 2) = k" "drop (base + 3) c = rest"
    unfolding c by (simp_all add: nth_append numeral_3_eq_3)
qed

lemma whole_word: "BITS w 0 31 = w"
  by (simp add: BITS_eq) (rule bit_word_eqI, simp add: bit_take_bit_iff)

lemma conditions_left_step:
  "conditions_left w c (Suc n) base =
    (if BITS w (c ! base) (c ! (base + 1)) \<noteq> word_of_nat (c ! (base + 2)) then Suc n
     else conditions_left w c n (base + 3))"
  by (auto simp: whole_word)

lemma compile_conditions_Suc:
  assumes "compile_conditions (Suc n) c = Some cs"
  obtains a b k rest ds where "c = a # b # k # rest" "cs = field_class a b k # ds" "a \<le> b" "b < 32"
    "k < 2 ^ (Suc b - a)" "compile_conditions n rest = Some ds"
  using assms by (cases "(Suc n, c)" rule: compile_conditions.cases) (auto split: if_splits)

lemma compile_conditions_0 [simp]: "compile_conditions 0 c = Some []"
  by (cases "(0 :: nat, c)" rule: compile_conditions.cases) auto

lemma some_excluded_sound:
  assumes "in_class cls w"
  shows "compile_conditions n (drop base c) = Some cs \<Longrightarrow> some_excluded cls cs \<Longrightarrow>
    conditions_left w c n base \<noteq> 0 \<and> exclusions_left w c n base \<noteq> 0"
proof (induction n arbitrary: base cs)
  case (Suc n)
  from Suc.prems(1) obtain a b k rest ds where d: "drop base c = a # b # k # rest" and cs: "cs = field_class a b k # ds"
    and wf: "a \<le> b" "b < 32" and ds: "compile_conditions n rest = Some ds" by (rule compile_conditions_Suc)
  note f = drop_three [OF d]
  from Suc.prems(2) show ?case unfolding cs some_excluded.simps
  proof
    assume "disagrees cls (field_class a b k)"
    then have "BITS w a b \<noteq> word_of_nat k" using wf assms by (rule field_excluded_sound)
    then show ?thesis unfolding conditions_left_step exclusions_left.simps f by simp
  next
    assume "some_excluded cls ds"
    then have "conditions_left w c n (base + 3) \<noteq> 0 \<and> exclusions_left w c n (base + 3) \<noteq> 0"
      using Suc.IH [of "base + 3"] f(4) ds by simp
    then show ?thesis unfolding conditions_left_step exclusions_left.simps by simp
  qed
qed simp

lemma all_implied_sound:
  assumes "in_class cls w"
  shows "compile_conditions n (drop base c) = Some cs \<Longrightarrow> all_implied cls cs \<Longrightarrow>
    conditions_left w c n base = 0 \<and> exclusions_left w c n base = 0"
proof (induction n arbitrary: base cs)
  case (Suc n)
  from Suc.prems(1) obtain a b k rest ds where d: "drop base c = a # b # k # rest" and cs: "cs = field_class a b k # ds"
    and wf: "a \<le> b" "b < 32" "k < 2 ^ (Suc b - a)" and ds: "compile_conditions n rest = Some ds"
    by (rule compile_conditions_Suc)
  note f = drop_three [OF d]
  have "BITS w a b = word_of_nat k"
    by (rule field_implied_sound [OF _ wf assms]) (use Suc.prems(2) cs in simp)
  moreover have "conditions_left w c n (base + 3) = 0 \<and> exclusions_left w c n (base + 3) = 0"
    using Suc.IH [of "base + 3"] f(4) ds Suc.prems(2) cs by simp
  ultimately show ?case unfolding conditions_left_step exclusions_left.simps f by simp
qed simp

lemma compile_conditions_empty: "compile_conditions n c = Some [] \<Longrightarrow> n = 0"
  by (cases n) (auto elim: compile_conditions_Suc)

lemma class_slot_sound:
  "class_slot cls i (compile_table items excl) = Some j \<Longrightarrow> in_class cls w \<Longrightarrow> decode_slots w i items excl = Some j"
proof (induction items excl arbitrary: i rule: compile_table.induct)
  case (1 name n version content items xname xn xversion xcontent excl)
  note excluded = some_excluded_sound [OF 1(3), of _ 0, simplified] and implied = all_implied_sound [OF 1(3), of _ 0, simplified]
  note IH = 1(1) [OF _ 1(3), of "Suc i"]
  show ?case
  proof (cases "version = ARMVFP3")
    case True
    with 1(2) have "class_slot cls (Suc i) (compile_table items excl) = Some j"
      by (cases "compile_conditions n content"; cases "compile_conditions xn xcontent"; simp)
    with True IH show ?thesis by simp
  next
    case v: False
    with 1(2) obtain cs xs where c: "compile_conditions n content = Some cs" "compile_conditions xn xcontent = Some xs"
      by (cases "compile_conditions n content"; cases "compile_conditions xn xcontent"; simp)
    note empty = compile_conditions_empty [of xn xcontent]
    consider "some_excluded cls cs" | "xs \<noteq> []" "all_implied cls xs"
      | "\<not> (some_excluded cls cs \<or> xs \<noteq> [] \<and> all_implied cls xs)" by blast
    then show ?thesis
    proof cases
      case 1
      with \<open>class_slot _ _ _ = _\<close> c v have "class_slot cls (Suc i) (compile_table items excl) = Some j" by simp
      with v excluded [OF c(1) 1] IH show ?thesis by simp
    next
      case 2
      with \<open>class_slot _ _ _ = _\<close> c v have "class_slot cls (Suc i) (compile_table items excl) = Some j" by simp
      moreover have "xn \<noteq> 0" using 2(1) c(2) by (intro notI) simp
      ultimately show ?thesis using v implied [OF c(2) 2(2)] IH by (simp add: Let_def)
    next
      case 3
      then have imp: "all_implied cls cs" and xf: "xs = [] \<or> some_excluded cls xs" and "j = i"
        using \<open>class_slot _ _ _ = _\<close> c v by (simp_all split: if_split_asm)
      from xf have "xn = 0 \<or> exclusions_left w xcontent xn 0 \<noteq> 0"
        using excluded [OF c(2)] c(2) empty by auto
      then show ?thesis using implied [OF c(1) imp] v \<open>j = i\<close> by auto
    qed
  qed
qed simp_all

definition arm_table :: "(bool \<times> word_class list option \<times> word_class list option) list" where
  "arm_table = compile_table arm_instruction arm_exclusion_code"

definition arm_row :: "nat \<Rightarrow> bool \<times> word_class list option \<times> word_class list option" where
  "arm_row i = arm_table ! i"

function row_slot :: "word_class \<Rightarrow> nat \<Rightarrow> nat option" where
  "row_slot cls i =
    (if length arm_table \<le> i then None
     else case arm_row i of (skip, cs, xs) \<Rightarrow>
       if skip then row_slot cls (Suc i)
       else if cs = None \<or> xs = None then None
       else if some_excluded cls (the cs) \<or> the xs \<noteq> [] \<and> all_implied cls (the xs) then row_slot cls (Suc i)
       else if all_implied cls (the cs) \<and> (the xs = [] \<or> some_excluded cls (the xs)) then Some i
       else None)"
  by auto
termination by (relation "measure (\<lambda>(cls, i). length arm_table - i)") auto

declare row_slot.simps [simp del]

lemma row_slot_eq: "row_slot cls i = class_slot cls i (drop i arm_table)"
proof (induction cls i rule: row_slot.induct)
  case (1 cls i)
  show ?case
  proof (cases "length arm_table \<le> i")
    case True
    then show ?thesis by (simp add: row_slot.simps)
  next
    case False
    obtain skip cs xs where r: "arm_row i = (skip, cs, xs)" by (cases "arm_row i") auto
    have "drop i arm_table = (skip, cs, xs) # drop (Suc i) arm_table"
      using False r by (simp add: arm_row_def Cons_nth_drop_Suc [symmetric])
    then show ?thesis
      using False r 1 [OF False] by (subst row_slot.simps) (cases cs; cases xs; auto)
  qed
qed

lemma row_slot_sound:
  assumes "row_slot cls 0 = Some j" "in_class cls w"
  shows "DecodeARMInstruction w = Some j"
  using assms class_slot_sound [of cls 0 arm_instruction arm_exclusion_code j w]
  unfolding row_slot_eq DecodeARMInstruction_def arm_table_def by simp

text \<open>The entries of a table, one equation for each.\<close>

fun entries_are :: "(nat \<Rightarrow> 'a) \<Rightarrow> nat \<Rightarrow> 'a list \<Rightarrow> bool" where
  "entries_are f i (r # rs) = (f i = r \<and> entries_are f (i + 1) rs)"
| "entries_are f i [] = True"

lemma entries_are_nth: "(\<And>j. j < length rs \<Longrightarrow> f (i + j) = rs ! j) \<Longrightarrow> entries_are f i rs"
proof (induction rs arbitrary: i)
  case (Cons r rs)
  have "f i = r" using Cons.prems [of 0] by simp
  moreover have "entries_are f (i + 1) rs" using Cons.prems [of "Suc j" for j] by (intro Cons.IH) simp
  ultimately show ?case by simp
qed simp

definition slot_name :: "nat \<Rightarrow> string" where
  "slot_name i = fst (arm_instruction ! i)"

lemma slot_names_are: "entries_are slot_name 0 (map fst arm_instruction)"
  by (rule entries_are_nth) (simp add: slot_name_def)

fun steps_are :: "nat \<Rightarrow> (bool \<times> word_class list option \<times> word_class list option) list \<Rightarrow> bool" where
  "steps_are i ((skip, Some cs, Some xs) # rows) =
    ((\<forall>cls. row_slot cls i =
       (if skip \<or> some_excluded cls cs \<or> xs \<noteq> [] \<and> all_implied cls xs then row_slot cls (i + 1)
        else if all_implied cls cs \<and> (xs = [] \<or> some_excluded cls xs) then Some i
        else None)) \<and> steps_are (i + 1) rows)"
| "steps_are i ((skip, cs, xs) # rows) =
    ((\<forall>cls. row_slot cls i = (if skip then row_slot cls (i + 1) else None)) \<and> steps_are (i + 1) rows)"
| "steps_are i [] = True"

lemma steps_are_drop: "steps_are i (drop i arm_table)"
proof (induction "length arm_table - i" arbitrary: i)
  case 0
  then show ?case by simp
next
  case (Suc m)
  have "steps_are (i + 1) (drop (i + 1) arm_table)" using Suc(2) by (intro Suc(1)) simp
  moreover obtain skip cs xs where r: "arm_row i = (skip, cs, xs)" by (cases "arm_row i") auto
  moreover have d: "drop i arm_table = (skip, cs, xs) # drop (i + 1) arm_table"
    using Suc(2) r by (simp add: arm_row_def Cons_nth_drop_Suc [symmetric])
  ultimately show ?case unfolding d by (cases cs; cases xs; simp add: row_slot_eq d)
qed

lemmas steps_are_table = steps_are_drop [of 0, simplified drop_0]

text \<open>The table compiled, one equation for each row.\<close>

declare field_class_def [simp] bits_of.simps [simp] any_bits.simps [simp]

lemma compile_table_cong [cong]: "compile_table items excl = compile_table items excl"
  by simp

lemmas arm_table_eval = arm_table_def
  [unfolded arm_instruction_def arm_exclusion_code_def, simplified]

declare compile_table_cong [cong del] field_class_def [simp del] bits_of.simps [simp del] any_bits.simps [simp del]

declare One_nat_def [simp del]

lemmas row_steps = steps_are_table [unfolded arm_table_eval, simplified]

lemmas slot_names = slot_names_are [unfolded arm_instruction_def, simplified]

subsection \<open>The architecture's encodings\<close>

text \<open>Encoding diagrams as the architecture manual prints them, highest bit first: \<open>0\<close> and \<open>1\<close> are
  fixed bits, any letter is a bit of an operand.  Loads, stores and branches have the condition
  \<open>AL\<close>, since the table's rows for the unconditional space precede them.\<close>

definition data_processing_encodings :: "(string \<times> string \<times> nat) list" where
  "data_processing_encodings = [
    (''and'', ''cccc0010000snnnnddddrrrriiiiiiii'', 144),
    (''and'', ''cccc0000000snnnnddddaaaaatt0mmmm'', 144),
    (''and'', ''cccc0000000snnnnddddssss0tt1mmmm'', 144),
    (''eor'', ''cccc0010001snnnnddddrrrriiiiiiii'', 147),
    (''eor'', ''cccc0000001snnnnddddaaaaatt0mmmm'', 147),
    (''eor'', ''cccc0000001snnnnddddssss0tt1mmmm'', 147),
    (''sub'', ''cccc0010010snnnnddddrrrriiiiiiii'', 153),
    (''sub'', ''cccc0000010snnnnddddaaaaatt0mmmm'', 153),
    (''sub'', ''cccc0000010snnnnddddssss0tt1mmmm'', 153),
    (''rsb'', ''cccc0010011snnnnddddrrrriiiiiiii'', 149),
    (''rsb'', ''cccc0000011snnnnddddaaaaatt0mmmm'', 149),
    (''rsb'', ''cccc0000011snnnnddddssss0tt1mmmm'', 149),
    (''add'', ''cccc0010100snnnnddddrrrriiiiiiii'', 148),
    (''add'', ''cccc0000100snnnnddddaaaaatt0mmmm'', 148),
    (''add'', ''cccc0000100snnnnddddssss0tt1mmmm'', 148),
    (''adc'', ''cccc0010101snnnnddddrrrriiiiiiii'', 152),
    (''adc'', ''cccc0000101snnnnddddaaaaatt0mmmm'', 152),
    (''adc'', ''cccc0000101snnnnddddssss0tt1mmmm'', 152)]"

definition data_processing_encodings2 :: "(string \<times> string \<times> nat) list" where
  "data_processing_encodings2 = [
    (''sbc'', ''cccc0010110snnnnddddrrrriiiiiiii'', 151),
    (''sbc'', ''cccc0000110snnnnddddaaaaatt0mmmm'', 151),
    (''sbc'', ''cccc0000110snnnnddddssss0tt1mmmm'', 151),
    (''rsc'', ''cccc0010111snnnnddddrrrriiiiiiii'', 150),
    (''rsc'', ''cccc0000111snnnnddddaaaaatt0mmmm'', 150),
    (''rsc'', ''cccc0000111snnnnddddssss0tt1mmmm'', 150),
    (''orr'', ''cccc0011100snnnnddddrrrriiiiiiii'', 154),
    (''orr'', ''cccc0001100snnnnddddaaaaatt0mmmm'', 154),
    (''orr'', ''cccc0001100snnnnddddssss0tt1mmmm'', 154),
    (''mov'', ''cccc0011101snnnnddddrrrriiiiiiii'', 156),
    (''mov'', ''cccc00011011nnnnddddaaaaatt0mmmm'', 156),
    (''mov'', ''cccc0001101snnnnddddssss0tt1mmmm'', 156),
    (''bic'', ''cccc0011110snnnnddddrrrriiiiiiii'', 145),
    (''bic'', ''cccc0001110snnnnddddaaaaatt0mmmm'', 145),
    (''bic'', ''cccc0001110snnnnddddssss0tt1mmmm'', 145),
    (''mvn'', ''cccc0011111snnnnddddrrrriiiiiiii'', 155),
    (''mvn'', ''cccc0001111snnnnddddaaaaatt0mmmm'', 155),
    (''mvn'', ''cccc0001111snnnnddddssss0tt1mmmm'', 155),
    (''cpy'', ''cccc00011010nnnndddd00000000mmmm'', 48)]"

definition compare_encodings :: "(string \<times> string \<times> nat) list" where
  "compare_encodings = [
    (''tst'', ''cccc00110001nnnnddddrrrriiiiiiii'', 131),
    (''tst'', ''cccc00010001nnnnddddaaaaatt0mmmm'', 131),
    (''tst'', ''cccc00010001nnnnddddssss0tt1mmmm'', 131),
    (''teq'', ''cccc00110011nnnnddddrrrriiiiiiii'', 132),
    (''teq'', ''cccc00010011nnnnddddaaaaatt0mmmm'', 132),
    (''teq'', ''cccc00010011nnnnddddssss0tt1mmmm'', 132),
    (''cmp'', ''cccc00110101nnnnddddrrrriiiiiiii'', 130),
    (''cmp'', ''cccc00010101nnnnddddaaaaatt0mmmm'', 130),
    (''cmp'', ''cccc00010101nnnnddddssss0tt1mmmm'', 130),
    (''cmn'', ''cccc00110111nnnnddddrrrriiiiiiii'', 133),
    (''cmn'', ''cccc00010111nnnnddddaaaaatt0mmmm'', 133),
    (''cmn'', ''cccc00010111nnnnddddssss0tt1mmmm'', 133)]"

definition word_transfer_encodings :: "(string \<times> string \<times> nat) list" where
  "word_transfer_encodings = [
    (''ldr'', ''11100101u0w1nnnnddddiiiiiiiiiiii'', 180),
    (''str'', ''11100101u0w0nnnnddddiiiiiiiiiiii'', 182),
    (''ldrb'', ''11100101u1w1nnnnddddiiiiiiiiiiii'', 178),
    (''strb'', ''11100101u1w0nnnnddddiiiiiiiiiiii'', 179),
    (''ldr'', ''11100111u001nnnndddd00000000mmmm'', 180),
    (''str'', ''11100111u000nnnndddd00000000mmmm'', 182),
    (''ldrb'', ''11100111u101nnnndddd00000000mmmm'', 178),
    (''strb'', ''11100111u100nnnndddd00000000mmmm'', 179),
    (''ldm'', ''1110100pu0w1nnnnrrrrrrrrrrrrrrrr'', 161),
    (''stm'', ''1110100pu0w0nnnnrrrrrrrrrrrrrrrr'', 160)]"

definition halfword_transfer_encodings :: "(string \<times> string \<times> nat) list" where
  "halfword_transfer_encodings = [
    (''ldrh'', ''1110000pu1w1nnnnddddhhhh1011llll'', 164),
    (''ldrh'', ''1110000pu0w1nnnndddd00001011mmmm'', 164),
    (''strh'', ''1110000pu1w0nnnnddddhhhh1011llll'', 165),
    (''strh'', ''1110000pu0w0nnnndddd00001011mmmm'', 165),
    (''ldrsb'', ''1110000pu1w1nnnnddddhhhh1101llll'', 162),
    (''ldrsb'', ''1110000pu0w1nnnndddd00001101mmmm'', 162),
    (''ldrsh'', ''1110000pu1w1nnnnddddhhhh1111llll'', 159),
    (''ldrsh'', ''1110000pu0w1nnnndddd00001111mmmm'', 159),
    (''ldrd'', ''1110000pu1w0nnnnddddhhhh1101llll'', 166),
    (''ldrd'', ''1110000pu0w0nnnndddd00001101mmmm'', 166),
    (''strd'', ''1110000pu1w0nnnnddddhhhh1111llll'', 163),
    (''strd'', ''1110000pu0w0nnnndddd00001111mmmm'', 163)]"

definition branch_and_system_encodings :: "(string \<times> string \<times> nat) list" where
  "branch_and_system_encodings = [
    (''bbl'', ''1110101liiiiiiiiiiiiiiiiiiiiiiii'', 196),
    (''blx'', ''1111101hiiiiiiiiiiiiiiiiiiiiiiii'', 35),
    (''bx'', ''cccc000100101111111111110001mmmm'', 98),
    (''bxj'', ''cccc000100101111111111110010mmmm'', 95),
    (''blx'', ''cccc000100101111111111110011mmmm'', 100),
    (''bkpt'', ''cccc00010010iiiiiiiiiiii0111iiii'', 34),
    (''swi'', ''cccc1111iiiiiiiiiiiiiiiiiiiiiiii'', 195),
    (''mrs'', ''cccc00010r001111dddd000000000000'', 142),
    (''msr'', ''cccc00010r10ffff111100000000nnnn'', 143),
    (''mrc'', ''cccc1110ooo1nnnndddd1111ooo1mmmm'', 171),
    (''mcr'', ''cccc1110ooo0nnnndddd1111ooo1mmmm'', 172),
    (''setend'', ''1111000100000001000000e000000000'', 38),
    (''cps'', ''111100010000iim00000000aif0mmmmm'', 36),
    (''nop'', ''cccc0011001000001111000000000000'', 190)]"

definition arithmetic_and_exclusive_encodings :: "(string \<times> string \<times> nat) list" where
  "arithmetic_and_exclusive_encodings = [
    (''mul'', ''cccc0000000sddddnnnnssss1001mmmm'', 138),
    (''mla'', ''cccc0000001sddddnnnnssss1001mmmm'', 139),
    (''umull'', ''cccc0000100sddddnnnnssss1001mmmm'', 135),
    (''umlal'', ''cccc0000101sddddnnnnssss1001mmmm'', 136),
    (''smull'', ''cccc0000110sddddnnnnssss1001mmmm'', 134),
    (''smlal'', ''cccc0000111sddddnnnnssss1001mmmm'', 137),
    (''umaal'', ''cccc00000100hhhhllllmmmm1001nnnn'', 69),
    (''clz'', ''cccc000101101111dddd11110001mmmm'', 96),
    (''sxtb'', ''cccc011010101111ddddrr000111mmmm'', 42),
    (''sxth'', ''cccc011010111111ddddrr000111mmmm'', 44),
    (''uxtb'', ''cccc011011101111ddddrr000111mmmm'', 43),
    (''uxth'', ''cccc011011111111ddddrr000111mmmm'', 46),
    (''rev'', ''cccc011010111111dddd11110011mmmm'', 99),
    (''rev16'', ''cccc011010111111dddd11111011mmmm'', 40),
    (''revsh'', ''cccc011011111111dddd11111011mmmm'', 101),
    (''ssat'', ''cccc0110101iiiiiddddaaaaas01nnnn'', 140),
    (''usat'', ''cccc0110111iiiiiddddaaaaas01nnnn'', 141),
    (''qsub'', ''cccc00010010nnnndddd00000101mmmm'', 108),
    (''ldrex'', ''cccc00011001nnnndddd111110011111'', 105),
    (''qadd'', ''111000010000nnnndddd00000101mmmm'', 102),
    (''strex'', ''cccc00011000nnnndddd11111001mmmm'', 53),
    (''ldrexb'', ''cccc00011101nnnndddd111110011111'', 109),
    (''strexb'', ''cccc00011100nnnndddd11111001mmmm'', 54),
    (''ldrexd'', ''cccc00011011nnnndddd111110011111'', 186),
    (''strexd'', ''cccc00011010nnnndddd11111001mmmm'', 187),
    (''swpb'', ''cccc00010100nnnndddd00001001mmmm'', 56),
    (''swp'', ''111000010000nnnndddd00001001mmmm'', 55)]"

definition arm_encodings :: "(string \<times> string \<times> nat) list" where
  "arm_encodings = data_processing_encodings @
    data_processing_encodings2 @
    compare_encodings @
    word_transfer_encodings @
    halfword_transfer_encodings @
    branch_and_system_encodings @
    arithmetic_and_exclusive_encodings"

definition diagram_class :: "string \<Rightarrow> word_class" where
  "diagram_class d = map (\<lambda>c. if c = CHR ''0'' then Some False else if c = CHR ''1'' then Some True else None) d"

definition fits :: "string \<Rightarrow> u32 \<Rightarrow> bool" where
  "fits d w = in_class (diagram_class d) w"

definition slots_found :: "(string \<times> string \<times> nat) list \<Rightarrow> bool" where
  "slots_found es = list_all (\<lambda>(n, d, s). row_slot (diagram_class d) 0 = Some s) es"

lemma data_processing_encodings_slots: "slots_found data_processing_encodings"
  by (simp add: slots_found_def data_processing_encodings_def diagram_class_def row_steps del: One_nat_def)

lemma data_processing_encodings2_slots: "slots_found data_processing_encodings2"
  by (simp add: slots_found_def data_processing_encodings2_def diagram_class_def row_steps del: One_nat_def)

lemma compare_encodings_slots: "slots_found compare_encodings"
  by (simp add: slots_found_def compare_encodings_def diagram_class_def row_steps del: One_nat_def)

lemma word_transfer_encodings_slots: "slots_found word_transfer_encodings"
  by (simp add: slots_found_def word_transfer_encodings_def diagram_class_def row_steps del: One_nat_def)

lemma halfword_transfer_encodings_slots: "slots_found halfword_transfer_encodings"
  by (simp add: slots_found_def halfword_transfer_encodings_def diagram_class_def row_steps del: One_nat_def)

lemma branch_and_system_encodings_slots: "slots_found branch_and_system_encodings"
  by (simp add: slots_found_def branch_and_system_encodings_def diagram_class_def row_steps del: One_nat_def)

lemma arithmetic_and_exclusive_encodings_slots: "slots_found arithmetic_and_exclusive_encodings"
  by (simp add: slots_found_def arithmetic_and_exclusive_encodings_def diagram_class_def row_steps del: One_nat_def)

lemmas encoding_slots = data_processing_encodings_slots [unfolded slots_found_def]
  data_processing_encodings2_slots [unfolded slots_found_def]
  compare_encodings_slots [unfolded slots_found_def]
  word_transfer_encodings_slots [unfolded slots_found_def]
  halfword_transfer_encodings_slots [unfolded slots_found_def]
  branch_and_system_encodings_slots [unfolded slots_found_def]
  arithmetic_and_exclusive_encodings_slots [unfolded slots_found_def]

lemma arm_encodings_names: "list_all (\<lambda>(n, d, s). slot_name s = n) arm_encodings"
  by (simp add: arm_encodings_def data_processing_encodings_def data_processing_encodings2_def compare_encodings_def word_transfer_encodings_def halfword_transfer_encodings_def branch_and_system_encodings_def arithmetic_and_exclusive_encodings_def slot_names del: One_nat_def)

declare One_nat_def [simp]

lemma arm_encodings_slots: "(n, d, s) \<in> set arm_encodings \<Longrightarrow> row_slot (diagram_class d) 0 = Some s"
  using encoding_slots by (auto simp: arm_encodings_def list_all_iff)

text \<open>C16: the decoder finds the architecture's instruction.  Every word that fits the encoding
  diagram of one of the listed ARMv6 instructions is decoded to the slot of the table that bears that
  instruction's name: no earlier row of the table takes it, and no exclusion drops it.\<close>

theorem decode_finds_the_instruction:
  "(n, d, s) \<in> set arm_encodings \<Longrightarrow> fits d w \<Longrightarrow>
    DecodeARMInstruction w = Some s \<and> fst (arm_instruction ! s) = n"
  using row_slot_sound [OF arm_encodings_slots, of n d s w] arm_encodings_names
  by (auto simp: fits_def list_all_iff slot_name_def)

text \<open>Whether a word fits a diagram, bit by bit.\<close>

definition bit_positions :: "nat list" where
  "bit_positions = [31, 30, 29, 28, 27, 26, 25, 24, 23, 22, 21, 20, 19, 18, 17, 16, 15, 14, 13, 12, 11, 10, 9, 8, 7, 6, 5, 4, 3, 2, 1, 0]"

lemma bit_positions_eq: "bit_positions = rev [0..<32]"
  unfolding bit_positions_def by code_simp

lemma diagram_bit:
  "(\<forall>b. (if c = z then Some False else if c = u then Some True else None) = Some b \<longrightarrow> x = b) \<longleftrightarrow>
    (if c = z then \<not> x else if c = u then x else True)"
  by auto

lemma fits_bits:
  "fits d w \<longleftrightarrow> list_all2 (\<lambda>c i. if c = CHR ''0'' then \<not> bit w i else if c = CHR ''1'' then bit w i else True) d bit_positions"
proof -
  have "in_class (diagram_class d) w \<longleftrightarrow> length d = 32 \<and>
      (\<forall>i<32. if d ! i = CHR ''0'' then \<not> bit w (31 - i) else if d ! i = CHR ''1'' then bit w (31 - i) else True)"
    unfolding in_class_def diagram_class_def length_map
    by (rule conj_cong [OF HOL.refl]) (simp only: nth_map diagram_bit cong: conj_cong imp_cong)
  then show ?thesis
    unfolding fits_def bit_positions_eq list_all2_conv_all_nth by (simp add: rev_nth cong: conj_cong)
qed

theorem decode_finds_the_instruction_witness:
  "fits ''cccc0010101snnnnddddrrrriiiiiiii'' 0xE2B13005 \<and> DecodeARMInstruction 0xE2B13005 = Some 152"
proof -
  have m: "(''adc'', ''cccc0010101snnnnddddrrrriiiiiiii'', 152) \<in> set arm_encodings"
    by (simp add: arm_encodings_def data_processing_encodings_def)
  have f: "fits ''cccc0010101snnnnddddrrrriiiiiiii'' 0xE2B13005"
    unfolding fits_bits bit_positions_def by simp
  from f decode_finds_the_instruction [OF m f] show ?thesis by simp
qed

end
