(* ===== verification/Thumb.thy ===== *)
theory Thumb
  imports Arm_Encodings
begin

text \<open>
  The translation of Thumb halfwords to ARM words, \<^verbatim>\<open>src/core/arm/dyncom/arm_dyncom_thumb.cpp\<close>
  and \<^verbatim>\<open>arm_dyncom_thumb.h\<close>.  The two outputs \<open>*ainstr\<close> and \<open>*inst_size\<close> are components of
  the result beside the status; the word that \<open>*ainstr\<close> starts with stays there when a branch of the
  switch does not assign it.
\<close>

datatype ThumbDecodeStatus = UNDEFINED | DECODED | BRANCH | UNINITIALIZED

definition GetThumbInstruction :: "u32 \<Rightarrow> u32 \<Rightarrow> u32" where
  "GetThumbInstruction instr address =
     (if address AND 0x3 \<noteq> 0 then drop_bit 16 instr else instr AND 0xFFFF)"

subsection \<open>The formats\<close>

definition thumb_add_sub :: "u32 \<Rightarrow> u32" where
  "thumb_add_sub tinstr =
     [0xE0900000, 0xE0500000, 0xE2900000, 0xE2500000] ! unat (drop_bit 9 (tinstr AND 0x0600))
     OR drop_bit 6 (tinstr AND 0x01C0)
     OR push_bit (16 - 3) (tinstr AND 0x0038)
     OR push_bit (12 - 0) (tinstr AND 0x0007)"

definition thumb_immediate :: "u32 \<Rightarrow> u32" where
  "thumb_immediate tinstr =
     [0xE3B00000, 0xE3500000, 0xE2900000, 0xE2500000] ! unat (drop_bit 11 (tinstr AND 0x1800))
     OR drop_bit 0 (tinstr AND 0x00FF)
     OR push_bit (16 - 8) (tinstr AND 0x0700)
     OR push_bit (12 - 8) (tinstr AND 0x0700)"

datatype otype = t_norm | t_shift | t_neg | t_mul

definition thumb_alu_subset :: "(u32 \<times> otype) list" where
  "thumb_alu_subset = [
     (0xE0100000, t_norm), (0xE0300000, t_norm), (0xE1B00010, t_shift), (0xE1B00030, t_shift),
     (0xE1B00050, t_shift), (0xE0B00000, t_norm), (0xE0D00000, t_norm), (0xE1B00070, t_shift),
     (0xE1100000, t_norm), (0xE2700000, t_neg), (0xE1500000, t_norm), (0xE1700000, t_norm),
     (0xE1900000, t_norm), (0xE0100090, t_mul), (0xE1D00000, t_norm), (0xE1F00000, t_norm)]"

definition thumb_alu :: "u32 \<Rightarrow> u32" where
  "thumb_alu tinstr =
    (case thumb_alu_subset ! unat (drop_bit 6 (tinstr AND 0x03C0)) of
       (opcode, t_norm) \<Rightarrow> opcode OR (push_bit 16 (tinstr AND 0x0007) OR push_bit 12 (tinstr AND 0x0007)
                             OR drop_bit 3 (tinstr AND 0x0038))
     | (opcode, t_shift) \<Rightarrow> opcode OR (push_bit 12 (tinstr AND 0x0007) OR drop_bit 0 (tinstr AND 0x0007)
                             OR push_bit (8 - 3) (tinstr AND 0x0038))
     | (opcode, t_neg) \<Rightarrow> opcode OR (push_bit 12 (tinstr AND 0x0007) OR push_bit (16 - 3) (tinstr AND 0x0038))
     | (opcode, t_mul) \<Rightarrow> opcode OR (push_bit 16 (tinstr AND 0x0007) OR push_bit 8 (tinstr AND 0x0007)
                             OR drop_bit 3 (tinstr AND 0x0038)))"

definition thumb_high_registers :: "u32 \<Rightarrow> u32" where
  "thumb_high_registers tinstr =
    (let Rd = drop_bit 0 (tinstr AND 0x0007);
         Rs = drop_bit 3 (tinstr AND 0x0078);
         Rd = (if tinstr AND push_bit 7 1 \<noteq> 0 then Rd + 8 else Rd);
         k = unat (drop_bit 6 (tinstr AND 0x03C0))
     in if k < 0x4 then 0xE0800000 OR push_bit 16 Rd OR push_bit 12 Rd OR push_bit 0 Rs
        else if k < 0x8 then 0xE1500000 OR push_bit 16 Rd OR push_bit 0 Rs
        else if k < 0xC then 0xE1A00000 OR push_bit 12 Rd OR push_bit 0 Rs
        else if k < 0xE then 0xE12FFF10 OR drop_bit 3 (tinstr AND 0x0078)
        else 0xE1200030 OR push_bit 0 Rs)"

definition thumb_register_offset :: "u32 \<Rightarrow> u32" where
  "thumb_register_offset tinstr =
     [0xE7800000, 0xE18000B0, 0xE7C00000, 0xE19000D0, 0xE7900000, 0xE19000B0, 0xE7D00000, 0xE19000F0]
       ! unat (drop_bit 9 (tinstr AND 0xE00))
     OR push_bit (12 - 0) (tinstr AND 0x0007)
     OR push_bit (16 - 3) (tinstr AND 0x0038)
     OR drop_bit 6 (tinstr AND 0x01C0)"

definition thumb_immediate_offset :: "u32 \<Rightarrow> u32" where
  "thumb_immediate_offset tinstr =
     [0xE5800000, 0xE5900000, 0xE5C00000, 0xE5D00000] ! unat (drop_bit 11 (tinstr AND 0x1800))
     OR push_bit (12 - 0) (tinstr AND 0x0007)
     OR push_bit (16 - 3) (tinstr AND 0x0038)
     OR drop_bit (6 - (if tinstr AND push_bit 12 1 \<noteq> 0 then 0 else 2)) (tinstr AND 0x07C0)"

definition thumb_halfword_offset :: "u32 \<Rightarrow> u32" where
  "thumb_halfword_offset tinstr =
     (if tinstr AND push_bit 11 1 \<noteq> 0 then 0xE1D000B0 else 0xE1C000B0)
     OR push_bit (12 - 0) (tinstr AND 0x0007)
     OR push_bit (16 - 3) (tinstr AND 0x0038)
     OR drop_bit (6 - 1) (tinstr AND 0x01C0)
     OR drop_bit (9 - 8) (tinstr AND 0x0600)"

definition thumb_sp_offset :: "u32 \<Rightarrow> u32" where
  "thumb_sp_offset tinstr =
     (if tinstr AND push_bit 11 1 \<noteq> 0 then 0xE59D0000 else 0xE58D0000)
     OR push_bit (12 - 8) (tinstr AND 0x0700)
     OR push_bit 2 (tinstr AND 0x00FF)"

definition thumb_add_pc_sp :: "u32 \<Rightarrow> u32" where
  "thumb_add_pc_sp tinstr =
     (if tinstr AND push_bit 11 1 = 0
      then 0xE28F0F00 OR push_bit (12 - 8) (tinstr AND 0x0700) OR tinstr AND 0x00FF
      else 0xE28D0F00 OR push_bit (12 - 8) (tinstr AND 0x0700) OR tinstr AND 0x00FF)"

text \<open>Cases 22 and 23; \<open>None\<close> is the undefined row of the byte reversals.\<close>

definition thumb_miscellaneous :: "u32 \<Rightarrow> u32 option" where
  "thumb_miscellaneous tinstr =
    (if tinstr AND 0x0F00 = 0x0000
     then Some ((if tinstr AND push_bit 7 1 \<noteq> 0 then 0xE24DDF00 else 0xE28DDF00) OR tinstr AND 0x007F)
     else if tinstr AND 0x0F00 = 0x0e00
     then Some (0xEF000000 OR BITS tinstr 0 3 OR push_bit 8 (BITS tinstr 4 7))
     else if tinstr AND 0x0F00 = 0x0200
     then Some ([0xE6BF0070, 0xE6AF0070, 0xE6FF0070, 0xE6EF0070] ! unat (BITS tinstr 6 7)
            OR push_bit 12 (BITS tinstr 0 2) OR BITS tinstr 3 5)
     else if tinstr AND 0x0F00 = 0x600
     then (if BIT tinstr 5 = 0 then Some (0xF1010000 OR push_bit 9 (BIT tinstr 3))
           else Some (0xF1080000 OR push_bit 6 (BIT tinstr 0) OR push_bit 7 (BIT tinstr 1)
                  OR push_bit 8 (BIT tinstr 2) OR push_bit 18 (BIT tinstr 4)))
     else if tinstr AND 0x0F00 = 0x0a00
     then (let subset_index = unat (BITS tinstr 6 7)
           in if subset_index = 2 then None
              else Some ([0xE6BF0F30, 0xE6BF0FB0, 0, 0xE6FF0FB0] ! subset_index
                     OR push_bit 12 (BITS tinstr 0 2) OR BITS tinstr 3 5))
     else Some ([0xE92D0000, 0xE92D4000, 0xE8BD0000, 0xE8BD8000]
              ! unat (drop_bit 10 (tinstr AND push_bit 11 1) OR drop_bit 8 (tinstr AND push_bit 8 1))
            OR tinstr AND 0x00FF))"

definition thumb_multiple :: "u32 \<Rightarrow> u32" where
  "thumb_multiple tinstr =
    (if tinstr AND push_bit 11 1 \<noteq> 0
     then (let rn = BITS tinstr 8 10;
               base = (if tinstr AND push_bit (unat rn) 1 = 0 then 0xE8900000 OR push_bit 21 1 else 0xE8900000)
           in base OR push_bit 16 rn OR tinstr AND 0x00FF)
     else 0xE8A00000 OR push_bit 16 (BITS tinstr 8 10) OR tinstr AND 0x00FF)"

definition thumb_swi :: "u32 \<Rightarrow> u32" where
  "thumb_swi tinstr =
    (if tinstr AND 0x00FF = 0x18 then 0xEF000000 OR push_bit 16 (tinstr AND 0x00FF)
     else if tinstr AND 0x00FF = 0xFE then 0xEF000000 OR 0x180000
     else 0xEF000000 OR tinstr AND 0x00FF)"

subsection \<open>The switch\<close>

definition thumb_case :: "nat \<Rightarrow> u32 \<Rightarrow> ThumbDecodeStatus \<times> u32 \<times> u32" where
  "thumb_case k tinstr =
    (let untouched = 0xDEADC0DE :: u32;
         assigned = (\<lambda>ainstr. (UNINITIALIZED, ainstr, 2 :: u32));
         left_as = (\<lambda>valid. (valid, untouched, 2))
     in if k < 3 then assigned (0xE1B00000 OR drop_bit (11 - 5) (tinstr AND 0x1800)
             OR push_bit (7 - 6) (tinstr AND 0x07C0) OR drop_bit 3 (tinstr AND 0x0038) OR push_bit 12 (tinstr AND 0x0007))
        else if k = 3 then assigned (thumb_add_sub tinstr)
        else if k < 8 then assigned (thumb_immediate tinstr)
        else if k = 8 then
          (if tinstr AND push_bit 10 1 = 0 then assigned (thumb_alu tinstr) else assigned (thumb_high_registers tinstr))
        else if k = 9 then assigned (0xE59F0000 OR push_bit (12 - 8) (tinstr AND 0x0700) OR push_bit (2 - 0) (tinstr AND 0x00FF))
        else if k < 12 then assigned (thumb_register_offset tinstr)
        else if k < 16 then assigned (thumb_immediate_offset tinstr)
        else if k < 18 then assigned (thumb_halfword_offset tinstr)
        else if k < 20 then assigned (thumb_sp_offset tinstr)
        else if k < 22 then assigned (thumb_add_pc_sp tinstr)
        else if k < 24 then
          (case thumb_miscellaneous tinstr of None \<Rightarrow> left_as UNDEFINED | Some ainstr \<Rightarrow> assigned ainstr)
        else if k < 26 then assigned (thumb_multiple tinstr)
        else if k < 28 then
          (if tinstr AND 0x0F00 = 0x0F00 then assigned (thumb_swi tinstr)
           else if tinstr AND 0x0F00 \<noteq> 0x0E00 then left_as BRANCH
           else left_as UNDEFINED)
        else if k = 28 then left_as BRANCH
        else if k = 29 then (if tinstr AND 0x1 \<noteq> 0 then left_as UNDEFINED else left_as BRANCH)
        else left_as BRANCH)"

definition TranslateThumbInstruction :: "u32 \<Rightarrow> u32 \<Rightarrow> ThumbDecodeStatus \<times> u32 \<times> u32" where
  "TranslateThumbInstruction addr instr =
    (let tinstr = GetThumbInstruction instr addr
     in thumb_case (unat (drop_bit 11 (tinstr AND 0xF800))) tinstr)"

end
