(* ===== verification/Thumb_Encodings.thy ===== *)
theory Thumb_Encodings
  imports Thumb
begin

text \<open>
  The Thumb translation against the architecture: each Thumb format beside the ARM encoding that is
  its equivalent, the proof that the translation of \<^verbatim>\<open>arm_dyncom_thumb.cpp\<close> builds exactly that
  word for every operand, and that the decoder finds the intended instruction in it.  Formats with
  no ARM equivalent (the branches) keep the status \<open>BRANCH\<close>.
\<close>

subsection \<open>Halfwords and words from diagrams\<close>

definition half_fits :: "string \<Rightarrow> u32 \<Rightarrow> bool" where
  "half_fits d t = list_all2 (\<lambda>c i. if c = CHR ''0'' then \<not> bit t i else if c = CHR ''1'' then bit t i else True)
     d [15, 14, 13, 12, 11, 10, 9, 8, 7, 6, 5, 4, 3, 2, 1, 0]"

definition letter_bit :: "char \<Rightarrow> u32 \<Rightarrow> bool" where
  "letter_bit c t = (if c = CHR ''0'' then False else if c = CHR ''1'' then True else bit t (of_char c - 97))"

fun word_from :: "string \<Rightarrow> u32 \<Rightarrow> u32" where
  "word_from [] t = 0"
| "word_from (c # cs) t = push_bit (length cs) (of_bool (letter_bit c t)) OR word_from cs t"

lemma bit_word_from:
  "length d \<le> 32 \<Longrightarrow> bit (word_from d t) i \<longleftrightarrow> i < length d \<and> letter_bit (d ! (length d - Suc i)) t"
proof (induction d)
  case (Cons c d)
  then show ?case
    by (auto simp: bit_or_iff bit_push_bit_iff nth_Cons' Suc_diff_le less_Suc_eq bit_of_bool_iff)
qed simp

lemma word_from_eqI:
  assumes "length d = 32" "list_all2 (\<lambda>c i. letter_bit c t = bit w i) d bit_positions"
  shows "w = word_from d t"
proof (rule bit_word_eqI)
  fix i
  assume "i < LENGTH(32)"
  then have i: "i < 32" "31 - i < 32" "31 - (31 - i) = i" by auto
  have "letter_bit (d ! (31 - i)) t = bit w (rev [0..<32] ! (31 - i))"
    using assms(2) i(2) assms(1) unfolding bit_positions_eq list_all2_conv_all_nth by simp
  then show "bit w i = bit (word_from d t) i"
    using i assms(1) by (simp add: bit_word_from rev_nth)
qed

lemma fits_word_from: "length d = 32 \<Longrightarrow> fits d (word_from d t)"
  unfolding fits_bits bit_positions_eq list_all2_conv_all_nth
  by (auto simp: bit_word_from rev_nth letter_bit_def)

subsection \<open>The fields that select\<close>

lemma eq_by_bits:
  fixes a b :: u32
  assumes "list_all (\<lambda>i. bit a i = bit b i) bit_positions"
  shows "a = b"
proof (rule bit_word_eqI)
  fix i
  assume "i < LENGTH(32)"
  then show "bit a i = bit b i" using assms by (simp add: bit_positions_eq list_all_iff)
qed

definition flag :: "u32 \<Rightarrow> nat \<Rightarrow> nat \<Rightarrow> u32" where
  "flag t i j = push_bit j (of_bool (bit t i))"

lemma flag_bit [simp]: "bit (flag t i j) n \<longleftrightarrow> j = n \<and> n < 32 \<and> bit t i"
  by (auto simp: flag_def bit_push_bit_iff bit_of_bool_iff)

lemma flag_value: "bit t i \<Longrightarrow> flag t i j = push_bit j 1" "\<not> bit t i \<Longrightarrow> flag t i j = 0"
  by (simp_all add: flag_def)

lemma selecting_fields:
  "drop_bit 11 t AND 0x1F = flag t 11 0 OR flag t 12 1 OR flag t 13 2 OR flag t 14 3 OR flag t 15 4"
  "drop_bit 9 t AND 0x3 = flag t 9 0 OR flag t 10 1"
  "drop_bit 11 t AND 0x3 = flag t 11 0 OR flag t 12 1"
  "drop_bit 6 t AND 0xF = flag t 6 0 OR flag t 7 1 OR flag t 8 2 OR flag t 9 3"
  "drop_bit 9 t AND 0x7 = flag t 9 0 OR flag t 10 1 OR flag t 11 2"
  "drop_bit 10 t AND 2 = flag t 11 1"
  "drop_bit 8 t AND 1 = flag t 8 0"
  "t AND 0x0F00 = flag t 8 8 OR flag t 9 9 OR flag t 10 10 OR flag t 11 11"
  "BITS t 6 7 = flag t 6 0 OR flag t 7 1"
  "BITS t 8 10 = flag t 8 0 OR flag t 9 1 OR flag t 10 2"
  by (rule eq_by_bits, simp add: bit_positions_def bit_simps BITS_eq)+

lemma push_bit_test: "(t AND push_bit n 1 = 0) = (\<not> bit t n)" for t :: u32
  using sign_bit_and [of t n] by blast

lemma BIT_test: "(BIT t n = 0) = (\<not> bit t n)"
  by (simp add: BIT_eq)

lemmas bit_tests = push_bit_test BIT_test push_bit_test [where n = 0, simplified] push_bit_test [where n = 1, simplified]
  push_bit_test [where n = 2, simplified] push_bit_test [where n = 3, simplified] push_bit_test [where n = 4, simplified]
  push_bit_test [where n = 5, simplified] push_bit_test [where n = 6, simplified] push_bit_test [where n = 7, simplified]
  push_bit_test [where n = 10, simplified] push_bit_test [where n = 11, simplified] push_bit_test [where n = 12, simplified]

lemma field_bits:
  "a \<le> b \<Longrightarrow> b < 32 \<Longrightarrow> bit (BITS w a b) i \<longleftrightarrow> i < Suc b - a \<and> bit w (a + i)"
  "bit (BIT w n) i \<longleftrightarrow> i = 0 \<and> bit w n"
  "bit (w * 2) i \<longleftrightarrow> i < 32 \<and> 0 < i \<and> bit w (i - 1)" for w :: u32
proof -
  show "a \<le> b \<Longrightarrow> b < 32 \<Longrightarrow> bit (BITS w a b) i \<longleftrightarrow> i < Suc b - a \<and> bit w (a + i)"
    by (auto simp: BITS_eq bit_simps)
  show "bit (BIT w n) i \<longleftrightarrow> i = 0 \<and> bit w n" by (simp add: BIT_eq bit_of_bool_iff conj_commute)
  show "bit (w * 2) i \<longleftrightarrow> i < 32 \<and> 0 < i \<and> bit w (i - 1)"
    using bit_push_bit_iff [of 1 w i] by (auto simp: push_bit_eq_mult)
qed

lemmas format_simps = half_fits_def selecting_fields flag_value bit_tests field_bits

definition translates :: "string \<Rightarrow> string \<Rightarrow> bool" where
  "translates td ad \<longleftrightarrow> (\<forall>instr addr. half_fits td (GetThumbInstruction instr addr) \<longrightarrow>
     TranslateThumbInstruction addr instr = (UNINITIALIZED, word_from ad (GetThumbInstruction instr addr), 2))"

lemma translatesI:
  assumes "length ad = 32"
    "\<And>t. half_fits td t \<Longrightarrow> thumb_case (unat (drop_bit 11 (t AND 0xF800))) t = (UNINITIALIZED, f t, 2)"
    "\<And>t. half_fits td t \<Longrightarrow> list_all2 (\<lambda>c i. letter_bit c t = bit (f t) i) ad bit_positions"
  shows "translates td ad"
  unfolding translates_def TranslateThumbInstruction_def Let_def using assms word_from_eqI by metis

lemma high_register_number: "(t AND 7) + 8 = (t AND 7) OR 8" for t :: u32
proof (rule disjunctive_add)
  fix i
  show "\<not> bit (t AND 7) i \<or> \<not> bit (8 :: u32) i"
    using bit_take_bit_iff [of 3 t i] bit_push_bit_iff [of 3 "1 :: u32" i]
    by (auto simp: take_bit_eq_mask mask_eq_exp_minus_1 push_bit_eq_mult bit_1_iff)
qed

subsection \<open>The architecture's formats\<close>

text \<open>The Thumb encodings beside the ARM instruction that the architecture gives as their equivalent.
  A halfword diagram has \<open>0\<close>, \<open>1\<close> and \<open>x\<close> for any bit; in the ARM diagram the letters \<open>a\<close> to \<open>p\<close> are
  the bits 0 to 15 of the halfword.  The third component is the instruction's name in the decoder's
  table, the fourth its slot.\<close>

text \<open>Shifts by an immediate, additions and subtractions of registers and small immediates.\<close>

definition shift_and_add_formats :: "(string \<times> string \<times> string \<times> nat) list" where
  "shift_and_add_formats = [
    (''00000xxxxxxxxxxx'', ''11100001101100000cbakjihg0000fed'', ''mov'', 156),
    (''00001xxxxxxxxxxx'', ''11100001101100000cbakjihg0100fed'', ''mov'', 156),
    (''00010xxxxxxxxxxx'', ''11100001101100000cbakjihg1000fed'', ''mov'', 156),
    (''0001100xxxxxxxxx'', ''1110000010010fed0cba000000000ihg'', ''add'', 148),
    (''0001101xxxxxxxxx'', ''1110000001010fed0cba000000000ihg'', ''sub'', 153),
    (''0001110xxxxxxxxx'', ''1110001010010fed0cba000000000ihg'', ''add'', 148),
    (''0001111xxxxxxxxx'', ''1110001001010fed0cba000000000ihg'', ''sub'', 153),
    (''00100xxxxxxxxxxx'', ''1110001110110kji0kji0000hgfedcba'', ''mov'', 156),
    (''00101xxxxxxxxxxx'', ''1110001101010kji0kji0000hgfedcba'', ''cmp'', 130),
    (''00110xxxxxxxxxxx'', ''1110001010010kji0kji0000hgfedcba'', ''add'', 148),
    (''00111xxxxxxxxxxx'', ''1110001001010kji0kji0000hgfedcba'', ''sub'', 153)]"

text \<open>The register operations, and those of the high registers (bits 7 and 6 are the fourth bits of the two registers).\<close>

definition register_formats :: "(string \<times> string \<times> string \<times> nat) list" where
  "register_formats = [
    (''0100000000xxxxxx'', ''1110000000010cba0cba000000000fed'', ''and'', 144),
    (''0100000001xxxxxx'', ''1110000000110cba0cba000000000fed'', ''eor'', 147),
    (''0100000010xxxxxx'', ''11100001101100000cba0fed00010cba'', ''mov'', 156),
    (''0100000011xxxxxx'', ''11100001101100000cba0fed00110cba'', ''mov'', 156),
    (''0100000100xxxxxx'', ''11100001101100000cba0fed01010cba'', ''mov'', 156),
    (''0100000101xxxxxx'', ''1110000010110cba0cba000000000fed'', ''adc'', 152),
    (''0100000110xxxxxx'', ''1110000011010cba0cba000000000fed'', ''sbc'', 151),
    (''0100000111xxxxxx'', ''11100001101100000cba0fed01110cba'', ''mov'', 156),
    (''0100001000xxxxxx'', ''1110000100010cba0cba000000000fed'', ''tst'', 131),
    (''0100001001xxxxxx'', ''1110001001110fed0cba000000000000'', ''rsb'', 149),
    (''0100001010xxxxxx'', ''1110000101010cba0cba000000000fed'', ''cmp'', 130),
    (''0100001011xxxxxx'', ''1110000101110cba0cba000000000fed'', ''cmn'', 133),
    (''0100001100xxxxxx'', ''1110000110010cba0cba000000000fed'', ''orr'', 154),
    (''0100001101xxxxxx'', ''1110000000010cba00000cba10010fed'', ''mul'', 138),
    (''0100001110xxxxxx'', ''1110000111010cba0cba000000000fed'', ''bic'', 145),
    (''0100001111xxxxxx'', ''1110000111110cba0cba000000000fed'', ''mvn'', 155),
    (''0100010000xxxxxx'', ''111000001000hcbahcba00000000gfed'', ''add'', 148),
    (''0100010100xxxxxx'', ''111000010101hcba000000000000gfed'', ''cmp'', 130),
    (''0100011000xxxxxx'', ''1110000110100000hcba00000000gfed'', ''cpy'', 48),
    (''0100011100xxxxxx'', ''1110000100101111111111110001gfed'', ''bx'', 98),
    (''0100010001xxxxxx'', ''111000001000hcbahcba00000000gfed'', ''add'', 148),
    (''0100010101xxxxxx'', ''111000010101hcba000000000000gfed'', ''cmp'', 130),
    (''0100011001xxxxxx'', ''1110000110100000hcba00000000gfed'', ''cpy'', 48),
    (''0100011101xxxxxx'', ''1110000100101111111111110001gfed'', ''bx'', 98),
    (''0100010010xxxxxx'', ''111000001000hcbahcba00000000gfed'', ''add'', 148),
    (''0100010110xxxxxx'', ''111000010101hcba000000000000gfed'', ''cmp'', 130),
    (''0100011010xxxxxx'', ''1110000110100000hcba00000000gfed'', ''cpy'', 48),
    (''0100011110xxxxxx'', ''1110000100100000000000000011gfed'', ''blx'', 100),
    (''0100010011xxxxxx'', ''111000001000hcbahcba00000000gfed'', ''add'', 148),
    (''0100010111xxxxxx'', ''111000010101hcba000000000000gfed'', ''cmp'', 130),
    (''0100011011xxxxxx'', ''1110000110100000hcba00000000gfed'', ''cpy'', 48),
    (''0100011111xxxxxx'', ''1110000100100000000000000011gfed'', ''blx'', 100)]"

text \<open>Loads and stores of one register.\<close>

definition transfer_formats :: "(string \<times> string \<times> string \<times> nat) list" where
  "transfer_formats = [
    (''01001xxxxxxxxxxx'', ''11100101100111110kji00hgfedcba00'', ''ldr'', 180),
    (''0101000xxxxxxxxx'', ''1110011110000fed0cba000000000ihg'', ''str'', 182),
    (''0101001xxxxxxxxx'', ''1110000110000fed0cba000010110ihg'', ''strh'', 165),
    (''0101010xxxxxxxxx'', ''1110011111000fed0cba000000000ihg'', ''strb'', 179),
    (''0101011xxxxxxxxx'', ''1110000110010fed0cba000011010ihg'', ''ldrsb'', 162),
    (''0101100xxxxxxxxx'', ''1110011110010fed0cba000000000ihg'', ''ldr'', 180),
    (''0101101xxxxxxxxx'', ''1110000110010fed0cba000010110ihg'', ''ldrh'', 164),
    (''0101110xxxxxxxxx'', ''1110011111010fed0cba000000000ihg'', ''ldrb'', 178),
    (''0101111xxxxxxxxx'', ''1110000110010fed0cba000011110ihg'', ''ldrsh'', 159),
    (''01100xxxxxxxxxxx'', ''1110010110000fed0cba00000kjihg00'', ''str'', 182),
    (''01101xxxxxxxxxxx'', ''1110010110010fed0cba00000kjihg00'', ''ldr'', 180),
    (''01110xxxxxxxxxxx'', ''1110010111000fed0cba0000000kjihg'', ''strb'', 179),
    (''01111xxxxxxxxxxx'', ''1110010111010fed0cba0000000kjihg'', ''ldrb'', 178),
    (''10000xxxxxxxxxxx'', ''1110000111000fed0cba00kj1011ihg0'', ''strh'', 165),
    (''10001xxxxxxxxxxx'', ''1110000111010fed0cba00kj1011ihg0'', ''ldrh'', 164),
    (''10010xxxxxxxxxxx'', ''11100101100011010kji00hgfedcba00'', ''str'', 182),
    (''10011xxxxxxxxxxx'', ''11100101100111010kji00hgfedcba00'', ''ldr'', 180)]"

text \<open>Addresses, extensions, byte reversals, state changes, push and pop.\<close>

definition miscellaneous_formats :: "(string \<times> string \<times> string \<times> nat) list" where
  "miscellaneous_formats = [
    (''10100xxxxxxxxxxx'', ''11100010100011110kji1111hgfedcba'', ''add'', 148),
    (''10101xxxxxxxxxxx'', ''11100010100011010kji1111hgfedcba'', ''add'', 148),
    (''101100000xxxxxxx'', ''1110001010001101110111110gfedcba'', ''add'', 148),
    (''101100001xxxxxxx'', ''1110001001001101110111110gfedcba'', ''sub'', 153),
    (''1011001000xxxxxx'', ''11100110101111110cba000001110fed'', ''sxth'', 44),
    (''1011001001xxxxxx'', ''11100110101011110cba000001110fed'', ''sxtb'', 42),
    (''1011001010xxxxxx'', ''11100110111111110cba000001110fed'', ''uxth'', 46),
    (''1011001011xxxxxx'', ''11100110111011110cba000001110fed'', ''uxtb'', 43),
    (''10110110010x0xxx'', ''1111000100000001000000d000000000'', ''setend'', 38),
    (''10110110011x0xxx'', ''1111000100001e000000000cba000000'', ''cps'', 36),
    (''1011101000xxxxxx'', ''11100110101111110cba111100110fed'', ''rev'', 99),
    (''1011101001xxxxxx'', ''11100110101111110cba111110110fed'', ''rev16'', 40),
    (''1011101011xxxxxx'', ''11100110111111110cba111110110fed'', ''revsh'', 101),
    (''10110100xxxxxxxx'', ''111010010010110100000000hgfedcba'', ''stm'', 160),
    (''10110101xxxxxxxx'', ''111010010010110101000000hgfedcba'', ''stm'', 160),
    (''10111100xxxxxxxx'', ''111010001011110100000000hgfedcba'', ''ldm'', 161),
    (''10111101xxxxxxxx'', ''111010001011110110000000hgfedcba'', ''ldm'', 161)]"

text \<open>Transfers of many registers: a load whose list holds its base does not write it back.\<close>

definition multiple_formats :: "(string \<times> string \<times> string \<times> nat) list" where
  "multiple_formats = [
    (''11000xxxxxxxxxxx'', ''1110100010100kji00000000hgfedcba'', ''stm'', 160),
    (''11001000xxxxxxx0'', ''111010001011000000000000hgfedcba'', ''ldm'', 161),
    (''11001000xxxxxxx1'', ''111010001001000000000000hgfedcba'', ''ldm'', 161),
    (''11001001xxxxxx0x'', ''111010001011000100000000hgfedcba'', ''ldm'', 161),
    (''11001001xxxxxx1x'', ''111010001001000100000000hgfedcba'', ''ldm'', 161),
    (''11001010xxxxx0xx'', ''111010001011001000000000hgfedcba'', ''ldm'', 161),
    (''11001010xxxxx1xx'', ''111010001001001000000000hgfedcba'', ''ldm'', 161),
    (''11001011xxxx0xxx'', ''111010001011001100000000hgfedcba'', ''ldm'', 161),
    (''11001011xxxx1xxx'', ''111010001001001100000000hgfedcba'', ''ldm'', 161),
    (''11001100xxx0xxxx'', ''111010001011010000000000hgfedcba'', ''ldm'', 161),
    (''11001100xxx1xxxx'', ''111010001001010000000000hgfedcba'', ''ldm'', 161),
    (''11001101xx0xxxxx'', ''111010001011010100000000hgfedcba'', ''ldm'', 161),
    (''11001101xx1xxxxx'', ''111010001001010100000000hgfedcba'', ''ldm'', 161),
    (''11001110x0xxxxxx'', ''111010001011011000000000hgfedcba'', ''ldm'', 161),
    (''11001110x1xxxxxx'', ''111010001001011000000000hgfedcba'', ''ldm'', 161),
    (''110011110xxxxxxx'', ''111010001011011100000000hgfedcba'', ''ldm'', 161),
    (''110011111xxxxxxx'', ''111010001001011100000000hgfedcba'', ''ldm'', 161)]"

definition thumb_formats :: "(string \<times> string \<times> string \<times> nat) list" where
  "thumb_formats = shift_and_add_formats @ register_formats @ transfer_formats @ miscellaneous_formats @ multiple_formats"

lemmas thumb_format_definitions = thumb_add_sub_def thumb_immediate_def thumb_alu_def thumb_alu_subset_def
  thumb_high_registers_def high_register_number thumb_register_offset_def thumb_immediate_offset_def
  thumb_halfword_offset_def thumb_sp_offset_def thumb_add_pc_sp_def thumb_miscellaneous_def thumb_multiple_def

lemmas format_bits = format_simps bit_positions_def letter_bit_def bit_simps

lemmas format_cases = format_simps thumb_case_def thumb_format_definitions Let_def

lemma shift_and_add_formats_translate: "list_all (\<lambda>(td, ad, n, s). translates td ad) shift_and_add_formats"
  unfolding shift_and_add_formats_def list.pred_inject prod.case
  by (intro conjI list.pred_inject(1); (rule translatesI, simp, simp add: format_cases, simp add: format_bits))

lemma register_formats_translate: "list_all (\<lambda>(td, ad, n, s). translates td ad) register_formats"
  unfolding register_formats_def list.pred_inject prod.case
  by (intro conjI list.pred_inject(1); (rule translatesI, simp, simp add: format_cases, simp add: format_bits))

lemma transfer_formats_translate: "list_all (\<lambda>(td, ad, n, s). translates td ad) transfer_formats"
  unfolding transfer_formats_def list.pred_inject prod.case
  by (intro conjI list.pred_inject(1); (rule translatesI, simp, simp add: format_cases, simp add: format_bits))

lemma miscellaneous_formats_translate: "list_all (\<lambda>(td, ad, n, s). translates td ad) miscellaneous_formats"
  unfolding miscellaneous_formats_def list.pred_inject prod.case
  by (intro conjI list.pred_inject(1); (rule translatesI, simp, simp add: format_cases, simp add: format_bits))

lemma multiple_formats_translate: "list_all (\<lambda>(td, ad, n, s). translates td ad) multiple_formats"
  unfolding multiple_formats_def list.pred_inject prod.case
  by (intro conjI list.pred_inject(1); (rule translatesI, simp, simp add: format_cases, simp add: format_bits))

lemma shift_and_add_formats_decode: "slots_found (map (\<lambda>(td, ad, n, s). (n, ad, s)) shift_and_add_formats)"
  by (simp add: slots_found_def shift_and_add_formats_def diagram_class_def row_steps del: One_nat_def)

lemma shift_and_add_formats_names: "list_all (\<lambda>(td, ad, n, s). length ad = 32 \<and> slot_name s = n) shift_and_add_formats"
  by (simp add: shift_and_add_formats_def slot_names del: One_nat_def)

lemma register_formats_decode: "slots_found (map (\<lambda>(td, ad, n, s). (n, ad, s)) register_formats)"
  by (simp add: slots_found_def register_formats_def diagram_class_def row_steps del: One_nat_def)

lemma register_formats_names: "list_all (\<lambda>(td, ad, n, s). length ad = 32 \<and> slot_name s = n) register_formats"
  by (simp add: register_formats_def slot_names del: One_nat_def)

lemma transfer_formats_decode: "slots_found (map (\<lambda>(td, ad, n, s). (n, ad, s)) transfer_formats)"
  by (simp add: slots_found_def transfer_formats_def diagram_class_def row_steps del: One_nat_def)

lemma transfer_formats_names: "list_all (\<lambda>(td, ad, n, s). length ad = 32 \<and> slot_name s = n) transfer_formats"
  by (simp add: transfer_formats_def slot_names del: One_nat_def)

lemma miscellaneous_formats_decode: "slots_found (map (\<lambda>(td, ad, n, s). (n, ad, s)) miscellaneous_formats)"
  by (simp add: slots_found_def miscellaneous_formats_def diagram_class_def row_steps del: One_nat_def)

lemma miscellaneous_formats_names: "list_all (\<lambda>(td, ad, n, s). length ad = 32 \<and> slot_name s = n) miscellaneous_formats"
  by (simp add: miscellaneous_formats_def slot_names del: One_nat_def)

lemma multiple_formats_decode: "slots_found (map (\<lambda>(td, ad, n, s). (n, ad, s)) multiple_formats)"
  by (simp add: slots_found_def multiple_formats_def diagram_class_def row_steps del: One_nat_def)

lemma multiple_formats_names: "list_all (\<lambda>(td, ad, n, s). length ad = 32 \<and> slot_name s = n) multiple_formats"
  by (simp add: multiple_formats_def slot_names del: One_nat_def)

subsection \<open>The translation as a whole\<close>

lemmas thumb_format_groups = shift_and_add_formats_translate register_formats_translate transfer_formats_translate
  miscellaneous_formats_translate multiple_formats_translate

lemmas thumb_group_slots = shift_and_add_formats_decode [unfolded slots_found_def] register_formats_decode [unfolded slots_found_def]
  transfer_formats_decode [unfolded slots_found_def] miscellaneous_formats_decode [unfolded slots_found_def]
  multiple_formats_decode [unfolded slots_found_def]

lemmas thumb_group_names = shift_and_add_formats_names register_formats_names transfer_formats_names
  miscellaneous_formats_names multiple_formats_names

lemma thumb_formats_row:
  assumes "(td, ad, n, s) \<in> set thumb_formats"
  shows "translates td ad" "row_slot (diagram_class ad) 0 = Some s" "length ad = 32" "slot_name s = n"
proof -
  have "list_all (\<lambda>(td, ad, n, s). translates td ad) thumb_formats"
    unfolding thumb_formats_def list_all_append using thumb_format_groups by blast
  with assms show "translates td ad" by (auto simp: list_all_iff)
  have "list_all (\<lambda>(n, d, s). row_slot (diagram_class d) 0 = Some s) (map (\<lambda>(td, ad, n, s). (n, ad, s)) thumb_formats)"
    unfolding thumb_formats_def map_append list_all_append using thumb_group_slots by blast
  with assms show "row_slot (diagram_class ad) 0 = Some s" by (fastforce simp: list_all_iff)
  have "list_all (\<lambda>(td, ad, n, s). length ad = 32 \<and> slot_name s = n) thumb_formats"
    unfolding thumb_formats_def list_all_append using thumb_group_names by blast
  with assms show "length ad = 32" "slot_name s = n" by (auto simp: list_all_iff)
qed



subsection \<open>What has no ARM equivalent\<close>

text \<open>the status of a Thumb translation.  \<open>BRANCH\<close> is returned for the conditional branches, the
  branch, the two halves of a long branch and an even suffix of a \<open>BLX\<close>; \<open>UNDEFINED\<close> for the
  reserved condition, an odd such suffix and the reserved byte reversal; everything else counts
  as translated, and \<open>DECODED\<close> is never returned.\<close>

theorem thumb_status:
  "fst (thumb_case k t) =
    (if 22 \<le> k \<and> k < 24 \<and> t AND 0x0F00 = 0x0A00 \<and> BITS t 6 7 = 2 then UNDEFINED
     else if 26 \<le> k \<and> k < 28 \<and> t AND 0x0F00 = 0x0E00 then UNDEFINED
     else if k = 29 \<and> bit t 0 then UNDEFINED
     else if 28 \<le> k \<or> 26 \<le> k \<and> t AND 0x0F00 \<noteq> 0x0F00 then BRANCH
     else UNINITIALIZED)"
proof -
  have two: "unat (BITS t 6 7) = 2 \<longleftrightarrow> BITS t 6 7 = 2"
    using word_unat_eq_iff [of "BITS t 6 7" 2] by simp
  have odd: "t AND 1 = 0 \<longleftrightarrow> \<not> bit t 0" using sign_bit_and [of t 0] by auto
  have misc: "thumb_miscellaneous t = None \<longleftrightarrow> t AND 0x0F00 = 0x0A00 \<and> BITS t 6 7 = 2"
    unfolding thumb_miscellaneous_def Let_def two by simp
  show ?thesis unfolding thumb_case_def Let_def odd by (cases "thumb_miscellaneous t"; simp add: misc [symmetric])
qed


end
