(* ===== verification/Spec2Isabelle.thy ===== *)
theory Spec2Isabelle
  imports Handle_Table Memory_Region VM_Manager Resource_Limit Thread_Queue Svc_Invariant Core_Timing IPC_Translation
    Process_Caps Process_TLS Shared_Memory Arm_Addressing Thumb_Encodings
begin

text \<open>
  A verification development for the kernel of the 3DS emulator in \<^verbatim>\<open>src/core/hle/kernel\<close>, its event
  scheduler \<^verbatim>\<open>src/core/core_timing.cpp\<close>, the containers in \<^verbatim>\<open>src/common\<close> they stand on, and of the state,
  the operands and the decoders of its CPU interpreter in \<^verbatim>\<open>src/core/arm\<close>.

  \<^bold>\<open>The program.\<close>  Guest code runs in threads; a supervisor call (\<^verbatim>\<open>svc.cpp\<close>) names kernel objects by handles,
  which the handle table of the process resolves, and waits on, signals, creates or destroys
  them.  Waiting threads sit in the list of every object they wait for; signalling an object
  wakes those whose condition holds, in order of priority, and hands them to the ready queue of
  their core, from which the thread manager picks the next thread.  Timeouts come back through the
  event scheduler.  Memory is cut from three physical regions and mapped into the address
  space of a process by its virtual memory manager; resource limits count what a process uses.
  The guest code itself is run by an interpreter that translates a Thumb halfword to an ARM word,
  looks the word up in a table of bit patterns, and computes shifter operands and addresses from
  its fields over a register file with one bank per privilege mode.

  \<^bold>\<open>Theories.\<close>

    \<^item> \<open>Prelude\<close>: machine integers, the abort convention, shared lemmas.
    \<^item> \<open>Result_Codes\<close>: \<^verbatim>\<open>result.h\<close>, \<^verbatim>\<open>bit_field.h\<close>, \<^verbatim>\<open>errors.h\<close>.  The fields of a result come back out of the packed
      word; the constants have the values given there.
    \<^item> \<open>Handle_Table\<close>: \<^verbatim>\<open>handle_table.cpp\<close>.  The free slots form a list inside the table; created handles are
      fresh, closed handles stay invalid until their slot and generation come round again.
    \<^item> \<open>Memory_Region\<close>: \<^verbatim>\<open>memory.cpp\<close>, the interval sets of free memory.  Allocation and release conserve memory, heap
      allocation takes the highest blocks, freeing twice is caught.
    \<^item> \<open>VM_Manager\<close>: \<^verbatim>\<open>vm_manager.cpp\<close>, \<^verbatim>\<open>memory_ref.h\<close>.  The areas tile the address space under every operation; each
      operation changes exactly the range it names.
    \<^item> \<open>Resource_Limit\<close>: \<^verbatim>\<open>resource_limit.cpp\<close>.  Accounting and limit tables.
    \<^item> \<open>Thread_Queue\<close>: \<^verbatim>\<open>thread_queue_list.h\<close>, with its malloc blocks and links.  A locale states what a priority queue
      promises to the code that pops it; the model interprets it.
    \<^item> \<open>Kernel_Objects\<close>, \<open>Sync_Objects\<close>: the store of threads and wait objects, and the operations of
      \<^verbatim>\<open>wait_object.cpp\<close>, \<^verbatim>\<open>event.cpp\<close>, \<^verbatim>\<open>semaphore.cpp\<close>, \<^verbatim>\<open>mutex.cpp\<close>, \<^verbatim>\<open>timer.cpp\<close> with what each leaves unchanged.
    \<^item> \<open>Wakeup\<close>: the waking loop ends and wakes the right threads; effects of signalling an event and
      releasing a semaphore or a mutex; ownership of mutexes.
    \<^item> \<open>Address_Arbiter\<close>: \<^verbatim>\<open>address_arbiter.cpp\<close>; a signal wakes the best waiters of an address.
    \<^item> \<open>Threads\<close>: \<^verbatim>\<open>thread.cpp\<close>; stopping, timeouts, rescheduling, the time limiter of core 1.
    \<^item> \<open>Svc_Sync\<close>, \<open>Svc_Invariant\<close>: the supervisor calls on these objects in \<^verbatim>\<open>svc.cpp\<close>; every interleaving of calls,
      timeouts, timers and context switches keeps the kernel consistent; a blocked wait ends
      with the signal.
    \<^item> \<open>Core_Timing\<close>: \<^verbatim>\<open>core_timing.cpp\<close>, linked lists and pools in an explicit heap; the operations refine lists,
      and a tick fires exactly the due events in order.
    \<^item> \<open>IPC\<close>, \<open>IPC_Translation\<close>: the descriptors of \<^verbatim>\<open>ipc.h\<close> and the translation of command buffers in \<^verbatim>\<open>ipc.cpp\<close>, on
      top of the handle tables and address spaces of the two processes.  Handles arrive as new handles for
      the same objects; a mapped buffer is placed between guard pages and taken away again by the
      reply; plain commands are copied unchanged; every table and address space stays sound.
    \<^item> \<open>Process_Memory\<close>, \<open>Process_Heap\<close>, \<open>Process_Caps\<close>, \<open>Process_TLS\<close>: \<^verbatim>\<open>process.cpp\<close> over regions, address spaces and
      limits together.  A heap allocation takes the highest free bytes of the region and shows them in order
      at its address; freeing undoes it; a process that ends gives back all it held; thread-local slots are
      handed out once; the capabilities of an executable are read as their format says.
    \<^item> \<open>Shared_Memory\<close>: \<^verbatim>\<open>shared_memory.cpp\<close> and the supervisor call \<open>ControlMemory\<close>.  A block that is created, mapped,
      unmapped and destroyed leaves nothing behind; committing and freeing through the supervisor
      call is a round trip; and concrete runs in which refused or repeated calls do damage.
    \<^item> \<open>Arm_Support\<close>: \<^verbatim>\<open>armsupp.cpp\<close>.  Addition with carry is exact for all operands, the overflow tests agree
      with it, the saturating operations clamp to their range.
    \<^item> \<open>Arm_State\<close>: \<^verbatim>\<open>armstate.cpp\<close> and the memory it reads (\<^verbatim>\<open>compat/core/memory.h\<close>).  A change of privilege mode
      keeps every banked register but, for FIQ, \<open>r8\<close> to \<open>r12\<close>; words written to memory are read back; user mode
      sees and changes only its own coprocessor registers.
    \<^item> \<open>Arm_Operands\<close>, \<open>Arm_Addressing\<close>: the functions at the head of \<^verbatim>\<open>arm_dyncom_interpreter.cpp\<close>.  Every shifter
      operand and its carry, and every address with its write-back, is the one of the architecture's
      pseudocode, which is written down beside it as a reference definition.
    \<^item> \<open>Arm_Decode\<close>, \<open>Arm_Encodings\<close>: the two tables and the search of \<^verbatim>\<open>arm_dyncom_dec.cpp\<close>.  A diagram of the
      architecture manual, given as a string of 32 characters, is compiled to the bits it fixes; the search is run
      once on every diagram, and a lemma carries the result over to all words that fit the diagram.
    \<^item> \<open>Thumb\<close>, \<open>Thumb_Encodings\<close>: \<^verbatim>\<open>arm_dyncom_thumb.cpp\<close>.  Every listed Thumb format is translated, bit by bit, to the
      ARM word of its equivalent, in which the ARM decoder then finds the intended instruction.

  \<^bold>\<open>Conventions.\<close>  An assertion that fails, an end iterator or null pointer that is dereferenced, an index out of
  range and a signed overflow all give \<open>None\<close>; result codes are values.  Shared pointers are
  numbers into a store.  Words have the width of the code; \<open>s32\<close>, \<open>s64\<close> and \<open>int\<close> are \<open>int\<close> with the overflow
  written out.  Calls into code that is not part of the sources (page tables, host memory, ready queue,
  timing system of the kernel, CPU) are recorded in order, and what they answer is a parameter; what
  the memory system promises about FCRAM is the predicate \<open>fcram_ok\<close>.

  \<^bold>\<open>Loops.\<close>  Loops over a list are structural recursion.  Where a loop follows pointers or depends on what
  another component answers it is a \<^theory_text>\<open>partial_function\<close> into \<open>option\<close>, so that a run that never ends is
  \<open>None\<close>; the properties state that the result is \<open>Some\<close>, so they include termination.  The walk over
  the areas of a memory range, the count of the registers of a list and the search for a diagram
  have measures.  No definition uses fuel.

  \<^bold>\<open>Not modelled.\<close>  Sessions and ports, the creation and start of a process, the shared pages and the remaining
  supervisor calls are the next parts of the plan.  Left out for good: serialization and logging; the services, file
  systems, loaders and the frontend, which are mostly input and output.  Of the CPU, the instruction
  handlers of \<open>InterpreterMainLoop\<close>, the operand structures of \<^verbatim>\<open>arm_dyncom_trans.cpp\<close>, the cache of translated
  blocks, the debugger hooks and the floating point unit are not modelled, nor is the second
  interpreter in \<^verbatim>\<open>src/core/arm/interpreter\<close>.  The coprocessor's operations on caches only store a
  value in the code, and do so in the model.
\<close>

end
